(* ===== verification/Prelude.thy ===== *)
theory Prelude imports Complex_Main "HOL-Library.Char_ord" "HOL-Library.List_Lexorder" "HOL-Library.Product_Lexorder" begin

text \<open>
  What every component shares: the exceptions the Python code raises, the dynamically typed
  arguments its guards inspect, stateful code as functions from a state to a result and a new state
  (an exception keeps the state reached so far, as in Python), and the few facts about lists, rows
  and SQLite integers that the component proofs use.
\<close>

section \<open>Exceptions and results\<close>

text \<open>
  One datatype for every exception class the modelled code raises or lets through. The string is a
  short tag of the message.
\<close>

datatype exc =
    ValueError string
  | RuntimeError string
  | TypeError string
  | KeyError string
  | OverflowError
  | IntegrityError string
  | DatabaseError string
  | AtomSetMismatch string
  | CostCeilingExceeded string
  | LostLeaseError string
  | JobIdempotencyError string
  | LimitExceededError string
  | WorkerConfigurationError string
  | ModelMigrationRequired "(string \<times> string) list"
  | HTTPException int string
  | CredentialUnavailableError string
  | HandledJobFailure string bool

type_synonym 'a res = "exc + 'a"

definition succeeded :: "'a res \<Rightarrow> bool" where
  "succeeded r = (case r of Inl _ \<Rightarrow> False | Inr _ \<Rightarrow> True)"

lemma succeeded_simps [simp]: "\<not> succeeded (Inl e)" "succeeded (Inr x)"
  by (simp_all add: succeeded_def)

lemma not_succeeded_iff: "(\<not> succeeded r) = (\<exists>e. r = Inl e)"
  by (cases r) auto

section \<open>Dynamically typed arguments\<close>

text \<open>
  A Python value as far as the guards of the code distinguish it; \<open>bool\<close> is a subclass of
  \<open>int\<close> in Python and is told apart by the guards.
\<close>

datatype pyval = PyNone | PyBool bool | PyInt int | PyFloat rat | PyStr string

definition is_py_int :: "pyval \<Rightarrow> bool" where
  "is_py_int v = (case v of PyInt _ \<Rightarrow> True | _ \<Rightarrow> False)"

section \<open>SQLite integers and rows\<close>

text \<open>The driver binds a Python int only if it fits 64 signed bits; it raises otherwise.\<close>

definition int64 :: "int \<Rightarrow> bool" where
  "int64 i = (- (2 ^ 63) \<le> i \<and> i < 2 ^ 63)"

definition bind_ints :: "int list \<Rightarrow> 'a res \<Rightarrow> 'a res" where
  "bind_ints is r = (if list_all int64 is then r else Inl OverflowError)"

text \<open>The rowid SQLite gives a new row of a table whose rows are never deleted.\<close>

definition next_rowid :: "int list \<Rightarrow> int" where
  "next_rowid ids = foldr max ids 0 + 1"

definition update_where :: "('r \<Rightarrow> bool) \<Rightarrow> ('r \<Rightarrow> 'r) \<Rightarrow> 'r list \<Rightarrow> 'r list" where
  "update_where P f xs = map (\<lambda>r. if P r then f r else r) xs"

lemma bind_ints_Inr: "bind_ints is r = Inr x \<Longrightarrow> r = Inr x"
  by (simp add: bind_ints_def split: if_splits)

lemma foldr_max_ge: "i \<in> set ids \<Longrightarrow> i \<le> foldr max ids (0 :: int)"
  by (induction ids) (auto simp: le_max_iff_disj)

lemma next_rowid_fresh: "next_rowid ids \<notin> set ids"
  using foldr_max_ge unfolding next_rowid_def by (metis add_le_same_cancel1 not_one_le_zero)

lemma next_rowid_pos: "0 < next_rowid ids"
proof -
  have "0 \<le> foldr max ids (0 :: int)" by (induction ids) auto
  then show ?thesis by (simp add: next_rowid_def)
qed

lemma map_update_where:
  "(\<And>r. P r \<Longrightarrow> g (f r) = g r) \<Longrightarrow> map g (update_where P f xs) = map g xs"
  by (induction xs) (auto simp: update_where_def)

lemma set_update_whereD:
  "r \<in> set (update_where P f xs) \<Longrightarrow> \<exists>r0 \<in> set xs. r = (if P r0 then f r0 else r0)"
  by (auto simp: update_where_def)

lemma filter_map_eqI:
  assumes "\<And>x. x \<in> set xs \<Longrightarrow> P (f x) = P x" and "\<And>x. x \<in> set xs \<Longrightarrow> P x \<Longrightarrow> g (f x) = g x"
  shows "map g (filter P (map f xs)) = map g (filter P xs)"
  using assms by (induction xs) auto

text \<open>The row an \<^verbatim>\<open>ORDER BY ... LIMIT 1\<close> returns.\<close>

lemma sort_key_head:
  assumes "sort_key f xs = y # ys"
  shows "y \<in> set xs" and "\<forall>x \<in> set xs. f y \<le> f x"
proof -
  have "set (y # ys) = set xs" using assms by (metis set_sort)
  moreover have "sorted (map f (y # ys))" using assms by (metis sorted_sort_key)
  ultimately show "y \<in> set xs" "\<forall>x \<in> set xs. f y \<le> f x" by auto
qed

lemma find_append: "find P (xs @ ys) = (case find P xs of None \<Rightarrow> find P ys | Some x \<Rightarrow> Some x)"
  by (induction xs) auto

section \<open>Stateful code\<close>

text \<open>
  A method that mutates an object and may raise: it takes the object's state and returns a value or
  an exception together with the state it leaves behind.
\<close>

type_synonym ('s, 'a) act = "'s \<Rightarrow> 'a res \<times> 's"

definition ret :: "'a \<Rightarrow> ('s, 'a) act" where
  "ret x s = (Inr x, s)"

definition raise :: "exc \<Rightarrow> ('s, 'a) act" where
  "raise e s = (Inl e, s)"

definition bindA :: "('s, 'a) act \<Rightarrow> ('a \<Rightarrow> ('s, 'b) act) \<Rightarrow> ('s, 'b) act" where
  "bindA m f s = (case m s of (Inl e, s') \<Rightarrow> (Inl e, s') | (Inr x, s') \<Rightarrow> f x s')"

definition checkA :: "bool \<Rightarrow> exc \<Rightarrow> ('s, unit) act" where
  "checkA ok e = (if ok then ret () else raise e)"

definition liftA :: "'a res \<Rightarrow> ('s, 'a) act" where
  "liftA r s = (r, s)"

fun for_each :: "('x \<Rightarrow> ('s, 'a) act) \<Rightarrow> 'x list \<Rightarrow> ('s, 'a list) act" where
  "for_each f [] = ret []"
| "for_each f (x # xs) = bindA (f x) (\<lambda>y. bindA (for_each f xs) (\<lambda>ys. ret (y # ys)))"

text \<open>
  \<open>keeps P m\<close>: the method keeps the predicate, whether it returns or raises. The closure rules
  below reduce a composite method to its statements.
\<close>

definition keeps :: "('s \<Rightarrow> bool) \<Rightarrow> ('s, 'a) act \<Rightarrow> bool" where
  "keeps P m = (\<forall>s. P s \<longrightarrow> P (snd (m s)))"

named_theorems keeps_intros "closure rules of the preservation predicate"

lemma keepsD: "keeps P m \<Longrightarrow> P s \<Longrightarrow> P (snd (m s))"
  by (simp add: keeps_def)

lemma keepsI: "(\<And>s. P s \<Longrightarrow> P (snd (m s))) \<Longrightarrow> keeps P m"
  by (simp add: keeps_def)

lemma keeps_ret [keeps_intros]: "keeps P (ret x)"
  by (simp add: keeps_def ret_def)

lemma keeps_raise [keeps_intros]: "keeps P (raise e)"
  by (simp add: keeps_def raise_def)

lemma keeps_liftA [keeps_intros]: "keeps P (liftA r)"
  by (simp add: keeps_def liftA_def)

lemma keeps_checkA [keeps_intros]: "keeps P (checkA b e)"
  by (simp add: checkA_def keeps_ret keeps_raise)

lemma keeps_bindA [keeps_intros]:
  assumes "keeps P m" and "\<And>x. keeps P (f x)"
  shows "keeps P (bindA m f)"
proof (rule keepsI)
  fix s assume "P s"
  obtain r s' where m: "m s = (r, s')" by fastforce
  with assms(1) \<open>P s\<close> have "P s'" by (auto dest: keepsD)
  with m assms(2) show "P (snd (bindA m f s))"
    by (cases r) (auto simp: bindA_def dest: keepsD)
qed

lemma keeps_for_each [keeps_intros]:
  assumes "\<And>x. keeps P (f x)"
  shows "keeps P (for_each f xs)"
  using assms by (induction xs) (auto intro!: keeps_intros)

lemma keeps_if [keeps_intros]: "(b \<Longrightarrow> keeps P m) \<Longrightarrow> (\<not> b \<Longrightarrow> keeps P n) \<Longrightarrow> keeps P (if b then m else n)"
  by simp

lemma keeps_case_option [keeps_intros]:
  "(x = None \<Longrightarrow> keeps P m) \<Longrightarrow> (\<And>y. x = Some y \<Longrightarrow> keeps P (f y)) \<Longrightarrow>
   keeps P (case x of None \<Rightarrow> m | Some y \<Rightarrow> f y)"
  by (cases x) auto

lemma keeps_case_list [keeps_intros]:
  "(x = [] \<Longrightarrow> keeps P m) \<Longrightarrow> (\<And>y ys. x = y # ys \<Longrightarrow> keeps P (f y ys)) \<Longrightarrow>
   keeps P (case x of [] \<Rightarrow> m | y # ys \<Rightarrow> f y ys)"
  by (cases x) auto

lemma keeps_case_prod [keeps_intros]:
  "(\<And>y z. x = (y, z) \<Longrightarrow> keeps P (f y z)) \<Longrightarrow> keeps P (case x of (y, z) \<Rightarrow> f y z)"
  by (cases x) auto

lemma keeps_case_sum [keeps_intros]:
  "(\<And>y. x = Inl y \<Longrightarrow> keeps P (f y)) \<Longrightarrow> (\<And>y. x = Inr y \<Longrightarrow> keeps P (g y)) \<Longrightarrow>
   keeps P (case x of Inl y \<Rightarrow> f y | Inr y \<Rightarrow> g y)"
  by (cases x) auto

lemma bindA_Inr:
  "bindA m f s = (Inr y, s'') \<longleftrightarrow> (\<exists>x s'. m s = (Inr x, s') \<and> f x s' = (Inr y, s''))"
  by (auto simp: bindA_def split: prod.splits sum.splits)

lemma bindA_simps [simp]:
  "bindA (ret x) f = f x" "bindA (raise e) f = raise e"
  by (simp_all add: bindA_def ret_def raise_def fun_eq_iff)

section \<open>Transactions as functions of the content\<close>

text \<open>One transaction: an exception rolls the content back.\<close>

definition atomically :: "('s, 'a) act \<Rightarrow> ('s, 'a) act" where
  "atomically m s = (case m s of (Inl e, _) \<Rightarrow> (Inl e, s) | (Inr x, s') \<Rightarrow> (Inr x, s'))"

definition modify :: "('s \<Rightarrow> 's) \<Rightarrow> ('s, unit) act" where
  "modify f s = (Inr (), f s)"

definition asks :: "('s \<Rightarrow> 'a) \<Rightarrow> ('s, 'a) act" where
  "asks f s = (Inr (f s), s)"

lemma atomically_cases:
  "atomically m s = (case fst (m s) of Inl e \<Rightarrow> (Inl e, s) | Inr x \<Rightarrow> (Inr x, snd (m s)))"
  by (auto simp: atomically_def split: prod.splits sum.splits)

lemma atomically_Inr: "(atomically m s = (Inr x, s')) = (m s = (Inr x, s'))"
  by (auto simp: atomically_def split: prod.splits sum.splits)

lemma atomically_Inl: "atomically m s = (Inl e, s') \<Longrightarrow> s' = s"
  by (auto simp: atomically_def split: prod.splits sum.splits)

lemma asks_Inr [simp]: "(asks f s = (Inr x, s')) = (x = f s \<and> s' = s)"
  by (auto simp: asks_def)

lemma modify_Inr [simp]: "(modify f s = (Inr x, s')) = (s' = f s)"
  by (auto simp: modify_def)

lemma raise_Inr [simp]: "(raise e s = (Inr x, s')) = False"
  by (simp add: raise_def)

lemma ret_Inr [simp]: "(ret y s = (Inr x, s')) = (x = y \<and> s' = s)"
  by (auto simp: ret_def)

lemma liftA_Inr [simp]: "(liftA r s = (Inr x, s')) = (r = Inr x \<and> s' = s)"
  by (auto simp: liftA_def)

lemma checkA_Inr [simp]: "(checkA b e s = (Inr x, s')) = (b \<and> s' = s)"
  by (auto simp: checkA_def raise_def ret_def)

text \<open>A method all of whose effects are inside one transaction: it changes nothing when it raises.\<close>

definition all_or_nothing :: "('s, 'a) act \<Rightarrow> bool" where
  "all_or_nothing m = (\<forall>s e s'. m s = (Inl e, s') \<longrightarrow> s' = s)"

named_theorems aon_intros "methods that change nothing when they raise"

lemma aon_atomically [aon_intros]: "all_or_nothing (atomically m)"
  by (auto simp: all_or_nothing_def dest: atomically_Inl)

lemma aon_guard [aon_intros]:
  assumes "\<And>x. all_or_nothing (f x)"
  shows "all_or_nothing (bindA (liftA r) f)"
  using assms by (auto simp: all_or_nothing_def bindA_def liftA_def split: sum.splits)

lemma aon_raise [aon_intros]: "all_or_nothing (raise e)"
  by (simp add: all_or_nothing_def raise_def)

lemma aon_if [aon_intros]: "all_or_nothing m \<Longrightarrow> all_or_nothing n \<Longrightarrow> all_or_nothing (if b then m else n)"
  by simp

lemma aon_modify [aon_intros]: "all_or_nothing (modify f)"
  by (simp add: all_or_nothing_def modify_def)

end
