(* ===== verification/Frontier.thy ===== *)
theory Frontier imports Prelude begin

text \<open>
  The sub-chapter spoiler frontier of \<^verbatim>\<open>backend/app/reader/frontier.py\<close>: chapter bounds built
  from atom lengths, the bookmark as the number of completed chapters, its monotone high-water mark,
  the in-progress chapter and the progress inside it. Positions are Python ints (monotone offsets);
  the progress fraction is a rational number, without binary rounding.
\<close>

section \<open>Bounds\<close>

type_synonym bounds = "(int \<times> int) list"

text \<open>The loop of \<^verbatim>\<open>chapter_bounds\<close>, with its accumulator; it raises at the first empty atom.\<close>

fun bounds_loop :: "int \<Rightarrow> int list \<Rightarrow> bounds res" where
  "bounds_loop acc [] = Inr []"
| "bounds_loop acc (len # lens) =
     (if len \<le> 0 then Inl (ValueError ''zero-length atom'')
      else case bounds_loop (acc + len) lens of
        Inl e \<Rightarrow> Inl e | Inr bs \<Rightarrow> Inr ((acc, acc + len) # bs))"

definition chapter_bounds :: "int list \<Rightarrow> bounds res" where
  "chapter_bounds chapter_lengths = bounds_loop 0 chapter_lengths"

text \<open>The argument \<^verbatim>\<open>revealed_ats\<close> of \<^verbatim>\<open>assert_aligned\<close> is a list of ordinals or, in the legacy form, a count.\<close>

datatype revealed_ats = Count int | Ordinals "int list"

definition assert_aligned :: "bounds \<Rightarrow> revealed_ats \<Rightarrow> unit res" where
  "assert_aligned bounds ra =
     (let n = (case ra of Count k \<Rightarrow> k | Ordinals os \<Rightarrow> int (length os)) in
      if int (length bounds) \<noteq> n then Inl (ValueError ''frontier/DAL atom mismatch'')
      else case ra of
        Count _ \<Rightarrow> Inr ()
      | Ordinals os \<Rightarrow>
          if sort os \<noteq> [1..n] then Inl (ValueError ''ordinals are not contiguous'') else Inr ())"

section \<open>The mapping from a position to the bookmark\<close>

definition cfi_to_bookmark :: "int \<Rightarrow> bounds \<Rightarrow> int" where
  "cfi_to_bookmark position bounds = sum_list (map (\<lambda>(s, e). 1) (filter (\<lambda>(s, e). e \<le> position) bounds))"

definition bookmark_high_water :: "int \<Rightarrow> int \<Rightarrow> bounds \<Rightarrow> int" where
  "bookmark_high_water prev_bookmark position bounds = max prev_bookmark (cfi_to_bookmark position bounds)"

fun current_chapter_from :: "int \<Rightarrow> int \<Rightarrow> bounds \<Rightarrow> int option" where
  "current_chapter_from i position [] = None"
| "current_chapter_from i position ((s, e) # bs) =
     (if s \<le> position \<and> position < e then Some i else current_chapter_from (i + 1) position bs)"

definition current_chapter :: "int \<Rightarrow> bounds \<Rightarrow> int" where
  "current_chapter position bounds =
     (case current_chapter_from 1 position bounds of Some i \<Rightarrow> i | None \<Rightarrow> int (length bounds) + 1)"

definition chapter_progress :: "int \<Rightarrow> bounds \<Rightarrow> rat" where
  "chapter_progress position bounds =
     (let ch = current_chapter position bounds in
      if ch > int (length bounds) then 1
      else case bounds ! nat (ch - 1) of
        (s, e) \<Rightarrow> if e > s then of_int (position - s) / of_int (e - s) else 1)"

definition subchapter_visible :: "int \<Rightarrow> rat \<Rightarrow> int \<Rightarrow> rat \<Rightarrow> bool" where
  "subchapter_visible fact_chapter fact_subpos bm_chapter bm_offset =
     (fact_chapter < bm_chapter \<or> (fact_chapter = bm_chapter \<and> fact_subpos \<le> bm_offset))"

section \<open>Facts about the bounds loop\<close>

lemma bounds_loop_closed:
  "bounds_loop acc lens =
     (if list_all (\<lambda>l. 0 < l) lens
      then Inr (map (\<lambda>i. (acc + sum_list (take i lens), acc + sum_list (take (Suc i) lens))) [0..<length lens])
      else Inl (ValueError ''zero-length atom''))"
proof (induction lens arbitrary: acc)
  case Nil
  then show ?case by simp
next
  case (Cons l ls)
  then show ?case by (simp add: upt_conv_Cons map_Suc_upt [symmetric] add.assoc del: upt_Suc)
qed

lemma bounds_loop_Cons:
  "bounds_loop acc (l # ls) = Inr bs \<longleftrightarrow> 0 < l \<and> (\<exists>bs'. bounds_loop (acc + l) ls = Inr bs' \<and> bs = (acc, acc + l) # bs')"
  by (auto split: sum.splits)

lemma length_bounds_loop: "bounds_loop acc lens = Inr bs \<Longrightarrow> length bs = length lens"
  by (induction lens arbitrary: acc bs) (auto simp: bounds_loop_Cons simp del: bounds_loop.simps(2))

lemma cfi_to_bookmark_simps [simp]:
  "cfi_to_bookmark p [] = 0"
  "cfi_to_bookmark p ((s, e) # bs) = (if e \<le> p then 1 else 0) + cfi_to_bookmark p bs"
  by (simp_all add: cfi_to_bookmark_def)

lemma cfi_to_bookmark_range: "0 \<le> cfi_to_bookmark p bs \<and> cfi_to_bookmark p bs \<le> int (length bs)"
  by (induction bs) auto

lemma cfi_to_bookmark_before: "bounds_loop acc lens = Inr bs \<Longrightarrow> p \<le> acc \<Longrightarrow> cfi_to_bookmark p bs = 0"
  by (induction lens arbitrary: acc bs) (fastforce simp: bounds_loop_Cons simp del: bounds_loop.simps(2))+

lemma completed_iff:
  "bounds_loop acc lens = Inr bs \<Longrightarrow> j < length bs \<Longrightarrow> (int j < cfi_to_bookmark p bs) = (snd (bs ! j) \<le> p)"
proof (induction lens arbitrary: acc bs j)
  case Nil
  then show ?case by simp
next
  case (Cons l ls)
  then obtain bs' where l: "0 < l" and bs': "bounds_loop (acc + l) ls = Inr bs'" and bs: "bs = (acc, acc + l) # bs'"
    by (auto simp: bounds_loop_Cons simp del: bounds_loop.simps(2))
  show ?case
  proof (cases "acc + l \<le> p")
    case True
    then show ?thesis
      using Cons.IH [OF bs'] Cons.prems(2) bs cfi_to_bookmark_range [of p bs'] by (cases j) auto
  next
    case False
    then have "cfi_to_bookmark p bs' = 0" using bs' by (auto intro: cfi_to_bookmark_before)
    then show ?thesis
      using Cons.IH [OF bs'] Cons.prems(2) bs False by (cases j) auto
  qed
qed

lemma current_chapter_from_loop:
  "bounds_loop acc lens = Inr bs \<Longrightarrow> acc \<le> p \<Longrightarrow>
   current_chapter_from i p bs =
     (if cfi_to_bookmark p bs < int (length bs) then Some (i + cfi_to_bookmark p bs) else None)"
proof (induction lens arbitrary: acc bs i)
  case Nil
  then show ?case by simp
next
  case (Cons l ls)
  then obtain bs' where l: "0 < l" and bs': "bounds_loop (acc + l) ls = Inr bs'" and bs: "bs = (acc, acc + l) # bs'"
    by (auto simp: bounds_loop_Cons simp del: bounds_loop.simps(2))
  show ?case
  proof (cases "acc + l \<le> p")
    case True
    then show ?thesis using Cons.IH [OF bs'] bs by auto
  next
    case False
    then have "cfi_to_bookmark p bs' = 0" using bs' by (auto intro: cfi_to_bookmark_before)
    then show ?thesis using bs False Cons.prems(2) by auto
  qed
qed

lemma current_chapter_eq:
  "bounds_loop 0 lens = Inr bs \<Longrightarrow> 0 \<le> p \<Longrightarrow> current_chapter p bs = cfi_to_bookmark p bs + 1"
  using cfi_to_bookmark_range [of p bs] by (auto simp: current_chapter_def current_chapter_from_loop)

lemma current_chapter_from_nth:
  "current_chapter_from i p bs = Some k \<Longrightarrow>
   i \<le> k \<and> k < i + int (length bs) \<and> fst (bs ! nat (k - i)) \<le> p \<and> p < snd (bs ! nat (k - i))"
proof (induction bs arbitrary: i)
  case Nil
  then show ?case by simp
next
  case (Cons b bs)
  obtain s e where b: "b = (s, e)" by fastforce
  show ?case
  proof (cases "s \<le> p \<and> p < e")
    case True
    then show ?thesis using Cons.prems b by auto
  next
    case False
    with Cons.prems b have "current_chapter_from (i + 1) p bs = Some k" by auto
    from Cons.IH [OF this] have *: "i + 1 \<le> k" "k < i + 1 + int (length bs)"
      "fst (bs ! nat (k - (i + 1))) \<le> p" "p < snd (bs ! nat (k - (i + 1)))" by auto
    then have "nat (k - i) = Suc (nat (k - (i + 1)))" by simp
    with * show ?thesis by simp
  qed
qed

lemma current_chapter_bounds:
  assumes "bounds_loop 0 lens = Inr bs" and "0 \<le> p" and "current_chapter p bs \<le> int (length bs)"
  shows "fst (bs ! nat (current_chapter p bs - 1)) \<le> p \<and> p < snd (bs ! nat (current_chapter p bs - 1))"
proof -
  have "cfi_to_bookmark p bs < int (length bs)" using assms current_chapter_eq by fastforce
  then have some: "current_chapter_from 1 p bs = Some (current_chapter p bs)"
    using current_chapter_from_loop [OF assms(1,2), of 1] by (simp add: current_chapter_def)
  show ?thesis using current_chapter_from_nth [OF some] by simp
qed

section \<open>Properties\<close>

text \<open>
  For the bounds of a book, the bookmark of any position is the number of completed
  chapters, in reading order: chapter \<open>j+1\<close> is unlocked exactly when its end lies at or before the
  position, so an unfinished chapter never counts.
\<close>
theorem bookmark_counts_completed_chapters:
  assumes "chapter_bounds lens = Inr bs" and "j < length lens"
  shows "(int j < cfi_to_bookmark p bs) = (sum_list (take (Suc j) lens) \<le> p)"
proof -
  have bs: "bs ! j = (sum_list (take j lens), sum_list (take (Suc j) lens))"
    using assms by (auto simp: chapter_bounds_def bounds_loop_closed split: if_splits)
  have "j < length bs" using assms length_bounds_loop by (simp add: chapter_bounds_def)
  then show ?thesis using assms(1) bs completed_iff by (simp add: chapter_bounds_def)
qed

theorem bookmark_counts_completed_chapters_witness:
  "(1 < cfi_to_bookmark 29 [(0, 10), (10, 30), (30, 60)]) = (sum_list (take 2 [10, 20, 30]) \<le> (29 :: int))"
  using bookmark_counts_completed_chapters [of "[10, 20, 30]" "[(0, 10), (10, 30), (30, 60)]" 1 29]
  by (simp add: chapter_bounds_def)

text \<open>
  At a position of the book the in-progress chapter is the one after the bookmark, and the
  progress inside it is a proper fraction until the last chapter is complete.
\<close>
theorem in_progress_chapter_follows_bookmark:
  assumes "chapter_bounds lens = Inr bs" and "0 \<le> p"
  shows "current_chapter p bs = cfi_to_bookmark p bs + 1 \<and>
    0 \<le> chapter_progress p bs \<and> chapter_progress p bs \<le> 1 \<and>
    (chapter_progress p bs = 1) = (cfi_to_bookmark p bs = int (length bs))"
proof -
  have loop: "bounds_loop 0 lens = Inr bs" using assms(1) by (simp add: chapter_bounds_def)
  have eq: "current_chapter p bs = cfi_to_bookmark p bs + 1" using current_chapter_eq [OF loop assms(2)] .
  show ?thesis
  proof (cases "cfi_to_bookmark p bs = int (length bs)")
    case True
    then show ?thesis by (simp add: eq chapter_progress_def)
  next
    case False
    with eq cfi_to_bookmark_range [of p bs] have le: "current_chapter p bs \<le> int (length bs)" by linarith
    obtain s e where se: "bs ! nat (current_chapter p bs - 1) = (s, e)" by fastforce
    with current_chapter_bounds [OF loop assms(2) le] have "s \<le> p" "p < e" by auto
    then have "chapter_progress p bs = of_int (p - s) / of_int (e - s)" "0 \<le> p - s" "p - s < e - s"
      using le se by (auto simp: chapter_progress_def Let_def)
    moreover have "(0 :: rat) \<le> of_int (p - s)" "of_int (p - s) < (of_int (e - s) :: rat)"
      using \<open>0 \<le> p - s\<close> \<open>p - s < e - s\<close> by (simp_all only: of_int_0_le_iff of_int_less_iff)
    ultimately have "0 \<le> chapter_progress p bs \<and> chapter_progress p bs < 1" by (simp add: divide_less_eq)
    with eq False show ?thesis by auto
  qed
qed

theorem in_progress_chapter_follows_bookmark_witness:
  "current_chapter 15 [(0, 10), (10, 30)] = 2 \<and> chapter_progress 15 [(0, 10), (10, 30)] \<le> 1"
  using in_progress_chapter_follows_bookmark [of "[10, 20]" "[(0, 10), (10, 30)]" 15]
  by (simp add: chapter_bounds_def)

end
