(* ===== verification/Session.thy ===== *)
theory Session imports Prelude begin

text \<open>
  The guarded connection of \<^verbatim>\<open>backend/app/memory/dal.py\<close>: the thread-ownership check, the
  fact-table authorizer, the writer scope \<^verbatim>\<open>_WriterCtx\<close> and the outer transaction
  \<^verbatim>\<open>_TransactionCtx\<close>, over an arbitrary database content. SQLite is modelled by two copies of
  the content: what is durable and what this connection sees; commit and rollback are environment
  steps that may fail.
\<close>

section \<open>Tables and the fact-table set\<close>

text \<open>The base tables of a book database; \<open>T_other\<close> is any table the code does not know.\<close>

datatype tname =
    T_book_meta | T_chapters | T_ingested_chapters | T_raw_chapters | T_chapter_summaries
  | T_entities | T_aliases | T_edges | T_events | T_event_participants | T_themes
  | T_entity_state | T_chunks | T_entity_corrections | T_retrieval_index_chapters
  | T_retrieval_index_batches | T_chunks_vec | T_vector_index_meta | T_vec0_shadow string
  | T_other string

fun FACT_TABLES :: "tname \<Rightarrow> bool" where
  "FACT_TABLES T_vector_index_meta = False"
| "FACT_TABLES (T_vec0_shadow _) = False"
| "FACT_TABLES (T_other _) = False"
| "FACT_TABLES _ = True"

fun VALID_TIME_TABLES :: "tname \<Rightarrow> bool" where
  "VALID_TIME_TABLES T_entities = True"
| "VALID_TIME_TABLES T_edges = True"
| "VALID_TIME_TABLES T_events = True"
| "VALID_TIME_TABLES T_themes = True"
| "VALID_TIME_TABLES T_entity_state = True"
| "VALID_TIME_TABLES _ = False"

section \<open>The connection\<close>

text \<open>
  The fields of \<^verbatim>\<open>MemoryDB\<close> that its methods read and write, the durable and the working
  content, and the environment: the identifier of the calling thread and the outcomes of the coming
  BEGIN, COMMIT and ROLLBACK calls (once the list is used up they succeed).
\<close>

record 'c conn =
  book_id :: string
  committed :: 'c
  working :: 'c
  engaged :: bool
  transaction_active :: bool
  transaction_failed :: bool
  poisoned :: bool
  active_owner :: "int option"
  env_thread :: int
  env_outcomes :: "bool list"

definition outcome :: "'c conn \<Rightarrow> bool \<times> 'c conn" where
  "outcome c = (case env_outcomes c of [] \<Rightarrow> (True, c) | b # bs \<Rightarrow> (b, c\<lparr>env_outcomes := bs\<rparr>))"

definition sql_commit :: "'c conn \<Rightarrow> bool \<times> 'c conn" where
  "sql_commit c = (case outcome c of
     (True, c') \<Rightarrow> (True, c'\<lparr>committed := working c'\<rparr>)
   | (False, c') \<Rightarrow> (False, c'))"

definition assert_in_session :: "('c conn, unit) act" where
  "assert_in_session c =
     (if poisoned c then (Inl (RuntimeError ''connection is poisoned''), c)
      else if active_owner c \<noteq> Some (env_thread c)
           then (Inl (RuntimeError ''used outside its session''), c)
           else (Inr (), c))"

text \<open>
  \<^verbatim>\<open>_rollback_or_poison\<close>: a failed rollback poisons and closes the connection (closing discards
  the uncommitted work) and raises.
\<close>

definition rollback_or_poison :: "('c conn, unit) act" where
  "rollback_or_poison c = (case outcome c of
     (True, c') \<Rightarrow> (Inr (), c'\<lparr>working := committed c'\<rparr>)
   | (False, c') \<Rightarrow> (Inl (DatabaseError ''rollback failed''), c'\<lparr>poisoned := True, working := committed c'\<rparr>))"

text \<open>
  One SQL statement: the authorizer runs when it is prepared and denies the read of a fact table
  while the guard is not engaged; a failing statement has no effect.
\<close>

definition authorizer_denies :: "'c conn \<Rightarrow> tname list \<Rightarrow> bool" where
  "authorizer_denies c reads = (\<not> engaged c \<and> list_ex FACT_TABLES reads)"

definition stmt :: "tname list \<Rightarrow> ('c \<Rightarrow> ('a \<times> 'c) res) \<Rightarrow> ('c conn, 'a) act" where
  "stmt reads f c =
     (if authorizer_denies c reads then (Inl (DatabaseError ''not authorized''), c)
      else case f (working c) of
        Inl e \<Rightarrow> (Inl e, c)
      | Inr (x, m) \<Rightarrow> (Inr x, c\<lparr>working := m\<rparr>))"

definition query :: "tname list \<Rightarrow> ('c \<Rightarrow> 'a) \<Rightarrow> ('c conn, 'a) act" where
  "query reads f = stmt reads (\<lambda>m. Inr (f m, m))"

section \<open>The writer scope\<close>

definition writer_exit :: "'a res \<Rightarrow> 'c conn \<Rightarrow> 'a res \<times> 'c conn" where
  "writer_exit r c =
     (if transaction_active c then
        (r, if succeeded r then c else c\<lparr>transaction_failed := True\<rparr>)
      else case r of
        Inr x \<Rightarrow> (case sql_commit c of
            (True, c') \<Rightarrow> (Inr x, c')
          | (False, c') \<Rightarrow> (case rollback_or_poison c' of
                (Inr _, c'') \<Rightarrow> (Inl (DatabaseError ''commit failed''), c'')
              | (Inl _, c'') \<Rightarrow> (Inl (RuntimeError ''commit and rollback both failed''), c'')))
      | Inl e \<Rightarrow> (case rollback_or_poison c of
            (Inr _, c') \<Rightarrow> (Inl e, c')
          | (Inl e', c') \<Rightarrow> (Inl e', c')))"

definition writer :: "('c conn, 'a) act \<Rightarrow> ('c conn, 'a) act" where
  "writer body = bindA assert_in_session (\<lambda>_ c.
     case body (c\<lparr>engaged := True\<rparr>) of
       (r, c1) \<Rightarrow> (case writer_exit r c1 of (r', c2) \<Rightarrow> (r', c2\<lparr>engaged := engaged c\<rparr>)))"

section \<open>The outer transaction\<close>

definition transaction_enter :: "('c conn, unit) act" where
  "transaction_enter = bindA assert_in_session (\<lambda>_ c.
     if transaction_active c then (Inl (RuntimeError ''nested transactions are not supported''), c)
     else case outcome c of
       (False, c') \<Rightarrow> (Inl (DatabaseError ''begin failed''), c')
     | (True, c') \<Rightarrow> (Inr (), c'\<lparr>transaction_active := True, transaction_failed := False\<rparr>))"

definition transaction_exit :: "'a res \<Rightarrow> 'c conn \<Rightarrow> 'a res \<times> 'c conn" where
  "transaction_exit r c =
     (let nested_failure = transaction_failed c;
          (r1, c1) =
            (if \<not> succeeded r \<or> nested_failure then
               (case rollback_or_poison c of (Inr _, c') \<Rightarrow> (r, c') | (Inl e, c') \<Rightarrow> (Inl e, c'))
             else (case sql_commit c of
                 (True, c') \<Rightarrow> (r, c')
               | (False, c') \<Rightarrow> (case rollback_or_poison c' of
                     (Inr _, c'') \<Rightarrow> (Inl (DatabaseError ''commit failed''), c'')
                   | (Inl _, c'') \<Rightarrow> (Inl (RuntimeError ''commit and rollback both failed''), c''))));
          c2 = c1\<lparr>transaction_active := False, transaction_failed := False\<rparr>
      in if succeeded r1 \<and> nested_failure
         then (Inl (RuntimeError ''transaction rolled back after a nested write failure''), c2)
         else (r1, c2))"

definition transaction :: "('c conn, 'a) act \<Rightarrow> ('c conn, 'a) act" where
  "transaction body = bindA transaction_enter (\<lambda>_ c. case body c of (r, c1) \<Rightarrow> transaction_exit r c1)"

section \<open>Preservation through the scopes\<close>

text \<open>
  \<open>holds Q\<close>: the content predicate holds of the durable and of the working copy. A statement that
  keeps it makes every scope built over it keep it, on every path: commit, rollback, poisoning.
\<close>

definition holds :: "('c \<Rightarrow> bool) \<Rightarrow> 'c conn \<Rightarrow> bool" where
  "holds Q c = (Q (working c) \<and> Q (committed c))"

text \<open>\<open>joined K\<close>: inside an outer transaction that started from the durable content \<open>K\<close>.\<close>

definition joined :: "'c \<Rightarrow> 'c conn \<Rightarrow> bool" where
  "joined K c = (transaction_active c \<and> committed c = K)"

lemma holds_update [simp]:
  "holds Q (c\<lparr>engaged := b\<rparr>) = holds Q c"
  "holds Q (c\<lparr>transaction_active := b\<rparr>) = holds Q c"
  "holds Q (c\<lparr>transaction_failed := b\<rparr>) = holds Q c"
  "holds Q (c\<lparr>transaction_active := b, transaction_failed := b'\<rparr>) = holds Q c"
  by (simp_all add: holds_def)

lemma joined_update [simp]:
  "joined K (c\<lparr>engaged := b\<rparr>) = joined K c"
  "joined K (c\<lparr>transaction_failed := b\<rparr>) = joined K c"
  "joined K (c\<lparr>working := m\<rparr>) = joined K c"
  by (simp_all add: joined_def)

lemma outcome_fields:
  "outcome c = (b, c') \<Longrightarrow>
     committed c' = committed c \<and> working c' = working c \<and> engaged c' = engaged c \<and>
     transaction_active c' = transaction_active c \<and> transaction_failed c' = transaction_failed c \<and>
     poisoned c' = poisoned c \<and> active_owner c' = active_owner c \<and> env_thread c' = env_thread c \<and>
     book_id c' = book_id c"
  by (auto simp: outcome_def split: list.splits)

lemma holds_outcome: "outcome c = (b, c') \<Longrightarrow> holds Q c' = holds Q c"
  by (auto dest: outcome_fields simp: holds_def)

lemma holds_commit: "sql_commit c = (b, c') \<Longrightarrow> holds Q c \<Longrightarrow> holds Q c'"
  by (auto simp: sql_commit_def holds_def split: prod.splits bool.splits dest!: outcome_fields)

lemma holds_rollback: "rollback_or_poison c = (r, c') \<Longrightarrow> holds Q c \<Longrightarrow> holds Q c'"
  by (auto simp: rollback_or_poison_def holds_def split: prod.splits bool.splits dest!: outcome_fields)

lemma holds_writer_exit: "writer_exit r c = (r', c') \<Longrightarrow> holds Q c \<Longrightarrow> holds Q c'"
  by (auto simp: writer_exit_def split: prod.splits bool.splits sum.splits if_splits
        dest: holds_commit holds_rollback)

lemma holds_transaction_exit: "holds Q c \<Longrightarrow> holds Q (snd (transaction_exit r c))"
  by (auto simp: transaction_exit_def Let_def split: prod.splits bool.splits sum.splits if_splits
        dest!: holds_commit holds_rollback)

lemma assert_in_session_state [simp]: "snd (assert_in_session c) = c"
  by (simp add: assert_in_session_def)

lemma keeps_assert_in_session [keeps_intros]: "keeps P assert_in_session"
  by (simp add: keeps_def)

lemma keeps_writer_holds [keeps_intros]:
  assumes "keeps (holds Q) body"
  shows "keeps (holds Q) (writer body)"
  unfolding writer_def
proof (intro keeps_bindA keeps_assert_in_session keepsI)
  fix x :: unit and c assume "holds Q c"
  then have "holds Q (snd (body (c\<lparr>engaged := True\<rparr>)))"
    using assms by (simp add: keepsD)
  then show "holds Q (snd (case body (c\<lparr>engaged := True\<rparr>) of
      (r, c1) \<Rightarrow> case writer_exit r c1 of (r', c2) \<Rightarrow> (r', c2\<lparr>engaged := engaged c\<rparr>)))"
    by (auto split: prod.splits dest: holds_writer_exit)
qed

lemma holds_transaction_enter: "holds Q c \<Longrightarrow> holds Q (snd (transaction_enter c))"
  by (auto simp: transaction_enter_def bindA_def assert_in_session_def holds_outcome
        split: prod.splits bool.splits sum.splits)

lemma keeps_transaction_holds [keeps_intros]:
  assumes "keeps (holds Q) body"
  shows "keeps (holds Q) (transaction body)"
  unfolding transaction_def
proof (intro keeps_bindA keepsI)
  fix c :: "'a conn" assume "holds Q c"
  then show "holds Q (snd (transaction_enter c))" by (rule holds_transaction_enter)
next
  fix x :: unit and c assume "holds Q c"
  with assms have "holds Q (snd (body c))" by (simp add: keepsD)
  then show "holds Q (snd (case body c of (r, c1) \<Rightarrow> transaction_exit r c1))"
    by (auto split: prod.splits dest: holds_transaction_exit [where Q = Q])
qed

lemma keeps_stmt_holds:
  assumes "\<And>m x m'. Q m \<Longrightarrow> f m = Inr (x, m') \<Longrightarrow> Q m'"
  shows "keeps (holds Q) (stmt reads f)"
  using assms by (auto simp: keeps_def stmt_def holds_def split: sum.splits)

lemma keeps_stmt_joined [keeps_intros]: "keeps (joined K) (stmt reads f)"
  by (auto simp: keeps_def stmt_def split: sum.splits)

lemma query_state [simp]: "snd (query reads f c) = c"
  by (simp add: query_def stmt_def)

lemma keeps_query [keeps_intros]: "keeps P (query reads f)"
  by (simp add: keeps_def)

lemma keeps_writer_joined [keeps_intros]:
  assumes "keeps (joined K) body"
  shows "keeps (joined K) (writer body)"
  unfolding writer_def
proof (intro keeps_bindA keeps_assert_in_session keepsI)
  fix x :: unit and c assume "joined K c"
  then have "joined K (snd (body (c\<lparr>engaged := True\<rparr>)))"
    using assms by (simp add: keepsD)
  then show "joined K (snd (case body (c\<lparr>engaged := True\<rparr>) of
      (r, c1) \<Rightarrow> case writer_exit r c1 of (r', c2) \<Rightarrow> (r', c2\<lparr>engaged := engaged c\<rparr>)))"
    by (auto simp: writer_exit_def split: prod.splits) (auto simp: joined_def)
qed

text \<open>\<open>session_is k\<close>: the book, the session owner and the calling thread; no method changes them.\<close>

definition session_is :: "string \<times> int option \<times> int \<Rightarrow> 'c conn \<Rightarrow> bool" where
  "session_is k c = ((book_id c, active_owner c, env_thread c) = k)"

lemma session_is_update [simp]:
  "session_is k (c\<lparr>engaged := b\<rparr>) = session_is k c"
  "session_is k (c\<lparr>transaction_active := b, transaction_failed := b'\<rparr>) = session_is k c"
  "session_is k (c\<lparr>transaction_failed := b'\<rparr>) = session_is k c"
  "session_is k (c\<lparr>transaction_active := b\<rparr>) = session_is k c"
  by (simp_all add: session_is_def)

lemma session_is_commit: "sql_commit c = (b, c') \<Longrightarrow> session_is k c' = session_is k c"
  by (auto simp: sql_commit_def session_is_def split: prod.splits bool.splits dest!: outcome_fields)

lemma session_is_rollback: "rollback_or_poison c = (r, c') \<Longrightarrow> session_is k c' = session_is k c"
  by (auto simp: rollback_or_poison_def session_is_def split: prod.splits bool.splits dest!: outcome_fields)

lemma session_is_writer_exit: "writer_exit r c = (r', c') \<Longrightarrow> session_is k c' = session_is k c"
  by (auto simp: writer_exit_def split: prod.splits bool.splits sum.splits if_splits
        dest!: session_is_commit [where k = k] session_is_rollback [where k = k])

lemma session_is_transaction_exit: "session_is k (snd (transaction_exit r c)) = session_is k c"
  by (auto simp: transaction_exit_def Let_def split: prod.splits bool.splits sum.splits if_splits
        dest!: session_is_commit [where k = k] session_is_rollback [where k = k])

lemma keeps_stmt_session [keeps_intros]: "keeps (session_is k) (stmt reads f)"
  by (auto simp: keeps_def stmt_def session_is_def split: sum.splits)

lemma keeps_writer_session [keeps_intros]:
  assumes "keeps (session_is k) body"
  shows "keeps (session_is k) (writer body)"
  unfolding writer_def
proof (intro keeps_bindA keeps_assert_in_session keepsI)
  fix x :: unit and c :: "'a conn" assume "session_is k c"
  then have "session_is k (snd (body (c\<lparr>engaged := True\<rparr>)))"
    using assms by (simp add: keepsD)
  then show "session_is k (snd (case body (c\<lparr>engaged := True\<rparr>) of
      (r, c1) \<Rightarrow> case writer_exit r c1 of (r', c2) \<Rightarrow> (r', c2\<lparr>engaged := engaged c\<rparr>)))"
    by (auto split: prod.splits simp: session_is_writer_exit)
qed

lemma keeps_transaction_session [keeps_intros]:
  assumes "keeps (session_is k) body"
  shows "keeps (session_is k) (transaction body)"
  unfolding transaction_def
proof (intro keeps_bindA keepsI)
  fix c :: "'a conn" assume "session_is k c"
  then show "session_is k (snd (transaction_enter c))"
    by (auto simp: transaction_enter_def bindA_def assert_in_session_def session_is_def
        split: prod.splits bool.splits sum.splits dest!: outcome_fields)
next
  fix x :: unit and c :: "'a conn" assume "session_is k c"
  with assms have "session_is k (snd (body c))" by (simp add: keepsD)
  then show "session_is k (snd (case body c of (r, c1) \<Rightarrow> transaction_exit r c1))"
    by (auto split: prod.splits simp: session_is_transaction_exit)
qed

section \<open>What the scopes guarantee\<close>

lemma writer_restores_guard: "engaged (snd (writer body c)) = engaged c"
  by (auto simp: writer_def bindA_def assert_in_session_def split: prod.splits sum.splits)

lemma writer_off_session:
  "poisoned c \<or> active_owner c \<noteq> Some (env_thread c) \<Longrightarrow> \<exists>e. writer body c = (Inl e, c)"
  by (auto simp: writer_def bindA_def assert_in_session_def)

lemma rollback_contents:
  "rollback_or_poison c = (r, c') \<Longrightarrow> committed c' = committed c \<and> working c' = committed c"
  by (auto simp: rollback_or_poison_def split: prod.splits bool.splits dest!: outcome_fields)

lemma commit_contents:
  "sql_commit c = (b, c') \<Longrightarrow>
     committed c' = (if b then working c else committed c) \<and> working c' = working c"
  by (auto simp: sql_commit_def split: prod.splits bool.splits dest!: outcome_fields)

lemma transaction_enter_Inr:
  "transaction_enter c = (Inr u, c') \<Longrightarrow>
     transaction_active c' \<and> \<not> transaction_failed c' \<and> committed c' = committed c \<and> working c' = working c"
  by (auto simp: transaction_enter_def bindA_def assert_in_session_def
        split: prod.splits bool.splits if_splits dest!: outcome_fields)

lemma transaction_enter_Inl:
  "transaction_enter c = (Inl e, c') \<Longrightarrow> committed c' = committed c \<and> working c' = working c"
  by (auto simp: transaction_enter_def bindA_def assert_in_session_def
        split: prod.splits bool.splits if_splits dest!: outcome_fields)

lemma transaction_exit_Inl:
  "transaction_exit r c = (Inl e, c') \<Longrightarrow> committed c' = committed c \<and> working c' = committed c"
  by (auto simp: transaction_exit_def Let_def split: prod.splits bool.splits sum.splits if_splits
        dest!: rollback_contents commit_contents)

lemma transaction_exit_Inr:
  "transaction_exit r c = (Inr x, c') \<Longrightarrow>
     r = Inr x \<and> \<not> transaction_failed c \<and> committed c' = working c \<and> working c' = working c \<and>
     \<not> transaction_active c'"
  by (auto simp: transaction_exit_def Let_def split: prod.splits bool.splits sum.splits if_splits
        dest!: commit_contents)

text \<open>
  The contract between an outer transaction and its body: the body reaches the database only
  through nested writer scopes, which join the transaction and never commit on their own.
\<close>

locale scoped_body =
  fixes body :: "('c conn, 'a) act"
  assumes joins: "keeps (joined K) body"
begin

lemma failure_leaves_durable:
  assumes "transaction body c = (Inl e, c')" and "working c = committed c"
  shows "committed c' = committed c \<and> working c' = committed c"
proof (cases "transaction_enter c")
  case (Pair r c0)
  show ?thesis
  proof (cases r)
    case (Inl e')
    with Pair assms show ?thesis
      using transaction_enter_Inl by (fastforce simp: transaction_def bindA_def)
  next
    case (Inr u)
    obtain r1 c1 where body: "body c0 = (r1, c1)" by fastforce
    have "joined (committed c) c0" using Pair Inr transaction_enter_Inr by (auto simp: joined_def)
    then have "joined (committed c) c1" using joins body by (metis keepsD snd_conv)
    moreover have "transaction_exit r1 c1 = (Inl e, c')"
      using assms(1) Pair Inr body by (simp add: transaction_def bindA_def)
    ultimately show ?thesis by (auto simp: joined_def dest!: transaction_exit_Inl)
  qed
qed

lemma success_is_body:
  assumes "transaction body c = (Inr x, c')"
  shows "\<exists>c0 c1. transaction_enter c = (Inr (), c0) \<and> body c0 = (Inr x, c1) \<and>
    \<not> transaction_failed c1 \<and> committed c' = working c1 \<and> working c' = working c1 \<and> \<not> transaction_active c'"
proof -
  from assms obtain c0 where c0: "transaction_enter c = (Inr (), c0)"
    and exit: "(case body c0 of (r, c1) \<Rightarrow> transaction_exit r c1) = (Inr x, c')"
    by (auto simp: transaction_def bindA_Inr)
  obtain r1 c1 where body: "body c0 = (r1, c1)" by fastforce
  with exit have "transaction_exit r1 c1 = (Inr x, c')" by simp
  from transaction_exit_Inr [OF this] body c0 show ?thesis by auto
qed

end

section \<open>What a returning scope has done\<close>

lemma writer_Inr:
  assumes "writer body c = (Inr x, c')"
  shows "\<exists>c1. body (c\<lparr>engaged := True\<rparr>) = (Inr x, c1) \<and> working c' = working c1 \<and>
    assert_in_session c = (Inr (), c)"
proof -
  from assms have s: "assert_in_session c = (Inr (), c)"
    by (auto simp: writer_def bindA_def assert_in_session_def split: if_splits)
  obtain r c1 where body: "body (c\<lparr>engaged := True\<rparr>) = (r, c1)" by fastforce
  obtain r' c2 where exit: "writer_exit r c1 = (r', c2)" by fastforce
  from assms s body exit have "r' = Inr x" "c' = c2\<lparr>engaged := engaged c\<rparr>"
    by (simp_all add: writer_def bindA_def)
  moreover from exit have "r' = Inr x \<Longrightarrow> r = Inr x \<and> working c2 = working c1"
    by (auto simp: writer_exit_def split: if_splits sum.splits prod.splits bool.splits
        dest: commit_contents rollback_contents)
  ultimately show ?thesis using body s by simp
qed

lemma writer_query_Inr:
  "writer (query reads f) c = (Inr x, c') \<Longrightarrow> x = f (working c) \<and> working c' = working c"
  by (drule writer_Inr) (auto simp: query_def stmt_def authorizer_denies_def)

lemma stmt_Inr:
  "stmt reads f c = (Inr x, c') \<longleftrightarrow> \<not> authorizer_denies c reads \<and>
     (\<exists>m. f (working c) = Inr (x, m) \<and> c' = c\<lparr>working := m\<rparr>)"
  by (auto simp: stmt_def split: sum.splits prod.splits)

lemma query_Inr: "query reads f c = (Inr x, c') \<Longrightarrow> x = f (working c) \<and> c' = c"
  by (auto simp: query_def stmt_Inr)

lemma book_of_session: "session_is (book, w, t) c \<Longrightarrow> book_id c = book"
  by (simp add: session_is_def)

lemma book_kept:
  assumes "\<And>k. keeps (session_is k) m" and "m c = (r, c')"
  shows "book_id c' = book_id c"
proof -
  have "session_is (book_id c, active_owner c, env_thread c) c'"
    using keepsD [OF assms(1), of "(book_id c, active_owner c, env_thread c)" c] assms(2)
    by (simp add: session_is_def)
  then show ?thesis by (rule book_of_session)
qed

lemma writer_query_sound:
  assumes "assert_in_session c = (Inr (), c)" and "env_outcomes c = []"
  shows "fst (writer (query reads f) c) = Inr (f (working c))"
proof -
  have "query reads f (c\<lparr>engaged := True\<rparr>) = (Inr (f (working c)), c\<lparr>engaged := True\<rparr>)"
    by (simp add: query_def stmt_def authorizer_denies_def)
  moreover have "sql_commit (c\<lparr>engaged := True\<rparr>) = (True, c\<lparr>engaged := True, committed := working c\<rparr>)"
    using assms(2) by (simp add: sql_commit_def outcome_def)
  ultimately show ?thesis
    using assms(1) by (simp add: writer_def bindA_def writer_exit_def)
qed

end
