(* ===== verification/MemSchema.thy ===== *)
theory MemSchema imports Session begin

text \<open>
  The per-book database \<^verbatim>\<open>memory.db\<close> (\<^verbatim>\<open>backend/app/memory/schema/memory.sql\<close> with the
  migrations of \<^verbatim>\<open>migrations.py\<close>): one record per table, the tables as row lists in rowid order,
  and the schema's constraints as an executable check that every insert and update runs through.
\<close>

section \<open>Rows\<close>

text \<open>
  JSON columns hold the value itself; \<^verbatim>\<open>json.dumps\<close> followed by \<^verbatim>\<open>json.loads\<close> is the identity on
  the values the code stores.
\<close>

datatype json = JNull | JBool bool | JInt int | JNum rat | JStr string | JList "json list"
  | JObj "(string \<times> json) list"

text \<open>
  The columns the spoiler filter reads. \<open>f_invalid\<close> is the story-time end; it stays \<open>None\<close> in the
  tables that have no \<^verbatim>\<open>invalid_at\<close> column.
\<close>

record fact =
  f_book :: string
  f_rev :: int
  f_invalid :: "int option"
  f_retracted :: "string option"

text \<open>The audit columns of the fact tables.\<close>

record stamp =
  s_schema :: int
  s_extractor :: string
  s_recorded :: string

record chapter_row = fact +
  ch_key :: string
  ch_href :: string
  ch_fragment :: string
  ch_title :: string
  ch_part :: string
  ch_kind :: string
  ch_hash :: string
  ch_stamp :: stamp

record raw_row = fact +
  raw_key :: string
  raw_text :: string
  raw_chars :: int
  raw_hash :: string
  raw_recorded :: string

record summary_row = fact +
  sm_id :: int
  sm_key :: string
  sm_kind :: string
  sm_text :: string
  sm_stamp :: stamp

record entity_row = fact +
  en_id :: int
  en_name :: string
  en_type :: string
  en_stamp :: stamp

record alias_row = fact +
  al_id :: int
  al_entity :: int
  al_surface :: string
  al_recorded :: string

record edge_row = fact +
  ed_id :: int
  ed_src :: int
  ed_dst :: int
  ed_rel :: string
  ed_label :: "string option"
  ed_stamp :: stamp

record event_row = fact +
  ev_id :: int
  ev_order :: int
  ev_summary :: string
  ev_kind :: string
  ev_stamp :: stamp

record participant_row =
  pt_event :: int
  pt_entity :: int
  pt_book :: string
  pt_role :: "string option"
  pt_rev :: int

record theme_row = fact +
  th_id :: int
  th_name :: string
  th_desc :: string
  th_stamp :: stamp

record state_row = fact +
  st_id :: int
  st_entity :: int
  st_status :: json
  st_stamp :: stamp

record chunk_row = fact +
  ck_id :: int
  ck_key :: string
  ck_text :: string
  ck_vec :: json
  ck_model :: "string option"
  ck_dim :: int
  ck_version :: "string option"
  ck_hash :: "string option"
  ck_start :: "int option"
  ck_end :: "int option"

record correction_row = fact +
  cr_id :: int
  cr_kind :: string
  cr_sources :: "int list"
  cr_targets :: "int list"
  cr_assignments :: json
  cr_reason :: "string option"
  cr_recorded :: string

record index_chapter_row = fact +
  ri_key :: string
  ri_version :: string
  ri_hash :: string
  ri_model :: string
  ri_dim :: int
  ri_count :: int
  ri_completed :: string

record index_batch_row = fact +
  rb_key :: string
  rb_version :: string
  rb_hash :: string
  rb_batch :: string
  rb_model :: string
  rb_dim :: int
  rb_passages :: json
  rb_recorded :: string

record ingested_row =
  ig_key :: string
  ig_book :: string
  ig_hash :: string
  ig_pending :: bool
  ig_model :: "string option"
  ig_in :: "int option"
  ig_out :: "int option"
  ig_usd :: "rat option"
  ig_completed :: string

record meta_row =
  mt_book :: string
  mt_extractor :: "string option"
  mt_synth :: "string option"
  mt_embed :: "string option"
  mt_dim :: "int option"
  mt_canary :: "json option"
  mt_type :: string
  mt_confidence :: rat
  mt_detector :: string
  mt_signals :: "string list"
  mt_language :: string

record mem =
  meta :: "meta_row list"
  chapters :: "chapter_row list"
  raw_chapters :: "raw_row list"
  summaries :: "summary_row list"
  entities :: "entity_row list"
  aliases :: "alias_row list"
  edges :: "edge_row list"
  events :: "event_row list"
  participants :: "participant_row list"
  themes :: "theme_row list"
  states :: "state_row list"
  chunks :: "chunk_row list"
  corrections :: "correction_row list"
  ingested :: "ingested_row list"
  index_chapters :: "index_chapter_row list"
  index_batches :: "index_batch_row list"

section \<open>The schema's constraints\<close>

text \<open>\<^verbatim>\<open>CHECK (invalid_at IS NULL OR invalid_at > revealed_at)\<close>, and the two triggers on entities.\<close>

definition valid_span :: "'a fact_scheme \<Rightarrow> bool" where
  "valid_span r = (case f_invalid r of None \<Rightarrow> True | Some i \<Rightarrow> f_rev r < i)"

definition chapter_exists :: "mem \<Rightarrow> string \<Rightarrow> bool" where
  "chapter_exists m k = list_ex (\<lambda>c. ch_key c = k) (chapters m)"

definition entity_exists :: "mem \<Rightarrow> int \<Rightarrow> bool" where
  "entity_exists m i = list_ex (\<lambda>e. en_id e = i) (entities m)"

definition event_exists :: "mem \<Rightarrow> int \<Rightarrow> bool" where
  "event_exists m i = list_ex (\<lambda>e. ev_id e = i) (events m)"

text \<open>The primary keys, the partial unique indexes, the foreign keys and the checks.\<close>

definition chapters_ok :: "mem \<Rightarrow> bool" where
  "chapters_ok m = (distinct (map ch_key (chapters m)) \<and>
     distinct (map (\<lambda>c. (f_book c, f_rev c)) (filter (\<lambda>c. f_retracted c = None) (chapters m))))"

definition raw_ok :: "mem \<Rightarrow> bool" where
  "raw_ok m = (distinct (map raw_key (raw_chapters m)) \<and>
     list_all (\<lambda>r. chapter_exists m (raw_key r)) (raw_chapters m))"

definition summaries_ok :: "mem \<Rightarrow> bool" where
  "summaries_ok m = (distinct (map sm_id (summaries m)) \<and>
     distinct (map (\<lambda>s. (f_book s, sm_key s, sm_kind s)) (filter (\<lambda>s. f_retracted s = None) (summaries m))) \<and>
     list_all (\<lambda>s. chapter_exists m (sm_key s)) (summaries m))"

definition entities_ok :: "mem \<Rightarrow> bool" where
  "entities_ok m = (distinct (map en_id (entities m)) \<and> list_all valid_span (entities m))"

definition aliases_ok :: "mem \<Rightarrow> bool" where
  "aliases_ok m = (distinct (map al_id (aliases m)) \<and>
     list_all (\<lambda>a. entity_exists m (al_entity a)) (aliases m))"

definition edges_ok :: "mem \<Rightarrow> bool" where
  "edges_ok m = (distinct (map ed_id (edges m)) \<and>
     list_all (\<lambda>e. valid_span e \<and> entity_exists m (ed_src e) \<and> entity_exists m (ed_dst e)) (edges m))"

definition events_ok :: "mem \<Rightarrow> bool" where
  "events_ok m = (distinct (map ev_id (events m)) \<and> list_all valid_span (events m))"

definition participants_ok :: "mem \<Rightarrow> bool" where
  "participants_ok m = (distinct (map (\<lambda>p. (pt_event p, pt_entity p)) (participants m)) \<and>
     list_all (\<lambda>p. event_exists m (pt_event p) \<and> entity_exists m (pt_entity p)) (participants m))"

definition themes_ok :: "mem \<Rightarrow> bool" where
  "themes_ok m = (distinct (map th_id (themes m)) \<and> list_all valid_span (themes m))"

definition states_ok :: "mem \<Rightarrow> bool" where
  "states_ok m = (distinct (map st_id (states m)) \<and>
     list_all (\<lambda>s. valid_span s \<and> entity_exists m (st_entity s)) (states m))"

definition chunks_ok :: "mem \<Rightarrow> bool" where
  "chunks_ok m = (distinct (map ck_id (chunks m)) \<and>
     list_all (\<lambda>c. chapter_exists m (ck_key c)) (chunks m))"

definition corrections_ok :: "mem \<Rightarrow> bool" where
  "corrections_ok m = distinct (map cr_id (corrections m))"

definition ingested_ok :: "mem \<Rightarrow> bool" where
  "ingested_ok m = (distinct (map ig_key (ingested m)) \<and>
     list_all (\<lambda>i. chapter_exists m (ig_key i)) (ingested m))"

definition index_ok :: "mem \<Rightarrow> bool" where
  "index_ok m = (distinct (map ri_key (index_chapters m)) \<and>
     distinct (map (\<lambda>b. (rb_key b, rb_version b, rb_hash b, rb_batch b)) (index_batches m)) \<and>
     list_all (\<lambda>i. chapter_exists m (ri_key i)) (index_chapters m) \<and>
     list_all (\<lambda>b. chapter_exists m (rb_key b)) (index_batches m))"

definition schema_ok :: "mem \<Rightarrow> bool" where
  "schema_ok m = (chapters_ok m \<and> raw_ok m \<and> summaries_ok m \<and> entities_ok m \<and> aliases_ok m \<and>
     edges_ok m \<and> events_ok m \<and> participants_ok m \<and> themes_ok m \<and> states_ok m \<and> chunks_ok m \<and>
     corrections_ok m \<and> ingested_ok m \<and> index_ok m)"

text \<open>
  A statement that would break a constraint raises \<^verbatim>\<open>sqlite3.IntegrityError\<close> and changes nothing. The
  check of the whole content is what SQLite's per-row checks amount to, given that the content
  satisfied the constraints before.
\<close>

definition constrained :: "('a \<times> mem) \<Rightarrow> ('a \<times> mem) res" where
  "constrained xm = (if schema_ok (snd xm) then Inr xm else Inl (IntegrityError ''constraint failed''))"

text \<open>A database without rows, and a connection on a content in the session of a thread.\<close>

definition empty_mem :: mem where
  "empty_mem = \<lparr>meta = [], chapters = [], raw_chapters = [], summaries = [], entities = [], aliases = [],
     edges = [], events = [], participants = [], themes = [], states = [], chunks = [], corrections = [],
     ingested = [], index_chapters = [], index_batches = []\<rparr>"

definition conn_on :: "string \<Rightarrow> int \<Rightarrow> 'c \<Rightarrow> 'c conn" where
  "conn_on book thread m = \<lparr>book_id = book, committed = m, working = m, engaged = False,
     transaction_active = False, transaction_failed = False, poisoned = False,
     active_owner = Some thread, env_thread = thread, env_outcomes = []\<rparr>"

definition plain_stamp :: stamp where
  "plain_stamp = \<lparr>s_schema = 7, s_extractor = [], s_recorded = []\<rparr>"

definition entity_at :: "string \<Rightarrow> int \<Rightarrow> string \<Rightarrow> int \<Rightarrow> entity_row" where
  "entity_at book i name revealed = \<lparr>f_book = book, f_rev = revealed, f_invalid = None, f_retracted = None,
     en_id = i, en_name = name, en_type = ''character'', en_stamp = plain_stamp\<rparr>"

definition edge_at :: "string \<Rightarrow> int \<Rightarrow> int \<Rightarrow> int \<Rightarrow> int \<Rightarrow> int option \<Rightarrow> edge_row" where
  "edge_at book i src dst revealed invalid = \<lparr>f_book = book, f_rev = revealed, f_invalid = invalid,
     f_retracted = None, ed_id = i, ed_src = src, ed_dst = dst, ed_rel = ''knows'', ed_label = None,
     ed_stamp = plain_stamp\<rparr>"

end
