(* ===== verification/MemViews.thy ===== *)
theory MemViews imports MemSchema begin

text \<open>
  The reads of \<^verbatim>\<open>backend/app/memory/dal.py\<close>: the funnel \<^verbatim>\<open>MemoryDB._select\<close> with its bookmark guard
  and its unconditional spoiler clause, and every structured read of \<^verbatim>\<open>BookmarkView\<close>.
\<close>

section \<open>The funnel\<close>

text \<open>The clause \<^verbatim>\<open>_select\<close> appends to every read.\<close>

definition spoiler_clause :: "tname \<Rightarrow> string \<Rightarrow> int \<Rightarrow> 'a fact_scheme \<Rightarrow> bool" where
  "spoiler_clause t book bookmark r =
     (f_book r = book \<and> f_rev r \<le> bookmark \<and> f_retracted r = None \<and>
      (if VALID_TIME_TABLES t
       then (case f_invalid r of None \<Rightarrow> True | Some i \<Rightarrow> bookmark < i) else True))"

text \<open>The guard flag is set around the execution and restored afterwards.\<close>

definition engage :: "('c conn, 'a) act \<Rightarrow> ('c conn, 'a) act" where
  "engage m c = (case m (c\<lparr>engaged := True\<rparr>) of (r, c') \<Rightarrow> (r, c'\<lparr>engaged := engaged c\<rparr>))"

text \<open>
  \<^verbatim>\<open>_select(table, cols, bookmark, where_extra, params, order)\<close>: \<open>params\<close> are the integers bound
  beside the bookmark, \<open>extra\<close> is the extra condition with its subqueries, \<open>key\<close> the ORDER BY key.
\<close>

definition select ::
  "tname \<Rightarrow> (mem \<Rightarrow> 'r fact_scheme list) \<Rightarrow> ('r fact_scheme \<Rightarrow> 'o) \<Rightarrow> pyval \<Rightarrow> int list \<Rightarrow>
   (string \<Rightarrow> mem \<Rightarrow> 'r fact_scheme \<Rightarrow> bool) \<Rightarrow> ('r fact_scheme \<Rightarrow> 'k::linorder) \<Rightarrow> (mem conn, 'o list) act" where
  "select t rows cols bookmark params extra key = bindA assert_in_session (\<lambda>_ c.
     (case bookmark of
        PyInt b \<Rightarrow>
          if \<not> FACT_TABLES t then (Inl (ValueError ''not a fact table''), c)
          else if \<not> list_all int64 (b # params) then (Inl OverflowError, c)
          else engage (query [t] (\<lambda>m. map cols (sort_key key
                 (filter (\<lambda>r. spoiler_clause t (book_id c) b r \<and> extra (book_id c) m r) (rows m))))) c
      | _ \<Rightarrow> (Inl (ValueError ''an int bookmark ordinal is required''), c)))"

text \<open>\<^verbatim>\<open>MemoryDB.view\<close> and \<^verbatim>\<open>BookmarkView.__init__\<close>: the bookmark is an int and not a bool.\<close>

definition view :: "pyval \<Rightarrow> int res" where
  "view bookmark = (case bookmark of PyInt b \<Rightarrow> Inr b
     | _ \<Rightarrow> Inl (ValueError ''bookmark must be an int chapter ordinal''))"

section \<open>Referential closure\<close>

definition vis_entity :: "int \<Rightarrow> string \<Rightarrow> mem \<Rightarrow> int \<Rightarrow> bool" where
  "vis_entity b book m i =
     list_ex (\<lambda>e. en_id e = i \<and> spoiler_clause T_entities book b e) (entities m)"

definition vis_event :: "int \<Rightarrow> string \<Rightarrow> mem \<Rightarrow> int \<Rightarrow> bool" where
  "vis_event b book m i =
     list_ex (\<lambda>e. ev_id e = i \<and> spoiler_clause T_events book b e) (events m)"

definition live_chapter :: "int \<Rightarrow> string \<Rightarrow> mem \<Rightarrow> string \<Rightarrow> bool" where
  "live_chapter b book m k =
     list_ex (\<lambda>c. ch_key c = k \<and> spoiler_clause T_chapters book b c) (chapters m)"

text \<open>The participant links a view may follow: of this book, revealed by the bookmark.\<close>

definition linked :: "int \<Rightarrow> string \<Rightarrow> mem \<Rightarrow> int \<Rightarrow> int \<Rightarrow> bool" where
  "linked b book m ev en =
     list_ex (\<lambda>p. pt_event p = ev \<and> pt_entity p = en \<and> pt_book p = book \<and> pt_rev p \<le> b) (participants m)"

section \<open>The structured reads\<close>

definition chapters_of :: "int \<Rightarrow> (mem conn, (string \<times> int \<times> string \<times> string) list) act" where
  "chapters_of b = select T_chapters chapters (\<lambda>r. (ch_key r, f_rev r, ch_title r, ch_part r)) (PyInt b) []
     (\<lambda>_ _ _. True) (\<lambda>r. (f_rev r, ch_key r))"

definition entities_of_type :: "int \<Rightarrow> string \<Rightarrow> (mem conn, (int \<times> string \<times> string \<times> int) list) act" where
  "entities_of_type b ty = select T_entities entities (\<lambda>r. (en_id r, en_name r, en_type r, f_rev r)) (PyInt b) []
     (\<lambda>_ _ r. en_type r = ty) (\<lambda>r. (f_rev r, en_id r))"

definition characters :: "int \<Rightarrow> (mem conn, (int \<times> string \<times> string \<times> int) list) act" where
  "characters b = select T_entities entities (\<lambda>r. (en_id r, en_name r, en_type r, f_rev r)) (PyInt b) []
     (\<lambda>_ _ r. en_type r = ''character'') (\<lambda>r. (f_rev r, en_id r))"

definition aliases_of :: "int \<Rightarrow> int \<Rightarrow> (mem conn, (string \<times> int) list) act" where
  "aliases_of b entity = select T_aliases aliases (\<lambda>r. (al_surface r, f_rev r)) (PyInt b) [entity]
     (\<lambda>book m r. al_entity r = entity \<and> vis_entity b book m (al_entity r)) (\<lambda>r. (f_rev r, al_id r))"

text \<open>The stored end of a relationship is future knowledge: the column is always NULL.\<close>

definition relationships ::
  "int \<Rightarrow> (mem conn, (int \<times> int \<times> int \<times> string \<times> string option \<times> int \<times> int option) list) act" where
  "relationships b = select T_edges edges
     (\<lambda>r. (ed_id r, ed_src r, ed_dst r, ed_rel r, ed_label r, f_rev r, None)) (PyInt b) []
     (\<lambda>book m r. vis_entity b book m (ed_src r) \<and> vis_entity b book m (ed_dst r)) (\<lambda>r. (f_rev r, ed_id r))"

definition timeline :: "int \<Rightarrow> (mem conn, (int \<times> int \<times> int \<times> string \<times> string) list) act" where
  "timeline b = select T_events events (\<lambda>r. (ev_id r, f_rev r, ev_order r, ev_summary r, ev_kind r)) (PyInt b) []
     (\<lambda>_ _ _. True) (\<lambda>r. (f_rev r, ev_order r, ev_id r))"

definition participants_of :: "int \<Rightarrow> int \<Rightarrow> (mem conn, (int \<times> string \<times> string) list) act" where
  "participants_of b event = select T_entities entities (\<lambda>r. (en_id r, en_name r, en_type r)) (PyInt b) [event]
     (\<lambda>book m r. vis_event b book m event \<and> linked b book m event (en_id r)) (\<lambda>r. (f_rev r, en_id r))"

definition events_for :: "int \<Rightarrow> int \<Rightarrow> (mem conn, (int \<times> int \<times> string) list) act" where
  "events_for b entity = select T_events events (\<lambda>r. (ev_id r, f_rev r, ev_summary r)) (PyInt b) [entity]
     (\<lambda>book m r. vis_entity b book m entity \<and> linked b book m (ev_id r) entity) (\<lambda>r. (f_rev r, ev_id r))"

definition themes_of :: "int \<Rightarrow> (mem conn, (int \<times> string \<times> string \<times> int) list) act" where
  "themes_of b = select T_themes themes (\<lambda>r. (th_id r, th_name r, th_desc r, f_rev r)) (PyInt b) []
     (\<lambda>_ _ _. True) (\<lambda>r. (f_rev r, th_id r))"

definition current_state :: "int \<Rightarrow> int \<Rightarrow> (mem conn, (int \<times> int \<times> json) option) act" where
  "current_state b entity = bindA
     (select T_entity_state states (\<lambda>r. (st_id r, f_rev r, st_status r)) (PyInt b) [entity]
        (\<lambda>book m r. st_entity r = entity \<and> vis_entity b book m (st_entity r)) (\<lambda>r. (- f_rev r, - st_id r)))
     (\<lambda>rows. ret (case rows of [] \<Rightarrow> None | r # _ \<Rightarrow> Some r))"

definition chapter_summaries :: "int \<Rightarrow> (mem conn, (string \<times> int \<times> string) list) act" where
  "chapter_summaries b = select T_chapter_summaries summaries (\<lambda>r. (sm_key r, f_rev r, sm_text r)) (PyInt b) []
     (\<lambda>book m r. sm_kind r = ''chapter'' \<and> live_chapter b book m (sm_key r)) (\<lambda>r. (f_rev r, sm_id r))"

definition raw_text_of :: "int \<Rightarrow> string \<Rightarrow> (mem conn, string option) act" where
  "raw_text_of b key = bindA
     (select T_raw_chapters raw_chapters raw_text (PyInt b) []
        (\<lambda>book m r. raw_key r = key \<and> live_chapter b book m (raw_key r)) (\<lambda>_. 0 :: int))
     (\<lambda>rows. ret (case rows of [] \<Rightarrow> None | r # _ \<Rightarrow> Some r))"

record bio_card =
  bio_name :: string
  bio_type :: string
  bio_first_seen :: int
  bio_aliases :: "string list"
  bio_state :: "json option"
  bio_events :: "int list"

definition bio :: "int \<Rightarrow> int \<Rightarrow> (mem conn, bio_card option) act" where
  "bio b entity = bindA
     (select T_entities entities (\<lambda>r. (en_name r, en_type r, f_rev r)) (PyInt b) [entity]
        (\<lambda>_ _ r. en_id r = entity) (\<lambda>_. 0 :: int))
     (\<lambda>ent. case ent of [] \<Rightarrow> ret None
        | (name, ty, seen) # _ \<Rightarrow>
            bindA (current_state b entity) (\<lambda>st.
            bindA (aliases_of b entity) (\<lambda>al.
            bindA (events_for b entity) (\<lambda>evs.
              ret (Some \<lparr>bio_name = name, bio_type = ty, bio_first_seen = seen, bio_aliases = map fst al,
                bio_state = map_option (\<lambda>(_, _, status). status) st, bio_events = map fst evs\<rparr>)))))"

record catch_up =
  cu_as_of :: int
  cu_recap :: "string option"
  cu_cast :: nat
  cu_threads :: nat

definition catch_me_up :: "int \<Rightarrow> (mem conn, catch_up) act" where
  "catch_me_up b = bindA
     (select T_chapter_summaries summaries (\<lambda>r. (sm_text r, f_rev r)) (PyInt b) []
        (\<lambda>_ _ r. sm_kind r = ''rolling-recap'') (\<lambda>r. (- f_rev r, - sm_id r)))
     (\<lambda>recap. bindA (characters b) (\<lambda>cast. bindA (relationships b) (\<lambda>threads.
        ret \<lparr>cu_as_of = b, cu_recap = (case recap of [] \<Rightarrow> None | r # _ \<Rightarrow> Some (fst r)),
          cu_cast = length cast, cu_threads = length threads\<rparr>)))"

text \<open>Every structured read of a view, as one request type and one answer type.\<close>

datatype request =
    Q_chapters | Q_characters | Q_entities_of_type string | Q_aliases_of int | Q_relationships
  | Q_timeline | Q_participants_of int | Q_events_for int | Q_themes | Q_current_state int
  | Q_chapter_summaries | Q_raw_text string | Q_bio int | Q_catch_me_up

datatype answer =
    A_chapters "(string \<times> int \<times> string \<times> string) list"
  | A_entities "(int \<times> string \<times> string \<times> int) list"
  | A_aliases "(string \<times> int) list"
  | A_relationships "(int \<times> int \<times> int \<times> string \<times> string option \<times> int \<times> int option) list"
  | A_timeline "(int \<times> int \<times> int \<times> string \<times> string) list"
  | A_participants "(int \<times> string \<times> string) list"
  | A_events "(int \<times> int \<times> string) list"
  | A_state "(int \<times> int \<times> json) option"
  | A_summaries "(string \<times> int \<times> string) list"
  | A_raw "string option"
  | A_bio "bio_card option"
  | A_catch_up catch_up

definition answerA :: "('a \<Rightarrow> answer) \<Rightarrow> (mem conn, 'a) act \<Rightarrow> (mem conn, answer) act" where
  "answerA f m = bindA m (\<lambda>x. ret (f x))"

fun read_at :: "int \<Rightarrow> request \<Rightarrow> (mem conn, answer) act" where
  "read_at b Q_chapters = answerA A_chapters (chapters_of b)"
| "read_at b Q_characters = answerA A_entities (characters b)"
| "read_at b (Q_entities_of_type ty) = answerA A_entities (entities_of_type b ty)"
| "read_at b (Q_aliases_of i) = answerA A_aliases (aliases_of b i)"
| "read_at b Q_relationships = answerA A_relationships (relationships b)"
| "read_at b Q_timeline = answerA A_timeline (timeline b)"
| "read_at b (Q_participants_of i) = answerA A_participants (participants_of b i)"
| "read_at b (Q_events_for i) = answerA A_events (events_for b i)"
| "read_at b Q_themes = answerA A_entities (themes_of b)"
| "read_at b (Q_current_state i) = answerA A_state (current_state b i)"
| "read_at b Q_chapter_summaries = answerA A_summaries (chapter_summaries b)"
| "read_at b (Q_raw_text k) = answerA A_raw (raw_text_of b k)"
| "read_at b (Q_bio i) = answerA A_bio (bio b i)"
| "read_at b Q_catch_me_up = answerA A_catch_up (catch_me_up b)"

definition view_read :: "pyval \<Rightarrow> request \<Rightarrow> (mem conn, answer) act" where
  "view_read bookmark q = bindA (liftA (view bookmark)) (\<lambda>b. read_at b q)"

end
