(* ===== verification/Horizon.thy ===== *)
theory Horizon imports MemViews begin

text \<open>
  The abstract specification of the spoiler filter: the memory cut at a bookmark, without any row
  revealed later, without any story-time end that lies in the future and without the bookkeeping of
  pins, ingestion and indexing. Every structured read at
  that bookmark is a function of the cut memory alone, so nothing later than the bookmark can show.
\<close>

section \<open>The memory cut at a bookmark\<close>

definition veil :: "int \<Rightarrow> 'a fact_scheme \<Rightarrow> 'a fact_scheme" where
  "veil b r = r\<lparr>f_invalid := (case f_invalid r of None \<Rightarrow> None | Some i \<Rightarrow> if b < i then None else Some i)\<rparr>"

definition cut_at :: "int \<Rightarrow> 'a fact_scheme list \<Rightarrow> 'a fact_scheme list" where
  "cut_at b rows = map (veil b) (filter (\<lambda>r. f_rev r \<le> b) rows)"

definition cut_links :: "int \<Rightarrow> participant_row list \<Rightarrow> participant_row list" where
  "cut_links b ps = filter (\<lambda>p. pt_rev p \<le> b) ps"

definition horizon :: "int \<Rightarrow> mem \<Rightarrow> mem" where
  "horizon b m = m\<lparr>chapters := cut_at b (chapters m), raw_chapters := cut_at b (raw_chapters m),
     summaries := cut_at b (summaries m), entities := cut_at b (entities m), aliases := cut_at b (aliases m),
     edges := cut_at b (edges m), events := cut_at b (events m), participants := cut_links b (participants m),
     themes := cut_at b (themes m), states := cut_at b (states m), chunks := cut_at b (chunks m),
     corrections := cut_at b (corrections m), meta := [],
     ingested := [], index_chapters := [], index_batches := []\<rparr>"

section \<open>Facts about the cut\<close>

lemma mask_fact [simp]:
  "f_book (veil b r) = f_book r" "f_rev (veil b r) = f_rev r" "f_retracted (veil b r) = f_retracted r"
  by (simp_all add: veil_def)

lemma mask_columns [simp]:
  "ch_key (veil b r1) = ch_key r1" "ch_title (veil b r1) = ch_title r1" "ch_part (veil b r1) = ch_part r1"
  "raw_key (veil b r2) = raw_key r2" "raw_text (veil b r2) = raw_text r2"
  "sm_id (veil b r3) = sm_id r3" "sm_key (veil b r3) = sm_key r3" "sm_kind (veil b r3) = sm_kind r3"
  "sm_text (veil b r3) = sm_text r3"
  "en_id (veil b r4) = en_id r4" "en_name (veil b r4) = en_name r4" "en_type (veil b r4) = en_type r4"
  "al_id (veil b r5) = al_id r5" "al_entity (veil b r5) = al_entity r5" "al_surface (veil b r5) = al_surface r5"
  "ed_id (veil b r6) = ed_id r6" "ed_src (veil b r6) = ed_src r6" "ed_dst (veil b r6) = ed_dst r6"
  "ed_rel (veil b r6) = ed_rel r6" "ed_label (veil b r6) = ed_label r6"
  "ev_id (veil b r7) = ev_id r7" "ev_order (veil b r7) = ev_order r7" "ev_summary (veil b r7) = ev_summary r7"
  "ev_kind (veil b r7) = ev_kind r7"
  "th_id (veil b r8) = th_id r8" "th_name (veil b r8) = th_name r8" "th_desc (veil b r8) = th_desc r8"
  "st_id (veil b r9) = st_id r9" "st_entity (veil b r9) = st_entity r9" "st_status (veil b r9) = st_status r9"
  by (simp_all add: veil_def)

lemma mask_chunk_columns [simp]:
  "ck_id (veil b r) = ck_id r" "ck_key (veil b r) = ck_key r" "ck_text (veil b r) = ck_text r"
  "ck_vec (veil b r) = ck_vec r" "ck_model (veil b r) = ck_model r" "ck_dim (veil b r) = ck_dim r"
  by (simp_all add: veil_def)

lemma spoiler_clause_mask [simp]: "spoiler_clause t book b (veil b r) = spoiler_clause t book b r"
  by (auto simp: spoiler_clause_def veil_def split: option.splits)

lemma spoiler_clause_rev: "spoiler_clause t book b r \<Longrightarrow> f_rev r \<le> b"
  by (simp add: spoiler_clause_def)

lemma mask_mask: "b \<le> b' \<Longrightarrow> veil b (veil b' r) = veil b r"
  by (auto simp: veil_def split: option.splits)

lemma cut_append [simp]: "cut_at b (xs @ ys) = cut_at b xs @ cut_at b ys"
  by (simp add: cut_at_def)

lemma cut_Nil [simp]: "cut_at b [] = []"
  by (simp add: cut_at_def)

lemma cut_Cons: "cut_at b (r # rs) = (if f_rev r \<le> b then veil b r # cut_at b rs else cut_at b rs)"
  by (simp add: cut_at_def)

lemma cut_cut: "b \<le> b' \<Longrightarrow> cut_at b (cut_at b' rows) = cut_at b rows"
  by (induction rows) (auto simp: cut_Cons mask_mask)

lemma cut_links_append [simp]: "cut_links b (xs @ ys) = cut_links b xs @ cut_links b ys"
  by (simp add: cut_links_def)

lemma cut_links_Nil [simp]: "cut_links b [] = []"
  by (simp add: cut_links_def)

lemma cut_links_Cons: "cut_links b (p # ps) = (if pt_rev p \<le> b then p # cut_links b ps else cut_links b ps)"
  by (simp add: cut_links_def)

lemma cut_future: "list_all (\<lambda>r. b < f_rev r) rows \<Longrightarrow> cut_at b rows = []"
  by (induction rows) (auto simp: cut_Cons)

lemma cut_links_future: "list_all (\<lambda>p. b < pt_rev p) ps \<Longrightarrow> cut_links b ps = []"
  by (induction ps) (auto simp: cut_links_Cons)

lemma cut_links_cut_links: "b \<le> b' \<Longrightarrow> cut_links b (cut_links b' ps) = cut_links b ps"
  by (induction ps) (auto simp: cut_links_Cons)

lemma cut_update_where:
  assumes "\<And>r. P r \<Longrightarrow> f_rev (f r) = f_rev r" and "\<And>r. P r \<Longrightarrow> f_rev r \<le> b \<Longrightarrow> veil b (f r) = veil b r"
  shows "cut_at b (update_where P f rows) = cut_at b rows"
  using assms by (induction rows) (auto simp: cut_Cons update_where_def)

lemma horizon_horizon: "b \<le> b' \<Longrightarrow> horizon b (horizon b' m) = horizon b m"
  by (simp add: horizon_def cut_cut cut_links_cut_links)

lemma horizon_antimono: "horizon b' m = horizon b' m' \<Longrightarrow> b \<le> b' \<Longrightarrow> horizon b m = horizon b m'"
  by (metis horizon_horizon)

lemma list_ex_cut:
  assumes "\<And>r. P r \<Longrightarrow> f_rev r \<le> b" and "\<And>r. P (veil b r) = P r"
  shows "list_ex P (cut_at b rows) = list_ex P rows"
  using assms by (induction rows) (auto simp: cut_Cons)

lemma vis_entity_horizon [simp]: "vis_entity b book (horizon b m) i = vis_entity b book m i"
  unfolding vis_entity_def horizon_def by (simp, rule list_ex_cut) (auto dest: spoiler_clause_rev)

lemma vis_event_horizon [simp]: "vis_event b book (horizon b m) i = vis_event b book m i"
  unfolding vis_event_def horizon_def by (simp, rule list_ex_cut) (auto dest: spoiler_clause_rev)

lemma live_chapter_horizon [simp]: "live_chapter b book (horizon b m) k = live_chapter b book m k"
  unfolding live_chapter_def horizon_def by (simp, rule list_ex_cut) (auto dest: spoiler_clause_rev)

lemma linked_horizon [simp]: "linked b book (horizon b m) ev en = linked b book m ev en"
  unfolding linked_def horizon_def cut_links_def by (auto simp: list_ex_iff)

section \<open>Sorting and projecting a cut table\<close>

lemma insort_key_map: "insort_key k (f x) (map f xs) = map f (insort_key (\<lambda>y. k (f y)) x xs)"
  by (induction xs) auto

lemma sort_key_map: "sort_key k (map f xs) = map f (sort_key (\<lambda>y. k (f y)) xs)"
  by (induction xs) (simp_all add: insort_key_map)

lemma filter_cut_eq:
  assumes "\<And>r. P r \<Longrightarrow> f_rev r \<le> b" and "\<And>r. Q (veil b r) = P r"
  shows "filter Q (cut_at b rows) = map (veil b) (filter P rows)"
  using assms by (induction rows) (auto simp: cut_Cons)

text \<open>Two connections that a reader at bookmark \<open>b\<close> cannot tell apart.\<close>

definition low :: "int \<Rightarrow> mem conn \<Rightarrow> mem conn \<Rightarrow> bool" where
  "low b c c' = (book_id c = book_id c' \<and> poisoned c = poisoned c' \<and> active_owner c = active_owner c' \<and>
     env_thread c = env_thread c' \<and> horizon b (working c) = horizon b (working c'))"

text \<open>
  What a view relies on in a table it reads: it is guarded, and cutting the memory cuts it.
\<close>

locale guarded_table =
  fixes t :: tname
    and rows :: "mem \<Rightarrow> 'r fact_scheme list"
  assumes guarded: "FACT_TABLES t"
    and rows_horizon: "rows (horizon b m) = cut_at b (rows m)"
begin

lemma select_horizon:
  assumes "\<And>r. cols (veil b r) = cols r" and "\<And>r. key (veil b r) = key r"
    and "\<And>book m r. extra book (horizon b m) (veil b r) = extra book m r"
    and low: "low b c c'"
  shows "fst (select t rows cols (PyInt b) params extra key c) =
         fst (select t rows cols (PyInt b) params extra key c')"
proof -
  define F where "F book m = map cols (sort_key key (filter (\<lambda>r. spoiler_clause t book b r \<and> extra book m r) (rows m)))"
    for book m
  have F: "F book (horizon b m) = F book m" for book m
  proof -
    have "filter (\<lambda>r. spoiler_clause t book b r \<and> extra book (horizon b m) r) (cut_at b (rows m)) =
          map (veil b) (filter (\<lambda>r. spoiler_clause t book b r \<and> extra book m r) (rows m))"
      by (rule filter_cut_eq) (auto simp: assms(3) dest: spoiler_clause_rev)
    then show ?thesis by (simp add: F_def rows_horizon sort_key_map assms(1,2) o_def)
  qed
  have "F (book_id c) (working c) = F (book_id c') (working c')"
    using low F [of "book_id c" "working c"] F [of "book_id c'" "working c'"] by (simp add: low_def)
  then show ?thesis
    using low by (auto simp: select_def bindA_def assert_in_session_def engage_def query_def stmt_def
        authorizer_denies_def low_def F_def split: prod.splits sum.splits)
qed

lemma select_guard_kept: "snd (select t rows cols bookmark params extra key c) = c"
  by (auto simp: select_def bindA_def assert_in_session_def engage_def query_def stmt_def
      authorizer_denies_def split: prod.splits sum.splits pyval.splits)

lemma select_returns:
  "(select t rows cols bookmark params extra key c = (Inr xs, c')) =
     (c' = c \<and> fst (assert_in_session c) = Inr () \<and> (\<exists>b. bookmark = PyInt b \<and> list_all int64 (b # params) \<and>
        xs = map cols (sort_key key (filter (\<lambda>r. spoiler_clause t (book_id c) b r \<and>
               extra (book_id c) (working c) r) (rows (working c))))))"
  using guarded
  by (cases bookmark) (auto simp: select_def bindA_def assert_in_session_def engage_def query_def stmt_def
      authorizer_denies_def)

lemma select_sound:
  assumes "select t rows cols (PyInt b) params extra key c = (Inr xs, c')" and "x \<in> set xs"
  shows "\<exists>r \<in> set (rows (working c)). x = cols r \<and> spoiler_clause t (book_id c) b r \<and> extra (book_id c) (working c) r"
  using assms by (auto simp: select_returns)

lemma select_complete:
  assumes "select t rows cols (PyInt b) params extra key c = (Inr xs, c')"
    and "r \<in> set (rows (working c))" and "spoiler_clause t (book_id c) b r" and "extra (book_id c) (working c) r"
  shows "cols r \<in> set xs"
  using assms by (auto simp: select_returns)

end

text \<open>The tables of the book database that the views read provide the contract.\<close>

interpretation tab_chapters: guarded_table T_chapters chapters
  by unfold_locales (simp_all add: horizon_def)

interpretation tab_raw: guarded_table T_raw_chapters raw_chapters
  by unfold_locales (simp_all add: horizon_def)

interpretation tab_summaries: guarded_table T_chapter_summaries summaries
  by unfold_locales (simp_all add: horizon_def)

interpretation tab_entities: guarded_table T_entities entities
  by unfold_locales (simp_all add: horizon_def)

interpretation tab_aliases: guarded_table T_aliases aliases
  by unfold_locales (simp_all add: horizon_def)

interpretation tab_edges: guarded_table T_edges edges
  by unfold_locales (simp_all add: horizon_def)

interpretation tab_events: guarded_table T_events events
  by unfold_locales (simp_all add: horizon_def)

interpretation tab_themes: guarded_table T_themes themes
  by unfold_locales (simp_all add: horizon_def)

interpretation tab_states: guarded_table T_entity_state states
  by unfold_locales (simp_all add: horizon_def)

interpretation tab_chunks: guarded_table T_chunks chunks
  by unfold_locales (simp_all add: horizon_def)

lemmas select_horizons =
  tab_chapters.select_horizon tab_raw.select_horizon tab_summaries.select_horizon
  tab_entities.select_horizon tab_aliases.select_horizon tab_edges.select_horizon
  tab_events.select_horizon tab_themes.select_horizon tab_states.select_horizon
  tab_chunks.select_horizon

lemmas select_guards =
  tab_chapters.select_guard_kept tab_raw.select_guard_kept tab_summaries.select_guard_kept
  tab_entities.select_guard_kept tab_aliases.select_guard_kept tab_edges.select_guard_kept
  tab_events.select_guard_kept tab_themes.select_guard_kept tab_states.select_guard_kept
  tab_chunks.select_guard_kept

section \<open>Every structured read sees only the cut memory\<close>

text \<open>
  A read-only method whose answer is the same over connections that agree up to the bookmark; both
  halves are closed under sequencing.
\<close>

definition blind :: "int \<Rightarrow> (mem conn, 'a) act \<Rightarrow> bool" where
  "blind b m = (\<forall>c c'. snd (m c) = c \<and> (low b c c' \<longrightarrow> fst (m c) = fst (m c')))"

named_theorems blind_intros "reads that see only the cut memory"

lemma blindD: "blind b m \<Longrightarrow> snd (m c) = c"
  "blind b m \<Longrightarrow> low b c c' \<Longrightarrow> fst (m c) = fst (m c')"
  by (simp_all add: blind_def)

lemma blindI:
  "(\<And>c. snd (m c) = c) \<Longrightarrow> (\<And>c c'. low b c c' \<Longrightarrow> fst (m c) = fst (m c')) \<Longrightarrow> blind b m"
  by (simp add: blind_def)

lemma blind_ret [blind_intros]: "blind b (ret x)"
  by (simp add: blind_def ret_def)

lemma blind_raise [blind_intros]: "blind b (raise e)"
  by (simp add: blind_def raise_def)

lemma blind_bindA [blind_intros]:
  assumes m: "blind b m" and f: "\<And>x. blind b (f x)"
  shows "blind b (bindA m f)"
proof (rule blindI)
  have eval: "bindA m f c0 = ((case fst (m c0) of Inl e \<Rightarrow> Inl e | Inr x \<Rightarrow> fst (f x c0)), c0)" for c0
  proof -
    have m0: "m c0 = (fst (m c0), c0)" and f0: "f x c0 = (fst (f x c0), c0)" for x
      using blindD(1) [OF m, of c0] blindD(1) [OF f, of x c0] by (simp_all add: prod_eq_iff)
    show ?thesis
    proof (cases "fst (m c0)")
      case (Inl e)
      with m0 show ?thesis by (simp add: bindA_def)
    next
      case (Inr x)
      with m0 f0 [of x] show ?thesis by (simp add: bindA_def)
    qed
  qed
  show "snd (bindA m f c) = c" for c by (simp add: eval)
  show "fst (bindA m f c) = fst (bindA m f c')" if "low b c c'" for c c'
    unfolding eval using blindD(2) [OF m that] blindD(2) [OF f that] by (simp cong: sum.case_cong)
qed

lemma blind_case_list [blind_intros]:
  "blind b m \<Longrightarrow> (\<And>y ys. blind b (f y ys)) \<Longrightarrow> blind b (case xs of [] \<Rightarrow> m | y # ys \<Rightarrow> f y ys)"
  by (cases xs) auto

lemma blind_case_prod [blind_intros]:
  "(\<And>y z. blind b (f y z)) \<Longrightarrow> blind b (case x of (y, z) \<Rightarrow> f y z)"
  by (cases x) auto

lemma blind_liftA [blind_intros]: "blind b (liftA r)"
  by (simp add: blind_def liftA_def)

lemma blind_answerA [blind_intros]: "blind b m \<Longrightarrow> blind b (answerA f m)"
  unfolding answerA_def by (intro blind_intros)

lemma blind_views [blind_intros]:
  "blind b (chapters_of b)" "blind b (characters b)" "blind b (entities_of_type b ty)"
  "blind b (aliases_of b i)" "blind b (relationships b)" "blind b (timeline b)"
  "blind b (participants_of b i)" "blind b (events_for b i)" "blind b (themes_of b)"
  "blind b (chapter_summaries b)"
  unfolding chapters_of_def characters_def entities_of_type_def aliases_of_def relationships_def
    timeline_def participants_of_def events_for_def themes_of_def chapter_summaries_def
  by (rule blindI; simp add: select_guards select_horizons)+

lemma blind_selects:
  "blind b (select T_entity_state states (\<lambda>r. (st_id r, f_rev r, st_status r)) (PyInt b) [i]
     (\<lambda>book m r. st_entity r = i \<and> vis_entity b book m (st_entity r)) (\<lambda>r. (- f_rev r, - st_id r)))"
  "blind b (select T_raw_chapters raw_chapters raw_text (PyInt b) []
     (\<lambda>book m r. raw_key r = k \<and> live_chapter b book m (raw_key r)) (\<lambda>_. 0 :: int))"
  "blind b (select T_entities entities (\<lambda>r. (en_name r, en_type r, f_rev r)) (PyInt b) [i]
     (\<lambda>_ _ r. en_id r = i) (\<lambda>_. 0 :: int))"
  "blind b (select T_chapter_summaries summaries (\<lambda>r. (sm_text r, f_rev r)) (PyInt b) []
     (\<lambda>_ _ r. sm_kind r = ''rolling-recap'') (\<lambda>r. (- f_rev r, - sm_id r)))"
  by (rule blindI; simp add: select_guards select_horizons)+

lemma blind_current_state [blind_intros]: "blind b (current_state b i)"
  unfolding current_state_def by (intro blind_intros blind_selects)

lemma blind_raw_text [blind_intros]: "blind b (raw_text_of b k)"
  unfolding raw_text_of_def by (intro blind_intros blind_selects)

lemma blind_bio [blind_intros]: "blind b (bio b i)"
  unfolding bio_def by (intro blind_intros blind_selects)

lemma blind_catch_me_up [blind_intros]: "blind b (catch_me_up b)"
  unfolding catch_me_up_def by (intro blind_intros blind_selects)

lemma blind_read_at: "blind b (read_at b q)"
  by (cases q) (simp_all add: blind_intros)

lemma bindA_ret_Inr:
  "(bindA m (\<lambda>x. ret (f x)) c = (Inr y, c')) = (\<exists>x. m c = (Inr x, c') \<and> y = f x)"
  by (auto simp: bindA_Inr ret_def)

lemma view_read_PyInt: "view_read (PyInt b) q = read_at b q"
  by (simp add: view_read_def view_def bindA_def liftA_def fun_eq_iff)

lemma entities_of_type_returns:
  "(entities_of_type b ty c = (Inr xs, c')) =
     (c' = c \<and> fst (assert_in_session c) = Inr () \<and> int64 b \<and>
      xs = map (\<lambda>r. (en_id r, en_name r, en_type r, f_rev r)) (sort_key (\<lambda>r. (f_rev r, en_id r))
             (filter (\<lambda>r. spoiler_clause T_entities (book_id c) b r \<and> en_type r = ty) (entities (working c)))))"
  unfolding entities_of_type_def by (auto simp: tab_entities.select_returns)

lemma vis_entity_listed:
  assumes "vis_entity b (book_id c) (working c) i" and "fst (assert_in_session c) = Inr ()" and "int64 b"
  shows "\<exists>name ty seen ents. entities_of_type b ty c = (Inr ents, c) \<and> (i, name, ty, seen) \<in> set ents"
proof -
  from assms(1) obtain r where r: "r \<in> set (entities (working c))" "en_id r = i"
    "spoiler_clause T_entities (book_id c) b r"
    by (auto simp: vis_entity_def list_ex_iff)
  with assms(2,3) have "(i, en_name r, en_type r, f_rev r) \<in>
    set (map (\<lambda>r. (en_id r, en_name r, en_type r, f_rev r)) (sort_key (\<lambda>r. (f_rev r, en_id r))
             (filter (\<lambda>x. spoiler_clause T_entities (book_id c) b x \<and> en_type x = en_type r) (entities (working c)))))"
    by auto
  with assms(2,3) show ?thesis using entities_of_type_returns [of b "en_type r" c] by blast
qed

section \<open>Properties\<close>

text \<open>
  Property C5: no structured read of a view at bookmark \<open>b\<close> can tell two book databases apart that
  agree up to \<open>b\<close>, whatever they hold for later chapters (facts, ends of relationships, links), and no
  read changes the connection, so the fact-table guard is never left engaged.
\<close>
theorem reads_do_not_see_past_the_bookmark:
  assumes "low b c c'"
  shows "fst (view_read (PyInt b) q c) = fst (view_read (PyInt b) q c') \<and> snd (view_read (PyInt b) q c) = c"
proof -
  have "blind b (view_read (PyInt b) q)"
    unfolding view_read_PyInt by (rule blind_read_at)
  with assms show ?thesis by (metis blindD)
qed

text \<open>
  The relationships of a view are referentially closed: both ends of every returned edge
  are entities the same view lists, the edge is revealed by the bookmark, and its future end is hidden.
\<close>
theorem relationships_are_closed:
  assumes "relationships b c = (Inr es, c')" and "(i, src, dst, rel, label, seen, stop) \<in> set es"
  shows "seen \<le> b \<and> stop = None \<and>
    (\<exists>name ty s ents. entities_of_type b ty c = (Inr ents, c) \<and> (src, name, ty, s) \<in> set ents) \<and>
    (\<exists>name ty s ents. entities_of_type b ty c = (Inr ents, c) \<and> (dst, name, ty, s) \<in> set ents)"
proof -
  from assms(1) have sess: "fst (assert_in_session c) = Inr ()" "int64 b"
    unfolding relationships_def by (auto simp: tab_edges.select_returns)
  from tab_edges.select_sound [OF assms(1) [unfolded relationships_def] assms(2)]
  obtain r :: edge_row where "spoiler_clause T_edges (book_id c) b r" "seen = f_rev r" "stop = None"
    "vis_entity b (book_id c) (working c) src" "vis_entity b (book_id c) (working c) dst" by force
  with sess show ?thesis using vis_entity_listed [of b c] by (simp add: spoiler_clause_def)
qed

text \<open>
  The current state of an entity is the last one the reader may see: it is visible, and no
  visible state of that entity was revealed later or recorded later in the same chapter.
\<close>
theorem current_state_is_latest:
  assumes "current_state b e c = (Inr (Some (i, seen, status)), c')"
    and "s \<in> set (states (working c))" and "spoiler_clause T_entity_state (book_id c) b s" and "st_entity s = e"
  shows "(f_rev s, st_id s) \<le> (seen, i) \<and> seen \<le> b"
proof -
  let ?vis = "\<lambda>r. spoiler_clause T_entity_state (book_id c) b r \<and> st_entity r = e \<and>
    vis_entity b (book_id c) (working c) (st_entity r)"
  let ?rows = "sort_key (\<lambda>r. (- f_rev r, - st_id r)) (filter ?vis (states (working c)))"
  from assms(1) obtain xs where xs: "xs = map (\<lambda>r. (st_id r, f_rev r, st_status r)) ?rows"
    and some: "Some (i, seen, status) = (case xs of [] \<Rightarrow> None | r # _ \<Rightarrow> Some r)"
    unfolding current_state_def bindA_ret_Inr tab_states.select_returns by blast
  then obtain r rs where rows: "?rows = r # rs" "i = st_id r" "seen = f_rev r"
    by (cases ?rows) auto
  have "set ?rows = set (filter ?vis (states (working c)))" by simp
  then have set_rows: "set (r # rs) = set (filter ?vis (states (working c)))" by (simp only: rows(1))
  have "sorted (map (\<lambda>r. (- f_rev r, - st_id r)) ?rows)" by (rule sorted_sort_key)
  then have "sorted (map (\<lambda>r. (- f_rev r, - st_id r)) (r # rs))" by (simp only: rows(1))
  moreover have r: "r \<in> set (filter ?vis (states (working c)))" using set_rows by auto
  moreover from r assms(2-4) have "s \<in> set (r # rs)" by (simp only: set_rows) auto
  ultimately have "(- f_rev r, - st_id r) \<le> (- f_rev s, - st_id s)" by fastforce
  moreover from r have "f_rev r \<le> b" by (simp add: spoiler_clause_def)
  ultimately show ?thesis using rows by (auto simp: less_eq_prod_def)
qed


text \<open>A small book: two characters met in chapters 1 and 2 who get to know each other in chapter 3.\<close>

definition sample_mem :: mem where
  "sample_mem = empty_mem\<lparr>entities := [entity_at ''b'' 1 ''Ann'' 1, entity_at ''b'' 2 ''Bo'' 2],
     edges := [edge_at ''b'' 1 1 2 3 (Some 5)]\<rparr>"

definition sample_conn :: "mem conn" where
  "sample_conn = conn_on ''b'' 7 sample_mem"

theorem reads_do_not_see_past_the_bookmark_witness:
  "fst (view_read (PyInt 1) Q_characters sample_conn) =
   fst (view_read (PyInt 1) Q_characters (sample_conn\<lparr>working := sample_mem\<lparr>edges := []\<rparr>\<rparr>))"
proof -
  have "low 1 sample_conn (sample_conn\<lparr>working := sample_mem\<lparr>edges := []\<rparr>\<rparr>)"
    by (simp add: low_def sample_conn_def sample_mem_def conn_on_def horizon_def cut_at_def edge_at_def)
  from reads_do_not_see_past_the_bookmark [OF this, of Q_characters] show ?thesis by (rule conjunct1)
qed

lemma sample_relationships:
  "relationships 3 sample_conn = (Inr [(1, 1, 2, ''knows'', None, 3, None)], sample_conn)"
  by code_simp

theorem relationships_are_closed_witness:
  "(3 :: int) \<le> 3 \<and> (\<exists>name ty s ents. entities_of_type 3 ty sample_conn = (Inr ents, sample_conn) \<and> (2, name, ty, s) \<in> set ents)"
  using relationships_are_closed [OF sample_relationships, of 1 1 2 "''knows''" None 3 None] by simp

definition state_at :: "string \<Rightarrow> int \<Rightarrow> int \<Rightarrow> json \<Rightarrow> int \<Rightarrow> state_row" where
  "state_at book i entity status revealed = \<lparr>f_book = book, f_rev = revealed, f_invalid = None,
     f_retracted = None, st_id = i, st_entity = entity, st_status = status, st_stamp = plain_stamp\<rparr>"

definition sample_states :: "mem conn" where
  "sample_states = conn_on ''b'' 7 (sample_mem\<lparr>states := [state_at ''b'' 1 1 (JInt 10) 1,
     state_at ''b'' 2 1 (JInt 20) 2, state_at ''b'' 3 1 (JInt 30) 9]\<rparr>)"

theorem current_state_is_latest_witness:
  "((1 :: int), (1 :: int)) \<le> (2, 2) \<and> (2 :: int) \<le> 4"
proof -
  have "current_state 4 1 sample_states = (Inr (Some (2, 2, JInt 20)), sample_states)" by code_simp
  moreover have "state_at ''b'' 1 1 (JInt 10) 1 \<in> set (states (working sample_states))"
    by (simp add: sample_states_def conn_on_def)
  ultimately show ?thesis
    using current_state_is_latest [of 4 1 sample_states 2 2 "JInt 20" sample_states "state_at ''b'' 1 1 (JInt 10) 1"]
    by (simp add: state_at_def spoiler_clause_def sample_states_def conn_on_def)
qed

end
