(* ===== verification/PyText.thy ===== *)
theory PyText imports Prelude begin

text \<open>
  The Python string methods the modelled code uses, on strings of code points below 256, and the
  content-language helpers of \<^verbatim>\<open>backend/app/language.py\<close>.
\<close>

section \<open>str.isspace, strip, split, replace, lower\<close>

definition py_space :: "char \<Rightarrow> bool" where
  "py_space ch = (let n = (of_char ch :: nat) in
     (9 \<le> n \<and> n \<le> 13) \<or> (28 \<le> n \<and> n \<le> 32) \<or> n = 133 \<or> n = 160)"

definition lstrip :: "string \<Rightarrow> string" where
  "lstrip s = dropWhile py_space s"

definition strip :: "string \<Rightarrow> string" where
  "strip s = rev (lstrip (rev (lstrip s)))"

definition replace_char :: "char \<Rightarrow> char \<Rightarrow> string \<Rightarrow> string" where
  "replace_char a b s = map (\<lambda>ch. if ch = a then b else ch) s"

text \<open>\<^verbatim>\<open>s.split(sep)\<close> for a one-character separator.\<close>

fun split_on :: "char \<Rightarrow> string \<Rightarrow> string list" where
  "split_on sep [] = [[]]"
| "split_on sep (ch # s) =
     (if ch = sep then [] # split_on sep s
      else case split_on sep s of [] \<Rightarrow> [[ch]] | w # ws \<Rightarrow> (ch # w) # ws)"

text \<open>\<^verbatim>\<open>s.split()\<close>: the maximal runs of non-space characters.\<close>

fun words_from :: "string \<Rightarrow> string \<Rightarrow> string list" where
  "words_from acc [] = (if acc = [] then [] else [rev acc])"
| "words_from acc (ch # s) =
     (if py_space ch then (if acc = [] then words_from [] s else rev acc # words_from [] s)
      else words_from (ch # acc) s)"

definition split_words :: "string \<Rightarrow> string list" where
  "split_words s = words_from [] s"

fun join :: "string \<Rightarrow> string list \<Rightarrow> string" where
  "join sep [] = []"
| "join sep [w] = w"
| "join sep (w # ws) = w @ sep @ join sep ws"

definition is_upper_ascii :: "char \<Rightarrow> bool" where
  "is_upper_ascii ch = (let n = (of_char ch :: nat) in 65 \<le> n \<and> n \<le> 90)"

definition is_lower_ascii :: "char \<Rightarrow> bool" where
  "is_lower_ascii ch = (let n = (of_char ch :: nat) in 97 \<le> n \<and> n \<le> 122)"

definition is_digit_ascii :: "char \<Rightarrow> bool" where
  "is_digit_ascii ch = (let n = (of_char ch :: nat) in 48 \<le> n \<and> n \<le> 57)"

text \<open>\<^verbatim>\<open>str.lower\<close> below 256: ASCII letters and the Latin-1 capitals.\<close>

definition lower_char :: "char \<Rightarrow> char" where
  "lower_char ch = (let n = (of_char ch :: nat) in
     if (65 \<le> n \<and> n \<le> 90) \<or> (192 \<le> n \<and> n \<le> 222 \<and> n \<noteq> 215) then char_of (n + 32) else ch)"

definition lower :: "string \<Rightarrow> string" where
  "lower s = map lower_char s"

text \<open>\<^verbatim>\<open>str.casefold\<close> below 256: as \<^verbatim>\<open>lower\<close>, with the sharp s expanded.\<close>

definition casefold :: "string \<Rightarrow> string" where
  "casefold s = concat (map (\<lambda>ch. if (of_char ch :: nat) = 223 then ''ss'' else [lower_char ch]) s)"

section \<open>int() and str() of integers\<close>

definition digit_value :: "char \<Rightarrow> int" where
  "digit_value ch = int (of_char ch :: nat) - 48"

definition digits_value :: "string \<Rightarrow> int" where
  "digits_value s = foldl (\<lambda>n ch. 10 * n + digit_value ch) 0 s"

text \<open>Digit groups separated by single underscores, with at most 4300 digits.\<close>

definition parse_digits :: "string \<Rightarrow> int option" where
  "parse_digits s = (let groups = split_on (CHR ''_'') s; ds = concat groups in
     if list_all (\<lambda>g. g \<noteq> [] \<and> list_all is_digit_ascii g) groups \<and> length ds \<le> 4300
     then Some (digits_value ds) else None)"

definition parse_int :: "string \<Rightarrow> int option" where
  "parse_int s = (case strip s of
     [] \<Rightarrow> None
   | ch # t \<Rightarrow> if ch = CHR ''-'' then map_option uminus (parse_digits t)
       else if ch = CHR ''+'' then parse_digits t else parse_digits (ch # t))"

definition py_int :: "pyval \<Rightarrow> int res" where
  "py_int v = (case v of
     PyNone \<Rightarrow> Inl (TypeError ''int() argument'')
   | PyBool b \<Rightarrow> Inr (if b then 1 else 0)
   | PyInt i \<Rightarrow> Inr i
   | PyFloat r \<Rightarrow> Inr (if 0 \<le> r then \<lfloor>r\<rfloor> else \<lceil>r\<rceil>)
   | PyStr s \<Rightarrow> (case parse_int s of None \<Rightarrow> Inl (ValueError ''invalid literal for int()'') | Some i \<Rightarrow> Inr i))"

fun show_nat :: "nat \<Rightarrow> string" where
  "show_nat n = (if n < 10 then [char_of (48 + n)] else show_nat (n div 10) @ [char_of (48 + n mod 10)])"

declare show_nat.simps [simp del]

definition show_int :: "int \<Rightarrow> string" where
  "show_int i = (if i < 0 then CHR ''-'' # show_nat (nat (- i)) else show_nat (nat i))"

section \<open>Content language\<close>

definition is_alpha_ascii :: "char \<Rightarrow> bool" where
  "is_alpha_ascii ch = (is_upper_ascii ch \<or> is_lower_ascii ch)"

text \<open>The pattern \<^verbatim>\<open>^[A-Za-z]{2,8}(?:-[A-Za-z0-9]{1,8})*$\<close>: a primary subtag and further subtags.\<close>

definition language_tag :: "string \<Rightarrow> bool" where
  "language_tag s = (case split_on (CHR ''-'') s of
     [] \<Rightarrow> False
   | w # ws \<Rightarrow> 2 \<le> length w \<and> length w \<le> 8 \<and> list_all is_alpha_ascii w \<and>
       list_all (\<lambda>v. 1 \<le> length v \<and> length v \<le> 8 \<and> list_all (\<lambda>ch. is_alpha_ascii ch \<or> is_digit_ascii ch) v) ws)"

definition normalize_content_language :: "pyval \<Rightarrow> string" where
  "normalize_content_language v = (case v of
     PyStr s \<Rightarrow> (let tag = replace_char (CHR ''_'') (CHR ''-'') (strip s) in
       if length tag > 63 \<or> \<not> language_tag tag then ''und'' else lower tag)
   | _ \<Rightarrow> ''und'')"

definition is_english_content :: "pyval \<Rightarrow> bool" where
  "is_english_content v = (hd (split_on (CHR ''-'') (normalize_content_language v)) = ''en'')"

text \<open>The prompt suffix for a source that is not in English.\<close>

definition english_companion_contract :: "pyval \<Rightarrow> string" where
  "english_companion_contract v = (let language = normalize_content_language v in
     if language = ''und'' \<or> is_english_content (PyStr language) then []
     else '' The source language is '' @ language @ ''. Write summaries, events, relationships, states, and '' @
       ''themes in English. Preserve proper names in their source spelling. Do not transliterate or '' @
       ''translate names unless the text itself supplies an alias.'')"

definition english_recap_contract :: "pyval \<Rightarrow> string" where
  "english_recap_contract v = (let language = normalize_content_language v in
     if language = ''und'' \<or> is_english_content (PyStr language) then []
     else '' The source language is '' @ language @ ''. Write the companion prose in English while preserving '' @
       ''proper names in their source spelling; do not transliterate or translate a name unless the '' @
       ''supplied facts already provide that alias.'')"

section \<open>Facts\<close>

lemma split_on_not_Nil [simp]: "split_on sep s \<noteq> []"
  by (induction s) (auto split: list.splits)

lemma py_space_lower_ascii [simp]: "is_alpha_ascii ch \<or> is_digit_ascii ch \<Longrightarrow> \<not> py_space ch"
  by (auto simp: py_space_def is_alpha_ascii_def is_upper_ascii_def is_lower_ascii_def is_digit_ascii_def Let_def)

section \<open>Normalised language tags\<close>

lemma split_on_map:
  "(\<And>ch. (f ch = sep) = (ch = sep)) \<Longrightarrow> split_on sep (map f s) = map (map f) (split_on sep s)"
  by (induction s) (auto split: list.splits)

lemma code_lower: "of_char (lower_char ch) = (let n = (of_char ch :: nat) in
     if (65 \<le> n \<and> n \<le> 90) \<or> (192 \<le> n \<and> n \<le> 222 \<and> n \<noteq> 215) then n + 32 else n)"
proof -
  have "of_char ch < (256 :: nat)" by simp
  then show ?thesis by (auto simp: lower_char_def Let_def)
qed

lemma char_eq_code: "(ch = ch') = ((of_char ch :: nat) = of_char ch')"
  by simp

lemma lower_char_alpha [simp]:
  "is_alpha_ascii (lower_char ch) = is_alpha_ascii ch" "is_digit_ascii (lower_char ch) = is_digit_ascii ch"
  by (auto simp: is_alpha_ascii_def is_digit_ascii_def is_upper_ascii_def is_lower_ascii_def code_lower Let_def)

lemma lower_char_idem [simp]: "lower_char (lower_char ch) = lower_char ch"
  unfolding char_eq_code code_lower Let_def by auto

lemma lower_char_dash: "(lower_char ch = CHR ''-'') = (ch = CHR ''-'')"
proof -
  have "(lower_char ch = CHR ''-'') = ((of_char (lower_char ch) :: nat) = 45)"
    unfolding char_eq_code by simp
  also have "\<dots> = ((of_char ch :: nat) = 45)" unfolding code_lower Let_def by auto
  also have "\<dots> = (ch = CHR ''-'')" unfolding char_eq_code by simp
  finally show ?thesis .
qed

lemma language_tag_lower [simp]: "language_tag (lower s) = language_tag s"
  by (auto simp: language_tag_def lower_def split_on_map lower_char_dash list_all_iff split: list.splits)

lemma split_on_chars: "ch \<in> set s \<Longrightarrow> ch = sep \<or> (\<exists>w \<in> set (split_on sep s). ch \<in> set w)"
  by (induction s) (auto split: list.splits if_splits)

lemma language_tag_chars:
  assumes "language_tag s" and "ch \<in> set s"
  shows "ch = CHR ''-'' \<or> is_alpha_ascii ch \<or> is_digit_ascii ch"
  using split_on_chars [OF assms(2), of "CHR ''-''"] assms(1)
  by (auto simp: language_tag_def list_all_iff split: list.splits)

lemma language_tag_no_space: "language_tag s \<Longrightarrow> ch \<in> set s \<Longrightarrow> \<not> py_space ch \<and> ch \<noteq> CHR ''_''"
  by (drule (1) language_tag_chars)
    (auto simp: py_space_def is_alpha_ascii_def is_digit_ascii_def is_upper_ascii_def is_lower_ascii_def Let_def)

lemma dropWhile_none: "(\<And>x. x \<in> set xs \<Longrightarrow> \<not> P x) \<Longrightarrow> dropWhile P xs = xs"
  by (cases xs) auto

lemma strip_no_space:
  assumes "\<And>ch. ch \<in> set s \<Longrightarrow> \<not> py_space ch"
  shows "strip s = s"
proof -
  have "dropWhile py_space s = s" "dropWhile py_space (rev s) = rev s"
    using assms by (auto intro!: dropWhile_none)
  then show ?thesis by (simp add: strip_def lstrip_def)
qed

lemma replace_char_absent: "a \<notin> set s \<Longrightarrow> replace_char a b s = s"
  by (induction s) (auto simp: replace_char_def)

lemma normalize_valid:
  assumes "language_tag s" and "length s \<le> 63"
  shows "normalize_content_language (PyStr s) = lower s"
proof -
  have "strip s = s" using language_tag_no_space [OF assms(1)] by (intro strip_no_space) simp
  moreover have "CHR ''_'' \<notin> set s" using language_tag_no_space [OF assms(1)] by blast
  ultimately show ?thesis using assms by (simp add: normalize_content_language_def replace_char_absent Let_def)
qed

lemma lower_lower [simp]: "lower (lower s) = lower s"
  by (simp add: lower_def)

lemma normalize_idem:
  "normalize_content_language (PyStr (normalize_content_language v)) = normalize_content_language v"
proof -
  have und: "normalize_content_language (PyStr ''und'') = ''und''" by code_simp
  have norm: "normalize_content_language (PyStr w) = ''und'' \<or>
      (\<exists>s. language_tag s \<and> length s \<le> 63 \<and> normalize_content_language (PyStr w) = lower s)" for w
    unfolding normalize_content_language_def Let_def pyval.case by (metis not_le)
  have "normalize_content_language v = ''und'' \<or>
      (\<exists>s. language_tag s \<and> length s \<le> 63 \<and> normalize_content_language v = lower s)"
    using norm by (cases v) (simp_all add: normalize_content_language_def)
  then consider "normalize_content_language v = ''und''"
    | s where "language_tag s" "length s \<le> 63" "normalize_content_language v = lower s"
    by blast
  then show ?thesis
  proof cases
    case 2
    then have "normalize_content_language (PyStr (lower s)) = lower (lower s)"
      by (intro normalize_valid) (simp_all, simp add: lower_def)
    with 2 show ?thesis by simp
  qed (simp add: und)
qed


end
