(* ===== verification/MemWrites.thy ===== *)
theory MemWrites imports Horizon PyText begin

text \<open>
  The writer side of \<^verbatim>\<open>backend/app/memory/dal.py\<close> with the brute-force vector backend: ingestion,
  story-time supersession, completion receipts, model pins, the book profile, and the transaction-time
  retractions. \<open>now\<close> is the reading of \<^verbatim>\<open>_now()\<close> and \<open>digest\<close> the truncated SHA-256 of a text.
\<close>

section \<open>Statements\<close>

definition SCHEMA_VERSION :: int where
  "SCHEMA_VERSION = 7"

definition stamp_of :: "string \<Rightarrow> string \<Rightarrow> stamp" where
  "stamp_of extractor_version now = \<lparr>s_schema = SCHEMA_VERSION, s_extractor = extractor_version, s_recorded = now\<rparr>"

text \<open>\<^verbatim>\<open>_ins\<close>: one INSERT in its own writer scope, returning the new rowid.\<close>

definition ins :: "int list \<Rightarrow> (string \<Rightarrow> mem \<Rightarrow> 'a \<times> mem) \<Rightarrow> (mem conn, 'a) act" where
  "ins ints f c = writer (stmt [] (\<lambda>m. bind_ints ints (constrained (f (book_id c) m)))) c"

text \<open>An INSERT or UPDATE inside a writer scope that is already open.\<close>

definition exec_dml :: "tname list \<Rightarrow> int list \<Rightarrow> (mem \<Rightarrow> 'a \<times> mem) \<Rightarrow> (mem conn, 'a) act" where
  "exec_dml reads ints f = stmt reads (\<lambda>m. bind_ints ints (constrained (f m)))"

definition with_book :: "(string \<Rightarrow> (mem conn, 'a) act) \<Rightarrow> (mem conn, 'a) act" where
  "with_book f c = f (book_id c) c"

lemma keeps_exec_dml:
  "(\<And>m. Q m \<Longrightarrow> Q (snd (g m))) \<Longrightarrow> keeps (holds Q) (exec_dml reads ints g)"
  unfolding exec_dml_def
  by (rule keeps_stmt_holds) (fastforce dest!: bind_ints_Inr simp: constrained_def split: if_splits)

lemma keeps_ins:
  assumes "\<And>book m. Q m \<Longrightarrow> Q (snd (f book m))"
  shows "keeps (holds Q) (ins ints f)"
proof (rule keepsI)
  fix c assume "holds Q c"
  moreover have "keeps (holds Q) (writer (stmt [] (\<lambda>m. bind_ints ints (constrained (f (book_id c) m)))))"
    using assms [of _ "book_id c"]
    by (intro keeps_intros keeps_stmt_holds) (fastforce dest!: bind_ints_Inr simp: constrained_def split: if_splits)
  ultimately show "holds Q (snd (ins ints f c))" by (simp add: ins_def keepsD)
qed

lemma keeps_with_book [keeps_intros]: "(\<And>book. keeps P (f book)) \<Longrightarrow> keeps P (with_book f)"
  by (auto simp: keeps_def with_book_def)

lemma keeps_ins_joined [keeps_intros]: "keeps (joined K) (ins ints f)"
  by (rule keepsI) (simp add: ins_def keepsD keeps_writer_joined keeps_stmt_joined)

lemma keeps_exec_dml_joined [keeps_intros]: "keeps (joined K) (exec_dml reads ints g)"
  unfolding exec_dml_def by (rule keeps_stmt_joined)

lemma keeps_ins_session [keeps_intros]: "keeps (session_is k) (ins ints f)"
  by (rule keepsI) (simp add: ins_def keepsD keeps_writer_session keeps_stmt_session)

lemma keeps_exec_dml_session [keeps_intros]: "keeps (session_is k) (exec_dml reads ints g)"
  unfolding exec_dml_def by (rule keeps_stmt_session)

lemma exec_dml_Inr:
  "exec_dml reads ints g c = (Inr x, c') \<Longrightarrow>
     x = fst (g (working c)) \<and> working c' = snd (g (working c)) \<and> schema_ok (working c') \<and> engaged c' = engaged c"
  unfolding exec_dml_def stmt_Inr constrained_def
  by (auto dest!: bind_ints_Inr split: if_splits)

section \<open>Chapters\<close>

definition live_chapter_row :: "string \<Rightarrow> string \<Rightarrow> mem \<Rightarrow> chapter_row option" where
  "live_chapter_row book key m =
     find (\<lambda>c. ch_key c = key \<and> f_book c = book \<and> f_retracted c = None) (chapters m)"

definition add_chapter ::
  "string \<Rightarrow> int \<Rightarrow> string \<Rightarrow> string \<Rightarrow> string \<Rightarrow> string \<Rightarrow> string \<Rightarrow> string \<Rightarrow> string \<Rightarrow> string \<Rightarrow> (mem conn, string) act" where
  "add_chapter key revealed href title fragment part_label kind content_hash xv now = bindA
     (with_book (\<lambda>book. writer (bindA (query [T_chapters] (live_chapter_row book key)) (\<lambda>row.
        case row of
          None \<Rightarrow> ret False
        | Some c \<Rightarrow>
            if ch_hash c = content_hash \<and> f_rev c = revealed then ret True
            else bindA (exec_dml [T_chapters] [revealed] (\<lambda>m. ((), m\<lparr>chapters :=
                   update_where (\<lambda>c. ch_key c = key \<and> f_book c = book)
                     (\<lambda>c. c\<lparr>f_rev := revealed, ch_hash := content_hash, ch_title := title\<rparr>) (chapters m)\<rparr>)))
                 (\<lambda>_. ret True)))))
     (\<lambda>finished. if finished then ret key
        else bindA (ins [revealed] (\<lambda>book m. ((), m\<lparr>chapters := chapters m @
            [\<lparr>f_book = book, f_rev = revealed, f_invalid = None, f_retracted = None, ch_key = key, ch_href = href,
              ch_fragment = fragment, ch_title = title, ch_part = part_label, ch_kind = kind,
              ch_hash = content_hash, ch_stamp = stamp_of xv now\<rparr>]\<rparr>))) (\<lambda>_. ret key))"

definition chapter_live :: "string \<Rightarrow> (mem conn, bool) act" where
  "chapter_live key = with_book (\<lambda>book. bindA (writer (query [T_chapters] (live_chapter_row book key)))
     (\<lambda>row. ret (row \<noteq> None)))"

definition chapter_is_ingested :: "string \<Rightarrow> string \<Rightarrow> (mem conn, bool) act" where
  "chapter_is_ingested key content_hash = with_book (\<lambda>book. writer (query [T_ingested_chapters] (\<lambda>m.
     list_ex (\<lambda>i. ig_key i = key \<and> ig_book i = book \<and> ig_hash i = content_hash) (ingested m))))"

section \<open>Completion receipts\<close>

record receipt_cost =
  rc_model :: "string option"
  rc_in :: int
  rc_out :: int
  rc_usd :: rat

text \<open>The joined row \<^verbatim>\<open>_chapter_completion\<close> reads: the marker, the live chapter, the live raw text if any.\<close>

definition completion_row :: "string \<Rightarrow> string \<Rightarrow> mem \<Rightarrow> (ingested_row \<times> chapter_row \<times> raw_row option) option" where
  "completion_row book key m =
     (case find (\<lambda>i. ig_key i = key \<and> ig_book i = book) (ingested m) of
        None \<Rightarrow> None
      | Some i \<Rightarrow> (case live_chapter_row book key m of
            None \<Rightarrow> None
          | Some c \<Rightarrow> Some (i, c,
              find (\<lambda>r. raw_key r = key \<and> f_book r = book \<and> f_retracted r = None) (raw_chapters m))))"

definition or_default :: "'a option \<Rightarrow> 'a \<Rightarrow> 'a" where
  "or_default x d = (case x of None \<Rightarrow> d | Some y \<Rightarrow> y)"

text \<open>Key, ordinal and every hash must agree with the hash of the stored text.\<close>

definition receipt_of ::
  "(string \<Rightarrow> string) \<Rightarrow> int \<Rightarrow> string option \<Rightarrow> ingested_row \<times> chapter_row \<times> raw_row option \<Rightarrow> receipt_cost option option" where
  "receipt_of digest ordinal content_hash row = (case row of (i, c, raw) \<Rightarrow>
     (let actual = digest (case raw of None \<Rightarrow> [] | Some r \<Rightarrow> raw_text r) in
      if f_rev c \<noteq> ordinal
         \<or> (case raw of None \<Rightarrow> False | Some r \<Rightarrow> f_rev r \<noteq> ordinal)
         \<or> ig_hash i \<noteq> ch_hash c
         \<or> ch_hash c \<noteq> actual
         \<or> (case raw of None \<Rightarrow> False | Some r \<Rightarrow> raw_hash r \<noteq> actual)
         \<or> (case content_hash of None \<Rightarrow> False | Some h \<Rightarrow> h \<noteq> actual)
      then None
      else Some (if ig_pending i then Some \<lparr>rc_model = ig_model i, rc_in = or_default (ig_in i) 0,
                   rc_out = or_default (ig_out i) 0, rc_usd = or_default (ig_usd i) 0\<rparr> else None)))"

definition chapter_completion_opt ::
  "(string \<Rightarrow> string) \<Rightarrow> string \<Rightarrow> int \<Rightarrow> string option \<Rightarrow> (mem conn, receipt_cost option option) act" where
  "chapter_completion_opt digest key ordinal content_hash = with_book (\<lambda>book. bindA
     (writer (query [T_ingested_chapters, T_chapters, T_raw_chapters] (completion_row book key)))
     (\<lambda>row. ret (case row of None \<Rightarrow> None | Some r \<Rightarrow> receipt_of digest ordinal content_hash r)))"

definition chapter_completion ::
  "(string \<Rightarrow> string) \<Rightarrow> string \<Rightarrow> int \<Rightarrow> string \<Rightarrow> (mem conn, receipt_cost option option) act" where
  "chapter_completion digest key ordinal content_hash = chapter_completion_opt digest key ordinal (Some content_hash)"

text \<open>The loop of \<^verbatim>\<open>completion_frontier\<close> over the authoritative atoms (key, ordinal).\<close>

fun completion_frontier_from :: "(string \<Rightarrow> string) \<Rightarrow> int \<Rightarrow> (string \<times> int) list \<Rightarrow> (mem conn, int) act" where
  "completion_frontier_from digest frontier [] = ret frontier"
| "completion_frontier_from digest frontier ((key, ordinal) # atoms) = bindA
     (chapter_completion_opt digest key ordinal None)
     (\<lambda>r. case r of None \<Rightarrow> ret frontier | Some _ \<Rightarrow> completion_frontier_from digest ordinal atoms)"

definition completion_frontier :: "(string \<Rightarrow> string) \<Rightarrow> (string \<times> int) list \<Rightarrow> (mem conn, int) act" where
  "completion_frontier digest atoms = completion_frontier_from digest 0 atoms"

text \<open>The marker row; the empty cost dictionary and None both mean that no cost is pending.\<close>

definition mark_chapter_ingested :: "string \<Rightarrow> string \<Rightarrow> receipt_cost option \<Rightarrow> string \<Rightarrow> (mem conn, unit) act" where
  "mark_chapter_ingested key content_hash cost now c =
     (if \<not> transaction_active c then (Inl (RuntimeError ''completion marker requires a transaction''), c)
      else ins (case cost of None \<Rightarrow> [] | Some k \<Rightarrow> [rc_in k, rc_out k]) (\<lambda>book m. ((), m\<lparr>ingested := ingested m @
        [\<lparr>ig_key = key, ig_book = book, ig_hash = content_hash, ig_pending = (cost \<noteq> None),
          ig_model = (case cost of None \<Rightarrow> None | Some k \<Rightarrow> rc_model k),
          ig_in = map_option rc_in cost, ig_out = map_option rc_out cost, ig_usd = map_option rc_usd cost,
          ig_completed = now\<rparr>]\<rparr>)) c)"

section \<open>Facts\<close>

definition add_raw :: "string \<Rightarrow> int \<Rightarrow> string \<Rightarrow> string \<Rightarrow> string \<Rightarrow> (mem conn, unit) act" where
  "add_raw key revealed txt content_hash now = ins [revealed] (\<lambda>book m. ((), m\<lparr>raw_chapters := raw_chapters m @
     [\<lparr>f_book = book, f_rev = revealed, f_invalid = None, f_retracted = None, raw_key = key, raw_text = txt,
       raw_chars = int (length txt), raw_hash = content_hash, raw_recorded = now\<rparr>]\<rparr>))"

definition add_summary :: "string \<Rightarrow> int \<Rightarrow> string \<Rightarrow> string \<Rightarrow> string \<Rightarrow> string \<Rightarrow> (mem conn, int) act" where
  "add_summary key revealed summary kind xv now = ins [revealed] (\<lambda>book m.
     let i = next_rowid (map sm_id (summaries m)) in (i, m\<lparr>summaries := summaries m @
     [\<lparr>f_book = book, f_rev = revealed, f_invalid = None, f_retracted = None, sm_id = i, sm_key = key,
       sm_kind = kind, sm_text = summary, sm_stamp = stamp_of xv now\<rparr>]\<rparr>))"

definition add_entity :: "string \<Rightarrow> string \<Rightarrow> int \<Rightarrow> string \<Rightarrow> string \<Rightarrow> (mem conn, int) act" where
  "add_entity name ty revealed xv now = ins [revealed] (\<lambda>book m.
     let i = next_rowid (map en_id (entities m)) in (i, m\<lparr>entities := entities m @
     [\<lparr>f_book = book, f_rev = revealed, f_invalid = None, f_retracted = None, en_id = i, en_name = name,
       en_type = ty, en_stamp = stamp_of xv now\<rparr>]\<rparr>))"

definition add_alias :: "int \<Rightarrow> string \<Rightarrow> int \<Rightarrow> string \<Rightarrow> (mem conn, int) act" where
  "add_alias entity surface revealed now = ins [entity, revealed] (\<lambda>book m.
     let i = next_rowid (map al_id (aliases m)) in (i, m\<lparr>aliases := aliases m @
     [\<lparr>f_book = book, f_rev = revealed, f_invalid = None, f_retracted = None, al_id = i, al_entity = entity,
       al_surface = surface, al_recorded = now\<rparr>]\<rparr>))"

definition opt_ints :: "int option \<Rightarrow> int list" where
  "opt_ints x = (case x of None \<Rightarrow> [] | Some i \<Rightarrow> [i])"

definition add_edge ::
  "int \<Rightarrow> int \<Rightarrow> string \<Rightarrow> string option \<Rightarrow> int \<Rightarrow> int option \<Rightarrow> string \<Rightarrow> string \<Rightarrow> (mem conn, int) act" where
  "add_edge src dst rel label revealed invalid xv now = ins ([src, dst, revealed] @ opt_ints invalid) (\<lambda>book m.
     let i = next_rowid (map ed_id (edges m)) in (i, m\<lparr>edges := edges m @
     [\<lparr>f_book = book, f_rev = revealed, f_invalid = invalid, f_retracted = None, ed_id = i, ed_src = src,
       ed_dst = dst, ed_rel = rel, ed_label = label, ed_stamp = stamp_of xv now\<rparr>]\<rparr>))"

definition replace_edge :: "int \<Rightarrow> int \<Rightarrow> string \<Rightarrow> string option \<Rightarrow> string \<Rightarrow> string \<Rightarrow> (mem conn, int) act" where
  "replace_edge old end_at rel label xv now = with_book (\<lambda>book. writer (bindA
     (if int64 old then query [T_edges] (\<lambda>m. find (\<lambda>e. ed_id e = old \<and> f_book e = book) (edges m)) else raise OverflowError)
     (\<lambda>row. case row of
        None \<Rightarrow> raise (ValueError ''no such edge in this book'')
      | Some e \<Rightarrow> bindA
          (exec_dml [T_edges] [end_at, old] (\<lambda>m. ((), m\<lparr>edges :=
             update_where (\<lambda>e. ed_id e = old \<and> f_book e = book) (\<lambda>e. e\<lparr>f_invalid := Some end_at\<rparr>) (edges m)\<rparr>)))
          (\<lambda>_. exec_dml [] [ed_src e, ed_dst e, end_at] (\<lambda>m.
             let i = next_rowid (map ed_id (edges m)) in (i, m\<lparr>edges := edges m @
             [\<lparr>f_book = book, f_rev = end_at, f_invalid = None, f_retracted = None, ed_id = i, ed_src = ed_src e,
               ed_dst = ed_dst e, ed_rel = rel, ed_label = label, ed_stamp = stamp_of xv now\<rparr>]\<rparr>))))))"

definition end_edge :: "int \<Rightarrow> int \<Rightarrow> (mem conn, unit) act" where
  "end_edge edge end_at = with_book (\<lambda>book. writer (exec_dml [T_edges] [end_at, edge] (\<lambda>m. ((), m\<lparr>edges :=
     update_where (\<lambda>e. ed_id e = edge \<and> f_book e = book) (\<lambda>e. e\<lparr>f_invalid := Some end_at\<rparr>) (edges m)\<rparr>))))"

definition add_event_participant :: "int \<Rightarrow> int \<Rightarrow> string option \<Rightarrow> int \<Rightarrow> (mem conn, unit) act" where
  "add_event_participant event entity role revealed = ins [event, entity, revealed] (\<lambda>book m. ((), m\<lparr>participants := participants m @
     [\<lparr>pt_event = event, pt_entity = entity, pt_book = book, pt_role = role, pt_rev = revealed\<rparr>]\<rparr>))"

definition add_event ::
  "string \<Rightarrow> int \<Rightarrow> int \<Rightarrow> string \<Rightarrow> int option \<Rightarrow> (int \<times> string option) list \<Rightarrow> string \<Rightarrow> string \<Rightarrow> (mem conn, int) act" where
  "add_event summary revealed order_idx kind invalid parts xv now = bindA
     (ins ([revealed, order_idx] @ opt_ints invalid) (\<lambda>book m.
        let i = next_rowid (map ev_id (events m)) in (i, m\<lparr>events := events m @
        [\<lparr>f_book = book, f_rev = revealed, f_invalid = invalid, f_retracted = None, ev_id = i, ev_order = order_idx,
          ev_summary = summary, ev_kind = kind, ev_stamp = stamp_of xv now\<rparr>]\<rparr>)))
     (\<lambda>eid. bindA (for_each (\<lambda>(entity, role). add_event_participant eid entity role revealed) parts) (\<lambda>_. ret eid))"

definition end_event :: "int \<Rightarrow> int \<Rightarrow> (mem conn, unit) act" where
  "end_event event end_at = with_book (\<lambda>book. writer (exec_dml [T_events] [end_at, event] (\<lambda>m. ((), m\<lparr>events :=
     update_where (\<lambda>e. ev_id e = event \<and> f_book e = book) (\<lambda>e. e\<lparr>f_invalid := Some end_at\<rparr>) (events m)\<rparr>))))"

definition add_theme :: "string \<Rightarrow> string \<Rightarrow> int \<Rightarrow> string \<Rightarrow> string \<Rightarrow> (mem conn, int) act" where
  "add_theme name description revealed xv now = ins [revealed] (\<lambda>book m.
     let i = next_rowid (map th_id (themes m)) in (i, m\<lparr>themes := themes m @
     [\<lparr>f_book = book, f_rev = revealed, f_invalid = None, f_retracted = None, th_id = i, th_name = name,
       th_desc = description, th_stamp = stamp_of xv now\<rparr>]\<rparr>))"

definition add_state :: "int \<Rightarrow> int \<Rightarrow> json \<Rightarrow> int option \<Rightarrow> string \<Rightarrow> string \<Rightarrow> (mem conn, int) act" where
  "add_state entity revealed status invalid xv now = ins ([entity, revealed] @ opt_ints invalid) (\<lambda>book m.
     let i = next_rowid (map st_id (states m)) in (i, m\<lparr>states := states m @
     [\<lparr>f_book = book, f_rev = revealed, f_invalid = invalid, f_retracted = None, st_id = i, st_entity = entity,
       st_status = status, st_stamp = stamp_of xv now\<rparr>]\<rparr>))"

definition replace_state :: "int \<Rightarrow> int \<Rightarrow> json \<Rightarrow> string \<Rightarrow> string \<Rightarrow> (mem conn, int) act" where
  "replace_state old end_at status xv now = with_book (\<lambda>book. writer (bindA
     (if int64 old then query [T_entity_state] (\<lambda>m. find (\<lambda>s. st_id s = old \<and> f_book s = book) (states m)) else raise OverflowError)
     (\<lambda>row. case row of
        None \<Rightarrow> raise (ValueError ''no such state in this book'')
      | Some s \<Rightarrow> bindA
          (exec_dml [T_entity_state] [end_at, old] (\<lambda>m. ((), m\<lparr>states :=
             update_where (\<lambda>s. st_id s = old \<and> f_book s = book) (\<lambda>s. s\<lparr>f_invalid := Some end_at\<rparr>) (states m)\<rparr>)))
          (\<lambda>_. exec_dml [] [st_entity s, end_at] (\<lambda>m.
             let i = next_rowid (map st_id (states m)) in (i, m\<lparr>states := states m @
             [\<lparr>f_book = book, f_rev = end_at, f_invalid = None, f_retracted = None, st_id = i, st_entity = st_entity s,
               st_status = status, st_stamp = stamp_of xv now\<rparr>]\<rparr>))))))"

section \<open>What a receipt means\<close>

text \<open>
  What a valid receipt means: the live chapter and its live raw text carry the ordinal, and the
  marker, the chapter and the raw text carry the digest of the stored text.
\<close>

definition receipted :: "(string \<Rightarrow> string) \<Rightarrow> string \<Rightarrow> mem \<Rightarrow> string \<times> int \<Rightarrow> bool" where
  "receipted digest book m = (\<lambda>(key, ordinal). (case completion_row book key m of
     None \<Rightarrow> False
   | Some (i, ch, raw) \<Rightarrow> f_rev ch = ordinal \<and> ig_hash i = ch_hash ch \<and>
       (case raw of None \<Rightarrow> ch_hash ch = digest []
        | Some r \<Rightarrow> f_rev r = ordinal \<and> raw_hash r = digest (raw_text r) \<and> ch_hash ch = digest (raw_text r))))"

lemma receipt_of_iff:
  "(receipt_of digest ordinal None (i, ch, raw) \<noteq> None) = (f_rev ch = ordinal \<and> ig_hash i = ch_hash ch \<and>
       (case raw of None \<Rightarrow> ch_hash ch = digest []
        | Some r \<Rightarrow> f_rev r = ordinal \<and> raw_hash r = digest (raw_text r) \<and> ch_hash ch = digest (raw_text r)))"
  by (auto simp: receipt_of_def Let_def split: option.splits)

lemma chapter_completion_opt_Inr:
  assumes "chapter_completion_opt digest key ordinal None c = (Inr x, c')"
  shows "(x \<noteq> None) = receipted digest (book_id c) (working c) (key, ordinal) \<and>
    working c' = working c \<and> book_id c' = book_id c"
proof -
  have "book_id c' = book_id c"
    using assms
    by (intro book_kept [where m = "chapter_completion_opt digest key ordinal None" and c = c])
      (simp_all add: chapter_completion_opt_def, intro keeps_intros)
  moreover from assms obtain row where
    row: "writer (query [T_ingested_chapters, T_chapters, T_raw_chapters] (completion_row (book_id c) key)) c = (Inr row, c')"
    and x: "x = (case row of None \<Rightarrow> None | Some r \<Rightarrow> receipt_of digest ordinal None r)"
    unfolding chapter_completion_opt_def with_book_def bindA_ret_Inr by blast
  ultimately show ?thesis
    using writer_query_Inr [OF row] receipt_of_iff by (auto simp: receipted_def split: option.splits prod.splits)
qed

lemma completion_frontier_from_Inr:
  "completion_frontier_from digest f atoms c = (Inr n, c') \<Longrightarrow>
   n = last (f # map snd (takeWhile (receipted digest (book_id c) (working c)) atoms))"
proof (induction atoms arbitrary: f c)
  case Nil
  then show ?case by (simp add: ret_def)
next
  case (Cons a atoms)
  obtain key ordinal where a: "a = (key, ordinal)" by fastforce
  from Cons.prems a obtain x c1 where x: "chapter_completion_opt digest key ordinal None c = (Inr x, c1)"
    and rest: "(case x of None \<Rightarrow> ret f | Some _ \<Rightarrow> completion_frontier_from digest ordinal atoms) c1 = (Inr n, c')"
    by (auto simp: bindA_Inr)
  from chapter_completion_opt_Inr [OF x] have c1: "(x \<noteq> None) = receipted digest (book_id c) (working c) a"
    "working c1 = working c" "book_id c1 = book_id c" by (simp_all add: a)
  show ?case
  proof (cases x)
    case None
    with rest c1 show ?thesis by (simp add: ret_def)
  next
    case (Some y)
    with rest have "completion_frontier_from digest ordinal atoms c1 = (Inr n, c')" by simp
    from Cons.IH [OF this] c1 Some a show ?thesis by simp
  qed
qed

section \<open>Properties\<close>

text \<open>
  The completion frontier is the ordinal of the last atom of the longest prefix whose
  chapters all have a valid receipt: marker, live chapter and stored text agree on ordinal and digest.
  A chapter after the first one that is missing or does not match never counts.
\<close>
theorem frontier_is_receipted_prefix:
  assumes "completion_frontier digest atoms c = (Inr n, c')"
  shows "n = last (0 # map snd (takeWhile (receipted digest (book_id c) (working c)) atoms))"
  using assms completion_frontier_from_Inr by (simp add: completion_frontier_def)

definition chapter_at :: "string \<Rightarrow> string \<Rightarrow> int \<Rightarrow> string \<Rightarrow> chapter_row" where
  "chapter_at book key revealed hash = \<lparr>f_book = book, f_rev = revealed, f_invalid = None, f_retracted = None,
     ch_key = key, ch_href = [], ch_fragment = [], ch_title = key, ch_part = [], ch_kind = ''chapter'',
     ch_hash = hash, ch_stamp = plain_stamp\<rparr>"

definition marker_at :: "string \<Rightarrow> string \<Rightarrow> string \<Rightarrow> ingested_row" where
  "marker_at book key hash = \<lparr>ig_key = key, ig_book = book, ig_hash = hash, ig_pending = False,
     ig_model = None, ig_in = None, ig_out = None, ig_usd = None, ig_completed = []\<rparr>"

definition raw_at :: "string \<Rightarrow> string \<Rightarrow> int \<Rightarrow> string \<Rightarrow> string \<Rightarrow> raw_row" where
  "raw_at book key revealed txt hash = \<lparr>f_book = book, f_rev = revealed, f_invalid = None, f_retracted = None,
     raw_key = key, raw_text = txt, raw_chars = int (length txt), raw_hash = hash, raw_recorded = []\<rparr>"

definition receipts_conn :: "mem conn" where
  "receipts_conn = conn_on ''b'' 7 (empty_mem\<lparr>chapters := [chapter_at ''b'' ''k1'' 1 ''one'', chapter_at ''b'' ''k2'' 2 ''two''],
     raw_chapters := [raw_at ''b'' ''k1'' 1 ''one'' ''one'', raw_at ''b'' ''k2'' 2 ''changed'' ''two''],
     ingested := [marker_at ''b'' ''k1'' ''one'', marker_at ''b'' ''k2'' ''two'']\<rparr>)"

theorem frontier_is_receipted_prefix_witness:
  "(1 :: int) = last (0 # map snd (takeWhile (receipted id ''b'' (working receipts_conn)) [(''k1'', 1), (''k2'', 2)]))"
proof -
  have "completion_frontier id [(''k1'', 1), (''k2'', 2)] receipts_conn = (Inr 1, receipts_conn)" by code_simp
  from frontier_is_receipted_prefix [OF this] show ?thesis by (simp add: receipts_conn_def conn_on_def)
qed

end
