(* ===== verification/BookTypes.thy ===== *)
theory BookTypes imports PyText begin

text \<open>
  The closed vocabularies of \<^verbatim>\<open>backend/app/book_types.py\<close> that the stored book profile is checked
  against.
\<close>

definition BOOK_TYPES :: "string list" where
  "BOOK_TYPES = [''novel'', ''anthology'', ''drama'', ''poetry'', ''nonfiction'', ''reference'', ''unknown'']"

definition BOOK_PROFILE_SIGNALS :: "string list" where
  "BOOK_PROFILE_SIGNALS = [''act_scene_titles'', ''speaker_cues'', ''stage_directions'', ''verse_titles'',
     ''collection_titles'', ''reference_titles'', ''nonfiction_titles'', ''long_prose_sections'',
     ''short_sections'', ''narrative_verbs'', ''anchor_driven_structure'', ''segmentation_advisories'',
     ''weak_signals'', ''conflicting_signals'', ''migrated_existing_store'']"

record book_profile_t =
  bp_type :: string
  bp_confidence :: rat
  bp_detector :: string
  bp_signals :: "string list"

definition LEGACY_NOVEL_PROFILE :: book_profile_t where
  "LEGACY_NOVEL_PROFILE = \<lparr>bp_type = ''novel'', bp_confidence = 0, bp_detector = ''legacy-novel-v1'',
     bp_signals = [''migrated_existing_store'']\<rparr>"

end
