(* ===== verification/MemAdmin.thy ===== *)
theory MemAdmin imports MemWrites BookTypes begin

text \<open>
  The remaining writer operations of \<^verbatim>\<open>backend/app/memory/dal.py\<close>: chunks under the model pin,
  pinning and repinning, the advisory book profile, the content language, and the transaction-time
  retractions of re-extraction.
\<close>

section \<open>Model pins and chunks\<close>

definition meta_of :: "string \<Rightarrow> mem \<Rightarrow> meta_row option" where
  "meta_of book m = find (\<lambda>r. mt_book r = book) (meta m)"

definition pinned_identity :: "(mem conn, meta_row option) act" where
  "pinned_identity = with_book (\<lambda>book. writer (query [T_book_meta] (meta_of book)))"

text \<open>The pinned embedding model, when the book has a non-empty one.\<close>

definition pin_model :: "meta_row option \<Rightarrow> (string \<times> int option) option" where
  "pin_model pin = (case pin of None \<Rightarrow> None
     | Some r \<Rightarrow> (case mt_embed r of None \<Rightarrow> None
         | Some em \<Rightarrow> if em = [] then None else Some (em, mt_dim r)))"

definition chunk_identity ::
  "meta_row option \<Rightarrow> int \<Rightarrow> string option \<Rightarrow> int option \<Rightarrow> (string option \<times> int) res" where
  "chunk_identity pin n embed_model embed_dim = (case pin_model pin of
     Some (pm, pd) \<Rightarrow>
       (let em = or_default embed_model pm; ed = or_default embed_dim n in
        if em \<noteq> pm \<or> Some n \<noteq> pd \<or> Some ed \<noteq> pd
        then Inl (ValueError ''chunk embed identity differs from the book pin'') else Inr (Some em, ed))
   | None \<Rightarrow> Inr (embed_model, or_default embed_dim n))"

definition add_chunk ::
  "string \<Rightarrow> int \<Rightarrow> string \<Rightarrow> json list \<Rightarrow> string option \<Rightarrow> int option \<Rightarrow>
   string option \<Rightarrow> string option \<Rightarrow> int option \<Rightarrow> int option \<Rightarrow> (mem conn, int) act" where
  "add_chunk key revealed txt vec embed_model embed_dim version hash start stop =
     bindA pinned_identity (\<lambda>pin.
     bindA (liftA (chunk_identity pin (int (length vec)) embed_model embed_dim)) (\<lambda>(em, ed).
       ins ([revealed, ed] @ opt_ints start @ opt_ints stop) (\<lambda>book m.
         let i = next_rowid (map ck_id (chunks m)) in (i, m\<lparr>chunks := chunks m @
         [\<lparr>f_book = book, f_rev = revealed, f_invalid = None, f_retracted = None, ck_id = i, ck_key = key,
           ck_text = txt, ck_vec = JList vec, ck_model = em, ck_dim = ed, ck_version = version, ck_hash = hash,
           ck_start = start, ck_end = stop\<rparr>]\<rparr>))))"

definition coalesce :: "'a option \<Rightarrow> 'a option \<Rightarrow> 'a option" where
  "coalesce x y = (case x of None \<Rightarrow> y | Some _ \<Rightarrow> x)"

definition unstamped :: "string \<Rightarrow> mem \<Rightarrow> nat" where
  "unstamped book m = length (filter (\<lambda>k. f_book k = book \<and> ck_model k = None \<and> f_retracted k = None) (chunks m))"

definition pin_models ::
  "string option \<Rightarrow> string option \<Rightarrow> string option \<Rightarrow> int option \<Rightarrow> json option \<Rightarrow> (mem conn, unit) act" where
  "pin_models extractor synth embed_model embed_dim canary = with_book (\<lambda>book. bindA
     (if embed_model \<noteq> None
      then bindA (writer (query [T_chunks] (unstamped book)))
             (\<lambda>n. if n \<noteq> 0 then raise (ValueError ''unstamped chunks exist'') else ret ())
      else ret ())
     (\<lambda>_. writer (exec_dml [T_book_meta] (opt_ints embed_dim) (\<lambda>m. ((), m\<lparr>meta :=
        update_where (\<lambda>r. mt_book r = book) (\<lambda>r. r\<lparr>mt_extractor := coalesce (mt_extractor r) extractor,
          mt_synth := coalesce (mt_synth r) synth, mt_embed := coalesce (mt_embed r) embed_model,
          mt_dim := coalesce (mt_dim r) embed_dim, mt_canary := coalesce (mt_canary r) canary\<rparr>) (meta m)\<rparr>)))))"

definition stale_chunks :: "string \<Rightarrow> string \<Rightarrow> int \<Rightarrow> mem \<Rightarrow> nat" where
  "stale_chunks book embed_model embed_dim m = length (filter (\<lambda>k. f_book k = book \<and> f_retracted k = None \<and>
     (ck_model k = None \<or> ck_model k \<noteq> Some embed_model \<or> ck_dim k \<noteq> embed_dim)) (chunks m))"

definition repin_embedding :: "string \<Rightarrow> int \<Rightarrow> json option \<Rightarrow> (mem conn, unit) act" where
  "repin_embedding embed_model embed_dim canary = with_book (\<lambda>book. bindA
     (writer (if int64 embed_dim then query [T_chunks] (stale_chunks book embed_model embed_dim) else raise OverflowError))
     (\<lambda>stale. if stale \<noteq> 0 then raise (ValueError ''cannot repin: live chunks under a different model'')
        else writer (exec_dml [T_book_meta] [embed_dim] (\<lambda>m. ((), m\<lparr>meta :=
          update_where (\<lambda>r. mt_book r = book) (\<lambda>r. r\<lparr>mt_embed := Some embed_model, mt_dim := Some embed_dim,
            mt_canary := canary\<rparr>) (meta m)\<rparr>)))))"

section \<open>Book profile and content language\<close>

definition set_book_profile :: "string \<Rightarrow> rat \<Rightarrow> pyval \<Rightarrow> string list \<Rightarrow> (mem conn, unit) act" where
  "set_book_profile book_type confidence detector_version signals = with_book (\<lambda>book.
     if book_type \<notin> set BOOK_TYPES then raise (ValueError ''unsupported book type'')
     else if \<not> (0 \<le> confidence \<and> confidence \<le> 1) then raise (ValueError ''confidence must be between 0 and 1'')
     else case detector_version of
       PyStr dv \<Rightarrow>
         if strip dv = [] then raise (ValueError ''detector version is required'')
         else if length signals > 12 \<or> list_ex (\<lambda>s. s \<notin> set BOOK_PROFILE_SIGNALS) signals
           then raise (ValueError ''signals must use the bounded detector vocabulary'')
         else writer (exec_dml [T_book_meta] [] (\<lambda>m. ((), m\<lparr>meta :=
                update_where (\<lambda>r. mt_book r = book) (\<lambda>r. r\<lparr>mt_type := book_type, mt_confidence := confidence,
                  mt_detector := dv, mt_signals := signals\<rparr>) (meta m)\<rparr>)))
     | _ \<Rightarrow> raise (ValueError ''detector version is required''))"

definition book_profile :: "(mem conn, book_profile_t) act" where
  "book_profile = with_book (\<lambda>book. bindA (writer (query [T_book_meta] (meta_of book)))
     (\<lambda>row. case row of
        None \<Rightarrow> raise (RuntimeError ''book profile metadata is missing'')
      | Some r \<Rightarrow>
          if mt_type r \<notin> set BOOK_TYPES then raise (RuntimeError ''book profile metadata is invalid'')
          else ret \<lparr>bp_type = mt_type r, bp_confidence = mt_confidence r, bp_detector = mt_detector r,
                 bp_signals = mt_signals r\<rparr>))"

definition set_content_language :: "pyval \<Rightarrow> (mem conn, unit) act" where
  "set_content_language v = with_book (\<lambda>book.
     let normalized = normalize_content_language v;
         supplied = (case v of PyStr s \<Rightarrow> lower (replace_char (CHR ''_'') (CHR ''-'') (strip s)) | _ \<Rightarrow> [])
     in if normalized = ''und'' \<and> supplied \<noteq> ''und''
        then raise (ValueError ''content language must be a valid tag or und'')
        else writer (exec_dml [T_book_meta] [] (\<lambda>m. ((), m\<lparr>meta :=
               update_where (\<lambda>r. mt_book r = book) (\<lambda>r. r\<lparr>mt_language := normalized\<rparr>) (meta m)\<rparr>))))"

definition content_language :: "(mem conn, string) act" where
  "content_language = with_book (\<lambda>book. bindA (writer (query [T_book_meta] (meta_of book)))
     (\<lambda>row. case row of
        None \<Rightarrow> raise (RuntimeError ''content language metadata is missing'')
      | Some r \<Rightarrow>
          (let language = normalize_content_language (PyStr (mt_language r)) in
           if language \<noteq> mt_language r then raise (RuntimeError ''content language metadata is malformed'')
           else ret language)))"

section \<open>Transaction-time retraction\<close>

text \<open>\<^verbatim>\<open>_retract\<close> on the two tables the code retracts rows of, with their conditions.\<close>

definition retract_rows :: "('r fact_scheme \<Rightarrow> bool) \<Rightarrow> string \<Rightarrow> 'r fact_scheme list \<Rightarrow> 'r fact_scheme list" where
  "retract_rows P now rows = update_where (\<lambda>r. f_retracted r = None \<and> P r) (\<lambda>r. r\<lparr>f_retracted := Some now\<rparr>) rows"

definition retract_summaries :: "string \<Rightarrow> string \<Rightarrow> string \<Rightarrow> (mem conn, unit) act" where
  "retract_summaries key kind now = with_book (\<lambda>book. writer (exec_dml [T_chapter_summaries] [] (\<lambda>m. ((),
     m\<lparr>summaries := retract_rows (\<lambda>s. f_book s = book \<and> sm_key s = key \<and> sm_kind s = kind) now (summaries m)\<rparr>))))"

definition retract_chunks :: "string \<Rightarrow> string \<Rightarrow> (mem conn, unit) act" where
  "retract_chunks key now = with_book (\<lambda>book. writer (exec_dml [T_chunks] [] (\<lambda>m. ((),
     m\<lparr>chunks := retract_rows (\<lambda>k. f_book k = book \<and> ck_key k = key) now (chunks m)\<rparr>))))"

definition reextract_summary :: "string \<Rightarrow> int \<Rightarrow> string \<Rightarrow> string \<Rightarrow> string \<Rightarrow> string \<Rightarrow> (mem conn, int) act" where
  "reextract_summary key revealed new_summary kind xv now =
     bindA (retract_summaries key kind now) (\<lambda>_. add_summary key revealed new_summary kind xv now)"

definition reextract_entity :: "int \<Rightarrow> string \<Rightarrow> string option \<Rightarrow> string \<Rightarrow> string \<Rightarrow> (mem conn, int) act" where
  "reextract_entity entity name ty xv now = with_book (\<lambda>book. bindA
     (writer (exec_dml [T_entities] [entity] (\<lambda>m. ((), m\<lparr>entities :=
        update_where (\<lambda>e. en_id e = entity \<and> f_book e = book)
          (\<lambda>e. e\<lparr>en_name := name, en_type := (case ty of None \<Rightarrow> en_type e | Some t \<Rightarrow> t),
                  en_stamp := (en_stamp e)\<lparr>s_extractor := xv, s_recorded := now\<rparr>\<rparr>) (entities m)\<rparr>))))
     (\<lambda>_. ret entity))"

text \<open>The canonical tables of one chapter, in one writer scope.\<close>

definition retract_chapter :: "string \<Rightarrow> string \<Rightarrow> (mem conn, unit) act" where
  "retract_chapter key now = with_book (\<lambda>book. writer
     (bindA (exec_dml [T_chapters] [] (\<lambda>m. ((), m\<lparr>chapters := retract_rows (\<lambda>r. f_book r = book \<and> ch_key r = key) now (chapters m)\<rparr>))) (\<lambda>_.
      bindA (exec_dml [T_raw_chapters] [] (\<lambda>m. ((), m\<lparr>raw_chapters := retract_rows (\<lambda>r. f_book r = book \<and> raw_key r = key) now (raw_chapters m)\<rparr>))) (\<lambda>_.
      bindA (exec_dml [T_chapter_summaries] [] (\<lambda>m. ((), m\<lparr>summaries := retract_rows (\<lambda>r. f_book r = book \<and> sm_key r = key) now (summaries m)\<rparr>))) (\<lambda>_.
      bindA (exec_dml [T_chunks] [] (\<lambda>m. ((), m\<lparr>chunks := retract_rows (\<lambda>r. f_book r = book \<and> ck_key r = key) now (chunks m)\<rparr>))) (\<lambda>_.
      bindA (exec_dml [T_retrieval_index_chapters] [] (\<lambda>m. ((), m\<lparr>index_chapters := retract_rows (\<lambda>r. f_book r = book \<and> ri_key r = key) now (index_chapters m)\<rparr>))) (\<lambda>_.
        exec_dml [T_retrieval_index_batches] [] (\<lambda>m. ((), m\<lparr>index_batches := retract_rows (\<lambda>r. f_book r = book \<and> rb_key r = key) now (index_batches m)\<rparr>)))))))))"

section \<open>Supersession\<close>

lemma replace_edge_Inr:
  assumes "replace_edge old end_at rel label xv now c = (Inr new, c')"
  shows "\<exists>e. find (\<lambda>e. ed_id e = old \<and> f_book e = book_id c) (edges (working c)) = Some e \<and>
    new = next_rowid (map ed_id (edges (working c))) \<and> schema_ok (working c') \<and>
    edges (working c') = update_where (\<lambda>e. ed_id e = old \<and> f_book e = book_id c)
        (\<lambda>e. e\<lparr>f_invalid := Some end_at\<rparr>) (edges (working c)) @
      [\<lparr>f_book = book_id c, f_rev = end_at, f_invalid = None, f_retracted = None, ed_id = new, ed_src = ed_src e,
        ed_dst = ed_dst e, ed_rel = rel, ed_label = label, ed_stamp = stamp_of xv now\<rparr>]"
proof -
  from writer_Inr [OF assms [unfolded replace_edge_def with_book_def]] obtain c1 where
    body: "bindA (if int64 old then query [T_edges] (\<lambda>m. find (\<lambda>e. ed_id e = old \<and> f_book e = book_id c) (edges m)) else raise OverflowError)
     (\<lambda>row. case row of
        None \<Rightarrow> raise (ValueError ''no such edge in this book'')
      | Some e \<Rightarrow> bindA
          (exec_dml [T_edges] [end_at, old] (\<lambda>m. ((), m\<lparr>edges :=
             update_where (\<lambda>e. ed_id e = old \<and> f_book e = book_id c) (\<lambda>e. e\<lparr>f_invalid := Some end_at\<rparr>) (edges m)\<rparr>)))
          (\<lambda>_. exec_dml [] [ed_src e, ed_dst e, end_at] (\<lambda>m.
             let i = next_rowid (map ed_id (edges m)) in (i, m\<lparr>edges := edges m @
             [\<lparr>f_book = book_id c, f_rev = end_at, f_invalid = None, f_retracted = None, ed_id = i, ed_src = ed_src e,
               ed_dst = ed_dst e, ed_rel = rel, ed_label = label, ed_stamp = stamp_of xv now\<rparr>]\<rparr>))))
      (c\<lparr>engaged := True\<rparr>) = (Inr new, c1)" and c1: "working c' = working c1" by auto
  from body obtain e c2 where
    e: "Some e = find (\<lambda>e. ed_id e = old \<and> f_book e = book_id c) (edges (working c))" and
    upd: "exec_dml [T_edges] [end_at, old] (\<lambda>m. ((), m\<lparr>edges :=
             update_where (\<lambda>e. ed_id e = old \<and> f_book e = book_id c) (\<lambda>e. e\<lparr>f_invalid := Some end_at\<rparr>) (edges m)\<rparr>))
           (c\<lparr>engaged := True\<rparr>) = (Inr (), c2)" and
    app: "exec_dml [] [ed_src e, ed_dst e, end_at] (\<lambda>m.
             let i = next_rowid (map ed_id (edges m)) in (i, m\<lparr>edges := edges m @
             [\<lparr>f_book = book_id c, f_rev = end_at, f_invalid = None, f_retracted = None, ed_id = i, ed_src = ed_src e,
               ed_dst = ed_dst e, ed_rel = rel, ed_label = label, ed_stamp = stamp_of xv now\<rparr>]\<rparr>)) c2 = (Inr new, c1)"
    by (auto simp: bindA_Inr raise_def dest!: query_Inr split: if_splits option.splits)
  from exec_dml_Inr [OF upd] exec_dml_Inr [OF app] e c1 show ?thesis
    by (intro exI [where x = e]) (auto simp: Let_def map_update_where)
qed

lemma valid_span_of_schema: "schema_ok m \<Longrightarrow> e \<in> set (edges m) \<Longrightarrow> valid_span e"
  by (simp add: schema_ok_def edges_ok_def list_all_iff)

section \<open>Properties\<close>

text \<open>
  Superseding a relationship leaves no gap and no overlap. When \<^verbatim>\<open>replace_edge\<close> returns,
  the new relationship joins the same two entities under a fresh id, starts exactly where the old one
  ends, and at every bookmark from which the old one was known exactly one of the two is visible.
\<close>
theorem superseded_relationship_has_no_gap:
  assumes "replace_edge old end_at rel label xv now c = (Inr new, c')"
  shows "\<exists>e old_row new_row. e \<in> set (edges (working c)) \<and> ed_id e = old \<and> f_book e = book_id c \<and>
    old_row \<in> set (edges (working c')) \<and> old_row = e\<lparr>f_invalid := Some end_at\<rparr> \<and>
    new_row \<in> set (edges (working c')) \<and> ed_id new_row = new \<and> new \<notin> ed_id ` set (edges (working c)) \<and>
    (ed_src new_row, ed_dst new_row, ed_rel new_row) = (ed_src e, ed_dst e, rel) \<and> f_rev e < end_at \<and>
    (\<forall>b. spoiler_clause T_edges (book_id c) b new_row = (end_at \<le> b)) \<and>
    (f_retracted e = None \<longrightarrow> (\<forall>b. spoiler_clause T_edges (book_id c) b old_row = (f_rev e \<le> b \<and> b < end_at)))"
proof -
  from replace_edge_Inr [OF assms] obtain e where
    e: "find (\<lambda>e. ed_id e = old \<and> f_book e = book_id c) (edges (working c)) = Some e" and
    new: "new = next_rowid (map ed_id (edges (working c)))" and ok: "schema_ok (working c')" and
    edges: "edges (working c') = update_where (\<lambda>e. ed_id e = old \<and> f_book e = book_id c)
        (\<lambda>e. e\<lparr>f_invalid := Some end_at\<rparr>) (edges (working c)) @
      [\<lparr>f_book = book_id c, f_rev = end_at, f_invalid = None, f_retracted = None, ed_id = new, ed_src = ed_src e,
        ed_dst = ed_dst e, ed_rel = rel, ed_label = label, ed_stamp = stamp_of xv now\<rparr>]" by blast
  from e have e_in: "e \<in> set (edges (working c))" and e_id: "ed_id e = old" "f_book e = book_id c"
    by (auto simp: find_Some_iff)
  have old_in: "e\<lparr>f_invalid := Some end_at\<rparr> \<in> set (edges (working c'))"
    using e_in e_id by (auto simp: edges update_where_def)
  have span: "f_rev e < end_at"
    using valid_span_of_schema [OF ok old_in] by (simp add: valid_span_def)
  have fresh: "new \<notin> ed_id ` set (edges (working c))" using new next_rowid_fresh by (metis set_map)
  show ?thesis
    by (rule exI [where x = e], rule exI [where x = "e\<lparr>f_invalid := Some end_at\<rparr>"],
        rule exI [where x = "last (edges (working c'))"])
      (use e_in e_id old_in span fresh in \<open>auto simp: edges spoiler_clause_def\<close>)
qed

theorem superseded_relationship_has_no_gap_witness:
  "\<exists>e \<in> set (edges sample_mem). ed_id e = 1 \<and> f_rev e < 4"
proof -
  have "fst (replace_edge 1 4 ''loves'' None ''x'' ''t'' sample_conn) = Inr 2" by code_simp
  then have "replace_edge 1 4 ''loves'' None ''x'' ''t'' sample_conn =
    (Inr 2, snd (replace_edge 1 4 ''loves'' None ''x'' ''t'' sample_conn))" by (simp add: prod_eq_iff)
  from superseded_relationship_has_no_gap [OF this] show ?thesis
    by (auto simp: sample_conn_def conn_on_def)
qed

section \<open>One embedding space\<close>

text \<open>
  The book is pinned to the model \<open>em\<close> of dimension \<open>ed\<close> and every live chunk is in that space.
\<close>

definition in_space :: "string \<Rightarrow> int \<Rightarrow> string \<Rightarrow> mem \<Rightarrow> bool" where
  "in_space em ed book m = (em \<noteq> [] \<and>
     (\<exists>r. meta_of book m = Some r \<and> mt_embed r = Some em \<and> mt_dim r = Some ed) \<and>
     (\<forall>k \<in> set (chunks m). f_book k = book \<and> f_retracted k = None \<longrightarrow> ck_model k = Some em \<and> ck_dim k = ed))"

definition space_kept :: "string \<Rightarrow> int \<Rightarrow> string \<Rightarrow> mem conn \<Rightarrow> bool" where
  "space_kept em ed book c = (book_id c = book \<and> holds (in_space em ed book) c)"

lemma keeps_space:
  assumes "\<And>k. keeps (session_is k) m" and "\<And>c. book_id c = book \<Longrightarrow> holds (in_space em ed book) c \<Longrightarrow> holds (in_space em ed book) (snd (m c))"
  shows "keeps (space_kept em ed book) m"
proof (rule keepsI)
  fix c assume c: "space_kept em ed book c"
  obtain r c' where "m c = (r, c')" by fastforce
  with book_kept [OF assms(1), of c] assms(2) [of c] c show "space_kept em ed book (snd (m c))"
    by (simp add: space_kept_def)
qed

lemma keeps_with_this_book:
  assumes "\<And>k. keeps (session_is k) (with_book f)" and "keeps (holds (in_space em ed book)) (f book)"
  shows "keeps (space_kept em ed book) (with_book f)"
  using assms by (intro keeps_space) (auto simp: with_book_def keeps_def)

lemma find_update_where:
  assumes "\<And>r. P r \<Longrightarrow> P (f r)" and "\<And>r. \<not> P r \<Longrightarrow> \<not> P r"
  shows "find P (update_where P f xs) = map_option f (find P xs)"
  using assms by (induction xs) (auto simp: update_where_def)

lemma meta_of_update:
  assumes "\<And>r. mt_book (f r) = mt_book r"
  shows "meta_of book (m\<lparr>meta := update_where (\<lambda>r. mt_book r = book) f (meta m)\<rparr>) = map_option f (meta_of book m)"
  unfolding meta_of_def using assms by (simp add: find_update_where)

lemma chunk_identity_in_space:
  assumes "in_space em ed book m" and "chunk_identity (meta_of book m) n a d = Inr (em', ed')"
  shows "em' = Some em \<and> ed' = ed"
  using assms by (auto simp: in_space_def chunk_identity_def pin_model_def Let_def or_default_def
      split: if_splits option.splits)

lemma keeps_add_chunk_space:
  "keeps (space_kept em ed book) (add_chunk key revealed txt vec a d version hash start stop)"
proof (rule keeps_space)
  show "keeps (session_is k) (add_chunk key revealed txt vec a d version hash start stop)" for k
    unfolding add_chunk_def pinned_identity_def by (intro keeps_intros)
next
  fix c assume c: "book_id c = book" "holds (in_space em ed book) c"
  have pin_kept: "keeps (holds (in_space em ed book)) pinned_identity"
    unfolding pinned_identity_def by (intro keeps_intros)
  obtain r c1 where pin: "pinned_identity c = (r, c1)" by fastforce
  with pin_kept c have c1: "holds (in_space em ed book) c1" by (metis keepsD snd_conv)
  show "holds (in_space em ed book) (snd (add_chunk key revealed txt vec a d version hash start stop c))"
  proof (cases r)
    case (Inl e)
    with pin c1 show ?thesis by (simp add: add_chunk_def bindA_def)
  next
    case (Inr p)
    with pin c(1) have p: "p = meta_of book (working c)"
      by (auto simp: pinned_identity_def with_book_def dest!: writer_query_Inr)
    show ?thesis
    proof (cases "chunk_identity p (int (length vec)) a d")
      case (Inl e)
      with pin Inr c1 show ?thesis by (simp add: add_chunk_def bindA_def liftA_def)
    next
      case (Inr ident)
      obtain em' ed' where ident: "ident = (em', ed')" by fastforce
      with Inr p c(2) have "em' = Some em \<and> ed' = ed"
        by (intro chunk_identity_in_space) (auto simp: holds_def)
      then have "keeps (holds (in_space em ed book)) (ins ([revealed, ed'] @ opt_ints start @ opt_ints stop) (\<lambda>book m.
         let i = next_rowid (map ck_id (chunks m)) in (i, m\<lparr>chunks := chunks m @
           [\<lparr>f_book = book, f_rev = revealed, f_invalid = None, f_retracted = None, ck_id = i, ck_key = key,
             ck_text = txt, ck_vec = JList vec, ck_model = em', ck_dim = ed', ck_version = version, ck_hash = hash,
             ck_start = start, ck_end = stop\<rparr>]\<rparr>)))"
        by (intro keeps_ins) (auto simp: in_space_def meta_of_def Let_def)
      from keepsD [OF this c1] pin \<open>r = Inr p\<close> Inr ident show ?thesis
        by (simp add: add_chunk_def bindA_def liftA_def)
    qed
  qed
qed

lemma in_space_retract:
  "in_space em ed book m \<Longrightarrow> in_space em ed book (m\<lparr>chunks := retract_rows P now (chunks m)\<rparr>)"
  by (auto simp: in_space_def meta_of_def retract_rows_def dest!: set_update_whereD)

lemma in_space_tables [simp]:
  "in_space em ed book (m\<lparr>chapters := x1\<rparr>) = in_space em ed book m"
  "in_space em ed book (m\<lparr>raw_chapters := x2\<rparr>) = in_space em ed book m"
  "in_space em ed book (m\<lparr>summaries := x3\<rparr>) = in_space em ed book m"
  "in_space em ed book (m\<lparr>index_chapters := x4\<rparr>) = in_space em ed book m"
  "in_space em ed book (m\<lparr>index_batches := x5\<rparr>) = in_space em ed book m"
  by (simp_all add: in_space_def meta_of_def)

lemma in_space_pin:
  assumes "in_space em ed book m"
  shows "in_space em ed book (m\<lparr>meta := update_where (\<lambda>r. mt_book r = book) (\<lambda>r. r\<lparr>mt_extractor := coalesce (mt_extractor r) x,
          mt_synth := coalesce (mt_synth r) y, mt_embed := coalesce (mt_embed r) z,
          mt_dim := coalesce (mt_dim r) d, mt_canary := coalesce (mt_canary r) k\<rparr>) (meta m)\<rparr>)"
  using assms by (auto simp: in_space_def meta_of_update coalesce_def)


text \<open>
  Repinning is safe. When \<^verbatim>\<open>repin_embedding\<close> returns, the book has the new pin and every live
  chunk is already in the new space; it refuses as long as one live chunk is not.
\<close>
theorem repin_leaves_one_space:
  assumes "repin_embedding em ed canary c = (Inr (), c')" and "em \<noteq> []" and "meta_of (book_id c) (working c) \<noteq> None"
  shows "in_space em ed (book_id c) (working c')"
proof -
  let ?g = "\<lambda>m. ((), m\<lparr>meta := update_where (\<lambda>r. mt_book r = book_id c) (\<lambda>r. r\<lparr>mt_embed := Some em, mt_dim := Some ed,
            mt_canary := canary\<rparr>) (meta m)\<rparr>)"
  from assms(1) obtain n c1 where
    n: "writer (if int64 ed then query [T_chunks] (stale_chunks (book_id c) em ed) else raise OverflowError) c = (Inr n, c1)" and
    w: "n = 0" "writer (exec_dml [T_book_meta] [ed] ?g) c1 = (Inr (), c')"
    by (auto simp: repin_embedding_def with_book_def bindA_Inr raise_def split: if_splits)
  from writer_Inr [OF n] w(1) have "stale_chunks (book_id c) em ed (working c) = 0" "working c1 = working c"
    by (auto simp: raise_def dest!: query_Inr split: if_splits)
  moreover from writer_Inr [OF w(2)] have "working c' = snd (?g (working c1))"
    by (auto dest!: exec_dml_Inr)
  ultimately show ?thesis
    using assms(2,3) by (auto simp: in_space_def stale_chunks_def meta_of_update filter_empty_conv)
qed

definition meta_at :: "string \<Rightarrow> string option \<Rightarrow> int option \<Rightarrow> string \<Rightarrow> meta_row" where
  "meta_at book em ed language = \<lparr>mt_book = book, mt_extractor = None, mt_synth = None, mt_embed = em, mt_dim = ed,
     mt_canary = None, mt_type = ''unknown'', mt_confidence = 0, mt_detector = ''d'', mt_signals = [], mt_language = language\<rparr>"

definition chunk_at :: "string \<Rightarrow> int \<Rightarrow> string \<Rightarrow> int \<Rightarrow> json list \<Rightarrow> string option \<Rightarrow> string option \<Rightarrow> chunk_row" where
  "chunk_at book i key revealed vec model retracted = \<lparr>f_book = book, f_rev = revealed, f_invalid = None,
     f_retracted = retracted, ck_id = i, ck_key = key, ck_text = key, ck_vec = JList vec, ck_model = model,
     ck_dim = int (length vec), ck_version = None, ck_hash = None, ck_start = None, ck_end = None\<rparr>"

definition repin_conn :: "mem conn" where
  "repin_conn = conn_on ''b'' 7 (empty_mem\<lparr>meta := [meta_at ''b'' (Some ''m1'') (Some 2) ''und''],
     chapters := [chapter_at ''b'' ''k1'' 1 ''one''],
     chunks := [chunk_at ''b'' 1 ''k1'' 1 [JInt 1, JInt 0] (Some ''m1'') (Some ''t''),
                chunk_at ''b'' 2 ''k1'' 1 [JInt 1, JInt 0, JInt 0] (Some ''m2'') None]\<rparr>)"

theorem repin_leaves_one_space_witness:
  "in_space ''m2'' 3 ''b'' (working (snd (repin_embedding ''m2'' 3 None repin_conn)))"
proof -
  have "fst (repin_embedding ''m2'' 3 None repin_conn) = Inr ()" by code_simp
  then have "repin_embedding ''m2'' 3 None repin_conn = (Inr (), snd (repin_embedding ''m2'' 3 None repin_conn))"
    by (simp add: prod_eq_iff)
  moreover have "meta_of (book_id repin_conn) (working repin_conn) \<noteq> None"
    by (simp add: repin_conn_def conn_on_def meta_of_def meta_at_def)
  ultimately show ?thesis
    using repin_leaves_one_space [of "''m2''" 3 None repin_conn] by (simp add: repin_conn_def conn_on_def)
qed

text \<open>
  The first pin is weaker than a repin. It only refuses unstamped chunks; over a live chunk
  stamped with another model it returns, and that chunk is then outside the pinned space.
\<close>
theorem first_pin_accepts_other_stamps:
  "\<exists>c. fst (pin_models None None (Some ''m2'') (Some 2) None c) = Inr () \<and>
     (\<exists>k \<in> set (chunks (working c)). f_book k = book_id c \<and> f_retracted k = None \<and> ck_model k = Some ''m1'') \<and>
     (\<exists>r. meta_of (book_id c) (working (snd (pin_models None None (Some ''m2'') (Some 2) None c))) = Some r \<and>
        mt_embed r = Some ''m2'')"
proof -
  let ?c = "conn_on ''b'' 7 (empty_mem\<lparr>meta := [meta_at ''b'' None None ''und''],
     chapters := [chapter_at ''b'' ''k1'' 1 ''one''], chunks := [chunk_at ''b'' 1 ''k1'' 1 [JInt 1, JInt 0] (Some ''m1'') None]\<rparr>)"
  have "fst (pin_models None None (Some ''m2'') (Some 2) None ?c) = Inr ()" by code_simp
  moreover have "meta_of ''b'' (working (snd (pin_models None None (Some ''m2'') (Some 2) None ?c))) =
      Some (meta_at ''b'' (Some ''m2'') (Some 2) ''und'')" by code_simp
  ultimately show ?thesis
    by (intro exI [where x = ?c]) (simp add: conn_on_def chunk_at_def meta_at_def)
qed

text \<open>
  Setting the content language of a book and reading it back in the session gives the
  normalised tag; the check that the stored tag is its own normal form never fires on it.
\<close>
theorem content_language_round_trip:
  assumes "set_content_language v c = (Inr (), c')" and "meta_of (book_id c) (working c) \<noteq> None"
    and "assert_in_session c' = (Inr (), c')" and "env_outcomes c' = []"
  shows "fst (content_language c') = Inr (normalize_content_language v)"
proof -
  let ?f = "\<lambda>r. r\<lparr>mt_language := normalize_content_language v\<rparr>"
  let ?g = "\<lambda>m. ((), m\<lparr>meta := update_where (\<lambda>r. mt_book r = book_id c) ?f (meta m)\<rparr>)"
  let ?w = "writer (exec_dml [T_book_meta] [] ?g)"
  from assms(1) have w: "?w c = (Inr (), c')"
    by (auto simp: set_content_language_def with_book_def Let_def raise_def split: if_splits)
  have book: "book_id c' = book_id c"
    by (rule book_kept [where m = ?w]) (use w in \<open>auto intro: keeps_intros\<close>)
  from writer_Inr [OF w] have work: "working c' = snd (?g (working c))" by (auto dest!: exec_dml_Inr)
  from assms(2) obtain r0 where "meta_of (book_id c) (working c) = Some r0" by blast
  with work book have row: "meta_of (book_id c') (working c') = Some (?f r0)" by (simp add: meta_of_update)
  have "fst (writer (query [T_book_meta] (meta_of (book_id c'))) c') = Inr (Some (?f r0))"
    by (simp add: writer_query_sound [OF assms(3,4)] row)
  then obtain c'' where "writer (query [T_book_meta] (meta_of (book_id c'))) c' = (Inr (Some (?f r0)), c'')"
    by (metis prod.collapse)
  then show ?thesis by (simp add: content_language_def with_book_def bindA_def normalize_idem ret_def Let_def)
qed

theorem content_language_round_trip_witness:
  "fst (content_language (snd (set_content_language (PyStr '' PT_br '') repin_conn))) = Inr ''pt-br''"
proof -
  let ?c = "snd (set_content_language (PyStr '' PT_br '') repin_conn)"
  have "fst (set_content_language (PyStr '' PT_br '') repin_conn) = Inr ()" by code_simp
  then have set: "set_content_language (PyStr '' PT_br '') repin_conn = (Inr (), ?c)" by (simp add: prod_eq_iff)
  have "poisoned ?c = False" "active_owner ?c = Some 7" "env_thread ?c = 7" by code_simp+
  then have sess: "assert_in_session ?c = (Inr (), ?c)" by (simp add: assert_in_session_def)
  have out: "env_outcomes ?c = []" by code_simp
  have "meta_of (book_id repin_conn) (working repin_conn) \<noteq> None"
    by (simp add: repin_conn_def conn_on_def meta_of_def meta_at_def)
  from content_language_round_trip [OF set this sess out]
  have "fst (content_language ?c) = Inr (normalize_content_language (PyStr '' PT_br ''))" .
  moreover have "normalize_content_language (PyStr '' PT_br '') = ''pt-br''" by code_simp
  ultimately show ?thesis by simp
qed

end
