(* ===== verification/Ingestion.thy ===== *)
theory Ingestion imports MemAdmin begin

text \<open>
  Sequences of ingestion and supersession writes, alone or inside outer transactions, and the frame
  argument: writes that only concern chapters after a bookmark leave the memory cut at that bookmark
  as it was, on every path (success, constraint failure, rollback, poisoning).
\<close>

section \<open>Runs of writes\<close>

datatype wr_op =
    W_chapter string int string string string string string string string string
  | W_raw string int string string string
  | W_summary string int string string string string
  | W_entity string string int string string
  | W_alias int string int string
  | W_edge int int string "string option" int "int option" string string
  | W_event string int int string "int option" "(int \<times> string option) list" string string
  | W_participant int int "string option" int
  | W_theme string string int string string
  | W_state int int json "int option" string string
  | W_chunk string int string "json list" "string option" "int option"
  | W_mark string string "receipt_cost option" string
  | W_replace_edge int int string "string option" string string
  | W_end_edge int int
  | W_end_event int int
  | W_replace_state int int json string string

definition voidA :: "('s, 'a) act \<Rightarrow> ('s, unit) act" where
  "voidA m = bindA m (\<lambda>_. ret ())"

fun perform :: "wr_op \<Rightarrow> (mem conn, unit) act" where
  "perform (W_chapter key revealed href title fragment part kind hash xv now) =
     voidA (add_chapter key revealed href title fragment part kind hash xv now)"
| "perform (W_raw key revealed txt hash now) = add_raw key revealed txt hash now"
| "perform (W_summary key revealed txt kind xv now) = voidA (add_summary key revealed txt kind xv now)"
| "perform (W_entity name ty revealed xv now) = voidA (add_entity name ty revealed xv now)"
| "perform (W_alias entity surface revealed now) = voidA (add_alias entity surface revealed now)"
| "perform (W_edge src dst rel label revealed invalid xv now) = voidA (add_edge src dst rel label revealed invalid xv now)"
| "perform (W_event summary revealed order_idx kind invalid parts xv now) =
     voidA (add_event summary revealed order_idx kind invalid parts xv now)"
| "perform (W_participant event entity role revealed) = add_event_participant event entity role revealed"
| "perform (W_theme name desc revealed xv now) = voidA (add_theme name desc revealed xv now)"
| "perform (W_state entity revealed status invalid xv now) = voidA (add_state entity revealed status invalid xv now)"
| "perform (W_chunk key revealed txt vec em ed) = voidA (add_chunk key revealed txt vec em ed None None None None)"
| "perform (W_mark key hash cost now) = mark_chapter_ingested key hash cost now"
| "perform (W_replace_edge old end_at rel label xv now) = voidA (replace_edge old end_at rel label xv now)"
| "perform (W_end_edge edge end_at) = end_edge edge end_at"
| "perform (W_end_event event end_at) = end_event event end_at"
| "perform (W_replace_state old end_at status xv now) = voidA (replace_state old end_at status xv now)"

text \<open>A caller makes single writes and outer transactions of writes; it may go on after a failure.\<close>

datatype step = Single wr_op | Atomically "wr_op list"

fun take_step :: "step \<Rightarrow> (mem conn, unit) act" where
  "take_step (Single w) = perform w"
| "take_step (Atomically ws) = transaction (voidA (for_each perform ws))"

fun run_steps :: "step list \<Rightarrow> mem conn \<Rightarrow> mem conn" where
  "run_steps [] c = c"
| "run_steps (s # ss) c = run_steps ss (snd (take_step s c))"

text \<open>
  The writes that concern only what comes after bookmark \<open>b\<close>, given the memory \<open>H\<close> cut at \<open>b\<close>: new
  rows are revealed later, ends are set later and on facts that have not ended by \<open>b\<close>, and a chapter
  known at \<open>b\<close> is not renumbered.
\<close>

fun later_than :: "int \<Rightarrow> mem \<Rightarrow> wr_op \<Rightarrow> bool" where
  "later_than b H (W_chapter key revealed _ _ _ _ _ _ _ _) =
     (b < revealed \<and> list_all (\<lambda>c. ch_key c \<noteq> key) (chapters H))"
| "later_than b H (W_raw _ revealed _ _ _) = (b < revealed)"
| "later_than b H (W_summary _ revealed _ _ _ _) = (b < revealed)"
| "later_than b H (W_entity _ _ revealed _ _) = (b < revealed)"
| "later_than b H (W_alias _ _ revealed _) = (b < revealed)"
| "later_than b H (W_edge _ _ _ _ revealed _ _ _) = (b < revealed)"
| "later_than b H (W_event _ revealed _ _ _ _ _ _) = (b < revealed)"
| "later_than b H (W_participant _ _ _ revealed) = (b < revealed)"
| "later_than b H (W_theme _ _ revealed _ _) = (b < revealed)"
| "later_than b H (W_state _ revealed _ _ _ _) = (b < revealed)"
| "later_than b H (W_chunk _ revealed _ _ _ _) = (b < revealed)"
| "later_than b H (W_mark _ _ _ _) = True"
| "later_than b H (W_replace_edge old end_at _ _ _ _) =
     (b < end_at \<and> list_all (\<lambda>e. ed_id e \<noteq> old \<or> f_invalid e = None) (edges H))"
| "later_than b H (W_end_edge edge end_at) =
     (b < end_at \<and> list_all (\<lambda>e. ed_id e \<noteq> edge \<or> f_invalid e = None) (edges H))"
| "later_than b H (W_end_event event end_at) =
     (b < end_at \<and> list_all (\<lambda>e. ev_id e \<noteq> event \<or> f_invalid e = None) (events H))"
| "later_than b H (W_replace_state old end_at _ _ _) =
     (b < end_at \<and> list_all (\<lambda>s. st_id s \<noteq> old \<or> f_invalid s = None) (states H))"

fun step_later_than :: "int \<Rightarrow> mem \<Rightarrow> step \<Rightarrow> bool" where
  "step_later_than b H (Single w) = later_than b H w"
| "step_later_than b H (Atomically ws) = list_all (later_than b H) ws"

section \<open>Frame rules of the statements\<close>

lemma keeps_voidA [keeps_intros]: "keeps P m \<Longrightarrow> keeps P (voidA m)"
  unfolding voidA_def by (intro keeps_intros)

lemma cut_update_where_mem:
  assumes "\<And>r. P r \<Longrightarrow> f_rev (f r) = f_rev r"
    and "\<And>r. r \<in> set rows \<Longrightarrow> P r \<Longrightarrow> f_rev r \<le> b \<Longrightarrow> veil b (f r) = veil b r"
  shows "cut_at b (update_where P f rows) = cut_at b rows"
  using assms by (induction rows) (auto simp: cut_Cons update_where_def)

lemma cut_set_end:
  assumes "b < end_at" and "list_all (\<lambda>r. \<not> P (veil b r) \<or> f_invalid r = None) (cut_at b rows)"
    and "\<And>r. P (veil b r) = P r"
  shows "cut_at b (update_where (\<lambda>r. P r \<and> R r) (\<lambda>r. r\<lparr>f_invalid := Some end_at\<rparr>) rows) = cut_at b rows"
proof (rule cut_update_where_mem)
  fix r assume r: "r \<in> set rows" "P r \<and> R r" "f_rev r \<le> b"
  with assms(2,3) have "f_invalid (veil b r) = None" by (auto simp: cut_at_def list_all_iff)
  with assms(1) show "veil b (r\<lparr>f_invalid := Some end_at\<rparr>) = veil b r"
    by (auto simp: veil_def split: option.splits if_splits)
qed simp

lemma horizon_updates:
  "cut_at b xs1 = cut_at b (chapters m) \<Longrightarrow> horizon b (m\<lparr>chapters := xs1\<rparr>) = horizon b m"
  "cut_at b xs2 = cut_at b (raw_chapters m) \<Longrightarrow> horizon b (m\<lparr>raw_chapters := xs2\<rparr>) = horizon b m"
  "cut_at b xs3 = cut_at b (summaries m) \<Longrightarrow> horizon b (m\<lparr>summaries := xs3\<rparr>) = horizon b m"
  "cut_at b xs4 = cut_at b (entities m) \<Longrightarrow> horizon b (m\<lparr>entities := xs4\<rparr>) = horizon b m"
  "cut_at b xs5 = cut_at b (aliases m) \<Longrightarrow> horizon b (m\<lparr>aliases := xs5\<rparr>) = horizon b m"
  "cut_at b xs6 = cut_at b (edges m) \<Longrightarrow> horizon b (m\<lparr>edges := xs6\<rparr>) = horizon b m"
  "cut_at b xs7 = cut_at b (events m) \<Longrightarrow> horizon b (m\<lparr>events := xs7\<rparr>) = horizon b m"
  "cut_links b xs8 = cut_links b (participants m) \<Longrightarrow> horizon b (m\<lparr>participants := xs8\<rparr>) = horizon b m"
  "cut_at b xs9 = cut_at b (themes m) \<Longrightarrow> horizon b (m\<lparr>themes := xs9\<rparr>) = horizon b m"
  "cut_at b xs10 = cut_at b (states m) \<Longrightarrow> horizon b (m\<lparr>states := xs10\<rparr>) = horizon b m"
  "cut_at b xs11 = cut_at b (chunks m) \<Longrightarrow> horizon b (m\<lparr>chunks := xs11\<rparr>) = horizon b m"
  "cut_at b xs12 = cut_at b (corrections m) \<Longrightarrow> horizon b (m\<lparr>corrections := xs12\<rparr>) = horizon b m"
  "horizon b (m\<lparr>ingested := xs13\<rparr>) = horizon b m"
  by (simp_all add: horizon_def)

lemma horizon_tables:
  "chapters (horizon b m) = cut_at b (chapters m)" "edges (horizon b m) = cut_at b (edges m)"
  "events (horizon b m) = cut_at b (events m)" "states (horizon b m) = cut_at b (states m)"
  "entities (horizon b m) = cut_at b (entities m)" "aliases (horizon b m) = cut_at b (aliases m)"
  "participants (horizon b m) = cut_links b (participants m)"
  by (simp_all add: horizon_def)

lemma cut_hidden_update:
  assumes "list_all (\<lambda>r. \<not> P r) (cut_at b rows)" and "\<And>r. P (veil b r) = P r" and "\<And>r. b < f_rev (f r)"
  shows "cut_at b (update_where (\<lambda>r. P r \<and> R r) f rows) = cut_at b rows"
  using assms(1)
  by (induction rows) (auto simp: cut_Cons update_where_def assms(2) linorder_not_le assms(3) split: if_splits)

lemma keeps_ins_frame:
  assumes "\<And>book m. horizon b m = H \<Longrightarrow> horizon b (snd (f book m)) = horizon b m"
  shows "keeps (holds (\<lambda>m. horizon b m = H)) (ins ints f)"
  by (rule keeps_ins) (use assms in metis)

lemma keeps_exec_dml_frame:
  assumes "\<And>m. horizon b m = H \<Longrightarrow> horizon b (snd (g m)) = horizon b m"
  shows "keeps (holds (\<lambda>m. horizon b m = H)) (exec_dml reads ints g)"
  by (rule keeps_exec_dml) (use assms in metis)

section \<open>Every write later than the bookmark keeps the cut memory\<close>

lemma frame_add_chapter:
  assumes "b < revealed" and "list_all (\<lambda>c. ch_key c \<noteq> key) (chapters H)"
  shows "keeps (holds (\<lambda>m. horizon b m = H)) (add_chapter key revealed href title fragment part kind hash xv now)"
  unfolding add_chapter_def
proof (intro keeps_intros keeps_ins_frame keeps_exec_dml_frame, goal_cases)
  case (1 book x y m)
  with assms show ?case
    by (auto intro!: horizon_updates(1) cut_hidden_update simp: horizon_tables)
next
  case (2 x book m)
  with assms(1) show ?case by (simp add: horizon_updates cut_Cons)
qed

lemma frame_inserts:
  assumes "b < revealed"
  shows "keeps (holds (\<lambda>m. horizon b m = H)) (add_raw key revealed txt hash now)"
    "keeps (holds (\<lambda>m. horizon b m = H)) (add_summary key revealed txt kind xv now)"
    "keeps (holds (\<lambda>m. horizon b m = H)) (add_entity name ty revealed xv now)"
    "keeps (holds (\<lambda>m. horizon b m = H)) (add_alias entity surface revealed now)"
    "keeps (holds (\<lambda>m. horizon b m = H)) (add_edge src dst rel label revealed invalid xv now)"
    "keeps (holds (\<lambda>m. horizon b m = H)) (add_event_participant event entity role revealed)"
    "keeps (holds (\<lambda>m. horizon b m = H)) (add_theme name desc revealed xv now)"
    "keeps (holds (\<lambda>m. horizon b m = H)) (add_state entity revealed status invalid xv now)"
  unfolding add_raw_def add_summary_def add_entity_def add_alias_def add_edge_def add_event_participant_def
    add_theme_def add_state_def
  by (intro keeps_intros keeps_ins_frame;
      use assms in \<open>simp add: horizon_updates cut_Cons cut_links_Cons Let_def\<close>)+

lemma frame_add_event:
  assumes "b < revealed"
  shows "keeps (holds (\<lambda>m. horizon b m = H)) (add_event summary revealed order_idx kind invalid parts xv now)"
  unfolding add_event_def
  by (intro keeps_intros keeps_ins_frame frame_inserts assms)
    (use assms in \<open>simp add: horizon_updates cut_Cons Let_def\<close>)

lemma frame_add_chunk:
  assumes "b < revealed"
  shows "keeps (holds (\<lambda>m. horizon b m = H)) (add_chunk key revealed txt vec em ed version hash start stop)"
  unfolding add_chunk_def pinned_identity_def
  by (intro keeps_intros keeps_ins_frame)
    (use assms in \<open>simp add: horizon_updates cut_Cons Let_def\<close>)

lemma frame_mark: "keeps (holds (\<lambda>m. horizon b m = H)) (mark_chapter_ingested key hash cost now)"
proof -
  have *: "keeps (holds (\<lambda>m. horizon b m = H)) (ins ints (\<lambda>book m. ((), m\<lparr>ingested := g book m\<rparr>)))" for ints g
    by (rule keeps_ins_frame) (simp add: horizon_updates)
  show ?thesis by (rule keepsI) (auto simp: mark_chapter_ingested_def intro!: keepsD [OF *])
qed

lemma cut_set_end_frame:
  assumes "b < end_at" and "list_all (\<lambda>r. \<not> P r \<or> f_invalid r = None) (cut_at b rows)"
    and "\<And>r. P (veil b r) = P r"
  shows "cut_at b (update_where (\<lambda>r. P r \<and> R r) (\<lambda>r. r\<lparr>f_invalid := Some end_at\<rparr>) rows) = cut_at b rows"
  by (rule cut_set_end) (use assms in auto)

lemma frame_ends:
  assumes "b < end_at"
  shows "list_all (\<lambda>e. ed_id e \<noteq> old \<or> f_invalid e = None) (edges H) \<Longrightarrow>
      keeps (holds (\<lambda>m. horizon b m = H)) (end_edge old end_at)"
    "list_all (\<lambda>e. ev_id e \<noteq> old \<or> f_invalid e = None) (events H) \<Longrightarrow>
      keeps (holds (\<lambda>m. horizon b m = H)) (end_event old end_at)"
  unfolding end_edge_def end_event_def
  by (intro keeps_intros keeps_exec_dml_frame;
      use assms in \<open>auto intro!: horizon_updates cut_set_end_frame simp: horizon_tables\<close>)+

lemma frame_replace_edge:
  assumes "b < end_at" and "list_all (\<lambda>e. ed_id e \<noteq> old \<or> f_invalid e = None) (edges H)"
  shows "keeps (holds (\<lambda>m. horizon b m = H)) (replace_edge old end_at rel label xv now)"
  unfolding replace_edge_def
proof (intro keeps_intros keeps_exec_dml_frame, goal_cases)
  case (1 book row e m)
  with assms show ?case by (auto intro!: horizon_updates cut_set_end_frame simp: horizon_tables)
next
  case (2 book row e u m)
  with assms(1) show ?case by (simp add: horizon_updates cut_Cons Let_def)
qed

lemma frame_replace_state:
  assumes "b < end_at" and "list_all (\<lambda>s. st_id s \<noteq> old \<or> f_invalid s = None) (states H)"
  shows "keeps (holds (\<lambda>m. horizon b m = H)) (replace_state old end_at status xv now)"
  unfolding replace_state_def
proof (intro keeps_intros keeps_exec_dml_frame, goal_cases)
  case (1 book row e m)
  with assms show ?case by (auto intro!: horizon_updates cut_set_end_frame simp: horizon_tables)
next
  case (2 book row e u m)
  with assms(1) show ?case by (simp add: horizon_updates cut_Cons Let_def)
qed

lemma perform_frame: "later_than b H w \<Longrightarrow> keeps (holds (\<lambda>m. horizon b m = H)) (perform w)"
  by (cases w) (auto intro!: keeps_voidA frame_add_chapter frame_inserts frame_add_event frame_add_chunk
      frame_mark frame_ends frame_replace_edge frame_replace_state)

lemma step_frame: "step_later_than b H s \<Longrightarrow> keeps (holds (\<lambda>m. horizon b m = H)) (take_step s)"
proof (cases s)
  case (Atomically ws)
  assume "step_later_than b H s"
  with Atomically have "list_all (later_than b H) ws" by simp
  then have "keeps (holds (\<lambda>m. horizon b m = H)) (for_each perform ws)"
    by (induction ws) (auto intro!: keeps_intros perform_frame)
  with Atomically show ?thesis by (auto intro!: keeps_voidA keeps_transaction_holds)
qed (auto intro: perform_frame)

lemma run_frame:
  "list_all (step_later_than b H) ss \<Longrightarrow> holds (\<lambda>m. horizon b m = H) c \<Longrightarrow>
   holds (\<lambda>m. horizon b m = H) (run_steps ss c)"
  by (induction ss arbitrary: c) (auto dest!: step_frame intro: keepsD)

section \<open>Writes keep the session\<close>

lemmas write_defs = add_chapter_def add_raw_def add_summary_def add_entity_def add_alias_def add_edge_def
  add_event_participant_def add_event_def add_theme_def add_state_def add_chunk_def pinned_identity_def
  replace_edge_def replace_state_def end_edge_def end_event_def

lemma keeps_mark_session [keeps_intros]: "keeps (session_is k) (mark_chapter_ingested key hash cost now)"
  by (rule keepsI) (auto simp: mark_chapter_ingested_def intro: keepsD [OF keeps_ins_session])

lemma perform_session: "keeps (session_is k) (perform w)"
  by (cases w; simp add: write_defs) (intro keeps_intros)+

lemma step_session: "keeps (session_is k) (take_step s)"
  by (cases s; simp) (intro keeps_intros perform_session)+

lemma run_session: "session_is k c \<Longrightarrow> session_is k (run_steps ss c)"
  by (induction ss arbitrary: c) (auto intro: keepsD [OF step_session])

lemma keeps_mark_joined [keeps_intros]: "keeps (joined K) (mark_chapter_ingested key hash cost now)"
  by (rule keepsI) (auto simp: mark_chapter_ingested_def intro: keepsD [OF keeps_ins_joined])

lemma perform_joined: "keeps (joined K) (perform w)"
  by (cases w; simp add: write_defs) (intro keeps_intros)+

section \<open>Properties\<close>

text \<open>
  Property C6: writing on never changes what an earlier bookmark shows. After any sequence of writes and
  outer transactions that concern only what comes after bookmark \<open>b\<close>, successful or failing, every
  structured read at \<open>b\<close> answers as before, unless a failed rollback poisoned the connection.
\<close>
theorem later_writes_keep_earlier_views:
  assumes "working c = committed c" and "list_all (step_later_than b (horizon b (working c))) steps"
    and "poisoned (run_steps steps c) = poisoned c"
  shows "fst (view_read (PyInt b) q (run_steps steps c)) = fst (view_read (PyInt b) q c)"
proof -
  have "holds (\<lambda>m. horizon b m = horizon b (working c)) (run_steps steps c)"
    using assms(1,2) by (intro run_frame) (simp_all add: holds_def)
  moreover have "session_is (book_id c, active_owner c, env_thread c) (run_steps steps c)"
    by (rule run_session) (simp add: session_is_def)
  ultimately have "low b (run_steps steps c) c"
    using assms(3) by (simp add: low_def holds_def session_is_def)
  moreover have "blind b (view_read (PyInt b) q)"
    unfolding view_read_PyInt by (rule blind_read_at)
  ultimately show ?thesis by (metis blindD(2))
qed

theorem later_writes_keep_earlier_views_witness:
  "fst (view_read (PyInt 2) Q_characters (run_steps [Single (W_entity ''Cy'' ''character'' 3 ''x'' ''t''),
       Atomically [W_end_edge 1 4, W_entity ''Di'' ''character'' 4 ''x'' ''t'']] sample_conn)) =
   fst (view_read (PyInt 2) Q_characters sample_conn)"
proof (rule later_writes_keep_earlier_views)
  show "working sample_conn = committed sample_conn" by (simp add: sample_conn_def conn_on_def)
  show "list_all (step_later_than 2 (horizon 2 (working sample_conn)))
      [Single (W_entity ''Cy'' ''character'' 3 ''x'' ''t''),
       Atomically [W_end_edge 1 4, W_entity ''Di'' ''character'' 4 ''x'' ''t'']]" by code_simp
  show "poisoned (run_steps [Single (W_entity ''Cy'' ''character'' 3 ''x'' ''t''),
       Atomically [W_end_edge 1 4, W_entity ''Di'' ''character'' 4 ''x'' ''t'']] sample_conn) =
     poisoned sample_conn" by code_simp
qed

interpretation batch: scoped_body "voidA (for_each perform ws)"
  by unfold_locales (intro keeps_intros perform_joined)

text \<open>
  Property C31: a batch of writes in an outer transaction is atomic. If it raises, for whatever reason
  (a constraint, a guard, BEGIN, COMMIT or ROLLBACK failing), nothing of it is durable or visible; if
  it returns, every write succeeded in order and exactly their result is durable.
\<close>
theorem batch_is_atomic:
  assumes "working c = committed c"
  shows "case take_step (Atomically ws) c of
      (Inl _, c') \<Rightarrow> committed c' = committed c \<and> working c' = committed c
    | (Inr _, c') \<Rightarrow> (\<exists>c0 us c1. transaction_enter c = (Inr (), c0) \<and> working c0 = committed c \<and>
        for_each perform ws c0 = (Inr us, c1) \<and> committed c' = working c1 \<and> working c' = working c1)"
proof (cases "take_step (Atomically ws) c")
  case (Pair r c')
  show ?thesis
  proof (cases r)
    case (Inl e)
    with Pair assms show ?thesis using batch.failure_leaves_durable by auto
  next
    case (Inr u)
    with Pair have "transaction (voidA (for_each perform ws)) c = (Inr u, c')" by simp
    from batch.success_is_body [OF this] obtain c0 c1 where c0: "transaction_enter c = (Inr (), c0)"
      and body: "voidA (for_each perform ws) c0 = (Inr u, c1)"
      and fin: "committed c' = working c1" "working c' = working c1" by blast
    from body obtain us where "for_each perform ws c0 = (Inr us, c1)"
      by (auto simp: voidA_def bindA_ret_Inr)
    with c0 fin transaction_enter_Inr [OF c0] assms Pair Inr show ?thesis by auto
  qed
qed

theorem batch_is_atomic_witness:
  "committed (snd (take_step (Atomically [W_entity ''Cy'' ''character'' 3 ''x'' ''t'', W_alias 99 ''C'' 3 ''t'']) sample_conn)) = sample_mem"
proof -
  have c: "working sample_conn = committed sample_conn" "committed sample_conn = sample_mem"
    by (simp_all add: sample_conn_def conn_on_def)
  have "\<not> succeeded (fst (take_step (Atomically [W_entity ''Cy'' ''character'' 3 ''x'' ''t'', W_alias 99 ''C'' 3 ''t'']) sample_conn))"
    by code_simp
  with batch_is_atomic [OF c(1), of "[W_entity ''Cy'' ''character'' 3 ''x'' ''t'', W_alias 99 ''C'' 3 ''t'']"] c(2)
  show ?thesis by (auto split: prod.splits sum.splits)
qed

section \<open>Failures inside an outer transaction are not lost\<close>

text \<open>
  \<open>nested f\<close>: inside an outer transaction of a sound session; if \<open>f\<close>, a nested scope has failed.
\<close>

definition nested :: "bool \<Rightarrow> 'c conn \<Rightarrow> bool" where
  "nested f c = (transaction_active c \<and> \<not> poisoned c \<and> active_owner c = Some (env_thread c) \<and>
     (f \<longrightarrow> transaction_failed c))"

definition flags :: "('c conn, 'a) act \<Rightarrow> bool" where
  "flags m = (\<forall>c. nested False c \<longrightarrow> \<not> succeeded (fst (m c)) \<longrightarrow> transaction_failed (snd (m c)))"

named_theorems flags_intros "methods whose failure marks the outer transaction"

lemma nested_update [simp]:
  "nested f (c\<lparr>engaged := b\<rparr>) = nested f c" "nested f (c\<lparr>working := m\<rparr>) = nested f c"
  "nested f c \<Longrightarrow> nested f (c\<lparr>transaction_failed := True\<rparr>)"
  by (simp_all add: nested_def)

lemma keeps_stmt_nested [keeps_intros]: "keeps (nested f) (stmt reads g)"
  by (auto simp: keeps_def stmt_def split: sum.splits)

lemma nested_writer:
  assumes "nested False c"
  shows "writer body c = (case body (c\<lparr>engaged := True\<rparr>) of (r, c1) \<Rightarrow>
     case writer_exit r c1 of (r', c2) \<Rightarrow> (r', c2\<lparr>engaged := engaged c\<rparr>))"
  using assms by (simp add: writer_def bindA_def assert_in_session_def nested_def)

lemma nested_weaken: "nested f c \<Longrightarrow> nested False c"
  by (simp add: nested_def)

lemma keeps_writer_nested [keeps_intros]:
  assumes "keeps (nested f) body"
  shows "keeps (nested f) (writer body)"
proof (rule keepsI)
  fix c :: "'a conn" assume c: "nested f c"
  with assms have "nested f (snd (body (c\<lparr>engaged := True\<rparr>)))" by (simp add: keepsD)
  then show "nested f (snd (writer body c))"
    unfolding nested_writer [OF nested_weaken [OF c]]
    by (auto simp: writer_exit_def nested_def split: prod.splits)
qed

lemma flags_writer [flags_intros]:
  assumes "keeps (nested False) body"
  shows "flags (writer body)"
  unfolding flags_def
proof (intro allI impI)
  fix c assume c: "nested False c" and failed: "\<not> succeeded (fst (writer body c))"
  obtain r c1 where body: "body (c\<lparr>engaged := True\<rparr>) = (r, c1)" by fastforce
  with c assms have "nested False c1" by (metis keepsD nested_update(1) snd_conv)
  then have "writer_exit r c1 = (r, if succeeded r then c1 else c1\<lparr>transaction_failed := True\<rparr>)"
    by (simp add: writer_exit_def nested_def)
  with failed show "transaction_failed (snd (writer body c))"
    by (simp add: nested_writer [OF c] body split: if_splits)
qed

lemma flags_ret [flags_intros]: "flags (ret x)"
  by (simp add: flags_def ret_def)

lemma flags_bindA [flags_intros]:
  assumes "keeps (nested False) m" "flags m" "\<And>x. flags (f x)"
  shows "flags (bindA m f)"
  unfolding flags_def
proof (intro allI impI)
  fix c assume c: "nested False c" and failed: "\<not> succeeded (fst (bindA m f c))"
  obtain r c1 where m: "m c = (r, c1)" by fastforce
  with assms(1) c have "nested False c1" by (metis keepsD snd_conv)
  with m c failed assms(2,3) show "transaction_failed (snd (bindA m f c))"
    by (cases r) (auto simp: bindA_def flags_def dest!: spec [where x = c])
qed

lemma flags_for_each [flags_intros]:
  "(\<And>x. keeps (nested False) (f x)) \<Longrightarrow> (\<And>x. flags (f x)) \<Longrightarrow> flags (for_each f xs)"
  by (induction xs) (auto intro!: flags_intros keeps_intros)

lemma flags_case_prod [flags_intros]:
  "(\<And>y z. x = (y, z) \<Longrightarrow> flags (f y z)) \<Longrightarrow> flags (case x of (y, z) \<Rightarrow> f y z)"
  by (cases x) auto

lemma flags_if [flags_intros]: "flags m \<Longrightarrow> flags n \<Longrightarrow> flags (if b then m else n)"
  by simp

lemma keeps_ins_nested [keeps_intros]: "keeps (nested f) (ins ints g)"
  by (rule keepsI) (simp add: ins_def keepsD keeps_writer_nested keeps_stmt_nested)

lemma keeps_exec_dml_nested [keeps_intros]: "keeps (nested f) (exec_dml reads ints g)"
  unfolding exec_dml_def by (rule keeps_stmt_nested)

lemma keeps_mark_nested [keeps_intros]: "keeps (nested f) (mark_chapter_ingested key hash cost now)"
  by (rule keepsI) (auto simp: mark_chapter_ingested_def intro: keepsD [OF keeps_ins_nested])

lemma flags_ins [flags_intros]: "flags (ins ints g)"
proof -
  have "flags (writer (stmt [] (\<lambda>m. bind_ints ints (constrained (g book m)))))" for book
    by (intro flags_intros keeps_intros)
  then show ?thesis unfolding flags_def ins_def by blast
qed

lemma flags_with_book [flags_intros]: "(\<And>book. flags (f book)) \<Longrightarrow> flags (with_book f)"
  by (simp add: flags_def with_book_def)

lemma flags_voidA [flags_intros]: "keeps (nested False) m \<Longrightarrow> flags m \<Longrightarrow> flags (voidA m)"
  unfolding voidA_def by (intro flags_intros)

lemma flags_mark [flags_intros]: "flags (mark_chapter_ingested key hash cost now)"
  using flags_ins unfolding flags_def mark_chapter_ingested_def [abs_def] by (simp add: nested_def)

lemma perform_nested: "keeps (nested f) (perform w)"
  by (cases w; simp add: write_defs) (intro keeps_intros)+

fun guarded_write :: "wr_op \<Rightarrow> bool" where
  "guarded_write (W_chunk _ _ _ _ _ _) = False"
| "guarded_write _ = True"

lemma perform_flags: "guarded_write w \<Longrightarrow> flags (perform w)"
  by (cases w; simp add: write_defs) (intro flags_intros keeps_intros)+

text \<open>A caller that catches whatever a write raises and goes on.\<close>

definition attempt :: "('s, 'a) act \<Rightarrow> ('s, bool) act" where
  "attempt m s = (case m s of (r, s') \<Rightarrow> (Inr (succeeded r), s'))"

lemma attempt_Inr: "(attempt m s = (Inr b, s')) = (\<exists>r. m s = (r, s') \<and> b = succeeded r)"
  by (auto simp: attempt_def split: prod.splits)

lemma attempts_flag:
  assumes "list_all guarded_write ws" and "nested f c" and "for_each (\<lambda>w. attempt (perform w)) ws c = (Inr oks, c')"
  shows "nested f c' \<and> (list_all (\<lambda>ok. ok) oks \<or> transaction_failed c')"
  using assms
proof (induction ws arbitrary: c f oks)
  case Nil
  then show ?case by (simp add: ret_def)
next
  case (Cons w ws)
  obtain r c1 where w: "perform w c = (r, c1)" by fastforce
  from Cons.prems(3) w obtain oks' where rest: "for_each (\<lambda>w. attempt (perform w)) ws c1 = (Inr oks', c')"
    and oks: "oks = succeeded r # oks'"
    by (auto simp: bindA_Inr attempt_Inr ret_def)
  have c1: "nested f c1" using perform_nested Cons.prems(2) w by (metis keepsD snd_conv)
  have ws: "list_all guarded_write ws" using Cons.prems(1) by simp
  from Cons.IH [OF ws c1 rest] have f: "nested f c'" "list_all (\<lambda>ok. ok) oks' \<or> transaction_failed c'" by simp_all
  show ?case
  proof (cases "succeeded r")
    case True
    with f oks show ?thesis by simp
  next
    case False
    have "flags (perform w)" using Cons.prems(1) by (simp add: perform_flags)
    with False w nested_weaken [OF Cons.prems(2)] have "transaction_failed c1"
      unfolding flags_def by (metis fst_conv snd_conv)
    with c1 have "nested True c1" by (simp add: nested_def)
    from Cons.IH [OF ws this rest] f show ?thesis by (simp add: nested_def)
  qed
qed

lemma keeps_attempt_joined [keeps_intros]: "keeps (joined K) m \<Longrightarrow> keeps (joined K) (attempt m)"
  by (auto simp: keeps_def attempt_def split: prod.splits)

interpretation attempts: scoped_body "for_each (\<lambda>w. attempt (perform w)) ws"
  by unfold_locales (intro keeps_intros perform_joined)

text \<open>
  A write failure inside an outer transaction cannot be swallowed. If the caller catches
  the exception of a failed write and goes on to leave the transaction normally, the transaction is
  rolled back and raises; it returns only if every write succeeded, and otherwise nothing is durable.
\<close>
theorem swallowed_failure_rolls_back:
  assumes "working c = committed c" and "list_all guarded_write ws"
  shows "case transaction (for_each (\<lambda>w. attempt (perform w)) ws) c of
      (Inl _, c') \<Rightarrow> committed c' = committed c \<and> working c' = committed c
    | (Inr oks, c') \<Rightarrow> list_all (\<lambda>ok. ok) oks"
proof (cases "transaction (for_each (\<lambda>w. attempt (perform w)) ws) c")
  case (Pair r c')
  show ?thesis
  proof (cases r)
    case (Inl e)
    with Pair assms(1) show ?thesis using attempts.failure_leaves_durable by auto
  next
    case (Inr oks)
    with Pair attempts.success_is_body [of ws c oks c'] obtain c0 c1 where
      enter: "transaction_enter c = (Inr (), c0)" and
      body: "for_each (\<lambda>w. attempt (perform w)) ws c0 = (Inr oks, c1)" and ok: "\<not> transaction_failed c1"
      by blast
    from enter have "nested False c0"
      by (auto simp: transaction_enter_def bindA_def assert_in_session_def nested_def
          split: prod.splits bool.splits if_splits dest!: outcome_fields)
    from attempts_flag [OF assms(2) this body] ok Pair Inr show ?thesis by simp
  qed
qed

theorem swallowed_failure_rolls_back_witness:
  "committed (snd (transaction (for_each (\<lambda>w. attempt (perform w)) [W_entity ''Cy'' ''character'' 3 ''x'' ''t'', W_alias 99 ''C'' 3 ''t'']) sample_conn)) = sample_mem"
proof -
  have c: "working sample_conn = committed sample_conn" "committed sample_conn = sample_mem"
    by (simp_all add: sample_conn_def conn_on_def)
  have ws: "list_all guarded_write [W_entity ''Cy'' ''character'' 3 ''x'' ''t'', W_alias 99 ''C'' 3 ''t'']" by simp
  have "\<not> succeeded (fst (transaction (for_each (\<lambda>w. attempt (perform w)) [W_entity ''Cy'' ''character'' 3 ''x'' ''t'', W_alias 99 ''C'' 3 ''t'']) sample_conn))"
    by code_simp
  with swallowed_failure_rolls_back [OF c(1) ws] c(2) show ?thesis by (auto split: prod.splits sum.splits)
qed

lemma transaction_enter_book: "transaction_enter c = (Inr u, c') \<Longrightarrow> book_id c' = book_id c"
  by (auto simp: transaction_enter_def bindA_def assert_in_session_def
        split: prod.splits bool.splits if_splits dest!: outcome_fields)

section \<open>What holds of the working content inside a transaction\<close>

definition inside :: "('c \<Rightarrow> bool) \<Rightarrow> 'c conn \<Rightarrow> bool" where
  "inside Q c = (transaction_active c \<and> Q (working c))"

lemma keeps_writer_inside [keeps_intros]:
  assumes "keeps (inside Q) body"
  shows "keeps (inside Q) (writer body)"
  unfolding writer_def
proof (intro keeps_bindA keeps_assert_in_session keepsI)
  fix x :: unit and c :: "'a conn" assume "inside Q c"
  then have "inside Q (c\<lparr>engaged := True\<rparr>)" by (simp add: inside_def)
  with assms have "inside Q (snd (body (c\<lparr>engaged := True\<rparr>)))" by (rule keepsD)
  then show "inside Q (snd (case body (c\<lparr>engaged := True\<rparr>) of
      (r, c1) \<Rightarrow> case writer_exit r c1 of (r', c2) \<Rightarrow> (r', c2\<lparr>engaged := engaged c\<rparr>)))"
    by (auto simp: writer_exit_def inside_def split: prod.splits)
qed

lemma keeps_exec_dml_inside:
  "(\<And>m. Q m \<Longrightarrow> Q (snd (g m))) \<Longrightarrow> keeps (inside Q) (exec_dml reads ints g)"
  unfolding exec_dml_def
  by (fastforce simp: keeps_def inside_def stmt_def constrained_def split: sum.splits if_splits dest!: bind_ints_Inr)

lemma keeps_ins_inside:
  assumes "\<And>book m. Q m \<Longrightarrow> Q (snd (f book m))"
  shows "keeps (inside Q) (ins ints f)"
proof (rule keepsI)
  fix c assume c: "inside Q c"
  have "keeps (inside Q) (writer (exec_dml [] ints (f (book_id c))))"
    using assms by (intro keeps_intros keeps_exec_dml_inside) blast
  with c show "inside Q (snd (ins ints f c))" by (simp add: ins_def exec_dml_def keepsD)
qed

lemma ins_Inr:
  assumes "ins ints f c = (Inr x, c')"
  shows "x = fst (f (book_id c) (working c)) \<and> working c' = snd (f (book_id c) (working c))"
proof -
  from assms have "writer (exec_dml [] ints (f (book_id c))) c = (Inr x, c')"
    by (simp add: ins_def exec_dml_def)
  then show ?thesis by (auto dest!: writer_Inr exec_dml_Inr)
qed

lemma keeps_bindA_post:
  assumes "keeps P m" and "\<And>x s s'. m s = (Inr x, s') \<Longrightarrow> keeps P (f x)"
  shows "keeps P (bindA m f)"
proof (rule keepsI)
  fix s assume "P s"
  obtain r s' where m: "m s = (r, s')" by fastforce
  with assms(1) \<open>P s\<close> have "P s'" by (auto dest: keepsD)
  with m assms(2) show "P (snd (bindA m f s))"
    by (cases r) (auto simp: bindA_def dest: keepsD)
qed

end
