(* ===== verification/Corrections.thy ===== *)
theory Corrections imports Ingestion begin

text \<open>
  Bookmark-effective entity corrections, \<^verbatim>\<open>backend/app/memory/corrections.py\<close>: the inventory of
  what depends on an identity at the correction frontier, and the three corrections (replace, split,
  merge), which end the source identities at the frontier and carry their dependencies to new ones in
  one outer transaction. \<open>now\<close> is the reading of the clock.
\<close>

section \<open>Guards\<close>

definition require_effective_at :: "pyval \<Rightarrow> int res" where
  "require_effective_at v = (case v of
     PyInt i \<Rightarrow> if 1 \<le> i then Inr i else Inl (ValueError ''effective_at must be a positive integer bookmark'')
   | _ \<Rightarrow> Inl (ValueError ''effective_at must be a positive integer bookmark''))"

fun all_ints :: "pyval list \<Rightarrow> int list option" where
  "all_ints [] = Some []"
| "all_ints (PyInt i # vs) = map_option (Cons i) (all_ints vs)"
| "all_ints (_ # vs) = None"

definition unique_ids :: "pyval list \<Rightarrow> int list res" where
  "unique_ids vs = (case all_ints vs of
     None \<Rightarrow> Inl (ValueError ''entity_ids must contain integer ids'')
   | Some ids \<Rightarrow> if distinct ids then Inr ids else Inl (ValueError ''entity_ids must be distinct''))"

text \<open>\<^verbatim>\<open>_rows\<close>: one SELECT in a writer scope; \<open>ints\<close> are the integers it binds.\<close>

definition rows_q :: "tname list \<Rightarrow> int list \<Rightarrow> (mem \<Rightarrow> 'a) \<Rightarrow> (mem conn, 'a) act" where
  "rows_q reads ints f = writer (if list_all int64 ints then query reads f else raise OverflowError)"

section \<open>The inventory\<close>

record inventory =
  iv_at :: int
  iv_entities :: "entity_row list"
  iv_aliases :: "alias_row list"
  iv_edges :: "edge_row list"
  iv_participants :: "participant_row list"
  iv_states :: "state_row list"

text \<open>The four conditions the SELECTs of the inventory share.\<close>

definition lives_past :: "int \<Rightarrow> 'a fact_scheme \<Rightarrow> bool" where
  "lives_past eff r = (f_retracted r = None \<and> (case f_invalid r of None \<Rightarrow> True | Some i \<Rightarrow> eff < i))"

definition known_at :: "string \<Rightarrow> int \<Rightarrow> 'a fact_scheme \<Rightarrow> bool" where
  "known_at book eff r = (f_book r = book \<and> f_rev r \<le> eff \<and> lives_past eff r)"

definition known_entity :: "string \<Rightarrow> int \<Rightarrow> mem \<Rightarrow> int \<Rightarrow> bool" where
  "known_entity book eff m i = list_ex (\<lambda>e. en_id e = i \<and> known_at book eff e) (entities m)"

definition known_event :: "string \<Rightarrow> int \<Rightarrow> mem \<Rightarrow> int \<Rightarrow> bool" where
  "known_event book eff m i = list_ex (\<lambda>e. ev_id e = i \<and> known_at book eff e) (events m)"

definition source_entities :: "string \<Rightarrow> int list \<Rightarrow> int \<Rightarrow> mem \<Rightarrow> entity_row list" where
  "source_entities book ids eff m = filter (\<lambda>e. f_book e = book \<and> en_id e \<in> set ids \<and> f_retracted e = None \<and>
     f_rev e < eff \<and> (case f_invalid e of None \<Rightarrow> True | Some i \<Rightarrow> eff < i)) (entities m)"

definition source_aliases :: "string \<Rightarrow> int list \<Rightarrow> int \<Rightarrow> mem \<Rightarrow> alias_row list" where
  "source_aliases book ids eff m = sort_key al_id (filter (\<lambda>a. f_book a = book \<and> al_entity a \<in> set ids \<and>
     f_rev a \<le> eff \<and> f_retracted a = None) (aliases m))"

definition source_edges :: "string \<Rightarrow> int list \<Rightarrow> int \<Rightarrow> mem \<Rightarrow> edge_row list" where
  "source_edges book ids eff m = sort_key ed_id (filter (\<lambda>e. known_at book eff e \<and>
     (ed_src e \<in> set ids \<or> ed_dst e \<in> set ids) \<and>
     known_entity book eff m (ed_src e) \<and> known_entity book eff m (ed_dst e)) (edges m))"

definition source_participants :: "string \<Rightarrow> int list \<Rightarrow> int \<Rightarrow> mem \<Rightarrow> participant_row list" where
  "source_participants book ids eff m = sort_key (\<lambda>p. (pt_event p, pt_entity p)) (filter (\<lambda>p. pt_book p = book \<and>
     pt_entity p \<in> set ids \<and> pt_rev p \<le> eff \<and> known_event book eff m (pt_event p)) (participants m))"

definition source_states :: "string \<Rightarrow> int list \<Rightarrow> int \<Rightarrow> mem \<Rightarrow> state_row list" where
  "source_states book ids eff m = sort_key (\<lambda>s. (st_entity s, - f_rev s, - st_id s))
     (filter (\<lambda>s. known_at book eff s \<and> st_entity s \<in> set ids) (states m))"

text \<open>The first state of each entity, in the order of the SELECT.\<close>

fun first_states :: "int list \<Rightarrow> state_row list \<Rightarrow> state_row list" where
  "first_states seen [] = []"
| "first_states seen (s # ss) =
     (if st_entity s \<in> set seen then first_states seen ss
      else s # first_states (st_entity s # seen) ss)"

definition correction_inventory :: "pyval list \<Rightarrow> pyval \<Rightarrow> (mem conn, inventory) act" where
  "correction_inventory entity_ids effective_at = with_book (\<lambda>book.
     bindA (liftA (require_effective_at effective_at)) (\<lambda>eff.
     bindA (liftA (unique_ids entity_ids)) (\<lambda>ids.
     if ids = [] then raise (ValueError ''at least one source entity is required'')
     else bindA (rows_q [T_entities] (eff # ids) (source_entities book ids eff)) (\<lambda>ents.
     if set (map en_id ents) \<noteq> set ids
     then raise (ValueError ''effective_at must be strictly later than every live source reveal'')
     else bindA (rows_q [T_aliases] (eff # ids) (source_aliases book ids eff)) (\<lambda>als.
     bindA (rows_q [T_edges, T_entities] (eff # ids) (source_edges book ids eff)) (\<lambda>eds.
     bindA (rows_q [T_event_participants, T_events] (eff # ids) (source_participants book ids eff)) (\<lambda>pts.
     bindA (rows_q [T_entity_state] (eff # ids) (source_states book ids eff)) (\<lambda>sts.
       ret \<lparr>iv_at = eff, iv_entities = ents, iv_aliases = als, iv_edges = eds, iv_participants = pts,
         iv_states = first_states [] sts\<rparr>))))))))"

section \<open>Assignments\<close>

text \<open>A Python dict as an association list in insertion order.\<close>

fun dict_put :: "'k \<Rightarrow> 'v \<Rightarrow> ('k \<times> 'v) list \<Rightarrow> ('k \<times> 'v) list" where
  "dict_put k v [] = [(k, v)]"
| "dict_put k v ((k', v') # d) = (if k' = k then (k, v) # d else (k', v') # dict_put k v d)"

text \<open>The target indexes of one assignment; \<open>None\<close> stands for a value that is not a list.\<close>

definition target_indexes :: "int \<Rightarrow> pyval list option \<Rightarrow> nat list res" where
  "target_indexes target_count raw = (case raw of
     None \<Rightarrow> Inl (ValueError ''must be a list of target indexes'')
   | Some vs \<Rightarrow> (case all_ints vs of
         None \<Rightarrow> Inl (ValueError ''contains an invalid target index'')
       | Some is \<Rightarrow>
           if list_ex (\<lambda>i. i < 0 \<or> target_count \<le> i) is then Inl (ValueError ''contains an invalid target index'')
           else if \<not> distinct is then Inl (ValueError ''contains duplicate target indexes'')
           else Inr (map nat is)))"

fun normalize_assignments ::
  "int \<Rightarrow> (pyval \<times> pyval list option) list \<Rightarrow> (int \<times> nat list) list \<Rightarrow> (int \<times> nat list) list res" where
  "normalize_assignments target_count [] acc = Inr acc"
| "normalize_assignments target_count ((raw_id, raw_targets) # rest) acc = (case py_int raw_id of
     Inl _ \<Rightarrow> Inl (ValueError ''keys must be record ids'')
   | Inr record_id \<Rightarrow> (case target_indexes target_count raw_targets of
         Inl e \<Rightarrow> Inl e
       | Inr targets \<Rightarrow> normalize_assignments target_count rest (dict_put record_id targets acc)))"

text \<open>\<^verbatim>\<open>_assignment_map\<close>; \<open>None\<close> stands for an argument that is not a mapping.\<close>

definition assignment_map ::
  "(pyval \<times> pyval list option) list option \<Rightarrow> int list \<Rightarrow> int \<Rightarrow> (int \<times> nat list) list res" where
  "assignment_map assignments expected target_count = (case assignments of
     None \<Rightarrow> Inl (ValueError ''must be a mapping'')
   | Some items \<Rightarrow> (case normalize_assignments target_count items [] of
         Inl e \<Rightarrow> Inl e
       | Inr normalized \<Rightarrow>
           if set (map fst normalized) \<noteq> set expected
           then Inl (ValueError ''must explicitly cover every active dependency'') else Inr normalized))"

definition dict_get :: "'v \<Rightarrow> 'k \<Rightarrow> ('k \<times> 'v) list \<Rightarrow> 'v" where
  "dict_get d k kvs = (case map_of kvs k of None \<Rightarrow> d | Some v \<Rightarrow> v)"

section \<open>Ending the sources, the audit row\<close>

definition ends_later :: "string \<Rightarrow> int list \<Rightarrow> int \<Rightarrow> entity_row \<Rightarrow> bool" where
  "ends_later book ids eff e = (f_book e = book \<and> en_id e \<in> set ids \<and> lives_past eff e)"

definition invalidate_sources :: "int list \<Rightarrow> int \<Rightarrow> (mem conn, unit) act" where
  "invalidate_sources ids eff = with_book (\<lambda>book. bindA
     (writer (exec_dml [T_entities] (eff # ids) (\<lambda>m. (length (filter (ends_later book ids eff) (entities m)),
        m\<lparr>entities := update_where (ends_later book ids eff) (\<lambda>e. e\<lparr>f_invalid := Some eff\<rparr>) (entities m)\<rparr>))))
     (\<lambda>rowcount. if rowcount \<noteq> length ids
        then raise (RuntimeError ''source identity validity changed during correction'') else ret ()))"

definition record_correction ::
  "string \<Rightarrow> int \<Rightarrow> int list \<Rightarrow> int list \<Rightarrow> json \<Rightarrow> string \<Rightarrow> string \<Rightarrow> (mem conn, int) act" where
  "record_correction kind eff sources targets assignments reason now = ins [eff] (\<lambda>book m.
     let i = next_rowid (map cr_id (corrections m)) in (i, m\<lparr>corrections := corrections m @
     [\<lparr>f_book = book, f_rev = eff, f_invalid = None, f_retracted = None, cr_id = i, cr_kind = kind,
       cr_sources = sources, cr_targets = targets, cr_assignments = assignments,
       cr_reason = (if reason = [] then None else Some reason), cr_recorded = now\<rparr>]\<rparr>))"

section \<open>The correction history\<close>

record history_row =
  hs_id :: int
  hs_kind :: string
  hs_at :: int
  hs_sources :: "(int \<times> string) list"
  hs_targets :: "(int \<times> string) list"
  hs_reason :: "string option"
  hs_recorded :: string

definition history_rows :: "string \<Rightarrow> int \<Rightarrow> mem \<Rightarrow> correction_row list" where
  "history_rows book eff m = sort_key (\<lambda>r. (f_rev r, cr_id r)) (filter (\<lambda>r. f_book r = book \<and> f_rev r \<le> eff \<and>
     f_retracted r = None) (corrections m))"

definition entity_names :: "string \<Rightarrow> int list \<Rightarrow> mem \<Rightarrow> (int \<times> string) list" where
  "entity_names book ids m = map (\<lambda>e. (en_id e, en_name e))
     (filter (\<lambda>e. f_book e = book \<and> en_id e \<in> set ids \<and> f_retracted e = None) (entities m))"

definition named :: "string \<Rightarrow> (int \<times> string) list \<Rightarrow> int list \<Rightarrow> (int \<times> string) list" where
  "named unknown names ids = map (\<lambda>i. (i, dict_get unknown i names)) ids"

definition correction_history :: "pyval \<Rightarrow> (mem conn, history_row list) act" where
  "correction_history effective_at = with_book (\<lambda>book.
     bindA (liftA (require_effective_at effective_at)) (\<lambda>eff.
     bindA (rows_q [T_entity_corrections] [eff] (history_rows book eff)) (\<lambda>rows.
     (let ids = concat (map (\<lambda>r. cr_sources r @ cr_targets r) rows) in
      bindA (if ids = [] then ret [] else rows_q [T_entities] ids (entity_names book ids)) (\<lambda>names.
        ret (map (\<lambda>r. \<lparr>hs_id = cr_id r, hs_kind = cr_kind r, hs_at = f_rev r,
          hs_sources = named ''Earlier memory'' names (cr_sources r),
          hs_targets = named ''Corrected memory'' names (cr_targets r),
          hs_reason = cr_reason r, hs_recorded = cr_recorded r\<rparr>) rows))))))"

section \<open>Carrying later dependencies to a one-for-one replacement\<close>

text \<open>The rows of an INSERT ... SELECT take consecutive rowids.\<close>

fun number_from :: "int \<Rightarrow> (int \<Rightarrow> 'a \<Rightarrow> 'b) \<Rightarrow> 'a list \<Rightarrow> 'b list" where
  "number_from i f [] = []"
| "number_from i f (x # xs) = f i x # number_from (i + 1) f xs"

definition rebind :: "int \<Rightarrow> int \<Rightarrow> int \<Rightarrow> int" where
  "rebind source target i = (if i = source then target else i)"

definition carry_aliases :: "string \<Rightarrow> int \<Rightarrow> int \<Rightarrow> int \<Rightarrow> string \<Rightarrow> mem \<Rightarrow> mem" where
  "carry_aliases book source target eff now m = m\<lparr>aliases := aliases m @
     number_from (next_rowid (map al_id (aliases m)))
       (\<lambda>i a. a\<lparr>al_id := i, al_entity := target, al_recorded := now, f_retracted := None\<rparr>)
       (filter (\<lambda>a. f_book a = book \<and> al_entity a = source \<and> eff < f_rev a \<and> f_retracted a = None) (aliases m))\<rparr>"

definition carry_edges :: "string \<Rightarrow> int \<Rightarrow> int \<Rightarrow> int \<Rightarrow> string \<Rightarrow> mem \<Rightarrow> mem" where
  "carry_edges book source target eff now m = m\<lparr>edges := edges m @
     number_from (next_rowid (map ed_id (edges m)))
       (\<lambda>i e. e\<lparr>ed_id := i, ed_src := rebind source target (ed_src e), ed_dst := rebind source target (ed_dst e),
                ed_stamp := stamp_of ''lit59-reader-correction'' now, f_retracted := None\<rparr>)
       (filter (\<lambda>e. f_book e = book \<and> (ed_src e = source \<or> ed_dst e = source) \<and> eff < f_rev e \<and> f_retracted e = None)
         (edges m))\<rparr>"

definition carry_states :: "string \<Rightarrow> int \<Rightarrow> int \<Rightarrow> int \<Rightarrow> string \<Rightarrow> mem \<Rightarrow> mem" where
  "carry_states book source target eff now m = m\<lparr>states := states m @
     number_from (next_rowid (map st_id (states m)))
       (\<lambda>i s. s\<lparr>st_id := i, st_entity := target, st_stamp := stamp_of ''lit59-reader-correction'' now, f_retracted := None\<rparr>)
       (filter (\<lambda>s. f_book s = book \<and> st_entity s = source \<and> eff < f_rev s \<and> f_retracted s = None) (states m))\<rparr>"

definition carried_event :: "string \<Rightarrow> int \<Rightarrow> mem \<Rightarrow> participant_row \<Rightarrow> bool" where
  "carried_event book eff m p = list_ex (\<lambda>ev. ev_id ev = pt_event p \<and> f_book ev = pt_book p \<and>
     (eff < pt_rev p \<or> eff < f_rev ev) \<and> lives_past eff ev) (events m)"

definition carry_participants :: "string \<Rightarrow> int \<Rightarrow> int \<Rightarrow> int \<Rightarrow> mem \<Rightarrow> mem" where
  "carry_participants book source target eff m = m\<lparr>participants := participants m @
     map (\<lambda>p. p\<lparr>pt_entity := target, pt_rev := max (pt_rev p) eff\<rparr>)
       (filter (\<lambda>p. pt_book p = book \<and> pt_entity p = source \<and> carried_event book eff m p) (participants m))\<rparr>"

definition carry_later :: "int \<Rightarrow> int \<Rightarrow> int \<Rightarrow> string \<Rightarrow> (mem conn, unit) act" where
  "carry_later source target eff now = with_book (\<lambda>book. writer
     (bindA (exec_dml [T_aliases] [target, source, eff] (\<lambda>m. ((), carry_aliases book source target eff now m))) (\<lambda>_.
      bindA (exec_dml [T_edges] [source, target, eff] (\<lambda>m. ((), carry_edges book source target eff now m))) (\<lambda>_.
      bindA (exec_dml [T_entity_state] [target, source, eff] (\<lambda>m. ((), carry_states book source target eff now m))) (\<lambda>_.
        exec_dml [T_event_participants, T_events] [target, eff, source] (\<lambda>m. ((), carry_participants book source target eff m)))))))"

section \<open>Replace\<close>

text \<open>The surface forms not yet seen, in order, compared by casefold.\<close>

fun new_surfaces :: "string list \<Rightarrow> string list \<Rightarrow> string list" where
  "new_surfaces seen [] = []"
| "new_surfaces seen (a # as) =
     (if casefold a \<in> set seen then new_surfaces seen as else a # new_surfaces (casefold a # seen) as)"

text \<open>The parameter of a guard that wants a non-blank string.\<close>

definition stripped :: "string \<Rightarrow> pyval \<Rightarrow> string res" where
  "stripped msg v = (case v of
     PyStr s \<Rightarrow> if strip s = [] then Inl (ValueError msg) else Inr (strip s)
   | _ \<Rightarrow> Inl (ValueError msg))"

definition ints_json :: "int list \<Rightarrow> json" where
  "ints_json is = JList (map JInt is)"

text \<open>The body of the transaction, from the inventory read before it.\<close>

definition replace_body ::
  "int \<Rightarrow> int \<Rightarrow> string \<Rightarrow> string \<Rightarrow> inventory \<Rightarrow> entity_row \<Rightarrow> string \<Rightarrow> (mem conn, int \<times> int) act" where
  "replace_body entity eff name reason ivt source now =
     bindA (invalidate_sources [entity] eff) (\<lambda>_.
     bindA (add_entity name (en_type source) eff ''lit59-reader-correction'' now) (\<lambda>target.
     bindA (case iv_states ivt of [] \<Rightarrow> ret 0
        | s # _ \<Rightarrow> add_state target eff (st_status s) (f_invalid s) ''lit59-reader-correction'' now) (\<lambda>_.
     bindA (for_each (\<lambda>surface. add_alias target surface eff now)
        (new_surfaces [casefold name] (en_name source # map al_surface (iv_aliases ivt)))) (\<lambda>_.
     bindA (for_each (\<lambda>e. add_edge (rebind entity target (ed_src e)) (rebind entity target (ed_dst e)) (ed_rel e)
        (ed_label e) eff (f_invalid e) ''lit59-reader-correction'' now) (iv_edges ivt)) (\<lambda>_.
     bindA (for_each (\<lambda>p. add_event_participant (pt_event p) target (pt_role p) eff) (iv_participants ivt)) (\<lambda>_.
     bindA (carry_later entity target eff now) (\<lambda>_.
     bindA (record_correction ''replace'' eff [entity] [target]
        (JObj [(''copied_edge_ids'', ints_json (map ed_id (iv_edges ivt))),
               (''copied_event_ids'', ints_json (map pt_event (iv_participants ivt))),
               (''corrected_name'', JStr name), (''previous_name'', JStr (en_name source))]) reason now) (\<lambda>cid.
       ret (cid, target)))))))))"

definition replace_entity :: "pyval \<Rightarrow> pyval \<Rightarrow> pyval \<Rightarrow> pyval \<Rightarrow> string \<Rightarrow> (mem conn, int \<times> int) act" where
  "replace_entity entity_id effective_at canonical_name reason now =
     bindA (liftA (stripped ''canonical_name must be non-empty'' canonical_name)) (\<lambda>name.
     bindA (liftA (stripped ''reason must be non-empty'' reason)) (\<lambda>why.
     bindA (correction_inventory [entity_id] effective_at) (\<lambda>ivt.
     case iv_entities ivt of [] \<Rightarrow> raise (RuntimeError ''unreachable'')
     | source # _ \<Rightarrow>
         if casefold name = casefold (strip (en_name source))
         then raise (ValueError ''corrected name must differ from the current name'')
         else transaction (replace_body (en_id source) (iv_at ivt) name why ivt source now))))"

section \<open>Split\<close>

record split_spec =
  sp_name :: string
  sp_type :: string
  sp_state :: "json option"

text \<open>One replacement as given: \<open>None\<close> when it is not a mapping; its name, type and state entries.\<close>

type_synonym replacement_arg = "(pyval \<times> pyval \<times> json option) option"

definition split_spec_of :: "string \<Rightarrow> replacement_arg \<Rightarrow> split_spec res" where
  "split_spec_of source_type r = (case r of
     None \<Rightarrow> Inl (ValueError ''each replacement must be a mapping'')
   | Some (name, ty, state) \<Rightarrow> (case stripped ''replacement canonical_name must be non-empty'' name of
         Inl e \<Rightarrow> Inl e
       | Inr n \<Rightarrow> if ty \<noteq> PyStr source_type
           then Inl (ValueError ''every split replacement must keep the source entity type'')
           else Inr \<lparr>sp_name = n, sp_type = source_type, sp_state = state\<rparr>))"

fun split_specs :: "string \<Rightarrow> replacement_arg list \<Rightarrow> split_spec list res" where
  "split_specs source_type [] = Inr []"
| "split_specs source_type (r # rs) = (case split_spec_of source_type r of
     Inl e \<Rightarrow> Inl e
   | Inr sp \<Rightarrow> (case split_specs source_type rs of Inl e \<Rightarrow> Inl e | Inr sps \<Rightarrow> Inr (sp # sps)))"

definition assignments_json :: "(int \<times> nat list) list \<Rightarrow> json" where
  "assignments_json d = JObj (map (\<lambda>(k, ts). (show_int k, ints_json (map int ts))) (sort_key fst d))"

definition spec_json :: "split_spec \<Rightarrow> json" where
  "spec_json sp = JObj [(''canonical_name'', JStr (sp_name sp)),
     (''state'', (case sp_state sp of None \<Rightarrow> JNull | Some j \<Rightarrow> j)), (''type'', JStr (sp_type sp))]"

text \<open>One dependency copied once per assigned target.\<close>

definition assigned :: "(int \<times> nat list) list \<Rightarrow> ('r \<Rightarrow> int) \<Rightarrow> 'r list \<Rightarrow> ('r \<times> nat) list" where
  "assigned d key rows = concat (map (\<lambda>r. map (Pair r) (dict_get [] (key r) d)) rows)"

definition split_body ::
  "int \<Rightarrow> int \<Rightarrow> split_spec list \<Rightarrow> inventory \<Rightarrow> (int \<times> nat list) list \<Rightarrow> (int \<times> nat list) list \<Rightarrow>
   (int \<times> nat list) list \<Rightarrow> string \<Rightarrow> string \<Rightarrow> (mem conn, int \<times> int list) act" where
  "split_body entity eff specs ivt alias_map edge_map event_map reason now =
     bindA (invalidate_sources [entity] eff) (\<lambda>_.
     bindA (for_each (\<lambda>sp. add_entity (sp_name sp) (sp_type sp) eff ''lit10-correction'' now) specs) (\<lambda>targets.
     bindA (for_each (\<lambda>(sp, target). case sp_state sp of None \<Rightarrow> ret 0
        | Some j \<Rightarrow> add_state target eff j None ''lit10-correction'' now) (zip specs targets)) (\<lambda>_.
     bindA (for_each (\<lambda>(a, index). add_alias (targets ! index) (al_surface a) eff now)
        (assigned alias_map al_id (iv_aliases ivt))) (\<lambda>_.
     bindA (for_each (\<lambda>(e, index). add_edge (rebind entity (targets ! index) (ed_src e)) (rebind entity (targets ! index) (ed_dst e))
        (ed_rel e) (ed_label e) eff (f_invalid e) ''lit10-correction'' now)
        (assigned edge_map ed_id (iv_edges ivt))) (\<lambda>_.
     bindA (for_each (\<lambda>(event, index). add_event_participant event (targets ! index)
        (dict_get None event (map (\<lambda>p. (pt_event p, pt_role p)) (rev (iv_participants ivt)))) eff)
        (concat (map (\<lambda>(event, indexes). map (Pair event) indexes) event_map))) (\<lambda>_.
     bindA (record_correction ''split'' eff [entity] targets
        (JObj [(''aliases'', assignments_json alias_map), (''edges'', assignments_json edge_map),
               (''events'', assignments_json event_map), (''replacements'', JList (map spec_json specs))]) reason now) (\<lambda>cid.
       ret (cid, targets))))))))"

definition self_edge :: "int \<Rightarrow> edge_row \<Rightarrow> bool" where
  "self_edge entity e = (ed_src e = entity \<and> entity = ed_dst e)"

definition split_entity ::
  "pyval \<Rightarrow> pyval \<Rightarrow> replacement_arg list option \<Rightarrow> (pyval \<times> pyval list option) list option \<Rightarrow>
   (pyval \<times> pyval list option) list option \<Rightarrow> (pyval \<times> pyval list option) list option \<Rightarrow> string \<Rightarrow> string \<Rightarrow>
   (mem conn, int \<times> int list) act" where
  "split_entity entity_id effective_at replacements alias_as edge_as event_as reason now =
     (case replacements of None \<Rightarrow> raise (ValueError ''split requires at least two replacements'')
      | Some rs \<Rightarrow>
     if length rs < 2 then raise (ValueError ''split requires at least two replacements'') else
     bindA (correction_inventory [entity_id] effective_at) (\<lambda>ivt.
     case iv_entities ivt of [] \<Rightarrow> raise (RuntimeError ''unreachable'')
     | source # _ \<Rightarrow>
     bindA (liftA (split_specs (en_type source) rs)) (\<lambda>specs.
     bindA (liftA (assignment_map alias_as (map al_id (iv_aliases ivt)) (int (length specs)))) (\<lambda>alias_map.
     bindA (liftA (assignment_map edge_as (map ed_id (iv_edges ivt)) (int (length specs)))) (\<lambda>edge_map.
     bindA (liftA (assignment_map event_as (map pt_event (iv_participants ivt)) (int (length specs)))) (\<lambda>event_map.
     if list_ex (self_edge (en_id source)) (iv_edges ivt)
     then raise (ValueError ''split of a self-referential edge requires manual re-extraction'')
     else transaction (split_body (en_id source) (iv_at ivt) specs ivt alias_map edge_map event_map reason now)))))))"

section \<open>Merge\<close>

text \<open>\<^verbatim>\<open>roles_by_event\<close>: the distinct roles of each event, events in order of first appearance.\<close>

fun roles_by_event :: "participant_row list \<Rightarrow> (int \<times> string option list) list \<Rightarrow> (int \<times> string option list) list" where
  "roles_by_event [] d = d"
| "roles_by_event (p # ps) d = roles_by_event ps
     (dict_put (pt_event p) (List.insert (pt_role p) (dict_get [] (pt_event p) d)) d)"

fun event_overrides ::
  "(pyval \<times> string option) list \<Rightarrow> (int \<times> string option) list \<Rightarrow> (int \<times> string option) list res" where
  "event_overrides [] d = Inr d"
| "event_overrides ((k, role) # rest) d =
     (case py_int k of Inl e \<Rightarrow> Inl e | Inr i \<Rightarrow> event_overrides rest (dict_put i role d))"

fun resolve_roles ::
  "(int \<times> string option) list \<Rightarrow> (int \<times> string option list) list \<Rightarrow> (int \<times> string option) list res" where
  "resolve_roles overrides [] = Inr []"
| "resolve_roles overrides ((event, roles) # rest) =
     (case (case map_of overrides event of Some r \<Rightarrow> Inr r
            | None \<Rightarrow> (case roles of [r] \<Rightarrow> Inr r | _ \<Rightarrow> Inl (ValueError ''event has conflicting roles''))) of
        Inl e \<Rightarrow> Inl e
      | Inr r \<Rightarrow> (case resolve_roles overrides rest of Inl e \<Rightarrow> Inl e | Inr rs \<Rightarrow> Inr ((event, r) # rs)))"

text \<open>The edges a merge copies: rebound, without self-loops and without repetitions.\<close>

fun merged_edges ::
  "int list \<Rightarrow> int \<Rightarrow> (int \<times> int \<times> string \<times> string option \<times> int option) list \<Rightarrow> edge_row list \<Rightarrow>
   (edge_row \<times> int \<times> int) list" where
  "merged_edges sources target keys [] = []"
| "merged_edges sources target keys (e # es) =
     (let src = (if ed_src e \<in> set sources then target else ed_src e);
          dst = (if ed_dst e \<in> set sources then target else ed_dst e);
          key = (src, dst, ed_rel e, ed_label e, f_invalid e)
      in if src = dst \<or> key \<in> set keys then merged_edges sources target keys es
         else (e, src, dst) # merged_edges sources target (key # keys) es)"

definition role_json :: "string option \<Rightarrow> json" where
  "role_json r = (case r of None \<Rightarrow> JNull | Some s \<Rightarrow> JStr s)"

definition merge_body ::
  "int list \<Rightarrow> int \<Rightarrow> string \<Rightarrow> string \<Rightarrow> json option \<Rightarrow> inventory \<Rightarrow> (int \<times> string option) list \<Rightarrow> string \<Rightarrow> string \<Rightarrow>
   (mem conn, int \<times> int list) act" where
  "merge_body ids eff name ty state ivt roles reason now =
     bindA (invalidate_sources ids eff) (\<lambda>_.
     bindA (add_entity name ty eff ''lit10-correction'' now) (\<lambda>target.
     bindA (case state of None \<Rightarrow> ret 0 | Some j \<Rightarrow> add_state target eff j None ''lit10-correction'' now) (\<lambda>_.
     bindA (for_each (\<lambda>surface. add_alias target surface eff now)
        (new_surfaces [casefold name] (map en_name (iv_entities ivt) @ map al_surface (iv_aliases ivt)))) (\<lambda>_.
     (let copied = merged_edges ids target [] (iv_edges ivt) in
     bindA (for_each (\<lambda>(e, src, dst). add_edge src dst (ed_rel e) (ed_label e) eff (f_invalid e) ''lit10-correction'' now) copied) (\<lambda>_.
     bindA (for_each (\<lambda>(event, role). add_event_participant event target role eff) roles) (\<lambda>_.
     bindA (record_correction ''merge'' eff ids [target]
        (JObj [(''copied_edge_ids'', ints_json (map (\<lambda>(e, _). ed_id e) copied)),
               (''event_roles'', JObj (map (\<lambda>(k, r). (show_int k, role_json r)) (sort_key fst roles))),
               (''state'', (case state of None \<Rightarrow> JNull | Some j \<Rightarrow> j))]) reason now) (\<lambda>cid.
       ret (cid, [target])))))))))"

definition merge_entities ::
  "pyval list \<Rightarrow> pyval \<Rightarrow> pyval \<Rightarrow> json option \<Rightarrow> string \<Rightarrow> (pyval \<times> string option) list \<Rightarrow> string \<Rightarrow>
   (mem conn, int \<times> int list) act" where
  "merge_entities entity_ids effective_at canonical_name state reason event_roles now =
     bindA (liftA (unique_ids entity_ids)) (\<lambda>ids.
     if length ids < 2 then raise (ValueError ''merge requires at least two distinct source entities'') else
     bindA (liftA (stripped ''canonical_name must be non-empty'' canonical_name)) (\<lambda>name.
     bindA (correction_inventory entity_ids effective_at) (\<lambda>ivt.
     case iv_entities ivt of [] \<Rightarrow> raise (RuntimeError ''unreachable'')
     | source # others \<Rightarrow>
     if list_ex (\<lambda>e. en_type e \<noteq> en_type source) others then raise (ValueError ''merge sources must have the same type'') else
     bindA (liftA (event_overrides event_roles [])) (\<lambda>overrides.
     (let by_event = roles_by_event (iv_participants ivt) [] in
     if list_ex (\<lambda>(i, _). i \<notin> fst ` set by_event) overrides then raise (ValueError ''event_roles contains unknown event ids'') else
     bindA (liftA (resolve_roles overrides by_event)) (\<lambda>roles.
       transaction (merge_body ids (iv_at ivt) name (en_type source) state ivt roles reason now)))))))"

section \<open>Frames of the corrections\<close>

lemma keeps_rows_q [keeps_intros]:
  assumes "keeps P (writer (query reads f))" and "keeps P (writer (raise OverflowError :: (mem conn, 'a) act))"
  shows "keeps P (rows_q reads ints (f :: mem \<Rightarrow> 'a))"
  using assms by (simp add: rows_q_def)

lemma keeps_let [keeps_intros]: "keeps P (f x) \<Longrightarrow> keeps P (let y = x in f y)"
  by simp

lemma keeps_correction_inventory:
  assumes "\<And>(f :: mem \<Rightarrow> entity_row list) reads ints. keeps P (rows_q reads ints f)"
    and "\<And>(f :: mem \<Rightarrow> alias_row list) reads ints. keeps P (rows_q reads ints f)"
    and "\<And>(f :: mem \<Rightarrow> edge_row list) reads ints. keeps P (rows_q reads ints f)"
    and "\<And>(f :: mem \<Rightarrow> participant_row list) reads ints. keeps P (rows_q reads ints f)"
    and "\<And>(f :: mem \<Rightarrow> state_row list) reads ints. keeps P (rows_q reads ints f)"
  shows "keeps P (correction_inventory ids eff)"
  unfolding correction_inventory_def by (intro keeps_intros assms)

lemma keeps_inventory_holds [keeps_intros]: "keeps (holds Q) (correction_inventory ids eff)"
  by (rule keeps_correction_inventory) (intro keeps_intros)+

lemma keeps_inventory_session [keeps_intros]: "keeps (session_is k) (correction_inventory ids eff)"
  by (rule keeps_correction_inventory) (intro keeps_intros)+

lemma frame_invalidate:
  assumes "b < eff"
  shows "keeps (holds (\<lambda>m. horizon b m = H)) (invalidate_sources ids eff)"
proof -
  have veiled: "veil b (r\<lparr>f_invalid := Some eff\<rparr>) = veil b r" if "lives_past eff r" for r :: entity_row
    using that assms by (auto simp: veil_def lives_past_def split: option.splits)
  show ?thesis unfolding invalidate_sources_def
    by (intro keeps_intros keeps_exec_dml_frame)
      (auto intro!: horizon_updates(4) cut_update_where_mem veiled simp: ends_later_def)
qed

lemma frame_record: "b < eff \<Longrightarrow> keeps (holds (\<lambda>m. horizon b m = H)) (record_correction kind eff s t a r now)"
  unfolding record_correction_def by (intro keeps_ins_frame) (simp add: horizon_updates cut_Cons Let_def)

lemma cut_number_from:
  assumes "list_all (\<lambda>x. b < g x) xs" and "\<And>i x. f_rev (f i x) = g x"
  shows "cut_at b (number_from i f xs) = []"
  using assms by (induction xs arbitrary: i) (auto simp: cut_Cons)

lemma frame_carry:
  assumes "b < eff"
  shows "keeps (holds (\<lambda>m. horizon b m = H)) (carry_later source target eff now)"
proof -
  have "horizon b (carry_aliases book source target eff now m) = horizon b m"
    "horizon b (carry_edges book source target eff now m) = horizon b m"
    "horizon b (carry_states book source target eff now m) = horizon b m"
    "horizon b (carry_participants book source target eff m) = horizon b m" for book m
    unfolding carry_aliases_def carry_edges_def carry_states_def carry_participants_def
    using assms
    by (auto intro!: horizon_updates cut_number_from [where g = f_rev] cut_links_future simp: list_all_iff less_max_iff_disj)
  then show ?thesis unfolding carry_later_def
    by (intro keeps_intros keeps_exec_dml_frame) simp_all
qed

lemma frame_replace_body:
  assumes "b < eff"
  shows "keeps (holds (\<lambda>m. horizon b m = H)) (replace_body entity eff name reason ivt source now)"
  unfolding replace_body_def
  by (intro keeps_intros frame_invalidate frame_inserts frame_carry frame_record assms)

lemma frame_split_body:
  assumes "b < eff"
  shows "keeps (holds (\<lambda>m. horizon b m = H)) (split_body entity eff specs ivt am em vm reason now)"
  unfolding split_body_def
  by (intro keeps_intros frame_invalidate frame_inserts frame_record assms)

lemma frame_merge_body:
  assumes "b < eff"
  shows "keeps (holds (\<lambda>m. horizon b m = H)) (merge_body ids eff name ty state ivt roles reason now)"
  unfolding merge_body_def
  by (intro keeps_intros frame_invalidate frame_inserts frame_record assms)


lemma inventory_at:
  "correction_inventory ids (PyInt eff) c = (Inr ivt, c') \<Longrightarrow> iv_at ivt = eff"
  by (auto simp: correction_inventory_def with_book_def bindA_Inr liftA_Inr require_effective_at_def raise_def ret_def
      split: if_splits)

text \<open>What the three corrections share: a body in an outer transaction after an inventory read.\<close>

lemma keeps_replace_entity:
  assumes "\<And>ids. keeps P (correction_inventory ids (PyInt eff))"
    and "\<And>e name why ivt source. keeps P (transaction (replace_body e eff name why ivt source now))"
  shows "keeps P (replace_entity e (PyInt eff) name reason now)"
  unfolding replace_entity_def
  by (rule keeps_bindA keeps_liftA keeps_bindA_post keeps_case_list keeps_raise keeps_if assms
      | drule inventory_at, simp)+


lemma keeps_split_entity:
  assumes "\<And>ids. keeps P (correction_inventory ids (PyInt eff))"
    and "\<And>e specs ivt am em vm. keeps P (transaction (split_body e eff specs ivt am em vm reason now))"
  shows "keeps P (split_entity e (PyInt eff) reps aa ea va reason now)"
  unfolding split_entity_def
  by (rule keeps_bindA keeps_liftA keeps_bindA_post keeps_case_list keeps_case_option keeps_raise keeps_if assms
      | drule inventory_at, simp)+

lemma keeps_merge_entities:
  assumes "\<And>ids. keeps P (correction_inventory ids (PyInt eff))"
    and "\<And>ids name ty ivt roles. keeps P (transaction (merge_body ids eff name ty state ivt roles reason now))"
  shows "keeps P (merge_entities ids (PyInt eff) name state reason roles now)"
  unfolding merge_entities_def
  by (rule keeps_liftA keeps_let keeps_raise keeps_if assms keeps_case_list keeps_bindA_post
      | drule inventory_at, simp)+

text \<open>A correction is one of the three operations, at one frontier.\<close>

datatype correction =
    Replace pyval pyval pyval string
  | Split pyval "replacement_arg list option" "(pyval \<times> pyval list option) list option"
      "(pyval \<times> pyval list option) list option" "(pyval \<times> pyval list option) list option" string string
  | Merge "pyval list" pyval "json option" string "(pyval \<times> string option) list" string

fun correct :: "int \<Rightarrow> correction \<Rightarrow> (mem conn, unit) act" where
  "correct eff (Replace e name reason now) = voidA (replace_entity e (PyInt eff) name reason now)"
| "correct eff (Split e reps aa ea va reason now) = voidA (split_entity e (PyInt eff) reps aa ea va reason now)"
| "correct eff (Merge ids name state reason roles now) = voidA (merge_entities ids (PyInt eff) name state reason roles now)"

lemma keeps_correct:
  assumes "\<And>ids. keeps P (correction_inventory ids (PyInt eff))"
    and "\<And>e name why ivt source now. keeps P (transaction (replace_body e eff name why ivt source now))"
    and "\<And>e specs ivt am em vm reason now. keeps P (transaction (split_body e eff specs ivt am em vm reason now))"
    and "\<And>ids name ty state ivt roles reason now. keeps P (transaction (merge_body ids eff name ty state ivt roles reason now))"
  shows "keeps P (correct eff k)"
  by (cases k) (auto intro!: keeps_voidA keeps_replace_entity keeps_split_entity keeps_merge_entities assms)

lemma keeps_bodies:
  assumes "\<And>ids. keeps P (invalidate_sources ids eff)"
    and "\<And>name ty rv xv now. keeps P (add_entity name ty rv xv now)"
    and "\<And>e rv j iv xv now. keeps P (add_state e rv j iv xv now)"
    and "\<And>e s rv now. keeps P (add_alias e s rv now)"
    and "\<And>s d r l rv iv xv now. keeps P (add_edge s d r l rv iv xv now)"
    and "\<And>ev en r rv. keeps P (add_event_participant ev en r rv)"
    and "\<And>s t now. keeps P (carry_later s t eff now)"
    and "\<And>k s t a r now. keeps P (record_correction k eff s t a r now)"
  shows "keeps P (replace_body e eff name why ivt source now)"
    "keeps P (split_body e eff specs ivt am em vm why now)"
    "keeps P (merge_body ids eff name ty state ivt roles why now)"
  unfolding replace_body_def split_body_def merge_body_def
  by (intro keeps_intros assms)+

lemma keeps_parts_session:
  "keeps (session_is k) (invalidate_sources ids eff)" "keeps (session_is k) (carry_later s t eff now)"
  "keeps (session_is k) (record_correction kd eff ss ts a r now)"
  unfolding invalidate_sources_def carry_later_def record_correction_def by (intro keeps_intros)+

lemma keeps_parts_joined:
  "keeps (joined K) (invalidate_sources ids eff)" "keeps (joined K) (carry_later s t eff now)"
  "keeps (joined K) (record_correction kd eff ss ts a r now)"
  unfolding invalidate_sources_def carry_later_def record_correction_def by (intro keeps_intros)+

lemma keeps_adds_session:
  "keeps (session_is k) (add_entity name ty rv xv now)" "keeps (session_is k) (add_state e rv j iv xv now)"
  "keeps (session_is k) (add_alias e s rv now)" "keeps (session_is k) (add_edge s' d r l rv iv xv now)"
  "keeps (session_is k) (add_event_participant ev en ro rv)"
  unfolding write_defs by (intro keeps_intros)+

lemma keeps_adds_joined:
  "keeps (joined K) (add_entity name ty rv xv now)" "keeps (joined K) (add_state e rv j iv xv now)"
  "keeps (joined K) (add_alias e s rv now)" "keeps (joined K) (add_edge s' d r l rv iv xv now)"
  "keeps (joined K) (add_event_participant ev en ro rv)"
  unfolding write_defs by (intro keeps_intros)+

lemma correct_session: "keeps (session_is k) (correct eff kd)"
  by (intro keeps_correct keeps_intros keeps_bodies keeps_parts_session keeps_adds_session)

lemma correct_frame: "b < eff \<Longrightarrow> keeps (holds (\<lambda>m. horizon b m = H)) (correct eff kd)"
  by (intro keeps_correct keeps_intros frame_replace_body frame_split_body frame_merge_body)

interpretation replacing: scoped_body "replace_body e eff name why ivt source now"
  by unfold_locales (intro keeps_bodies keeps_parts_joined keeps_adds_joined)

interpretation splitting: scoped_body "split_body e eff specs ivt am em vm reason now"
  by unfold_locales (intro keeps_bodies keeps_parts_joined keeps_adds_joined)

interpretation merging: scoped_body "merge_body ids eff name ty state ivt roles reason now"
  by unfold_locales (intro keeps_bodies keeps_parts_joined keeps_adds_joined)

section \<open>Atomicity\<close>

text \<open>\<open>clean K\<close>: nothing is pending over the durable content \<open>K\<close>.\<close>

definition clean :: "'c \<Rightarrow> 'c conn \<Rightarrow> bool" where
  "clean K c = holds (\<lambda>m. m = K) c"

definition fails_clean :: "('c conn, 'a) act \<Rightarrow> bool" where
  "fails_clean m = (\<forall>c K e c'. clean K c \<longrightarrow> m c = (Inl e, c') \<longrightarrow> clean K c')"

lemma fails_clean_bindA:
  assumes "\<And>K. keeps (clean K) m" and "\<And>x. fails_clean (f x)"
  shows "fails_clean (bindA m f)"
  unfolding fails_clean_def
proof (intro allI impI)
  fix c K e c' assume c: "clean K c" and r: "bindA m f c = (Inl e, c')"
  obtain r0 c0 where m: "m c = (r0, c0)" by fastforce
  with assms(1) c have "clean K c0" by (metis keepsD snd_conv)
  with m r assms(2) show "clean K c'" by (cases r0) (auto simp: bindA_def fails_clean_def)
qed

lemma fails_clean_pure: "\<And>r. fails_clean (liftA r)" "\<And>e. fails_clean (raise e)" "\<And>x. fails_clean (ret x)"
  by (simp_all add: fails_clean_def liftA_def raise_def ret_def)

lemma fails_clean_transaction:
  assumes "\<And>c e c'. transaction body c = (Inl e, c') \<Longrightarrow> working c = committed c \<Longrightarrow>
      committed c' = committed c \<and> working c' = committed c"
  shows "fails_clean (transaction body)"
  unfolding fails_clean_def
proof (intro allI impI)
  fix c K e c' assume "clean K c" "transaction body c = (Inl e, c')"
  with assms [of c e c'] show "clean K c'" by (simp add: clean_def holds_def)
qed

lemma keeps_clean_inventory: "keeps (clean K) (correction_inventory ids eff)"
  unfolding clean_def by (rule keeps_inventory_holds)

lemma keeps_clean_liftA: "keeps (clean K) (liftA r)"
  by (rule keeps_liftA)

lemma fails_clean_cases:
  "(\<And>y ys. xs = y # ys \<Longrightarrow> fails_clean (f y ys)) \<Longrightarrow> fails_clean m \<Longrightarrow> fails_clean (case xs of [] \<Rightarrow> m | y # ys \<Rightarrow> f y ys)"
  "(\<And>y. x = Some y \<Longrightarrow> fails_clean (g y)) \<Longrightarrow> fails_clean n \<Longrightarrow> fails_clean (case x of None \<Rightarrow> n | Some y \<Rightarrow> g y)"
  "(b \<Longrightarrow> fails_clean p) \<Longrightarrow> (\<not> b \<Longrightarrow> fails_clean q) \<Longrightarrow> fails_clean (if b then p else q)"
  "fails_clean (h z) \<Longrightarrow> fails_clean (let y = z in h y)"
  by (auto split: list.splits option.splits)

lemma correct_fails_clean: "fails_clean (correct eff kd)"
proof -
  have tx: "fails_clean (transaction (replace_body e eff' name why ivt source now))"
    "fails_clean (transaction (split_body e eff' specs ivt am em vm reason now))"
    "fails_clean (transaction (merge_body ids eff' name ty state ivt roles reason now))"
    for e eff' name why ivt source now specs am em vm reason ids ty state roles
    by (rule fails_clean_transaction; rule replacing.failure_leaves_durable splitting.failure_leaves_durable
        merging.failure_leaves_durable; assumption)+
  have void: "fails_clean m \<Longrightarrow> fails_clean (voidA m)" for m :: "(mem conn, 'z) act"
    by (auto simp: fails_clean_def voidA_def bindA_def ret_def split: prod.splits sum.splits)
  have "fails_clean (replace_entity e eff' name reason now)" for e eff' name reason now
    unfolding replace_entity_def
    by (intro fails_clean_bindA fails_clean_cases fails_clean_pure tx keeps_clean_inventory keeps_clean_liftA)
  moreover have "fails_clean (split_entity e eff' reps aa ea va reason now)" for e eff' reps aa ea va reason now
    unfolding split_entity_def
    by (intro fails_clean_bindA fails_clean_cases fails_clean_pure tx keeps_clean_inventory keeps_clean_liftA)
  moreover have "fails_clean (merge_entities ids eff' name state reason roles now)" for ids eff' name state reason roles now
    unfolding merge_entities_def
    by (intro fails_clean_bindA fails_clean_cases fails_clean_pure tx keeps_clean_inventory keeps_clean_liftA)
  ultimately show ?thesis by (cases kd) (simp_all add: void)
qed

section \<open>Identities switched by a correction\<close>

text \<open>
  The identities \<open>ids\<close> have ended by the frontier and \<open>target\<close> has begun there under its name.
\<close>

definition switched :: "string \<Rightarrow> int list \<Rightarrow> int \<Rightarrow> int \<Rightarrow> string \<Rightarrow> mem \<Rightarrow> bool" where
  "switched book ids eff target name m =
     ((\<forall>e \<in> set (entities m). f_book e = book \<longrightarrow> en_id e \<in> set ids \<longrightarrow> \<not> lives_past eff e) \<and>
      (\<exists>e \<in> set (entities m). f_book e = book \<and> en_id e = target \<and> en_name e = name \<and> f_rev e = eff \<and>
         f_invalid e = None \<and> f_retracted e = None))"

lemma switched_tables [simp]:
  "switched book ids eff t n (m\<lparr>aliases := x1\<rparr>) = switched book ids eff t n m"
  "switched book ids eff t n (m\<lparr>edges := x2\<rparr>) = switched book ids eff t n m"
  "switched book ids eff t n (m\<lparr>states := x3\<rparr>) = switched book ids eff t n m"
  "switched book ids eff t n (m\<lparr>participants := x4\<rparr>) = switched book ids eff t n m"
  "switched book ids eff t n (m\<lparr>corrections := x5\<rparr>) = switched book ids eff t n m"
  by (simp_all add: switched_def)

lemma keeps_switched:
  "keeps (inside (switched book ids eff t n)) (add_state e rv j iv xv now)"
  "keeps (inside (switched book ids eff t n)) (add_alias e s rv now)"
  "keeps (inside (switched book ids eff t n)) (add_edge s' d r l rv iv xv now)"
  "keeps (inside (switched book ids eff t n)) (add_event_participant ev en ro rv)"
  "keeps (inside (switched book ids eff t n)) (record_correction k eff' ss ts a re now)"
  unfolding write_defs record_correction_def by (intro keeps_ins_inside; simp add: Let_def)+

lemma keeps_switched_carry: "keeps (inside (switched book ids eff t n)) (carry_later src tg eff' now)"
  unfolding carry_later_def
  by (intro keeps_intros keeps_exec_dml_inside)
    (simp_all add: carry_aliases_def carry_edges_def carry_states_def carry_participants_def)

lemma switch_start:
  assumes "invalidate_sources ids eff c = (Inr (), c1)" and "add_entity name ty eff xv now c1 = (Inr target, c2)"
    and "set ids \<subseteq> en_id ` set (entities (working c))" and active: "transaction_active c"
  shows "inside (switched (book_id c) ids eff target name) c2 \<and> target \<notin> set ids"
proof -
  let ?g = "\<lambda>m. (length (filter (ends_later (book_id c) ids eff) (entities m)),
        m\<lparr>entities := update_where (ends_later (book_id c) ids eff) (\<lambda>e. e\<lparr>f_invalid := Some eff\<rparr>) (entities m)\<rparr>)"
  from assms(1) obtain n where w: "writer (exec_dml [T_entities] (eff # ids) ?g) c = (Inr n, c1)"
    by (auto simp: invalidate_sources_def with_book_def bindA_Inr raise_def ret_def split: if_splits)
  then have m1: "working c1 = snd (?g (working c))" by (auto dest!: writer_Inr exec_dml_Inr)
  have kept: "keeps (inside (\<lambda>_. True)) (invalidate_sources ids eff)" "keeps (inside (\<lambda>_. True)) (add_entity name ty eff xv now)"
    unfolding invalidate_sources_def add_entity_def by (intro keeps_intros keeps_exec_dml_inside keeps_ins_inside; simp)+
  have "inside (\<lambda>_. True) c" using active by (simp add: inside_def)
  from keepsD [OF kept(1) this] have "inside (\<lambda>_. True) c1" by (simp add: assms(1))
  from keepsD [OF kept(2) this] have act2: "transaction_active c2" by (simp add: assms(2) inside_def)
  have book: "book_id c1 = book_id c"
    by (rule book_kept [where m = "invalidate_sources ids eff"]) (use assms(1) in \<open>auto intro: keeps_parts_session\<close>)
  from ins_Inr [OF assms(2) [unfolded add_entity_def]] book have
    target: "target = next_rowid (map en_id (entities (working c1)))" and
    ents: "entities (working c2) = entities (working c1) @
      [\<lparr>f_book = book_id c, f_rev = eff, f_invalid = None, f_retracted = None, en_id = target, en_name = name,
       en_type = ty, en_stamp = stamp_of xv now\<rparr>]"
    by (simp_all add: Let_def)
  have "map en_id (entities (working c1)) = map en_id (entities (working c))"
    by (simp add: m1 map_update_where)
  with assms(3) target have fresh: "target \<notin> set ids" using next_rowid_fresh by (metis set_map subset_iff)
  have ended: "\<not> lives_past eff e" if "e \<in> set (entities (working c1))" "f_book e = book_id c" "en_id e \<in> set ids" for e
    using that by (auto simp: m1 ends_later_def lives_past_def dest!: set_update_whereD split: if_splits)
  show ?thesis using act2 fresh ended by (auto simp: inside_def switched_def ents)
qed

lemma switched_body:
  assumes "bindA (invalidate_sources ids eff) (\<lambda>_. bindA (add_entity name ty eff xv now) R) c = (Inr x, c')"
    and "\<And>t. keeps (inside (switched (book_id c) ids eff t name)) (R t)"
    and "\<And>t c2. R t c2 = (Inr x, c') \<Longrightarrow> t = target"
    and "set ids \<subseteq> en_id ` set (entities (working c))" and "transaction_active c"
  shows "switched (book_id c) ids eff target name (working c') \<and> target \<notin> set ids"
proof -
  from assms(1) obtain c1 t c2 where i: "invalidate_sources ids eff c = (Inr (), c1)"
    and a: "add_entity name ty eff xv now c1 = (Inr t, c2)" and r: "R t c2 = (Inr x, c')"
    by (auto simp: bindA_Inr)
  from switch_start [OF i a assms(4,5)] have "inside (switched (book_id c) ids eff t name) c2" "t \<notin> set ids" by auto
  with keepsD [OF assms(2), of t c2] r assms(3) [OF r] show ?thesis by (simp add: inside_def)
qed

lemma switched_replace_body:
  assumes "replace_body e eff name why ivt source now c = (Inr (cid, target), c')"
    and "e \<in> en_id ` set (entities (working c))" and "transaction_active c"
  shows "switched (book_id c) [e] eff target name (working c') \<and> target \<notin> set [e]"
  using assms(1) unfolding replace_body_def
proof (rule switched_body)
  show "set [e] \<subseteq> en_id ` set (entities (working c))" using assms(2) by simp
qed (use assms(3) in \<open>auto intro!: keeps_intros keeps_switched keeps_switched_carry simp: bindA_Inr ret_def\<close>)

lemma switched_merge_body:
  assumes "merge_body ids eff name ty state ivt roles why now c = (Inr (cid, targets), c')"
    and "set ids \<subseteq> en_id ` set (entities (working c))" and "transaction_active c"
  shows "\<exists>target. targets = [target] \<and> switched (book_id c) ids eff target name (working c') \<and> target \<notin> set ids"
proof -
  from assms(1) obtain target where t: "targets = [target]"
    by (auto simp: merge_body_def bindA_Inr ret_def Let_def)
  have "switched (book_id c) ids eff target name (working c') \<and> target \<notin> set ids"
    using assms(1) unfolding merge_body_def t
    by (rule switched_body) (use assms(2,3) in \<open>auto intro!: keeps_intros keeps_switched simp: bindA_Inr ret_def Let_def\<close>)
  with t show ?thesis by blast
qed

lemma inventory_sources:
  assumes "correction_inventory vs (PyInt eff) c = (Inr ivt, c')"
  shows "\<exists>ids. unique_ids vs = Inr ids \<and> ids \<noteq> [] \<and> iv_entities ivt = source_entities (book_id c) ids eff (working c) \<and>
    set (map en_id (iv_entities ivt)) = set ids \<and> working c' = working c \<and> book_id c' = book_id c"
proof -
  have book: "book_id c' = book_id c"
    by (rule book_kept [where m = "correction_inventory vs (PyInt eff)"]) (use assms in \<open>auto intro: keeps_intros\<close>)
  have rows: "x = f (working d) \<and> working d' = working d" if "rows_q reads ints f d = (Inr x, d')"
    for reads ints and f :: "mem \<Rightarrow> 'z" and x d d'
    using that by (auto simp: rows_q_def raise_def dest: writer_Inr writer_query_Inr split: if_splits)
  from assms show ?thesis using book
    by (auto simp: correction_inventory_def with_book_def bindA_Inr liftA_Inr require_effective_at_def raise_def ret_def
        dest!: rows split: if_splits)
qed


lemma switched_visibility:
  assumes "switched book ids eff target name m" and "eff \<le> b"
  shows "vis_entity b book m target \<and> (\<forall>i \<in> set ids. \<not> vis_entity b book m i)"
  using assms by (fastforce simp: switched_def vis_entity_def list_ex_iff spoiler_clause_def lives_past_def split: option.splits)

lemma replace_entity_Inr:
  assumes "replace_entity (PyInt e) (PyInt eff) (PyStr name) reason now c = (Inr (cid, target), c')"
  shows "switched (book_id c) [e] eff target (strip name) (working c') \<and> target \<noteq> e"
proof -
  from assms obtain why ivt c1 where
    ivt: "correction_inventory [PyInt e] (PyInt eff) c = (Inr ivt, c1)" and
    rest: "(case iv_entities ivt of [] \<Rightarrow> raise (RuntimeError ''unreachable'')
     | source # _ \<Rightarrow>
         if casefold (strip name) = casefold (strip (en_name source))
         then raise (ValueError ''corrected name must differ from the current name'')
         else transaction (replace_body (en_id source) (iv_at ivt) (strip name) why ivt source now)) c1 = (Inr (cid, target), c')"
    by (auto simp: replace_entity_def bindA_Inr liftA_Inr stripped_def split: if_splits)
  then obtain source others where ents: "iv_entities ivt = source # others" and
    tx: "transaction (replace_body (en_id source) eff (strip name) why ivt source now) c1 = (Inr (cid, target), c')"
    by (cases "iv_entities ivt") (auto simp: raise_def inventory_at [OF ivt] split: if_splits)
  from inventory_sources [OF ivt] have src: "set (map en_id (iv_entities ivt)) = {e}" "working c1 = working c"
    "iv_entities ivt = source_entities (book_id c) [e] eff (working c)" "book_id c1 = book_id c"
    by (auto simp: unique_ids_def)
  have "source \<in> set (source_entities (book_id c) [e] eff (working c))" using src(3) ents by (metis list.set_intros(1))
  then have e: "en_id source = e" "e \<in> en_id ` set (entities (working c))" by (auto simp: source_entities_def)
  from replacing.success_is_body [OF tx] obtain c2 c3 where enter: "transaction_enter c1 = (Inr (), c2)" and
    body: "replace_body (en_id source) eff (strip name) why ivt source now c2 = (Inr (cid, target), c3)" and
    fin: "working c' = working c3" by blast
  from transaction_enter_Inr [OF enter] transaction_enter_book [OF enter] src
  have "book_id c2 = book_id c" "working c2 = working c" "transaction_active c2" by auto
  with switched_replace_body [OF body] e fin show ?thesis by auto
qed

definition good_assignments :: "int \<Rightarrow> (int \<times> nat list) list \<Rightarrow> bool" where
  "good_assignments n d = (distinct (map fst d) \<and>
     (\<forall>(k, ts) \<in> set d. distinct ts \<and> (\<forall>t \<in> set ts. int t < n)))"

lemma dict_put_keys: "fst ` set (dict_put k v d) = insert k (fst ` set d)"
proof (induction d)
  case (Cons x d)
  then show ?case by (cases x) (auto simp del: set_map)
qed simp

lemma dict_put_set: "set (dict_put k v d) \<subseteq> insert (k, v) (set d)"
  by (induction d) (auto split: if_splits)

lemma dict_put_distinct: "distinct (map fst d) \<Longrightarrow> distinct (map fst (dict_put k v d))"
proof (induction d)
  case (Cons x d)
  then show ?case using dict_put_keys [of k v d] by (cases x) auto
qed simp

lemma target_indexes_good:
  "target_indexes n raw = Inr ts \<Longrightarrow> distinct ts \<and> (\<forall>t \<in> set ts. int t < n)"
  by (force simp: target_indexes_def list_ex_iff distinct_map inj_on_def not_less not_le eq_nat_nat_iff
      split: option.splits if_splits)

lemma good_put:
  assumes "good_assignments n d" and "distinct ts" and "\<forall>t \<in> set ts. int t < n"
  shows "good_assignments n (dict_put k ts d)"
  using assms dict_put_set [of k ts d] by (fastforce simp: good_assignments_def dict_put_distinct)

lemma normalize_good:
  "normalize_assignments n items acc = Inr d \<Longrightarrow> good_assignments n acc \<Longrightarrow> good_assignments n d"
proof (induction n items acc rule: normalize_assignments.induct)
  case (2 n raw_id raw rest acc)
  from "2.prems"(1) obtain k ts where k: "py_int raw_id = Inr k" "target_indexes n raw = Inr ts"
    and rec: "normalize_assignments n rest (dict_put k ts acc) = Inr d"
    by (auto split: sum.splits)
  from target_indexes_good [OF k(2)] "2.prems"(2) have "good_assignments n (dict_put k ts acc)"
    by (auto intro: good_put)
  from "2.IH" [OF k rec this] show ?case .
qed simp

section \<open>Properties\<close>

text \<open>
  Property C7: an identity correction never rewrites the past. Whatever a replace, split or merge at
  frontier \<open>eff\<close> does, and whether it returns or raises, every structured read at a bookmark before
  \<open>eff\<close> answers as before, unless a failed rollback poisoned the connection.
\<close>
theorem corrections_keep_earlier_views:
  assumes "working c = committed c" and "b < eff" and "poisoned (snd (correct eff k c)) = poisoned c"
  shows "fst (view_read (PyInt b) q (snd (correct eff k c))) = fst (view_read (PyInt b) q c)"
proof -
  have "holds (\<lambda>m. horizon b m = horizon b (working c)) (snd (correct eff k c))"
    using assms(1,2) by (intro keepsD [OF correct_frame]) (simp_all add: holds_def)
  moreover have "session_is (book_id c, active_owner c, env_thread c) (snd (correct eff k c))"
    by (intro keepsD [OF correct_session]) (simp add: session_is_def)
  ultimately have "low b (snd (correct eff k c)) c"
    using assms(3) by (simp add: low_def holds_def session_is_def)
  moreover have "blind b (view_read (PyInt b) q)"
    unfolding view_read_PyInt by (rule blind_read_at)
  ultimately show ?thesis by (metis blindD(2))
qed

theorem corrections_keep_earlier_views_witness:
  "fst (view_read (PyInt 3) Q_relationships (snd (correct 4 (Replace (PyInt 1) (PyStr ''Anna'') (PyStr ''typo'') ''t'') sample_conn))) =
   fst (view_read (PyInt 3) Q_relationships sample_conn)"
proof (rule corrections_keep_earlier_views)
  show "poisoned (snd (correct 4 (Replace (PyInt 1) (PyStr ''Anna'') (PyStr ''typo'') ''t'') sample_conn)) = poisoned sample_conn"
    by code_simp
qed (simp_all add: sample_conn_def conn_on_def)

text \<open>
  A correction that raises, at whatever point, leaves no trace: nothing of it is durable
  and nothing is pending on the connection.
\<close>
theorem failed_correction_changes_nothing:
  assumes "working c = committed c" and "correct eff k c = (Inl e, c')"
  shows "committed c' = committed c \<and> working c' = committed c"
proof -
  have "clean (committed c) c" using assms(1) by (simp add: clean_def holds_def)
  with assms(2) correct_fails_clean [of eff k] have "clean (committed c) c'"
    unfolding fails_clean_def by blast
  then show ?thesis by (simp add: clean_def holds_def)
qed

theorem failed_correction_changes_nothing_witness:
  "committed (snd (correct 4 (Merge [PyInt 1, PyInt 2] (PyStr ''Both'') None [] [(PyInt 9, None)] ''t'') sample_conn)) = sample_mem"
proof -
  have "\<not> succeeded (fst (correct 4 (Merge [PyInt 1, PyInt 2] (PyStr ''Both'') None [] [(PyInt 9, None)] ''t'') sample_conn))"
    by code_simp
  then obtain e where "correct 4 (Merge [PyInt 1, PyInt 2] (PyStr ''Both'') None [] [(PyInt 9, None)] ''t'') sample_conn =
    (Inl e, snd (correct 4 (Merge [PyInt 1, PyInt 2] (PyStr ''Both'') None [] [(PyInt 9, None)] ''t'') sample_conn))"
    by (auto simp: not_succeeded_iff prod_eq_iff)
  from failed_correction_changes_nothing [OF _ this] show ?thesis by (simp add: sample_conn_def conn_on_def)
qed

text \<open>
  A replacement switches the identity exactly at the frontier. When \<^verbatim>\<open>replace_entity\<close>
  returns, the old entity is hidden and the new one visible at every bookmark from the frontier on, and
  at every earlier bookmark the visible entities are those from before.
\<close>
theorem replaced_identity_switches_at_frontier:
  assumes "replace_entity (PyInt e) (PyInt eff) (PyStr name) reason now c = (Inr (cid, target), c')"
    and "working c = committed c"
  shows "target \<noteq> e \<and>
    (\<forall>b \<ge> eff. vis_entity b (book_id c) (working c') target \<and> \<not> vis_entity b (book_id c) (working c') e) \<and>
    (\<forall>b < eff. \<forall>i. vis_entity b (book_id c) (working c') i = vis_entity b (book_id c) (working c) i)"
proof -
  have past: "horizon b (working c') = horizon b (working c)" if "b < eff" for b
  proof -
    have "keeps (holds (\<lambda>m. horizon b m = horizon b (working c))) (replace_entity (PyInt e) (PyInt eff) (PyStr name) reason now)"
      using that by (intro keeps_replace_entity keeps_intros frame_replace_body)
    from keepsD [OF this, of c] assms show ?thesis by (simp add: holds_def)
  qed
  have "switched (book_id c) [e] eff target (strip name) (working c')" "target \<noteq> e"
    using replace_entity_Inr [OF assms(1)] by auto
  then show ?thesis using switched_visibility past by (metis list.set_intros(1) vis_entity_horizon)
qed

theorem replaced_identity_switches_at_frontier_witness:
  "\<exists>target. target \<noteq> 1 \<and> vis_entity 4 ''b'' (working (snd (replace_entity (PyInt 1) (PyInt 4) (PyStr ''Anna'') (PyStr ''typo'') ''t'' sample_conn))) target"
proof -
  have "fst (replace_entity (PyInt 1) (PyInt 4) (PyStr ''Anna'') (PyStr ''typo'') ''t'' sample_conn) = Inr (1, 3)"
    by code_simp
  then have r: "replace_entity (PyInt 1) (PyInt 4) (PyStr ''Anna'') (PyStr ''typo'') ''t'' sample_conn =
    (Inr (1, 3), snd (replace_entity (PyInt 1) (PyInt 4) (PyStr ''Anna'') (PyStr ''typo'') ''t'' sample_conn))"
    by (simp add: prod_eq_iff)
  have "working sample_conn = committed sample_conn" "book_id sample_conn = ''b''"
    by (simp_all add: sample_conn_def conn_on_def)
  with replaced_identity_switches_at_frontier [OF r] show ?thesis by (intro exI [where x = 3]) simp
qed

text \<open>
  The assignments of a split are complete and in range. \<^verbatim>\<open>_assignment_map\<close> returns only if
  its keys are exactly the active dependencies, once each, and every target index is a replacement,
  without repetition.
\<close>
theorem assignments_cover_every_dependency:
  assumes "assignment_map assignments expected n = Inr d"
  shows "set (map fst d) = set expected \<and> distinct (map fst d) \<and>
    (\<forall>(k, targets) \<in> set d. distinct targets \<and> (\<forall>t \<in> set targets. int t < n))"
  using assms normalize_good [of n _ "[]" d]
  by (auto simp: assignment_map_def good_assignments_def split: option.splits sum.splits if_splits)

theorem assignments_cover_every_dependency_witness:
  "set (map fst [(7 :: int, [0, 1 :: nat]), (9, [])]) = set [9, 7]"
proof -
  have "assignment_map (Some [(PyStr ''7'', Some [PyInt 0, PyInt 1]), (PyInt 9, Some [])]) [9, 7] 2 = Inr [(7, [0, 1]), (9, [])]"
    by code_simp
  from assignments_cover_every_dependency [OF this] show ?thesis by blast
qed

end
