(* ===== verification/Catalog.thy ===== *)
theory Catalog imports PyText begin

text \<open>
  The shared catalog, \<^verbatim>\<open>backend/app/catalog/catalog.py\<close> with
  \<^verbatim>\<open>backend/app/catalog/schema/catalog.sql\<close>: the shelf, the reading state with its monotone marks,
  the cost ledger and the durable cost reservations. Every method runs under one lock as one SQL
  transaction, so it is a function of the content that changes nothing when it raises. USD amounts are
  rationals, without binary rounding; \<open>now\<close>, incarnations and reservation ids are the readings of the
  clock and of uuid4.
\<close>

section \<open>Content\<close>

record book_row =
  bk_id :: string
  bk_title :: string
  bk_author :: "string option"
  bk_source :: "string option"
  bk_source_id :: "string option"
  bk_hash :: "string option"
  bk_cover :: "string option"
  bk_path :: string
  bk_schema :: int
  bk_incarnation :: string
  bk_added :: string

record reading_row =
  rs_book :: string
  rs_bookmark :: int
  rs_cfi :: "string option"
  rs_progress :: int
  rs_epoch :: int
  rs_updated :: "string option"

record ledger_row =
  lg_id :: int
  lg_book :: string
  lg_chapter :: "int option"
  lg_phase :: string
  lg_model :: "string option"
  lg_in :: int
  lg_out :: int
  lg_usd :: rat
  lg_at :: string

record reservation_row =
  rv_id :: string
  rv_book :: string
  rv_chapter :: "int option"
  rv_phase :: string
  rv_model :: "string option"
  rv_in :: int
  rv_out :: int
  rv_usd :: rat
  rv_actual :: "(int \<times> int \<times> rat) option"
  rv_at :: string

record catalog =
  books :: "book_row list"
  reading :: "reading_row list"
  ledger :: "ledger_row list"
  reservations :: "reservation_row list"

definition book_known :: "string \<Rightarrow> catalog \<Rightarrow> bool" where
  "book_known b k = list_ex (\<lambda>r. bk_id r = b) (books k)"

text \<open>The partial unique index on the ledger: one extraction entry per chapter.\<close>

definition extraction_entry :: "string \<Rightarrow> int option \<Rightarrow> ledger_row \<Rightarrow> bool" where
  "extraction_entry b chapter r = (lg_book r = b \<and> lg_chapter r = chapter \<and> chapter \<noteq> None \<and> lg_phase r = ''extraction'')"

section \<open>Guards\<close>

definition check_int :: "pyval \<Rightarrow> int res" where
  "check_int v = (case v of
     PyInt i \<Rightarrow> if i < 0 \<or> 2 ^ 63 \<le> i then Inl (ValueError ''must be in [0, 2**63)'') else Inr i
   | _ \<Rightarrow> Inl (ValueError ''must be an int ordinal''))"

definition check_cost_value :: "pyval \<Rightarrow> int res" where
  "check_cost_value v = (case v of
     PyInt i \<Rightarrow> if i < 0 \<or> 2 ^ 63 \<le> i then Inl (ValueError ''must be a non-negative SQLite int'') else Inr i
   | _ \<Rightarrow> Inl (ValueError ''must be a non-negative SQLite int''))"

text \<open>\<^verbatim>\<open>math.isfinite\<close> of an int raises when it is too large for a float.\<close>

definition check_usd :: "pyval \<Rightarrow> rat res" where
  "check_usd v = (case v of
     PyInt i \<Rightarrow> if 2 ^ 1024 - 2 ^ 970 \<le> \<bar>i\<bar> then Inl OverflowError
       else if i < 0 then Inl (ValueError ''must be a finite non-negative number'') else Inr (of_int i)
   | PyFloat r \<Rightarrow> if r < 0 then Inl (ValueError ''must be a finite non-negative number'') else Inr r
   | _ \<Rightarrow> Inl (ValueError ''must be a finite non-negative number''))"

text \<open>The integers the driver has to bind for a USD argument.\<close>

definition usd_ints :: "pyval \<Rightarrow> int list" where
  "usd_ints v = (case v of PyInt i \<Rightarrow> [i] | _ \<Rightarrow> [])"

definition bound :: "int list \<Rightarrow> ('s, unit) act" where
  "bound is = checkA (list_all int64 is) OverflowError"

section \<open>Shelf\<close>

definition add_book ::
  "string \<Rightarrow> string \<Rightarrow> string option \<Rightarrow> string option \<Rightarrow> string option \<Rightarrow> string option \<Rightarrow> string option \<Rightarrow>
   string option \<Rightarrow> int option \<Rightarrow> int \<Rightarrow> string \<Rightarrow> string \<Rightarrow> (catalog, unit) act" where
  "add_book b title author source source_id file_hash cover db_path schema_version default_version incarnation now =
     atomically (bindA (bound [case schema_version of None \<Rightarrow> default_version | Some v \<Rightarrow> v]) (\<lambda>_.
       bindA (asks (book_known b)) (\<lambda>known.
       if known then raise (ValueError ''already in the catalog'')
       else modify (\<lambda>k. k\<lparr>
         books := books k @ [\<lparr>bk_id = b, bk_title = title, bk_author = author, bk_source = source,
           bk_source_id = source_id, bk_hash = file_hash, bk_cover = cover,
           bk_path = (case db_path of None \<Rightarrow> ''books/'' @ b @ ''/memory.db''
             | Some p \<Rightarrow> if p = [] then ''books/'' @ b @ ''/memory.db'' else p),
           bk_schema = (case schema_version of None \<Rightarrow> default_version | Some v \<Rightarrow> v),
           bk_incarnation = incarnation, bk_added = now\<rparr>],
         reading := reading k @ [\<lparr>rs_book = b, rs_bookmark = 0, rs_cfi = None, rs_progress = 0, rs_epoch = 0,
           rs_updated = None\<rparr>]\<rparr>))))"

definition get_book :: "string \<Rightarrow> catalog \<Rightarrow> book_row option" where
  "get_book b k = find (\<lambda>r. bk_id r = b) (books k)"

definition set_schema_version :: "string \<Rightarrow> pyval \<Rightarrow> (catalog, unit) act" where
  "set_schema_version b v = bindA (liftA (check_int v)) (\<lambda>version.
     if version = 0 then raise (ValueError ''schema_version must be positive'')
     else atomically (bindA (asks (\<lambda>k. (filter (\<lambda>r. bk_id r = b \<and> bk_schema r \<le> version) (books k), get_book b k)))
       (\<lambda>(changed, row).
          if changed = [] then
            (case row of None \<Rightarrow> ret ()
             | Some r \<Rightarrow> if bk_schema r > version
                 then raise (RuntimeError ''catalog schema_version is newer than the opened book store'') else ret ())
          else modify (\<lambda>k. k\<lparr>books := update_where (\<lambda>r. bk_id r = b \<and> bk_schema r \<le> version)
            (\<lambda>r. r\<lparr>bk_schema := version\<rparr>) (books k)\<rparr>))))"

definition list_books :: "catalog \<Rightarrow> book_row list" where
  "list_books k = sort_key (\<lambda>r. (bk_added r, bk_id r)) (books k)"

definition squeeze :: "string \<Rightarrow> string" where
  "squeeze s = take 512 (join '' '' (split_words s))"

definition update_book_metadata :: "string \<Rightarrow> pyval \<Rightarrow> pyval \<Rightarrow> (catalog, unit) act" where
  "update_book_metadata b title author =
     (case title of
        PyStr t \<Rightarrow>
          if strip t = [] then raise (ValueError ''title must be a non-empty string'')
          else if (case author of PyNone \<Rightarrow> False | PyStr _ \<Rightarrow> False | _ \<Rightarrow> True)
            then raise (ValueError ''author must be a string or null'')
          else atomically (bindA (asks (book_known b)) (\<lambda>known.
            if \<not> known then raise (ValueError ''unknown book'')
            else modify (\<lambda>k. k\<lparr>books := update_where (\<lambda>r. bk_id r = b)
              (\<lambda>r. r\<lparr>bk_title := squeeze t, bk_author := (case author of
                 PyStr a \<Rightarrow> if strip a = [] then None else Some (squeeze a) | _ \<Rightarrow> None)\<rparr>) (books k)\<rparr>)))
      | _ \<Rightarrow> raise (ValueError ''title must be a non-empty string''))"

definition remove_book :: "string \<Rightarrow> (catalog, unit) act" where
  "remove_book b = modify (\<lambda>k. k\<lparr>
     reservations := filter (\<lambda>r. rv_book r \<noteq> b) (reservations k),
     ledger := filter (\<lambda>r. lg_book r \<noteq> b) (ledger k),
     reading := filter (\<lambda>r. rs_book r \<noteq> b) (reading k),
     books := filter (\<lambda>r. bk_id r \<noteq> b) (books k)\<rparr>)"

section \<open>Reading state\<close>

definition get_state :: "string \<Rightarrow> catalog \<Rightarrow> reading_row option" where
  "get_state b k = find (\<lambda>r. rs_book r = b) (reading k)"

definition high_water :: "string \<Rightarrow> catalog \<Rightarrow> int option" where
  "high_water b k = map_option rs_bookmark (get_state b k)"

definition state_after :: "string \<Rightarrow> (catalog, reading_row) act" where
  "state_after b = bindA (asks (get_state b)) (\<lambda>r. case r of
     None \<Rightarrow> raise (TypeError ''NoneType'') | Some row \<Rightarrow> ret row)"

definition set_position :: "string \<Rightarrow> string option \<Rightarrow> pyval \<Rightarrow> pyval \<Rightarrow> string \<Rightarrow> (catalog, reading_row) act" where
  "set_position b cfi bookmark expected_epoch now =
     bindA (liftA (check_int bookmark)) (\<lambda>mark.
     bindA (liftA (check_int expected_epoch)) (\<lambda>epoch.
     atomically (bindA (asks (get_state b)) (\<lambda>row.
       case row of None \<Rightarrow> raise (ValueError ''unknown book'')
       | Some r \<Rightarrow>
           if rs_epoch r \<noteq> epoch then raise (ValueError ''position epoch changed; the reading position was reset'')
           else bindA (modify (\<lambda>k. k\<lparr>reading := update_where (\<lambda>r. rs_book r = b \<and> rs_epoch r = epoch)
                  (\<lambda>r. r\<lparr>rs_bookmark := max (rs_bookmark r) mark, rs_cfi := cfi, rs_updated := Some now\<rparr>) (reading k)\<rparr>))
                (\<lambda>_. state_after b)))))"

definition reset_position :: "string \<Rightarrow> pyval \<Rightarrow> string \<Rightarrow> (catalog, reading_row) act" where
  "reset_position b expected_epoch now =
     bindA (liftA (check_int expected_epoch)) (\<lambda>epoch.
     atomically (bindA (asks (get_state b)) (\<lambda>row.
       case row of None \<Rightarrow> raise (ValueError ''unknown book'')
       | Some r \<Rightarrow>
           if rs_epoch r = epoch \<and> rs_epoch r < 2 ^ 63 - 1
           then bindA (modify (\<lambda>k. k\<lparr>reading := update_where (\<lambda>r. rs_book r = b \<and> rs_epoch r = epoch \<and> rs_epoch r < 2 ^ 63 - 1)
                  (\<lambda>r. r\<lparr>rs_bookmark := 0, rs_cfi := None, rs_epoch := rs_epoch r + 1, rs_updated := Some now\<rparr>) (reading k)\<rparr>))
                (\<lambda>_. state_after b)
           else if 2 ^ 63 - 1 \<le> rs_epoch r then raise (ValueError ''position epoch is exhausted'')
           else raise (ValueError ''position epoch changed; the reading position was reset''))))"

definition advance :: "string \<Rightarrow> int \<Rightarrow> string \<Rightarrow> catalog \<Rightarrow> catalog" where
  "advance b n now k = k\<lparr>reading := update_where (\<lambda>r. rs_book r = b)
     (\<lambda>r. r\<lparr>rs_progress := max (rs_progress r) n, rs_updated := Some now\<rparr>) (reading k)\<rparr>"

definition set_ingest_progress :: "string \<Rightarrow> pyval \<Rightarrow> string \<Rightarrow> (catalog, unit) act" where
  "set_ingest_progress b n now = bindA (liftA (check_int n)) (\<lambda>ordinal.
     atomically (bindA (asks (get_state b)) (\<lambda>row.
       if row = None then raise (ValueError ''unknown book'') else modify (advance b ordinal now))))"

section \<open>Ingest receipts\<close>

text \<open>A cost receipt is a dict; \<open>cost_get\<close> is \<^verbatim>\<open>cost.get(key, default)\<close>.\<close>

definition cost_get :: "(string \<times> pyval) list \<Rightarrow> string \<Rightarrow> pyval \<Rightarrow> pyval" where
  "cost_get cost key d = (case map_of cost key of None \<Rightarrow> d | Some v \<Rightarrow> v)"

definition cost_model :: "(string \<times> pyval) list \<Rightarrow> string option" where
  "cost_model cost = (case cost_get cost ''model'' PyNone of PyStr m \<Rightarrow> Some m | _ \<Rightarrow> None)"

text \<open>The checked token counts and USD of a receipt.\<close>

definition checked_cost :: "(string \<times> pyval) list \<Rightarrow> (int \<times> int \<times> rat) res" where
  "checked_cost cost =
     (case check_cost_value (cost_get cost ''input_tokens'' (PyInt 0)) of Inl e \<Rightarrow> Inl e | Inr i \<Rightarrow>
     (case check_cost_value (cost_get cost ''output_tokens'' (PyInt 0)) of Inl e \<Rightarrow> Inl e | Inr out \<Rightarrow>
     (case check_usd (cost_get cost ''usd'' (PyFloat 0)) of Inl e \<Rightarrow> Inl e | Inr usd \<Rightarrow> Inr (i, out, usd))))"

text \<open>The INSERT ... ON CONFLICT DO UPDATE of the extraction entry of a chapter.\<close>

definition upsert_extraction ::
  "string \<Rightarrow> int \<Rightarrow> string option \<Rightarrow> int \<Rightarrow> int \<Rightarrow> rat \<Rightarrow> string \<Rightarrow> catalog \<Rightarrow> catalog" where
  "upsert_extraction b n model i out usd now k =
     (if list_ex (extraction_entry b (Some n)) (ledger k)
      then k\<lparr>ledger := update_where (extraction_entry b (Some n))
             (\<lambda>r. r\<lparr>lg_model := model, lg_in := i, lg_out := out, lg_usd := usd\<rparr>) (ledger k)\<rparr>
      else k\<lparr>ledger := ledger k @ [\<lparr>lg_id = next_rowid (map lg_id (ledger k)), lg_book = b, lg_chapter = Some n,
             lg_phase = ''extraction'', lg_model = model, lg_in = i, lg_out = out, lg_usd = usd, lg_at = now\<rparr>]\<rparr>)"

definition drop_extraction_reservations :: "string \<Rightarrow> int \<Rightarrow> catalog \<Rightarrow> catalog" where
  "drop_extraction_reservations b n k = k\<lparr>reservations := filter (\<lambda>r. \<not> (rv_book r = b \<and> rv_chapter r = Some n \<and>
     rv_phase r = ''extraction'')) (reservations k)\<rparr>"

definition current_incarnation :: "string \<Rightarrow> string option \<Rightarrow> catalog \<Rightarrow> bool" where
  "current_incarnation b incarnation k = (case incarnation of None \<Rightarrow> True
     | Some inc \<Rightarrow> list_ex (\<lambda>r. bk_id r = b \<and> bk_incarnation r = inc) (books k))"

definition finalize_ingest ::
  "string \<Rightarrow> pyval \<Rightarrow> (string \<times> pyval) list option \<Rightarrow> string option \<Rightarrow> string \<Rightarrow> (catalog, unit) act" where
  "finalize_ingest b n cost incarnation now =
     bindA (liftA (check_int n)) (\<lambda>ordinal.
     bindA (liftA (case cost of None \<Rightarrow> Inr None | Some c \<Rightarrow>
       (case checked_cost c of Inl e \<Rightarrow> Inl e | Inr v \<Rightarrow> Inr (Some (c, v))))) (\<lambda>checked.
     atomically
       (bindA (asks (current_incarnation b incarnation)) (\<lambda>current.
        if \<not> current then raise (ValueError ''stale catalog incarnation'') else
        bindA (case checked of None \<Rightarrow> ret ()
          | Some (c, i, out, usd) \<Rightarrow>
              bindA (bound (usd_ints (cost_get c ''usd'' (PyFloat 0)))) (\<lambda>_.
              bindA (asks (book_known b)) (\<lambda>known.
              if \<not> known then raise (IntegrityError ''FOREIGN KEY'')
              else modify (\<lambda>k. drop_extraction_reservations b ordinal
                (upsert_extraction b ordinal (cost_model c) i out usd now k))))) (\<lambda>_.
        bindA (asks (get_state b)) (\<lambda>row.
          if row = None then raise (ValueError ''unknown book'') else modify (advance b ordinal now)))))))"

section \<open>Ledger and reservations\<close>

text \<open>An INSERT into the ledger checks the foreign key and the partial unique index.\<close>

definition insert_ledger ::
  "string \<Rightarrow> int option \<Rightarrow> string \<Rightarrow> string option \<Rightarrow> int \<Rightarrow> int \<Rightarrow> rat \<Rightarrow> string \<Rightarrow> (catalog, unit) act" where
  "insert_ledger b chapter phase model i out usd now k =
     (if \<not> book_known b k \<or> (phase = ''extraction'' \<and> list_ex (extraction_entry b chapter) (ledger k))
      then (Inl (IntegrityError ''constraint failed''), k)
      else (Inr (), k\<lparr>ledger := ledger k @ [\<lparr>lg_id = next_rowid (map lg_id (ledger k)), lg_book = b, lg_chapter = chapter,
             lg_phase = phase, lg_model = model, lg_in = i, lg_out = out, lg_usd = usd, lg_at = now\<rparr>]\<rparr>))"

definition record_cost ::
  "string \<Rightarrow> string \<Rightarrow> string option \<Rightarrow> pyval \<Rightarrow> pyval \<Rightarrow> pyval \<Rightarrow> int option \<Rightarrow> string \<Rightarrow> (catalog, unit) act" where
  "record_cost b phase model input_tokens output_tokens usd chapter now =
     bindA (liftA (check_cost_value input_tokens)) (\<lambda>i.
     bindA (liftA (check_cost_value output_tokens)) (\<lambda>out.
     bindA (liftA (check_usd usd)) (\<lambda>amount.
     bindA (bound (usd_ints usd @ (case chapter of None \<Rightarrow> [] | Some c \<Rightarrow> [c]))) (\<lambda>_ k.
       case insert_ledger b chapter phase model i out amount now k of
         (Inl (IntegrityError _), _) \<Rightarrow> (Inl (ValueError ''unknown book''), k)
       | r \<Rightarrow> r))))"

text \<open>The SUMs over the ledger and over the reservations of a book.\<close>

definition spent :: "string \<Rightarrow> catalog \<Rightarrow> (int \<times> int \<times> rat)" where
  "spent b k = (let rows = filter (\<lambda>r. lg_book r = b) (ledger k) in
     (sum_list (map lg_in rows), sum_list (map lg_out rows), sum_list (map lg_usd rows)))"

definition pending :: "string \<Rightarrow> catalog \<Rightarrow> (int \<times> int \<times> rat)" where
  "pending b k = (let rows = filter (\<lambda>r. rv_book r = b) (reservations k) in
     (sum_list (map rv_in rows), sum_list (map rv_out rows), sum_list (map rv_usd rows)))"

text \<open>LIKE is case-insensitive on ASCII letters; \<^verbatim>\<open>startswith\<close> is not.\<close>

definition prepare_phase_like :: "string \<Rightarrow> bool" where
  "prepare_phase_like phase = (map (\<lambda>ch. if is_upper_ascii ch then lower_char ch else ch) (take 15 phase) = ''reader-prepare:'')"

definition prepare_usd :: "string \<Rightarrow> catalog \<Rightarrow> rat" where
  "prepare_usd b k =
     sum_list (map lg_usd (filter (\<lambda>r. lg_book r = b \<and> prepare_phase_like (lg_phase r)) (ledger k))) +
     sum_list (map rv_usd (filter (\<lambda>r. rv_book r = b \<and> prepare_phase_like (rv_phase r)) (reservations k)))"

text \<open>The reading scope a preparation was planned for: incarnation, epoch and frontier.\<close>

definition scope_current :: "string \<Rightarrow> (string \<times> int \<times> int) option \<Rightarrow> catalog \<Rightarrow> bool" where
  "scope_current b scope k = (case scope of None \<Rightarrow> True
     | Some (incarnation, epoch, frontier) \<Rightarrow> (case (get_book b k, get_state b k) of
         (Some r, Some st) \<Rightarrow> bk_incarnation r = incarnation \<and> rs_epoch st = epoch \<and> rs_bookmark st = frontier \<and>
           frontier \<le> rs_progress st
       | _ \<Rightarrow> False))"

definition over_ceiling :: "(int \<times> int \<times> rat) \<Rightarrow> (int \<times> int \<times> rat) \<Rightarrow> bool" where
  "over_ceiling projected limits = (case (projected, limits) of
     ((i, out, usd), (mi, mo, mu)) \<Rightarrow> mi < i \<or> mo < out \<or> mu < usd)"

fun add3 :: "(int \<times> int \<times> rat) \<Rightarrow> (int \<times> int \<times> rat) \<Rightarrow> (int \<times> int \<times> rat)" where
  "add3 (a, b, c) (d, e, f) = (a + d, b + e, c + f)"

text \<open>SQL SUM of an integer column raises on 64-bit overflow.\<close>

definition sums_ok :: "string \<Rightarrow> catalog \<Rightarrow> unit res" where
  "sums_ok b k = (case (spent b k, pending b k) of ((si, so, _), (pi', po, _)) \<Rightarrow>
     if si < 2 ^ 63 \<and> so < 2 ^ 63 \<and> pi' < 2 ^ 63 \<and> po < 2 ^ 63 then Inr () else Inl (DatabaseError ''integer overflow''))"

definition reserve_cost ::
  "string \<Rightarrow> string \<Rightarrow> string option \<Rightarrow> pyval \<Rightarrow> pyval \<Rightarrow> pyval \<Rightarrow> pyval \<Rightarrow> pyval \<Rightarrow> pyval \<Rightarrow> int option \<Rightarrow>
   (string \<times> int \<times> int) option \<Rightarrow> pyval option \<Rightarrow> string \<Rightarrow> string \<Rightarrow> (catalog, string) act" where
  "reserve_cost b phase model input_tokens output_tokens usd max_in max_out max_usd chapter scope max_prep rid now =
     bindA (liftA (check_cost_value input_tokens)) (\<lambda>i.
     bindA (liftA (check_cost_value output_tokens)) (\<lambda>out.
     bindA (liftA (check_cost_value max_in)) (\<lambda>mi.
     bindA (liftA (check_cost_value max_out)) (\<lambda>mo.
     bindA (liftA (check_usd usd)) (\<lambda>amount.
     bindA (liftA (check_usd max_usd)) (\<lambda>mu.
     bindA (liftA (case max_prep of None \<Rightarrow> Inr None
       | Some v \<Rightarrow> (case check_usd v of Inl e \<Rightarrow> Inl e | Inr r \<Rightarrow> Inr (Some r)))) (\<lambda>mp.
     atomically
       (bindA (asks (book_known b)) (\<lambda>known.
        if \<not> known then raise (ValueError ''unknown book'') else
        bindA (asks (scope_current b scope)) (\<lambda>current.
        if \<not> current then raise (RuntimeError ''reader preparation scope is no longer current'') else
        bindA (case mp of None \<Rightarrow> ret ()
          | Some cap \<Rightarrow>
              if take 15 phase \<noteq> ''reader-prepare:'' then raise (ValueError ''preparation reservations require their own phase'')
              else bindA (asks (prepare_usd b)) (\<lambda>used.
                checkA (used + amount \<le> cap) (RuntimeError ''reader preparation cost ceiling reached''))) (\<lambda>_.
        bindA (\<lambda>k. (sums_ok b k, k)) (\<lambda>_.
        bindA (asks (\<lambda>k. add3 (add3 (spent b k) (pending b k)) (i, out, amount))) (\<lambda>projected.
        if over_ceiling projected (mi, mo, mu) then raise (RuntimeError ''cost ceiling reached'') else
        bindA (bound (usd_ints usd @ (case chapter of None \<Rightarrow> [] | Some c \<Rightarrow> [c]))) (\<lambda>_.
        bindA (asks (\<lambda>k. list_ex (\<lambda>r. rv_id r = rid) (reservations k))) (\<lambda>taken.
        if taken then raise (IntegrityError ''UNIQUE'') else
        bindA (modify (\<lambda>k. k\<lparr>reservations := reservations k @ [\<lparr>rv_id = rid, rv_book = b, rv_chapter = chapter,
          rv_phase = phase, rv_model = model, rv_in = i, rv_out = out, rv_usd = amount, rv_actual = None, rv_at = now\<rparr>]\<rparr>)) (\<lambda>_.
        ret rid))))))))))))))))"

definition reservation_of :: "string \<Rightarrow> string \<Rightarrow> catalog \<Rightarrow> reservation_row option" where
  "reservation_of b rid k = find (\<lambda>r. rv_id r = rid \<and> rv_book r = b) (reservations k)"

definition note_reservation_actual ::
  "string \<Rightarrow> string \<Rightarrow> pyval \<Rightarrow> pyval \<Rightarrow> pyval \<Rightarrow> pyval \<Rightarrow> (catalog, unit) act" where
  "note_reservation_actual b rid input_tokens output_tokens usd model =
     bindA (liftA (check_cost_value input_tokens)) (\<lambda>i.
     bindA (liftA (check_cost_value output_tokens)) (\<lambda>out.
     bindA (liftA (check_usd usd)) (\<lambda>amount.
     if (case model of PyNone \<Rightarrow> False | PyStr m \<Rightarrow> m = [] | _ \<Rightarrow> True)
     then raise (ValueError ''actual billing model must be a nonempty string'') else
     atomically
       (bindA (bound (usd_ints usd)) (\<lambda>_.
        bindA (asks (reservation_of b rid)) (\<lambda>row.
        if row = None then raise (ValueError ''unknown cost reservation'')
        else modify (\<lambda>k. k\<lparr>reservations := update_where (\<lambda>r. rv_id r = rid \<and> rv_book r = b)
          (\<lambda>r. r\<lparr>rv_in := i, rv_out := out, rv_usd := amount, rv_actual := Some (i, out, amount),
                  rv_model := (case model of PyStr m \<Rightarrow> Some m | _ \<Rightarrow> rv_model r)\<rparr>) (reservations k)\<rparr>)))))))"

definition settle_cost :: "string \<Rightarrow> string \<Rightarrow> string option \<Rightarrow> string \<Rightarrow> (catalog, unit) act" where
  "settle_cost b rid phase now = atomically
     (bindA (asks (reservation_of b rid)) (\<lambda>row. case row of
        None \<Rightarrow> raise (ValueError ''unknown cost reservation'')
      | Some r \<Rightarrow>
          bindA (insert_ledger b (rv_chapter r) (case phase of None \<Rightarrow> rv_phase r | Some p \<Rightarrow> if p = [] then rv_phase r else p)
            (rv_model r) (rv_in r) (rv_out r) (rv_usd r) now) (\<lambda>_.
          modify (\<lambda>k. k\<lparr>reservations := filter (\<lambda>r. rv_id r \<noteq> rid) (reservations k)\<rparr>))))"

definition discard_cost_reservation :: "string \<Rightarrow> string \<Rightarrow> (catalog, unit) act" where
  "discard_cost_reservation b rid = atomically
     (bindA (asks (reservation_of b rid)) (\<lambda>row.
        if row = None then raise (ValueError ''unknown cost reservation'')
        else modify (\<lambda>k. k\<lparr>reservations := filter (\<lambda>r. \<not> (rv_id r = rid \<and> rv_book r = b)) (reservations k)\<rparr>)))"

definition get_cost_reservations :: "string \<Rightarrow> catalog \<Rightarrow> reservation_row list" where
  "get_cost_reservations b k = sort_key (\<lambda>r. (rv_at r, rv_id r)) (filter (\<lambda>r. rv_book r = b) (reservations k))"

definition cost_reservation_ids :: "string \<Rightarrow> string option \<Rightarrow> int option \<Rightarrow> catalog \<Rightarrow> string list" where
  "cost_reservation_ids b phase chapter k = map rv_id (sort_key (\<lambda>r. (rv_at r, rv_id r))
     (filter (\<lambda>r. rv_book r = b \<and> (phase = None \<or> phase = Some (rv_phase r)) \<and>
       (chapter = None \<or> rv_chapter r = chapter)) (reservations k)))"

definition total_cost :: "string \<Rightarrow> catalog \<Rightarrow> rat" where
  "total_cost b k = (case spent b k of (_, _, usd) \<Rightarrow> usd)"

definition get_costs :: "string \<Rightarrow> catalog \<Rightarrow> ledger_row list" where
  "get_costs b k = sort_key lg_id (filter (\<lambda>r. lg_book r = b) (ledger k))"

section \<open>The reconciliation at opening\<close>

text \<open>Duplicate extraction entries of a chapter collapse to the first if they carry one receipt.\<close>

definition receipt_values :: "ledger_row \<Rightarrow> string option \<times> int \<times> int \<times> rat" where
  "receipt_values r = (lg_model r, lg_in r, lg_out r, lg_usd r)"

fun dedupe_chapter :: "(string \<times> int option) \<Rightarrow> (catalog, unit) act" where
  "dedupe_chapter (b, chapter) = bindA (asks (\<lambda>k. sort_key lg_id (filter (extraction_entry b chapter) (ledger k)))) (\<lambda>rows.
     case rows of [] \<Rightarrow> ret ()
     | r # rs \<Rightarrow>
         if list_ex (\<lambda>x. receipt_values x \<noteq> receipt_values r) rs
         then raise (RuntimeError ''irreconcilable duplicate extraction costs'')
         else modify (\<lambda>k. k\<lparr>ledger := filter (\<lambda>x. \<not> (extraction_entry b chapter x \<and> lg_id x \<noteq> lg_id r)) (ledger k)\<rparr>))"

definition duplicate_chapters :: "catalog \<Rightarrow> (string \<times> int option) list" where
  "duplicate_chapters k = filter (\<lambda>(b, c). 1 < length (filter (extraction_entry b c) (ledger k)))
     (remdups (map (\<lambda>r. (lg_book r, lg_chapter r)) (filter (\<lambda>r. lg_phase r = ''extraction'' \<and> lg_chapter r \<noteq> None) (ledger k))))"

definition reconcile_ledger :: "(catalog, unit) act" where
  "reconcile_ledger = atomically (bindA (asks duplicate_chapters) (\<lambda>ds.
     bindA (for_each dedupe_chapter ds) (\<lambda>_. ret ())))"

section \<open>What the guards and statements return\<close>

lemma bound_Inr [simp]: "(bound is s = (Inr x, s')) = (list_all int64 is \<and> s' = s)"
  by (auto simp: bound_def checkA_def raise_def ret_def)

lemma state_after_Inr [simp]: "(state_after b k = (Inr x, k')) = (get_state b k = Some x \<and> k' = k)"
  by (auto simp: state_after_def bindA_Inr split: option.splits)

lemma aon_bound [aon_intros]:
  assumes "\<And>x. all_or_nothing (f x)"
  shows "all_or_nothing (bindA (bound is) f)"
  using assms by (auto simp: all_or_nothing_def bindA_def bound_def checkA_def raise_def ret_def)

section \<open>Runs of catalog methods\<close>

datatype cat_op =
    C_add string string string string
  | C_schema string pyval
  | C_metadata string pyval pyval
  | C_remove string
  | C_position string "string option" pyval pyval string
  | C_reset string pyval string
  | C_progress string pyval string
  | C_finalize string pyval "(string \<times> pyval) list option" "string option" string
  | C_record string string "string option" pyval pyval pyval "int option" string
  | C_reserve string string "string option" pyval pyval pyval pyval pyval pyval "int option"
      "(string \<times> int \<times> int) option" "pyval option" string string
  | C_note string string pyval pyval pyval pyval
  | C_settle string string "string option" string
  | C_discard string string

fun cat_step :: "cat_op \<Rightarrow> catalog \<Rightarrow> catalog" where
  "cat_step (C_add b title incarnation now) k = snd (add_book b title None None None None None None None 1 incarnation now k)"
| "cat_step (C_schema b v) k = snd (set_schema_version b v k)"
| "cat_step (C_metadata b title author) k = snd (update_book_metadata b title author k)"
| "cat_step (C_remove b) k = snd (remove_book b k)"
| "cat_step (C_position b cfi mark epoch now) k = snd (set_position b cfi mark epoch now k)"
| "cat_step (C_reset b epoch now) k = snd (reset_position b epoch now k)"
| "cat_step (C_progress b n now) k = snd (set_ingest_progress b n now k)"
| "cat_step (C_finalize b n cost incarnation now) k = snd (finalize_ingest b n cost incarnation now k)"
| "cat_step (C_record b phase model i out usd chapter now) k = snd (record_cost b phase model i out usd chapter now k)"
| "cat_step (C_reserve b phase model i out usd mi mo mu chapter scope mp rid now) k =
     snd (reserve_cost b phase model i out usd mi mo mu chapter scope mp rid now k)"
| "cat_step (C_note b rid i out usd model) k = snd (note_reservation_actual b rid i out usd model k)"
| "cat_step (C_settle b rid phase now) k = snd (settle_cost b rid phase now k)"
| "cat_step (C_discard b rid) k = snd (discard_cost_reservation b rid k)"

definition cat_run :: "cat_op list \<Rightarrow> catalog \<Rightarrow> catalog" where
  "cat_run ops k = fold cat_step ops k"

text \<open>The contract of a mark that a family of steps never lowers.\<close>

locale never_lowered =
  fixes step :: "'op \<Rightarrow> 's \<Rightarrow> 's" and ok :: "'op \<Rightarrow> bool" and le :: "'s \<Rightarrow> 's \<Rightarrow> bool"
  assumes le_refl: "le s s"
    and le_trans: "le s t \<Longrightarrow> le t u \<Longrightarrow> le s u"
    and step_le: "ok op \<Longrightarrow> le s (step op s)"
begin

lemma run_le: "list_all ok ops \<Longrightarrow> le s (fold step ops s)"
  by (induction ops arbitrary: s) (auto intro: le_refl le_trans step_le)

lemma run_le_between:
  assumes "list_all ok (ops @ ops')"
  shows "le (fold step ops s) (fold step (ops @ ops') s)"
  using assms run_le [of ops' "fold step ops s"] by simp

end

text \<open>The reading marks of a book: the pair of epoch and bookmark, and the ingest progress.\<close>

definition marks :: "string \<Rightarrow> catalog \<Rightarrow> ((int \<times> int) \<times> int) option" where
  "marks b k = map_option (\<lambda>r. ((rs_epoch r, rs_bookmark r), rs_progress r)) (get_state b k)"

definition marks_le :: "string \<Rightarrow> catalog \<Rightarrow> catalog \<Rightarrow> bool" where
  "marks_le b k k' = (case marks b k of None \<Rightarrow> True
     | Some (m, p) \<Rightarrow> (case marks b k' of None \<Rightarrow> False | Some (m', p') \<Rightarrow> m \<le> m' \<and> p \<le> p'))"

lemma marks_le_refl: "marks_le b k k"
  by (auto simp: marks_le_def split: option.splits)

lemma marks_le_trans: "marks_le b k k' \<Longrightarrow> marks_le b k' k'' \<Longrightarrow> marks_le b k k''"
  by (auto simp: marks_le_def split: option.splits dest: order_trans)

lemma marks_le_same: "reading k' = reading k \<Longrightarrow> marks_le b k k'"
  by (auto simp: marks_le_def marks_def get_state_def split: option.splits)

lemma get_state_update:
  assumes "\<And>r. rs_book (f r) = rs_book r"
  shows "get_state b (k\<lparr>reading := update_where P f (reading k)\<rparr>) =
    map_option (\<lambda>r. if P r then f r else r) (get_state b k)"
proof -
  have "find (\<lambda>r. rs_book r = b) (update_where P f xs) = map_option (\<lambda>r. if P r then f r else r) (find (\<lambda>r. rs_book r = b) xs)" for xs
    using assms by (induction xs) (auto simp: update_where_def)
  then show ?thesis by (simp add: get_state_def)
qed

lemma marks_le_update:
  assumes "\<And>r. rs_book (f r) = rs_book r"
    and "\<And>r. P r \<Longrightarrow> (rs_epoch r, rs_bookmark r) \<le> (rs_epoch (f r), rs_bookmark (f r)) \<and> rs_progress r \<le> rs_progress (f r)"
  shows "marks_le b k (k\<lparr>reading := update_where P f (reading k)\<rparr>)"
  using assms(2) by (auto simp: marks_le_def marks_def get_state_update [OF assms(1)] split: option.splits)

lemma snd_unchanged: "\<not> succeeded (fst (m k)) \<Longrightarrow> all_or_nothing m \<Longrightarrow> snd (m k) = k"
  by (metis all_or_nothing_def not_succeeded_iff prod.collapse)

text \<open>What a method does when it returns carries over to every call of it.\<close>

lemma outcome_le:
  assumes "all_or_nothing m" and "\<And>x k'. m k = (Inr x, k') \<Longrightarrow> marks_le b k k'"
  shows "marks_le b k (snd (m k))"
proof (cases "m k")
  case (Pair r k')
  with assms show ?thesis by (cases r) (auto simp: all_or_nothing_def intro: marks_le_refl)
qed

lemma aon_methods:
  "all_or_nothing (add_book b t au so si fh co dp sv dv inc now)"
  "all_or_nothing (set_schema_version b v)"
  "all_or_nothing (remove_book b)"
  "all_or_nothing (set_position b cfi mark epoch now)"
  "all_or_nothing (reset_position b epoch now)"
  "all_or_nothing (set_ingest_progress b n now)"
  "all_or_nothing (finalize_ingest b n cost oinc now)"
  "all_or_nothing (reserve_cost b phase model i out usd mi mo mu chapter scope mp rid now)"
  "all_or_nothing (note_reservation_actual b rid i out usd mdl)"
  "all_or_nothing (settle_cost b rid ph now)"
  "all_or_nothing (discard_cost_reservation b rid)"
  unfolding add_book_def set_schema_version_def remove_book_def set_position_def reset_position_def
    set_ingest_progress_def finalize_ingest_def reserve_cost_def note_reservation_actual_def settle_cost_def
    discard_cost_reservation_def
  by (intro aon_intros)+

lemma aon_update_metadata: "all_or_nothing (update_book_metadata b title author)"
  by (cases title) (auto simp: update_book_metadata_def intro!: aon_intros)

lemma aon_record_cost: "all_or_nothing (record_cost b phase model i out usd chapter now)"
  unfolding record_cost_def
  by (intro aon_guard aon_bound) (auto simp: all_or_nothing_def insert_ledger_def)


lemma reading_kept:
  "set_schema_version b v k = (Inr u1, k') \<Longrightarrow> reading k' = reading k"
  "update_book_metadata b t a k = (Inr u2, k') \<Longrightarrow> reading k' = reading k"
  "record_cost b phase model i out usd chapter now k = (Inr u3, k') \<Longrightarrow> reading k' = reading k"
  "reserve_cost b phase model i out usd mi mo mu chapter scope mp rid now k = (Inr u4, k') \<Longrightarrow> reading k' = reading k"
  "note_reservation_actual b rid i out usd mdl k = (Inr u5, k') \<Longrightarrow> reading k' = reading k"
  "settle_cost b rid ph now k = (Inr u6, k') \<Longrightarrow> reading k' = reading k"
  "discard_cost_reservation b rid k = (Inr u7, k') \<Longrightarrow> reading k' = reading k"
proof -
  show "set_schema_version b v k = (Inr u1, k') \<Longrightarrow> reading k' = reading k"
    by (auto simp: set_schema_version_def bindA_Inr atomically_Inr split: if_splits option.splits)
  show "update_book_metadata b t a k = (Inr u2, k') \<Longrightarrow> reading k' = reading k"
    by (cases t) (auto simp: update_book_metadata_def bindA_Inr atomically_Inr split: if_splits)
  show "record_cost b phase model i out usd chapter now k = (Inr u3, k') \<Longrightarrow> reading k' = reading k"
    by (auto simp: record_cost_def bindA_Inr insert_ledger_def split: if_splits sum.splits exc.splits)
  show "reserve_cost b phase model i out usd mi mo mu chapter scope mp rid now k = (Inr u4, k') \<Longrightarrow> reading k' = reading k"
    by (auto simp: reserve_cost_def bindA_Inr atomically_Inr split: if_splits option.splits)
  show "note_reservation_actual b rid i out usd mdl k = (Inr u5, k') \<Longrightarrow> reading k' = reading k"
    by (auto simp: note_reservation_actual_def bindA_Inr atomically_Inr split: if_splits)
  show "settle_cost b rid ph now k = (Inr u6, k') \<Longrightarrow> reading k' = reading k"
    by (auto simp: settle_cost_def bindA_Inr atomically_Inr insert_ledger_def split: if_splits option.splits)
  show "discard_cost_reservation b rid k = (Inr u7, k') \<Longrightarrow> reading k' = reading k"
    by (auto simp: discard_cost_reservation_def bindA_Inr atomically_Inr split: if_splits)
qed

lemma marks_advance: "marks_le b k (advance b' n now k)"
  unfolding advance_def by (rule marks_le_update) auto

lemma marks_set_position:
  assumes "set_position b' cfi mark epoch now k = (Inr x, k')"
  shows "marks_le b k k'"
proof -
  from assms obtain e m where "k' = k\<lparr>reading := update_where (\<lambda>r. rs_book r = b' \<and> rs_epoch r = e)
      (\<lambda>r. r\<lparr>rs_bookmark := max (rs_bookmark r) m, rs_cfi := cfi, rs_updated := Some now\<rparr>) (reading k)\<rparr>"
    by (auto simp: set_position_def bindA_Inr atomically_Inr split: option.splits if_splits)
  then show ?thesis by (auto intro: marks_le_update)
qed

lemma marks_reset_position:
  assumes "reset_position b' epoch now k = (Inr x, k')"
  shows "marks_le b k k'"
proof -
  from assms obtain e where "k' = k\<lparr>reading := update_where (\<lambda>r. rs_book r = b' \<and> rs_epoch r = e \<and> rs_epoch r < 2 ^ 63 - 1)
      (\<lambda>r. r\<lparr>rs_bookmark := 0, rs_cfi := None, rs_epoch := rs_epoch r + 1, rs_updated := Some now\<rparr>) (reading k)\<rparr>"
    by (auto simp: reset_position_def bindA_Inr atomically_Inr split: option.splits if_splits)
  then show ?thesis by (auto intro: marks_le_update)
qed

lemma marks_set_progress: "set_ingest_progress b' n now k = (Inr x, k') \<Longrightarrow> marks_le b k k'"
  by (auto simp: set_ingest_progress_def bindA_Inr atomically_Inr split: if_splits intro: marks_advance)

lemma reading_receipt [simp]:
  "reading (drop_extraction_reservations b n k) = reading k"
  "reading (upsert_extraction b n model i out usd now k) = reading k"
  by (simp_all add: drop_extraction_reservations_def upsert_extraction_def)

lemma marks_advance_after: "reading k1 = reading k \<Longrightarrow> marks_le b k (advance b' e now k1)"
  by (rule marks_le_trans [OF marks_le_same marks_advance])

lemma marks_finalize: "finalize_ingest b' n cost inc now k = (Inr x, k') \<Longrightarrow> marks_le b k k'"
  by (auto simp: finalize_ingest_def bindA_Inr atomically_Inr
      split: if_splits option.splits prod.splits intro!: marks_advance_after)

lemma marks_add:
  assumes "add_book b' t au so si fh co dp sv dv inc now k = (Inr x, k')"
  shows "marks_le b k k'"
proof -
  from assms obtain r where "reading k' = reading k @ [r]"
    by (auto simp: add_book_def bindA_Inr atomically_Inr split: if_splits)
  moreover have "find P (xs @ [r]) = (case find P xs of None \<Rightarrow> find P [r] | Some y \<Rightarrow> Some y)" for P and xs :: "reading_row list"
    by (induction xs) auto
  ultimately have "get_state b k' = (case get_state b k of None \<Rightarrow> get_state b k' | s \<Rightarrow> s)"
    by (auto simp: get_state_def split: option.splits)
  then show ?thesis by (auto simp: marks_le_def marks_def split: option.splits)
qed

fun keeps_book :: "string \<Rightarrow> cat_op \<Rightarrow> bool" where
  "keeps_book b (C_remove b') = (b' \<noteq> b)"
| "keeps_book b _ = True"

lemma marks_remove: "b' \<noteq> b \<Longrightarrow> marks_le b k (snd (remove_book b' k))"
proof -
  assume "b' \<noteq> b"
  then have "find (\<lambda>r. rs_book r = b) (filter (\<lambda>r. rs_book r \<noteq> b') xs) = find (\<lambda>r. rs_book r = b) xs"
    for xs :: "reading_row list"
    by (induction xs) auto
  then show ?thesis by (auto simp: remove_book_def modify_def marks_le_def marks_def get_state_def split: option.splits)
qed

lemmas marks_calls = marks_add marks_set_position marks_reset_position marks_set_progress marks_finalize
  marks_le_same [OF reading_kept(1)] marks_le_same [OF reading_kept(2)] marks_le_same [OF reading_kept(3)]
  marks_le_same [OF reading_kept(4)] marks_le_same [OF reading_kept(5)] marks_le_same [OF reading_kept(6)]
  marks_le_same [OF reading_kept(7)]

lemma marks_step: "keeps_book b op \<Longrightarrow> marks_le b k (cat_step op k)"
  by (cases op; simp; (rule marks_remove, assumption)?;
      (rule outcome_le, (rule aon_methods aon_update_metadata aon_record_cost), erule marks_calls)?)

interpretation reading_marks: never_lowered cat_step "keeps_book b" "marks_le b"
  by unfold_locales (auto intro: marks_le_refl marks_le_trans marks_step)

section \<open>Properties\<close>

text \<open>
  Property C30: the reading marks of a book only go up. Over any sequence of catalog operations that does
  not remove the book, returning or raising, by whoever and in whatever order, the ingest progress never
  decreases and the pair of position epoch and bookmark never decreases: only a reset, which opens a new
  epoch, can lower the bookmark.
\<close>
theorem reading_marks_only_go_up:
  assumes "list_all (keeps_book b) ops" and "get_state b k = Some r"
  shows "\<exists>r'. get_state b (cat_run ops k) = Some r' \<and> rs_progress r \<le> rs_progress r' \<and> rs_epoch r \<le> rs_epoch r' \<and>
    (rs_epoch r = rs_epoch r' \<longrightarrow> rs_bookmark r \<le> rs_bookmark r')"
  using reading_marks.run_le [OF assms(1), of k] assms(2)
  by (auto simp: cat_run_def marks_le_def marks_def split: option.splits)

definition sample_catalog :: catalog where
  "sample_catalog = snd (add_book ''bk1'' ''T'' None None None None None None None 7 ''i1'' ''t0''
     \<lparr>books = [], reading = [], ledger = [], reservations = []\<rparr>)"

lemma sample_state: "get_state ''bk1'' sample_catalog = Some \<lparr>rs_book = ''bk1'', rs_bookmark = 0, rs_cfi = None,
    rs_progress = 0, rs_epoch = 0, rs_updated = None\<rparr>"
  by code_simp

theorem reading_marks_only_go_up_witness:
  "\<exists>r'. get_state ''bk1'' (cat_run [C_position ''bk1'' None (PyInt 3) (PyInt 0) ''t'', C_position ''bk1'' None (PyInt 1) (PyInt 0) ''t'']
     sample_catalog) = Some r' \<and> 0 \<le> rs_progress r'"
  using reading_marks_only_go_up [OF _ sample_state, of "[C_position ''bk1'' None (PyInt 3) (PyInt 0) ''t'', C_position ''bk1'' None (PyInt 1) (PyInt 0) ''t'']"]
  by auto

text \<open>
  A position report from before a reset can never take effect. Once \<^verbatim>\<open>reset_position\<close> has
  returned for an epoch, then after any further operations that keep the book, \<^verbatim>\<open>set_position\<close> for that
  epoch raises and leaves the catalog as it is.
\<close>
theorem reset_makes_old_reports_stale:
  assumes "reset_position b (PyInt e) now k = (Inr r, k1)" and "list_all (keeps_book b) ops"
  shows "\<exists>err. set_position b cfi mark (PyInt e) now' (cat_run ops k1) = (Inl err, cat_run ops k1)"
proof -
  obtain y where y1: "get_state b k = Some y"
    using assms(1) by (cases "get_state b k") (auto simp: reset_position_def bindA_Inr atomically_Inr)
  with assms(1) have y: "rs_epoch y = e" "e < 2 ^ 63 - 1" and
    k1: "k1 = k\<lparr>reading := update_where (\<lambda>r. rs_book r = b \<and> rs_epoch r = e \<and> rs_epoch r < 2 ^ 63 - 1)
      (\<lambda>r. r\<lparr>rs_bookmark := 0, rs_cfi := None, rs_epoch := rs_epoch r + 1, rs_updated := Some now\<rparr>) (reading k)\<rparr>"
    by (simp_all add: reset_position_def bindA_Inr atomically_Inr check_int_def split: if_splits)
  moreover from y1 have "rs_book y = b" by (auto simp: get_state_def find_Some_iff)
  ultimately obtain r1 where r1: "get_state b k1 = Some r1" "e < rs_epoch r1"
    using y1 by (simp add: get_state_update)
  from reading_marks.run_le [OF assms(2), of k1] r1 obtain r2 where
    r2: "get_state b (cat_run ops k1) = Some r2" "e < rs_epoch r2"
    by (auto simp: cat_run_def marks_le_def marks_def split: option.splits)
  moreover have "check_int (PyInt e) = Inr e' \<Longrightarrow> e' = e" for e' by (simp add: check_int_def split: if_splits)
  ultimately show ?thesis
    by (cases "check_int mark"; cases "check_int (PyInt e)")
      (auto simp: set_position_def bindA_def liftA_def atomically_def asks_def raise_def)
qed

theorem reset_makes_old_reports_stale_witness:
  "\<exists>err. set_position ''bk1'' None (PyInt 9) (PyInt 0) ''t2'' (cat_run [C_progress ''bk1'' (PyInt 4) ''t1'']
      (snd (reset_position ''bk1'' (PyInt 0) ''t1'' sample_catalog))) =
    (Inl err, cat_run [C_progress ''bk1'' (PyInt 4) ''t1''] (snd (reset_position ''bk1'' (PyInt 0) ''t1'' sample_catalog)))"
proof -
  have "succeeded (fst (reset_position ''bk1'' (PyInt 0) ''t1'' sample_catalog))" by code_simp
  then obtain r where "reset_position ''bk1'' (PyInt 0) ''t1'' sample_catalog =
      (Inr r, snd (reset_position ''bk1'' (PyInt 0) ''t1'' sample_catalog))"
    by (cases "fst (reset_position ''bk1'' (PyInt 0) ''t1'' sample_catalog)") (auto simp: prod_eq_iff)
  from reset_makes_old_reports_stale [OF this, of "[C_progress ''bk1'' (PyInt 4) ''t1'']"] show ?thesis by simp
qed

section \<open>The budget of a book\<close>

definition usage :: "string \<Rightarrow> catalog \<Rightarrow> (int \<times> int \<times> rat)" where
  "usage b k = add3 (spent b k) (pending b k)"

definition reservations_ok :: "catalog \<Rightarrow> bool" where
  "reservations_ok k = (distinct (map rv_id (reservations k)) \<and>
     list_all (\<lambda>r. 0 \<le> rv_in r \<and> 0 \<le> rv_out r \<and> 0 \<le> rv_usd r) (reservations k))"

lemma sum_list_filter_less:
  fixes f :: "'a \<Rightarrow> 'b::linordered_idom"
  assumes "list_all (\<lambda>r. 0 \<le> f r) xs"
  shows "sum_list (map f (filter P (filter Q xs))) \<le> sum_list (map f (filter P xs))"
  using assms by (induction xs) auto

lemma sum_list_remove:
  fixes f :: "'a \<Rightarrow> 'b::linordered_idom"
  assumes "distinct (map g xs)" and "r \<in> set xs" and "P r"
  shows "sum_list (map f (filter P (filter (\<lambda>x. g x \<noteq> g r) xs))) + f r = sum_list (map f (filter P xs))"
  using assms
proof (induction xs)
  case (Cons x xs)
  show ?case
  proof (cases "x = r")
    case True
    have "filter (\<lambda>y. g y \<noteq> g r) xs = xs" using Cons.prems(1) True by (auto intro!: filter_True simp: image_iff)
    with True Cons.prems(3) show ?thesis by simp
  next
    case False
    with Cons.prems have "r \<in> set xs" "distinct (map g xs)" "g x \<noteq> g r" by force+
    with Cons.IH Cons.prems(3) show ?thesis by (auto simp: algebra_simps)
  qed
qed simp

lemma reservation_of_Some:
  assumes "reservation_of b rid k = Some r"
  shows "r \<in> set (reservations k)" and "rv_id r = rid" and "rv_book r = b"
  using assms by (auto simp: reservation_of_def find_Some_iff)

lemma settle_Inr:
  assumes "settle_cost b rid phase now k = (Inr u, k')"
  shows "\<exists>r ph. reservation_of b rid k = Some r \<and>
    ledger k' = ledger k @ [\<lparr>lg_id = next_rowid (map lg_id (ledger k)), lg_book = b, lg_chapter = rv_chapter r,
      lg_phase = ph, lg_model = rv_model r, lg_in = rv_in r, lg_out = rv_out r, lg_usd = rv_usd r, lg_at = now\<rparr>] \<and>
    reservations k' = filter (\<lambda>x. rv_id x \<noteq> rid) (reservations k)"
  using assms by (auto simp: settle_cost_def bindA_Inr atomically_Inr insert_ledger_def split: if_splits option.splits)

lemma settle_usage:
  assumes "settle_cost b rid phase now k = (Inr u, k')" and "reservations_ok k"
  shows "usage b k' = usage b k"
proof -
  from settle_Inr [OF assms(1)] obtain r ph where r: "reservation_of b rid k = Some r" and
    led: "ledger k' = ledger k @ [\<lparr>lg_id = next_rowid (map lg_id (ledger k)), lg_book = b, lg_chapter = rv_chapter r,
      lg_phase = ph, lg_model = rv_model r, lg_in = rv_in r, lg_out = rv_out r, lg_usd = rv_usd r, lg_at = now\<rparr>]" and
    res: "reservations k' = filter (\<lambda>x. rv_id x \<noteq> rid) (reservations k)" by blast
  note mem = reservation_of_Some [OF r]
  have d: "distinct (map rv_id (reservations k))" using assms(2) by (simp add: reservations_ok_def)
  have "sum_list (map f (filter (\<lambda>x. rv_book x = b) (reservations k'))) + f r =
      sum_list (map f (filter (\<lambda>x. rv_book x = b) (reservations k)))" for f :: "reservation_row \<Rightarrow> 'z::linordered_idom"
    unfolding res using sum_list_remove [OF d mem(1), of "\<lambda>x. rv_book x = b" f] mem(2,3) by simp
  from this [of rv_in] this [of rv_out] this [of rv_usd] show ?thesis
    by (simp add: usage_def spent_def pending_def led Let_def)
qed

lemma discard_usage:
  assumes "discard_cost_reservation b rid k = (Inr u, k')" and "reservations_ok k"
    and "\<not> over_ceiling (usage b k) limits"
  shows "\<not> over_ceiling (usage b k') limits"
proof -
  from assms(1) have k': "k' = k\<lparr>reservations := filter (\<lambda>r. \<not> (rv_id r = rid \<and> rv_book r = b)) (reservations k)\<rparr>"
    by (auto simp: discard_cost_reservation_def bindA_Inr atomically_Inr split: if_splits)
  have pos: "list_all (\<lambda>r. 0 \<le> rv_in r) (reservations k)" "list_all (\<lambda>r. 0 \<le> rv_out r) (reservations k)"
    "list_all (\<lambda>r. 0 \<le> rv_usd r) (reservations k)"
    using assms(2) by (simp_all add: reservations_ok_def list_all_iff)
  let ?Q = "\<lambda>r. \<not> (rv_id r = rid \<and> rv_book r = b)"
  note less = sum_list_filter_less [OF pos(1), of "\<lambda>r. rv_book r = b" ?Q]
    sum_list_filter_less [OF pos(2), of "\<lambda>r. rv_book r = b" ?Q]
    sum_list_filter_less [OF pos(3), of "\<lambda>r. rv_book r = b" ?Q]
  obtain mi mo mu where lim: "limits = (mi, mo, mu)" by (cases limits) auto
  from assms(3) less show ?thesis
    by (auto simp: over_ceiling_def usage_def spent_def pending_def k' lim Let_def)
qed

lemma check_cost_value_Inr: "check_cost_value v = Inr i \<Longrightarrow> 0 \<le> i \<and> (v = PyInt i)"
  by (auto simp: check_cost_value_def split: pyval.splits if_splits)

lemma check_usd_Inr: "check_usd v = Inr r \<Longrightarrow> 0 \<le> r \<and> (v = PyFloat x \<longrightarrow> r = x)"
  by (auto simp: check_usd_def split: pyval.splits if_splits)

lemma reserve_Inr:
  assumes "reserve_cost b phase model i out usd (PyInt mi) (PyInt mo) (PyFloat mu) chapter scope mp rid now k = (Inr x, k')"
  shows "\<exists>r. reservations k' = reservations k @ [r] \<and> ledger k' = ledger k \<and> rv_book r = b \<and>
    rv_id r \<notin> rv_id ` set (reservations k) \<and> 0 \<le> rv_in r \<and> 0 \<le> rv_out r \<and> 0 \<le> rv_usd r \<and>
    \<not> over_ceiling (add3 (usage b k) (rv_in r, rv_out r, rv_usd r)) (mi, mo, mu)"
proof -
  from assms obtain ii io iu where c: "check_cost_value i = Inr ii" "check_cost_value out = Inr io" "check_usd usd = Inr iu"
    "check_cost_value (PyInt mi) = Inr mi" "check_cost_value (PyInt mo) = Inr mo" "check_usd (PyFloat mu) = Inr mu"
    by (auto simp: reserve_cost_def bindA_Inr dest: check_cost_value_Inr check_usd_Inr)
  with assms have "\<not> over_ceiling (add3 (usage b k) (ii, io, iu)) (mi, mo, mu) \<and> rid \<notin> rv_id ` set (reservations k) \<and>
    k' = k\<lparr>reservations := reservations k @ [\<lparr>rv_id = rid, rv_book = b, rv_chapter = chapter,
          rv_phase = phase, rv_model = model, rv_in = ii, rv_out = io, rv_usd = iu, rv_actual = None, rv_at = now\<rparr>]\<rparr>"
    by (auto simp: reserve_cost_def bindA_Inr atomically_Inr usage_def list_ex_iff split: if_splits option.splits sum.splits)
  then show ?thesis
    using check_cost_value_Inr [OF c(1)] check_cost_value_Inr [OF c(2)] check_usd_Inr [OF c(3)]
    by (intro exI [where x = "\<lparr>rv_id = rid, rv_book = b, rv_chapter = chapter,
          rv_phase = phase, rv_model = model, rv_in = ii, rv_out = io, rv_usd = iu, rv_actual = None, rv_at = now\<rparr>"]) auto
qed

text \<open>The budgeted operations of one book under fixed ceilings.\<close>

datatype budget_op =
    B_reserve string "string option" pyval pyval pyval "int option" "(string \<times> int \<times> int) option" "pyval option" string string
  | B_settle string "string option" string
  | B_discard string

fun budget_step :: "string \<Rightarrow> (int \<times> int \<times> rat) \<Rightarrow> budget_op \<Rightarrow> catalog \<Rightarrow> catalog" where
  "budget_step b (mi, mo, mu) (B_reserve phase model i out usd chapter scope mp rid now) k =
     snd (reserve_cost b phase model i out usd (PyInt mi) (PyInt mo) (PyFloat mu) chapter scope mp rid now k)"
| "budget_step b _ (B_settle rid phase now) k = snd (settle_cost b rid phase now k)"
| "budget_step b _ (B_discard rid) k = snd (discard_cost_reservation b rid k)"

text \<open>The contract of an invariant of a family of steps.\<close>

locale step_invariant =
  fixes step :: "'op \<Rightarrow> 's \<Rightarrow> 's" and I :: "'s \<Rightarrow> bool"
  assumes step_keeps: "I s \<Longrightarrow> I (step op s)"
begin

lemma run_keeps: "I s \<Longrightarrow> I (fold step ops s)"
  by (induction ops arbitrary: s) (auto intro: step_keeps)

end

definition in_budget :: "string \<Rightarrow> (int \<times> int \<times> rat) \<Rightarrow> catalog \<Rightarrow> bool" where
  "in_budget b limits k = (reservations_ok k \<and> \<not> over_ceiling (usage b k) limits)"

lemma in_budget_reserve:
  assumes "reserve_cost b phase model i out usd (PyInt mi) (PyInt mo) (PyFloat mu) chapter scope mp rid now k = (Inr x, k')"
    and "in_budget b (mi, mo, mu) k"
  shows "in_budget b (mi, mo, mu) k'"
proof -
  from reserve_Inr [OF assms(1)] obtain r where r: "reservations k' = reservations k @ [r]" "ledger k' = ledger k"
    "rv_book r = b" "rv_id r \<notin> rv_id ` set (reservations k)" "0 \<le> rv_in r" "0 \<le> rv_out r" "0 \<le> rv_usd r"
    "\<not> over_ceiling (add3 (usage b k) (rv_in r, rv_out r, rv_usd r)) (mi, mo, mu)" by blast
  have "usage b k' = add3 (usage b k) (rv_in r, rv_out r, rv_usd r)"
    by (simp add: usage_def spent_def pending_def r Let_def algebra_simps)
  with r assms(2) show ?thesis by (simp add: in_budget_def reservations_ok_def)
qed

lemma in_budget_settle:
  assumes "settle_cost b rid phase now k = (Inr u, k')" and "in_budget b limits k"
  shows "in_budget b limits k'"
proof -
  from settle_Inr [OF assms(1)] have "reservations k' = filter (\<lambda>x. rv_id x \<noteq> rid) (reservations k)" by blast
  with assms(2) settle_usage [OF assms(1)] show ?thesis
    by (auto simp: in_budget_def reservations_ok_def distinct_map_filter list_all_iff)
qed

lemma in_budget_discard:
  assumes "discard_cost_reservation b rid k = (Inr u, k')" and "in_budget b limits k"
  shows "in_budget b limits k'"
proof -
  from assms(1) have "k' = k\<lparr>reservations := filter (\<lambda>r. \<not> (rv_id r = rid \<and> rv_book r = b)) (reservations k)\<rparr>"
    by (auto simp: discard_cost_reservation_def bindA_Inr atomically_Inr split: if_splits)
  with assms discard_usage [OF assms(1)] show ?thesis
    by (auto simp: in_budget_def reservations_ok_def distinct_map_filter list_all_iff)
qed

lemma in_budget_call:
  assumes "all_or_nothing m" and "\<And>x k'. m k = (Inr x, k') \<Longrightarrow> in_budget b limits k'" and "in_budget b limits k"
  shows "in_budget b limits (snd (m k))"
proof (cases "m k")
  case (Pair r k')
  with assms show ?thesis by (cases r) (auto simp: all_or_nothing_def)
qed

lemma in_budget_step: "in_budget b limits k \<Longrightarrow> in_budget b limits (budget_step b limits op k)"
  by (cases limits; cases op; simp;
      (rule in_budget_call, rule aon_methods, (erule (1) in_budget_reserve | erule (1) in_budget_settle | erule (1) in_budget_discard), assumption))

interpretation budget: step_invariant "budget_step b limits" "in_budget b limits"
  by unfold_locales (rule in_budget_step)

section \<open>Properties of the receipts and the budget\<close>

text \<open>
  A book never exceeds its ceilings. Whatever sequence of reservations under the same ceilings,
  settlements and discards runs, whether each returns or raises, what the ledger records and what is
  outstanding stay together within the input-token, output-token and USD ceilings; settling moves usage
  from one to the other without changing the sum.
\<close>
theorem usage_stays_within_ceilings:
  assumes "reservations_ok k" and "\<not> over_ceiling (usage b k) limits"
  shows "\<not> over_ceiling (usage b (fold (budget_step b limits) ops k)) limits \<and>
    (settle_cost b rid phase now (fold (budget_step b limits) ops k) = (Inr u, k') \<longrightarrow>
       usage b k' = usage b (fold (budget_step b limits) ops k))"
  using budget.run_keeps [of b limits k ops] assms settle_usage by (auto simp: in_budget_def)

theorem usage_stays_within_ceilings_witness:
  "\<not> over_ceiling (usage ''bk1'' (fold (budget_step ''bk1'' (100, 50, 2))
     [B_reserve ''ask'' None (PyInt 60) (PyInt 10) (PyFloat 1) None None None ''r1'' ''t1'',
      B_reserve ''ask'' None (PyInt 60) (PyInt 10) (PyFloat 1) None None None ''r2'' ''t2'',
      B_settle ''r1'' None ''t3''] sample_catalog)) (100, 50, 2)"
proof -
  have "reservations_ok sample_catalog" "\<not> over_ceiling (usage ''bk1'' sample_catalog) (100, 50, 2)" by code_simp+
  from usage_stays_within_ceilings [OF this] show ?thesis by (rule conjunct1)
qed

section \<open>Reconciling a chapter\<close>

lemma update_where_idem:
  assumes "\<And>r. P r \<Longrightarrow> P (f r)" and "\<And>r. P r \<Longrightarrow> f (f r) = f r"
  shows "update_where P f (update_where P f xs) = update_where P f xs"
  using assms by (induction xs) (auto simp: update_where_def)

lemma list_ex_update_where: "(\<And>r. P r \<Longrightarrow> P (f r)) \<Longrightarrow> list_ex P (update_where P f xs) = list_ex P xs"
  by (induction xs) (auto simp: update_where_def)

lemma update_where_none: "\<not> list_ex P xs \<Longrightarrow> update_where P f xs = xs"
  by (induction xs) (auto simp: update_where_def)

lemma extraction_entry_same [simp]:
  "extraction_entry b c (r\<lparr>lg_model := m, lg_in := i, lg_out := out, lg_usd := usd\<rparr>) = extraction_entry b c r"
  by (simp add: extraction_entry_def)

lemma upsert_idem:
  "upsert_extraction b n model i out usd now (upsert_extraction b n model i out usd now k) = upsert_extraction b n model i out usd now k"
proof (cases "list_ex (extraction_entry b (Some n)) (ledger k)")
  case True
  let ?u = "update_where (extraction_entry b (Some n)) (\<lambda>r. r\<lparr>lg_model := model, lg_in := i, lg_out := out, lg_usd := usd\<rparr>)"
  have "list_ex (extraction_entry b (Some n)) (?u (ledger k))"
    using True by (subst list_ex_update_where) simp_all
  moreover have "?u (?u (ledger k)) = ?u (ledger k)" by (rule update_where_idem) simp_all
  ultimately show ?thesis using True by (simp add: upsert_extraction_def)
next
  case False
  let ?u = "update_where (extraction_entry b (Some n)) (\<lambda>r. r\<lparr>lg_model := model, lg_in := i, lg_out := out, lg_usd := usd\<rparr>)"
  have "?u (xs @ [r]) = ?u xs @ ?u [r]" for xs r by (simp add: update_where_def)
  moreover have "?u (ledger k) = ledger k" using False by (rule update_where_none)
  ultimately show ?thesis using False
    by (simp add: upsert_extraction_def) (simp add: extraction_entry_def update_where_def)
qed

lemma drop_upsert:
  "drop_extraction_reservations b n (upsert_extraction b' n' model i out usd now k) =
   upsert_extraction b' n' model i out usd now (drop_extraction_reservations b n k)"
  by (simp add: drop_extraction_reservations_def upsert_extraction_def)

lemma drop_idem [simp]:
  "drop_extraction_reservations b n (drop_extraction_reservations b n k) = drop_extraction_reservations b n k"
  by (simp add: drop_extraction_reservations_def)

lemma advance_idem: "advance b n now (advance b n now k) = advance b n now k"
  unfolding advance_def by (simp add: update_where_idem)

lemma advance_commutes [simp]:
  "drop_extraction_reservations b n (advance b' m now k) = advance b' m now (drop_extraction_reservations b n k)"
  "upsert_extraction b n model i out usd now' (advance b' m now k) = advance b' m now (upsert_extraction b n model i out usd now' k)"
  by (simp_all add: drop_extraction_reservations_def upsert_extraction_def advance_def)

lemma receipt_keeps [simp]:
  "books (drop_extraction_reservations b n k) = books k" "books (upsert_extraction b n model i out usd now k) = books k"
  "books (advance b n now k) = books k"
  by (simp_all add: drop_extraction_reservations_def upsert_extraction_def advance_def)

definition receipt_step :: "string \<Rightarrow> int \<Rightarrow> ((string \<times> pyval) list \<times> int \<times> int \<times> rat) option \<Rightarrow> string \<Rightarrow> catalog \<Rightarrow> catalog" where
  "receipt_step b n checked now k = advance b n now (case checked of None \<Rightarrow> k
     | Some (c, i, out, usd) \<Rightarrow> drop_extraction_reservations b n (upsert_extraction b n (cost_model c) i out usd now k))"

definition receipt_allowed :: "string \<Rightarrow> ((string \<times> pyval) list \<times> int \<times> int \<times> rat) option \<Rightarrow> string option \<Rightarrow> catalog \<Rightarrow> bool" where
  "receipt_allowed b checked inc k = (current_incarnation b inc k \<and> get_state b k \<noteq> None \<and>
     (case checked of None \<Rightarrow> True | Some (c, _) \<Rightarrow> list_all int64 (usd_ints (cost_get c ''usd'' (PyFloat 0))) \<and> book_known b k))"

lemma get_state_receipt: "(get_state b (receipt_step b n checked now k) = None) = (get_state b k = None)"
proof -
  have adv: "get_state b (advance b n now k') = None \<longleftrightarrow> get_state b k' = None" for k'
    by (simp add: advance_def get_state_update)
  have st: "get_state b (drop_extraction_reservations b n (upsert_extraction b n m i out usd now k)) = get_state b k" for m i out usd
    by (simp add: get_state_def)
  show ?thesis by (cases checked) (simp_all add: receipt_step_def adv st split: prod.splits)
qed

definition receipt_checked :: "(string \<times> pyval) list option \<Rightarrow> ((string \<times> pyval) list \<times> int \<times> int \<times> rat) option \<Rightarrow> bool" where
  "receipt_checked cost checked = (case cost of None \<Rightarrow> checked = None
     | Some c \<Rightarrow> (case checked_cost c of Inl _ \<Rightarrow> False | Inr v \<Rightarrow> checked = Some (c, v)))"

lemma finalize_Inr:
  "finalize_ingest b (PyInt n) cost inc now k = (Inr u, k1) \<longleftrightarrow> check_int (PyInt n) = Inr n \<and>
     (\<exists>checked. receipt_checked cost checked \<and> receipt_allowed b checked inc k \<and> k1 = receipt_step b n checked now k)"
proof -
  have n: "check_int (PyInt n) = Inr m \<Longrightarrow> m = n" for m by (simp add: check_int_def split: if_splits)
  have st: "get_state b (drop_extraction_reservations b n (upsert_extraction b n m i out usd now k)) = get_state b k" for m i out usd
    by (simp add: get_state_def)
  show ?thesis
    by (cases cost; cases "check_int (PyInt n)";
        auto simp: finalize_ingest_def bindA_Inr atomically_Inr receipt_checked_def receipt_allowed_def receipt_step_def st
          dest!: n split: sum.splits if_splits prod.splits; metis st)
qed


lemma current_incarnation_books: "books k' = books k \<Longrightarrow> current_incarnation b inc k' = current_incarnation b inc k"
  by (cases inc) (simp_all add: current_incarnation_def)

lemma receipt_books: "books (receipt_step b n checked now k) = books k"
  by (auto simp: receipt_step_def split: option.splits prod.splits)

lemma receipt_allowed_again: "receipt_allowed b checked inc (receipt_step b n checked now k) = receipt_allowed b checked inc k"
proof -
  have "book_known b (receipt_step b n checked now k) = book_known b k"
    by (simp add: book_known_def receipt_books)
  then show ?thesis
    by (cases checked)
      (auto simp: receipt_allowed_def current_incarnation_books [OF receipt_books] get_state_receipt simp del: not_None_eq)
qed

lemma receipt_step_idem: "receipt_step b n checked now (receipt_step b n checked now k) = receipt_step b n checked now k"
  by (auto simp: receipt_step_def advance_idem drop_upsert upsert_idem split: option.splits prod.splits)

section \<open>Property of ingest receipts\<close>

text \<open>
  Reconciling a chapter twice is reconciling it once. After \<^verbatim>\<open>finalize_ingest\<close> has returned,
  repeating the call returns and leaves the catalog exactly as it is, so a retried receipt cannot
  duplicate a cost; the progress has reached the chapter, and if the receipt has a cost every extraction
  entry of the chapter carries it and no extraction reservation of the chapter is left.
\<close>
theorem finalize_is_idempotent:
  assumes "finalize_ingest b (PyInt n) cost inc now k = (Inr (), k1)"
  shows "finalize_ingest b (PyInt n) cost inc now k1 = (Inr (), k1) \<and>
    (\<exists>r. get_state b k1 = Some r \<and> n \<le> rs_progress r) \<and>
    (cost \<noteq> None \<longrightarrow>
       list_ex (extraction_entry b (Some n)) (ledger k1) \<and>
       (\<forall>e \<in> set (ledger k1). extraction_entry b (Some n) e \<longrightarrow>
          checked_cost (the cost) = Inr (lg_in e, lg_out e, lg_usd e)) \<and>
       (\<forall>r \<in> set (reservations k1). rv_book r = b \<longrightarrow> rv_chapter r = Some n \<longrightarrow> rv_phase r \<noteq> ''extraction''))"
proof -
  from assms obtain checked where n: "check_int (PyInt n) = Inr n" and checked: "receipt_checked cost checked"
    and allowed: "receipt_allowed b checked inc k" and k1: "k1 = receipt_step b n checked now k"
    by (auto simp: finalize_Inr)
  have again: "finalize_ingest b (PyInt n) cost inc now k1 = (Inr (), k1)"
    using n checked allowed by (auto simp: finalize_Inr k1 receipt_allowed_again receipt_step_idem intro!: exI [where x = checked])
  obtain k0 where k0: "k1 = advance b n now k0" by (simp add: k1 receipt_step_def)
  from allowed obtain r1 where "get_state b k1 = Some r1"
    using get_state_receipt [of b n checked now k] by (auto simp: k1 receipt_allowed_def)
  moreover have "n \<le> rs_progress r1"
  proof -
    from \<open>get_state b k1 = Some r1\<close> obtain r0 where r0: "get_state b k0 = Some r0"
      and r1: "r1 = (if rs_book r0 = b then r0\<lparr>rs_progress := max (rs_progress r0) n, rs_updated := Some now\<rparr> else r0)"
      by (auto simp: k0 advance_def get_state_update)
    from r0 have "rs_book r0 = b" by (auto simp: get_state_def find_Some_iff)
    with r1 show ?thesis by simp
  qed
  moreover have "cost \<noteq> None \<longrightarrow>
       list_ex (extraction_entry b (Some n)) (ledger k1) \<and>
       (\<forall>e \<in> set (ledger k1). extraction_entry b (Some n) e \<longrightarrow>
          checked_cost (the cost) = Inr (lg_in e, lg_out e, lg_usd e)) \<and>
       (\<forall>r \<in> set (reservations k1). rv_book r = b \<longrightarrow> rv_chapter r = Some n \<longrightarrow> rv_phase r \<noteq> ''extraction'')"
  proof
    assume "cost \<noteq> None"
    then obtain c where cost: "cost = Some c" by blast
    with checked obtain v where v: "checked_cost c = Inr v" "checked = Some (c, v)"
      by (cases "checked_cost c") (simp_all add: receipt_checked_def)
    moreover obtain i out usd where "v = (i, out, usd)" by (cases v)
    ultimately have c: "cost = Some c" "checked_cost c = Inr (i, out, usd)" "checked = Some (c, i, out, usd)"
      using cost by simp_all
    have led: "ledger k1 = ledger (upsert_extraction b n (cost_model c) i out usd now k)"
      and res: "reservations k1 = filter (\<lambda>r. \<not> (rv_book r = b \<and> rv_chapter r = Some n \<and> rv_phase r = ''extraction'')) (reservations k)"
      by (simp_all add: k1 receipt_step_def c advance_def drop_extraction_reservations_def upsert_extraction_def)
    have "list_ex (extraction_entry b (Some n)) (ledger k1)"
      by (simp add: led upsert_extraction_def list_ex_update_where) (simp add: extraction_entry_def)
    moreover have "\<forall>e \<in> set (ledger k1). extraction_entry b (Some n) e \<longrightarrow> (lg_in e, lg_out e, lg_usd e) = (i, out, usd)"
      by (auto simp: led upsert_extraction_def update_where_def list_ex_iff)
    ultimately show "list_ex (extraction_entry b (Some n)) (ledger k1) \<and>
       (\<forall>e \<in> set (ledger k1). extraction_entry b (Some n) e \<longrightarrow>
          checked_cost (the cost) = Inr (lg_in e, lg_out e, lg_usd e)) \<and>
       (\<forall>r \<in> set (reservations k1). rv_book r = b \<longrightarrow> rv_chapter r = Some n \<longrightarrow> rv_phase r \<noteq> ''extraction'')"
      by (simp add: c res)
  qed
  ultimately show ?thesis using again by blast
qed

theorem finalize_is_idempotent_witness:
  "finalize_ingest ''bk1'' (PyInt 2) (Some [(''usd'', PyFloat 1)]) None ''t''
     (snd (finalize_ingest ''bk1'' (PyInt 2) (Some [(''usd'', PyFloat 1)]) None ''t'' sample_catalog)) =
   (Inr (), snd (finalize_ingest ''bk1'' (PyInt 2) (Some [(''usd'', PyFloat 1)]) None ''t'' sample_catalog))"
proof -
  have "fst (finalize_ingest ''bk1'' (PyInt 2) (Some [(''usd'', PyFloat 1)]) None ''t'' sample_catalog) = Inr ()" by code_simp
  then have "finalize_ingest ''bk1'' (PyInt 2) (Some [(''usd'', PyFloat 1)]) None ''t'' sample_catalog =
    (Inr (), snd (finalize_ingest ''bk1'' (PyInt 2) (Some [(''usd'', PyFloat 1)]) None ''t'' sample_catalog))"
    by (simp add: prod_eq_iff)
  from finalize_is_idempotent [OF this] show ?thesis by (rule conjunct1)
qed

end
