(* ===== verification/Store.thy ===== *)
theory Store imports Prelude "HOL-Library.Multiset" begin

text \<open>
  The sole owner of the per-book connections, \<^verbatim>\<open>backend/app/memory/store.py\<close>: leases, the per-book
  lock, the access-ordered handle cache and its eviction, as a step relation over any number of threads.
  A handle is the number of the opened connection; lock entries are objects with their own identity.
\<close>

section \<open>State\<close>

text \<open>What a thread is doing: the operations \<^verbatim>\<open>book()\<close> and \<^verbatim>\<open>evict()\<close>, one pc for each point between
  two critical sections.\<close>

datatype operation = Session | Evict

datatype pc =
    Idle
  | Leased string nat operation
  | Locked string nat operation
  | In_session string nat nat
  | Releasing string nat

record store =
  handles :: "(string \<times> nat) list"
  locks :: "string \<Rightarrow> nat option"
  refcount :: "nat \<Rightarrow> int"
  holder :: "nat \<Rightarrow> nat option"
  next_entry :: nat
  next_handle :: nat
  shut :: "nat set"
  max_handles :: nat
  pcs :: "nat \<Rightarrow> pc"

text \<open>The constructor's guards.\<close>

definition store_init :: "pyval \<Rightarrow> string \<Rightarrow> store res" where
  "store_init limit backend = (case limit of
     PyInt n \<Rightarrow>
       if n < 1 then Inl (ValueError ''max_handles must be a positive integer'')
       else if backend \<noteq> ''vec0'' \<and> backend \<noteq> ''bruteforce''
         then Inl (ValueError ''vector_backend must be vec0 or bruteforce'')
       else Inr \<lparr>handles = [], locks = (\<lambda>_. None), refcount = (\<lambda>_. 0), holder = (\<lambda>_. None), next_entry = 0,
         next_handle = 0, shut = {}, max_handles = nat n, pcs = (\<lambda>_. Idle)\<rparr>
   | _ \<Rightarrow> Inl (ValueError ''max_handles must be a positive integer''))"

section \<open>The critical sections of the registry lock\<close>

text \<open>\<^verbatim>\<open>_lease\<close>\<close>

definition lease :: "string \<Rightarrow> store \<Rightarrow> nat \<times> store" where
  "lease b s = (case locks s b of
     Some e \<Rightarrow> (e, s\<lparr>refcount := (refcount s)(e := refcount s e + 1)\<rparr>)
   | None \<Rightarrow> (let e = next_entry s in
       (e, s\<lparr>locks := (locks s)(b \<mapsto> e), refcount := (refcount s)(e := 1), next_entry := e + 1\<rparr>)))"

text \<open>\<^verbatim>\<open>_evict_idle_locked\<close>: the kept handles and the victims, oldest access first.\<close>

definition idle :: "store \<Rightarrow> string \<times> nat \<Rightarrow> bool" where
  "idle s h = (case locks s (fst h) of None \<Rightarrow> False | Some e \<Rightarrow> refcount s e = 0)"

function evict_loop :: "nat \<Rightarrow> (string \<times> nat \<Rightarrow> bool) \<Rightarrow> (string \<times> nat) list \<Rightarrow> (string \<times> nat) list \<times> (string \<times> nat) list" where
  "evict_loop limit P hs =
     (if length hs \<le> limit then (hs, [])
      else case find P hs of
        None \<Rightarrow> (hs, [])
      | Some v \<Rightarrow> (case evict_loop limit P (remove1 v hs) of (kept, victims) \<Rightarrow> (kept, v # victims)))"
  by pat_completeness auto
termination
  by (relation "measure (\<lambda>(_, _, hs). length hs)")
    (auto simp: find_Some_iff length_remove1 dest: nth_mem)

definition evict_idle :: "store \<Rightarrow> store" where
  "evict_idle s = (case evict_loop (max_handles s) (idle s) (handles s) of (kept, victims) \<Rightarrow>
     s\<lparr>handles := kept, shut := shut s \<union> snd ` set victims,
       locks := (\<lambda>b. if b \<in> fst ` set victims then None else locks s b)\<rparr>)"

text \<open>\<^verbatim>\<open>_release\<close>; the lock entry of a book without handle goes with its last lease.\<close>

definition release :: "string \<Rightarrow> nat \<Rightarrow> store \<Rightarrow> store" where
  "release b e s =
     (let s1 = evict_idle (s\<lparr>refcount := (refcount s)(e := refcount s e - 1)\<rparr>) in
      if refcount s1 e = 0 \<and> b \<notin> fst ` set (handles s1) \<and> locks s1 b = Some e
      then s1\<lparr>locks := (locks s1)(b := None)\<rparr> else s1)"

text \<open>\<^verbatim>\<open>_handle\<close>: a hit moves the handle to the end, a miss opens a new one there.\<close>

definition touch_handle :: "string \<Rightarrow> store \<Rightarrow> nat \<times> store" where
  "touch_handle b s = (case map_of (handles s) b of
     Some h \<Rightarrow> (h, evict_idle (s\<lparr>handles := remove1 (b, h) (handles s) @ [(b, h)]\<rparr>))
   | None \<Rightarrow> (next_handle s, evict_idle (s\<lparr>handles := handles s @ [(b, next_handle s)], next_handle := next_handle s + 1\<rparr>)))"

text \<open>The pop of \<^verbatim>\<open>evict\<close> and the close of the popped handle.\<close>

definition drop_handle :: "string \<Rightarrow> store \<Rightarrow> store" where
  "drop_handle b s = (case map_of (handles s) b of
     None \<Rightarrow> s
   | Some h \<Rightarrow> s\<lparr>handles := remove1 (b, h) (handles s), shut := insert h (shut s)\<rparr>)"

text \<open>\<^verbatim>\<open>evict\<close> run to its end by one thread while the book lock is free, and \<^verbatim>\<open>close\<close>: every handle of the snapshot in turn.\<close>

definition evict_book :: "string \<Rightarrow> store \<Rightarrow> store" where
  "evict_book b s = (case lease b s of (e, s1) \<Rightarrow> release b e (drop_handle b s1))"

definition close_store :: "store \<Rightarrow> store" where
  "close_store s = fold evict_book (map fst (handles s)) s"

section \<open>Steps of the threads\<close>

definition at_pc :: "nat \<Rightarrow> pc \<Rightarrow> store \<Rightarrow> store" where
  "at_pc t p s = s\<lparr>pcs := (pcs s)(t := p)\<rparr>"

text \<open>
  A miss may fail to open the file; the lock is then released on the way out like at the end of a
  session.
\<close>

inductive store_step :: "store \<Rightarrow> store \<Rightarrow> bool" where
  step_lease: "pcs s t = Idle \<Longrightarrow> lease b s = (e, s') \<Longrightarrow> store_step s (at_pc t (Leased b e m) s')"
| step_acquire: "pcs s t = Leased b e m \<Longrightarrow> holder s e = None \<Longrightarrow>
    store_step s (at_pc t (Locked b e m) (s\<lparr>holder := (holder s)(e := Some t)\<rparr>))"
| step_enter: "pcs s t = Locked b e Session \<Longrightarrow> touch_handle b s = (h, s') \<Longrightarrow>
    store_step s (at_pc t (In_session b e h) s')"
| step_open_fails: "pcs s t = Locked b e Session \<Longrightarrow> map_of (handles s) b = None \<Longrightarrow>
    store_step s (at_pc t (Releasing b e) (s\<lparr>holder := (holder s)(e := None)\<rparr>))"
| step_leave: "pcs s t = In_session b e h \<Longrightarrow>
    store_step s (at_pc t (Releasing b e) (s\<lparr>holder := (holder s)(e := None)\<rparr>))"
| step_drop: "pcs s t = Locked b e Evict \<Longrightarrow>
    store_step s (at_pc t (Releasing b e) ((drop_handle b s)\<lparr>holder := (holder s)(e := None)\<rparr>))"
| step_release: "pcs s t = Releasing b e \<Longrightarrow> store_step s (at_pc t Idle (release b e s))"

inductive store_reachable :: "store \<Rightarrow> bool" where
  reach_init: "store_init limit backend = Inr s \<Longrightarrow> store_reachable s"
| reach_step: "store_reachable s \<Longrightarrow> store_step s s' \<Longrightarrow> store_reachable s'"

inductive_cases store_stepE: "store_step s s'"

section \<open>The eviction loop\<close>

declare evict_loop.simps [simp del]

lemma evict_loop_spec:
  "evict_loop limit P hs = (kept, victims) \<Longrightarrow>
     mset hs = mset kept + mset victims \<and> list_all P victims \<and> (length kept \<le> limit \<or> list_all (\<lambda>h. \<not> P h) kept)"
proof (induction limit P hs arbitrary: kept victims rule: evict_loop.induct)
  case (1 limit P hs)
  show ?case
  proof (cases "length hs \<le> limit")
    case True
    with "1.prems" show ?thesis by (simp add: evict_loop.simps [of limit P hs])
  next
    case False
    show ?thesis
    proof (cases "find P hs")
      case None
      with False "1.prems" show ?thesis
        by (auto simp: evict_loop.simps [of limit P hs] find_None_iff list_all_iff)
    next
      case (Some v)
      obtain k vs where rec: "evict_loop limit P (remove1 v hs) = (k, vs)" by fastforce
      from Some have v: "v \<in> set hs" "P v" by (auto simp: find_Some_iff)
      from False Some "1.prems" rec have "kept = k" "victims = v # vs"
        by (simp_all add: evict_loop.simps [of limit P hs])
      moreover from "1.IH" [OF False Some rec] have "mset (remove1 v hs) = mset k + mset vs" by blast
      moreover have "mset hs = add_mset v (mset (remove1 v hs))" using v(1) by simp
      ultimately have "mset hs = mset kept + mset victims" by (simp only: mset.simps union_mset_add_mset_right)
      with \<open>kept = k\<close> \<open>victims = v # vs\<close> "1.IH" [OF False Some rec] v show ?thesis by auto
    qed
  qed
qed

section \<open>The invariant\<close>

fun entry_of :: "pc \<Rightarrow> (string \<times> nat) option" where
  "entry_of Idle = None"
| "entry_of (Leased b e _) = Some (b, e)"
| "entry_of (Locked b e _) = Some (b, e)"
| "entry_of (In_session b e _) = Some (b, e)"
| "entry_of (Releasing b e) = Some (b, e)"

fun holding :: "pc \<Rightarrow> nat option" where
  "holding (Locked b e _) = Some e"
| "holding (In_session b e _) = Some e"
| "holding _ = None"

definition leasing :: "store \<Rightarrow> nat \<Rightarrow> nat set" where
  "leasing s e = {t. \<exists>b. entry_of (pcs s t) = Some (b, e)}"

text \<open>A leased entry is the registered one of its book and counts its leases.\<close>

definition leases_ok :: "store \<Rightarrow> bool" where
  "leases_ok s = ((\<forall>t b e. entry_of (pcs s t) = Some (b, e) \<longrightarrow> locks s b = Some e) \<and>
     (\<forall>e. finite (leasing s e) \<and> refcount s e = int (card (leasing s e))) \<and>
     (\<forall>b b' e. locks s b = Some e \<longrightarrow> locks s b' = Some e \<longrightarrow> b = b') \<and>
     (\<forall>b e. locks s b = Some e \<longrightarrow> e < next_entry s))"

text \<open>Handles are one per book and per number, registered, open; shut numbers are not reused.\<close>

definition handles_ok :: "store \<Rightarrow> bool" where
  "handles_ok s = (distinct (map fst (handles s)) \<and> distinct (map snd (handles s)) \<and>
     (\<forall>(b, h) \<in> set (handles s). locks s b \<noteq> None \<and> h \<notin> shut s \<and> h < next_handle s) \<and>
     (\<forall>h \<in> shut s. h < next_handle s))"

text \<open>The holder of an entry is the thread between acquire and leave; a session's handle is cached.\<close>

definition sessions_ok :: "store \<Rightarrow> bool" where
  "sessions_ok s = ((\<forall>t e. (holder s e = Some t) = (holding (pcs s t) = Some e)) \<and>
     (\<forall>t b e h. pcs s t = In_session b e h \<longrightarrow> (b, h) \<in> set (handles s)))"

definition bounded :: "store \<Rightarrow> bool" where
  "bounded s = (length (handles s) \<le> max_handles s \<or> (\<forall>h \<in> set (handles s). \<not> idle s h))"

definition store_inv :: "store \<Rightarrow> bool" where
  "store_inv s = (leases_ok s \<and> handles_ok s \<and> sessions_ok s \<and> bounded s)"

lemma leased_not_idle:
  assumes "leases_ok s" and "entry_of (pcs s t) = Some (b, e)"
  shows "\<not> idle s (b, h)"
proof -
  have "locks s b = Some e" "finite (leasing s e)" "refcount s e = int (card (leasing s e))" "t \<in> leasing s e"
    using assms by (auto simp: leases_ok_def leasing_def)
  then have "refcount s e \<noteq> 0" by auto
  with \<open>locks s b = Some e\<close> show ?thesis by (simp add: idle_def)
qed

lemma evict_idle_facts:
  assumes "handles_ok s"
  shows "\<exists>victims. evict_idle s = s\<lparr>handles := handles (evict_idle s), shut := shut s \<union> snd ` set victims,
       locks := (\<lambda>b. if b \<in> fst ` set victims then None else locks s b)\<rparr> \<and>
    mset (handles s) = mset (handles (evict_idle s)) + mset victims \<and> list_all (idle s) victims \<and>
    (length (handles (evict_idle s)) \<le> max_handles s \<or> list_all (\<lambda>h. \<not> idle s h) (handles (evict_idle s))) \<and>
    fst ` set (handles (evict_idle s)) \<inter> fst ` set victims = {} \<and>
    snd ` set (handles (evict_idle s)) \<inter> snd ` set victims = {} \<and>
    distinct (map fst (handles (evict_idle s))) \<and> distinct (map snd (handles (evict_idle s)))"
proof -
  obtain kept victims where loop: "evict_loop (max_handles s) (idle s) (handles s) = (kept, victims)" by fastforce
  from evict_loop_spec [OF this] have m: "mset (handles s) = mset kept + mset victims" "list_all (idle s) victims"
    "length kept \<le> max_handles s \<or> list_all (\<lambda>h. \<not> idle s h) kept" by auto
  have e: "evict_idle s = s\<lparr>handles := kept, shut := shut s \<union> snd ` set victims,
       locks := (\<lambda>b. if b \<in> fst ` set victims then None else locks s b)\<rparr>" by (simp add: evict_idle_def loop)
  from m(1) have perm: "mset (handles s) = mset (kept @ victims)" by simp
  have d: "distinct (map f (kept @ victims))" if "distinct (map f (handles s))" for f :: "string \<times> nat \<Rightarrow> 'z"
    using that perm by (metis mset_map mset_eq_imp_distinct_iff)
  from d [of fst] d [of snd] assms have "distinct (map fst (kept @ victims))" "distinct (map snd (kept @ victims))"
    by (auto simp: handles_ok_def simp del: map_append)
  with m e show ?thesis by (intro exI [where x = victims]) auto
qed

lemma evict_idle_keeps:
  assumes "leases_ok s" and "handles_ok s" and "sessions_ok s"
  shows "store_inv (evict_idle s)"
proof -
  from evict_idle_facts [OF assms(2)] obtain victims where
    e: "evict_idle s = s\<lparr>handles := handles (evict_idle s), shut := shut s \<union> snd ` set victims,
       locks := (\<lambda>b. if b \<in> fst ` set victims then None else locks s b)\<rparr>" and
    m: "mset (handles s) = mset (handles (evict_idle s)) + mset victims" and idle: "list_all (idle s) victims" and
    lim: "length (handles (evict_idle s)) \<le> max_handles s \<or> list_all (\<lambda>h. \<not> idle s h) (handles (evict_idle s))" and
    disj: "fst ` set (handles (evict_idle s)) \<inter> fst ` set victims = {}"
      "snd ` set (handles (evict_idle s)) \<inter> snd ` set victims = {}" and
    dist: "distinct (map fst (handles (evict_idle s)))" "distinct (map snd (handles (evict_idle s)))"
    by blast
  define kept where "kept = handles (evict_idle s)"
  have fields: "handles (evict_idle s) = kept" "shut (evict_idle s) = shut s \<union> snd ` set victims"
    "locks (evict_idle s) = (\<lambda>b. if b \<in> fst ` set victims then None else locks s b)"
    "refcount (evict_idle s) = refcount s" "holder (evict_idle s) = holder s" "pcs (evict_idle s) = pcs s"
    "next_entry (evict_idle s) = next_entry s" "next_handle (evict_idle s) = next_handle s"
    "max_handles (evict_idle s) = max_handles s"
    by (subst e, simp add: kept_def)+
  have sets: "set (handles s) = set kept \<union> set victims"
    using m by (metis kept_def set_mset_mset set_mset_union)
  have safe: "b \<notin> fst ` set victims" if "entry_of (pcs s t) = Some (b, x)" for t b x
    using leased_not_idle [OF assms(1) that] idle by (auto simp: list_all_iff)
  have "leases_ok (evict_idle s)"
    using assms(1) safe unfolding leases_ok_def leasing_def fields by auto
  moreover have "handles_ok (evict_idle s)"
    unfolding handles_ok_def fields
  proof (intro conjI)
    show "distinct (map fst kept)" "distinct (map snd kept)" using dist by (simp_all add: kept_def)
    show "\<forall>(b, h) \<in> set kept. (if b \<in> fst ` set victims then None else locks s b) \<noteq> None \<and>
        h \<notin> shut s \<union> snd ` set victims \<and> h < next_handle s"
    proof (clarify, intro conjI)
      fix b h assume k: "(b, h) \<in> set kept"
      then have "b \<notin> fst ` set victims" "h \<notin> snd ` set victims"
        using disj by (auto simp: kept_def disjoint_iff) (force+)
      moreover have kh: "(b, h) \<in> set (handles s)" using k sets by simp
      moreover have "locks s b \<noteq> None" "h \<notin> shut s" "h < next_handle s"
        using kh assms(2) by (auto simp: handles_ok_def)
      ultimately show "(if b \<in> fst ` set victims then None else locks s b) \<noteq> None"
        "h \<notin> shut s \<union> snd ` set victims" "h < next_handle s" by simp_all
    qed
    show "\<forall>h \<in> shut s \<union> snd ` set victims. h < next_handle s"
      using assms(2) sets by (auto simp: handles_ok_def)
  qed
  moreover have "sessions_ok (evict_idle s)"
    unfolding sessions_ok_def fields
  proof (intro conjI allI impI)
    show "(holder s x = Some t) = (holding (pcs s t) = Some x)" for t x
      using assms(3) by (simp add: sessions_ok_def)
    fix t b x h assume "pcs s t = In_session b x h"
    then have "(b, h) \<in> set kept \<union> set victims" "b \<notin> fst ` set victims"
      using assms(3) sets safe [of t b x] by (auto simp: sessions_ok_def)
    then show "(b, h) \<in> set kept" by force
  qed
  moreover have "bounded (evict_idle s)"
  proof -
    have "idle (evict_idle s) h = idle s h" if "h \<in> set kept" for h
      using that disj(1) [folded kept_def] by (simp add: idle_def fields disjoint_iff split: option.splits)
    with lim [folded kept_def] show ?thesis by (auto simp: bounded_def fields list_all_iff)
  qed
  ultimately show ?thesis by (simp add: store_inv_def)
qed


section \<open>Every step keeps the invariant\<close>

lemma at_pc_fields [simp]:
  "handles (at_pc t p s) = handles s" "locks (at_pc t p s) = locks s" "refcount (at_pc t p s) = refcount s"
  "holder (at_pc t p s) = holder s" "next_entry (at_pc t p s) = next_entry s" "next_handle (at_pc t p s) = next_handle s"
  "shut (at_pc t p s) = shut s" "max_handles (at_pc t p s) = max_handles s" "pcs (at_pc t p s) = (pcs s)(t := p)"
  by (simp_all add: at_pc_def)

lemma idle_fields: "locks s' = locks s \<Longrightarrow> refcount s' = refcount s \<Longrightarrow> idle s' = idle s"
  by (simp add: idle_def fun_eq_iff split: option.splits)

lemma handles_ok_fields:
  assumes "handles s' = handles s" "locks s' = locks s" "shut s' = shut s" "next_handle s' = next_handle s"
  shows "handles_ok s' = handles_ok s"
  using assms by (simp add: handles_ok_def)

lemma leases_ok_fields:
  assumes "\<And>t. entry_of (pcs s' t) = entry_of (pcs s t)" "locks s' = locks s" "refcount s' = refcount s"
    "next_entry s' = next_entry s"
  shows "leases_ok s' = leases_ok s"
  using assms by (simp add: leases_ok_def leasing_def)

lemma bounded_fields:
  assumes "handles s' = handles s" "locks s' = locks s" "refcount s' = refcount s" "max_handles s' = max_handles s"
  shows "bounded s' = bounded s"
  using assms by (simp add: bounded_def idle_fields [of s' s])

lemma bounded_sub:
  assumes "bounded s" "idle s' = idle s" "length (handles s') \<le> length (handles s)"
    "set (handles s') \<subseteq> set (handles s)" "max_handles s' = max_handles s"
  shows "bounded s'"
  using assms unfolding bounded_def by (metis le_trans subsetD)

lemma sessions_holder: "sessions_ok s \<Longrightarrow> (holder s e = Some t) = (holding (pcs s t) = Some e)"
  by (simp add: sessions_ok_def)

lemma sessions_cached: "sessions_ok s \<Longrightarrow> pcs s t = In_session b e h \<Longrightarrow> (b, h) \<in> set (handles s)"
  by (simp add: sessions_ok_def)

lemma sessions_okI:
  assumes "\<And>t e. (holder s e = Some t) = (holding (pcs s t) = Some e)"
    and "\<And>t b e h. pcs s t = In_session b e h \<Longrightarrow> (b, h) \<in> set (handles s)"
  shows "sessions_ok s"
  using assms by (simp add: sessions_ok_def)

lemma sessions_unheld:
  assumes "sessions_ok s" "holder s e = None"
  shows "holding (pcs s t) \<noteq> Some e"
  using assms by (metis option.distinct(1) sessions_ok_def)

lemma sessions_held:
  assumes "sessions_ok s" "holding (pcs s t) = Some e" "holding (pcs s u) = Some e"
  shows "u = t"
  using assms by (metis option.inject sessions_ok_def)

lemma inv_acquire:
  assumes "store_inv s" "pcs s t = Leased b e m" "holder s e = None"
  shows "store_inv (at_pc t (Locked b e m) (s\<lparr>holder := (holder s)(e := Some t)\<rparr>))" (is "store_inv ?s")
proof -
  from assms(1) have so: "sessions_ok s" by (simp add: store_inv_def)
  have "sessions_ok ?s"
  proof (rule sessions_okI)
    fix u x show "(holder ?s x = Some u) = (holding (pcs ?s u) = Some x)"
      using sessions_holder [OF so, of x u] sessions_unheld [OF so assms(3), of u] assms(2)
      by (cases "u = t"; cases "x = e") simp_all
  next
    fix u b' x h assume "pcs ?s u = In_session b' x h"
    then show "(b', h) \<in> set (handles ?s)" using sessions_cached [OF so, of u] by (cases "u = t") simp_all
  qed
  moreover have "leases_ok ?s = leases_ok s" by (rule leases_ok_fields) (simp_all add: assms(2))
  moreover have "handles_ok ?s = handles_ok s" by (rule handles_ok_fields) simp_all
  moreover have "bounded ?s = bounded s" by (rule bounded_fields) simp_all
  ultimately show ?thesis using assms(1) by (simp add: store_inv_def)
qed

text \<open>Leaving the book lock, the handles kept or one of them dropped.\<close>

lemma sessions_leave:
  assumes so: "sessions_ok s" and held: "holding (pcs s t) = Some e"
    and kept: "\<And>u b' x h. u \<noteq> t \<Longrightarrow> pcs s u = In_session b' x h \<Longrightarrow> (b', h) \<in> set (handles s')"
    and f: "holder s' = (holder s)(e := None)" "pcs s' = (pcs s)(t := Releasing b e)"
  shows "sessions_ok s'"
proof (rule sessions_okI)
  fix u x
  have other: "u \<noteq> t \<Longrightarrow> holding (pcs s u) \<noteq> Some e" using sessions_held [OF so held] by blast
  show "(holder s' x = Some u) = (holding (pcs s' u) = Some x)"
    using sessions_holder [OF so, of x u] other held
    by (cases "u = t"; cases "x = e") (simp_all add: f)
next
  fix u b' x h assume "pcs s' u = In_session b' x h"
  then show "(b', h) \<in> set (handles s')" using kept [of u] by (cases "u = t") (simp_all add: f)
qed

lemma inv_leave:
  assumes "store_inv s" "entry_of (pcs s t) = Some (b, e)" "holding (pcs s t) = Some e"
  shows "store_inv (at_pc t (Releasing b e) (s\<lparr>holder := (holder s)(e := None)\<rparr>))" (is "store_inv ?s")
proof -
  have "sessions_ok ?s"
    using assms(1,3) by (intro sessions_leave [of s t e ?s b]) (simp_all add: store_inv_def sessions_cached)
  moreover have "leases_ok ?s = leases_ok s" by (rule leases_ok_fields) (simp_all add: assms(2))
  moreover have "handles_ok ?s = handles_ok s" by (rule handles_ok_fields) simp_all
  moreover have "bounded ?s = bounded s" by (rule bounded_fields) simp_all
  ultimately show ?thesis using assms(1) by (simp add: store_inv_def)
qed

lemma inv_lease:
  assumes "store_inv s" "pcs s t = Idle" "lease b s = (e, s')"
  shows "store_inv (at_pc t (Leased b e m) s')" (is "store_inv ?s")
proof -
  have f: "handles s' = handles s" "holder s' = holder s" "pcs s' = pcs s" "shut s' = shut s"
    "next_handle s' = next_handle s" "max_handles s' = max_handles s"
    using assms(3) by (auto simp: lease_def Let_def split: option.splits)
  have lo: "leases_ok s" and ho: "handles_ok s" and so: "sessions_ok s" and bo: "bounded s"
    using assms(1) by (auto simp: store_inv_def)
  have mem: "leasing ?s x = (if x = e then insert t (leasing s e) else leasing s x)" and nt: "t \<notin> leasing s x" for x
    using assms(2) by (auto simp: leasing_def f)
  have "leases_ok ?s \<and> handles_ok ?s \<and> bounded ?s"
  proof (cases "locks s b")
    case (Some e')
    then have s': "e' = e" "s' = s\<lparr>refcount := (refcount s)(e := refcount s e + 1)\<rparr>"
      using assms(3) by (auto simp: lease_def)
    have "leases_ok ?s" unfolding leases_ok_def mem using lo Some nt s'
      by (auto simp: leases_ok_def split: if_splits)
    moreover have "idle ?s h \<Longrightarrow> idle s h" for h
      using lo Some nt s' by (auto simp: idle_def leases_ok_def split: option.splits if_splits)
    then have "bounded ?s" using bo by (auto simp: bounded_def f)
    ultimately show ?thesis using ho s' by (simp add: handles_ok_def)
  next
    case None
    then have s': "e = next_entry s" "s' = s\<lparr>locks := (locks s)(b \<mapsto> e), refcount := (refcount s)(e := 1), next_entry := e + 1\<rparr>"
      using assms(3) by (auto simp: lease_def Let_def)
    have fresh: "leasing s e = {}"
    proof -
      have "entry_of (pcs s u) \<noteq> Some (b', e)" for u b'
        using lo s'(1) by (metis leases_ok_def less_irrefl)
      then show ?thesis by (simp add: leasing_def)
    qed
    have reg: "locks s b' \<noteq> Some e" for b' using lo s' by (auto simp: leases_ok_def)
    have unl: "entry_of (pcs s u) \<noteq> Some (b, x)" for u x using lo None by (metis leases_ok_def option.distinct(1))
    have "leases_ok ?s"
      unfolding leases_ok_def mem
    proof (intro conjI allI impI)
      fix u b' x assume "entry_of (pcs ?s u) = Some (b', x)"
      then show "locks ?s b' = Some x"
        using lo unl [of u x] s' by (cases "u = t") (auto simp: leases_ok_def)
    next
      fix x show "finite (if x = e then insert t (leasing s e) else leasing s x)"
        using lo by (simp add: leases_ok_def)
      show "refcount ?s x = int (card (if x = e then insert t (leasing s e) else leasing s x))"
        using lo fresh s' by (simp add: leases_ok_def)
    next
      fix b1 b2 x assume "locks ?s b1 = Some x" "locks ?s b2 = Some x"
      then show "b1 = b2" using lo reg s' by (auto simp: leases_ok_def split: if_splits)
    next
      fix b1 x assume "locks ?s b1 = Some x"
      then show "x < next_entry ?s" using lo s' by (auto simp: leases_ok_def split: if_splits)
        (metis less_SucI)
    qed
    moreover have "idle ?s h \<Longrightarrow> idle s h" for h
      using reg s' by (auto simp: idle_def split: option.splits if_splits)
    then have "bounded ?s" using bo by (auto simp: bounded_def f)
    moreover have "handles_ok ?s" using ho s' by (auto simp: handles_ok_def)
    ultimately show ?thesis by simp
  qed
  moreover have "sessions_ok ?s"
    using so assms(2) by (auto simp: sessions_ok_def f)
  ultimately show ?thesis by (simp add: store_inv_def)
qed

text \<open>Eviction keeps every field but the cache and the registry, and every leased handle.\<close>

lemma evict_idle_fields [simp]:
  "pcs (evict_idle s) = pcs s" "refcount (evict_idle s) = refcount s" "holder (evict_idle s) = holder s"
  "next_entry (evict_idle s) = next_entry s" "next_handle (evict_idle s) = next_handle s"
  "max_handles (evict_idle s) = max_handles s"
  by (simp_all add: evict_idle_def split: prod.split)

lemma evict_idle_leased:
  assumes "leases_ok s" "handles_ok s" "entry_of (pcs s t) = Some (b, e)" "(b, h) \<in> set (handles s)"
  shows "(b, h) \<in> set (handles (evict_idle s))"
proof -
  from evict_idle_facts [OF assms(2)] obtain victims where
    m: "mset (handles s) = mset (handles (evict_idle s)) + mset victims" and idle: "list_all (idle s) victims"
    by blast
  from m have "set (handles s) = set (handles (evict_idle s)) \<union> set victims"
    by (metis set_mset_mset set_mset_union)
  with assms(4) leased_not_idle [OF assms(1,3)] idle show ?thesis by (auto simp: list_all_iff)
qed

lemma evict_idle_at_pc: "evict_idle (at_pc t p s) = at_pc t p (evict_idle s)"
proof -
  have i: "idle (at_pc t p s) = idle s" by (rule idle_fields) simp_all
  obtain kept victims where "evict_loop (max_handles s) (idle s) (handles s) = (kept, victims)" by fastforce
  then show ?thesis by (intro store.equality) (simp_all add: evict_idle_def i cong: if_cong)
qed

lemma leases_registered: "leases_ok s \<Longrightarrow> entry_of (pcs s t) = Some (b, e) \<Longrightarrow> locks s b = Some e"
  by (simp add: leases_ok_def)

lemma distinct_map_mset: "mset xs = mset ys \<Longrightarrow> distinct (map f xs) = distinct (map f ys)"
  by (metis mset_map mset_eq_imp_distinct_iff)

lemma handles_ok_move:
  assumes "handles_ok s" "map_of (handles s) b = Some h"
  shows "handles_ok (s\<lparr>handles := remove1 (b, h) (handles s) @ [(b, h)]\<rparr>)" (is "handles_ok (s\<lparr>handles := ?hs\<rparr>)")
    and "set (remove1 (b, h) (handles s) @ [(b, h)]) = set (handles s)"
proof -
  have perm: "mset ?hs = mset (handles s)" using map_of_SomeD [OF assms(2)] by simp
  then show st: "set ?hs = set (handles s)" by (metis set_mset_mset)
  define hs where "hs = ?hs"
  have "handles_ok (s\<lparr>handles := hs\<rparr>)"
    using assms(1) distinct_map_mset [OF perm [folded hs_def], of fst] distinct_map_mset [OF perm [folded hs_def], of snd]
      st [folded hs_def] by (simp add: handles_ok_def)
  then show "handles_ok (s\<lparr>handles := ?hs\<rparr>)" by (simp only: hs_def)
qed

lemma handles_ok_open:
  assumes "handles_ok s" "map_of (handles s) b = None" "locks s b \<noteq> None"
  shows "handles_ok (s\<lparr>handles := handles s @ [(b, next_handle s)], next_handle := next_handle s + 1\<rparr>)"
proof -
  have nb: "b \<notin> fst ` set (handles s)" using assms(2) by (simp add: map_of_eq_None_iff)
  have nh: "next_handle s \<notin> snd ` set (handles s)" and ns: "next_handle s \<notin> shut s"
    using assms(1) by (auto simp: handles_ok_def)
  from nb nh ns assms show ?thesis by (auto simp: handles_ok_def less_Suc_eq)
qed

lemma inv_enter:
  assumes "store_inv s" "pcs s t = Locked b e Session" "touch_handle b s = (h, s')"
  shows "store_inv (at_pc t (In_session b e h) s')"
proof -
  have lo: "leases_ok s" and ho: "handles_ok s" and so: "sessions_ok s" using assms(1) by (auto simp: store_inv_def)
  have ent: "entry_of (pcs s t) = Some (b, e)" by (simp add: assms(2))
  have reg: "locks s b = Some e" using lo ent by (simp add: leases_ok_def)
  obtain s1 where s1: "s' = evict_idle s1" "pcs s1 = pcs s" "locks s1 = locks s" "refcount s1 = refcount s"
      "next_entry s1 = next_entry s" "holder s1 = holder s" "handles_ok s1" "(b, h) \<in> set (handles s1)"
      "set (handles s) \<subseteq> set (handles s1)"
  proof (cases "map_of (handles s) b")
    case None
    with assms(3) have h: "h = next_handle s" and
      s': "s' = evict_idle (s\<lparr>handles := handles s @ [(b, next_handle s)], next_handle := next_handle s + 1\<rparr>)"
      by (auto simp: touch_handle_def)
    show ?thesis by (rule that [OF s' _ _ _ _ _ handles_ok_open [OF ho None]]) (auto simp: h reg)
  next
    case (Some h')
    with assms(3) have h': "h' = h" by (simp add: touch_handle_def)
    with assms(3) Some have s': "s' = evict_idle (s\<lparr>handles := remove1 (b, h) (handles s) @ [(b, h)]\<rparr>)"
      by (simp add: touch_handle_def)
    show ?thesis
      by (rule that [OF s']) (simp_all add: handles_ok_move [OF ho Some [unfolded h']] map_of_SomeD [OF Some [unfolded h']]
        del: set_append)
  qed
  have lo1: "leases_ok s1" using lo by (subst leases_ok_fields [of _ s]) (simp_all add: s1)
  have so1: "sessions_ok s1"
    using sessions_holder [OF so] subsetD [OF s1(9) sessions_cached [OF so]] by (intro sessions_okI) (auto simp: s1)
  from evict_idle_keeps [OF lo1 s1(7) so1] have inv: "store_inv s'" by (simp add: s1(1))
  have cached: "(b, h) \<in> set (handles s')"
    unfolding s1(1) by (rule evict_idle_leased [OF lo1 s1(7) _ s1(8), of t e]) (simp add: s1 ent)
  have p: "pcs s' = pcs s" "holder s' = holder s" by (simp_all add: s1)
  have so': "sessions_ok s'" using inv by (simp add: store_inv_def)
  have "sessions_ok (at_pc t (In_session b e h) s')"
  proof (rule sessions_okI)
    fix u x show "(holder (at_pc t (In_session b e h) s') x = Some u) = (holding (pcs (at_pc t (In_session b e h) s') u) = Some x)"
      using sessions_holder [OF so', of x u] assms(2) by (cases "u = t") (simp_all add: p)
  next
    fix u b' x g assume "pcs (at_pc t (In_session b e h) s') u = In_session b' x g"
    then show "(b', g) \<in> set (handles (at_pc t (In_session b e h) s'))"
      using sessions_cached [OF so', of u] cached by (cases "u = t") simp_all
  qed
  moreover have "leases_ok (at_pc t (In_session b e h) s') = leases_ok s'"
    by (rule leases_ok_fields) (simp_all add: p assms(2))
  moreover have "handles_ok (at_pc t (In_session b e h) s') = handles_ok s'" by (rule handles_ok_fields) simp_all
  moreover have "bounded (at_pc t (In_session b e h) s') = bounded s'" by (rule bounded_fields) simp_all
  ultimately show ?thesis using inv by (simp add: store_inv_def)
qed

lemma distinct_map_remove1: "distinct (map f xs) \<Longrightarrow> distinct (map f (remove1 x xs))"
  by (induction xs) (auto simp: image_iff dest: set_remove1_subset [THEN subsetD])

lemma drop_handle_fields [simp]:
  "pcs (drop_handle b s) = pcs s" "locks (drop_handle b s) = locks s" "refcount (drop_handle b s) = refcount s"
  "next_entry (drop_handle b s) = next_entry s" "next_handle (drop_handle b s) = next_handle s"
  "max_handles (drop_handle b s) = max_handles s"
  by (simp_all add: drop_handle_def split: option.splits)

lemma inv_drop:
  assumes "store_inv s" "pcs s t = Locked b e Evict"
  shows "store_inv (at_pc t (Releasing b e) ((drop_handle b s)\<lparr>holder := (holder s)(e := None)\<rparr>))" (is "store_inv ?s")
proof (cases "map_of (handles s) b")
  case None
  with inv_leave [OF assms(1), of t b e] assms(2) show ?thesis by (simp add: drop_handle_def)
next
  case (Some h)
  have lo: "leases_ok s" and ho: "handles_ok s" and so: "sessions_ok s" and bo: "bounded s"
    using assms(1) by (auto simp: store_inv_def)
  have f: "handles ?s = remove1 (b, h) (handles s)" "shut ?s = insert h (shut s)" "locks ?s = locks s"
    "refcount ?s = refcount s" "next_entry ?s = next_entry s" "next_handle ?s = next_handle s"
    "max_handles ?s = max_handles s" "holder ?s = (holder s)(e := None)" "pcs ?s = (pcs s)(t := Releasing b e)"
    by (simp_all add: drop_handle_def Some)
  have ph: "holding (pcs s t) = Some e" by (simp add: assms(2))
  have d: "distinct (handles s)" and df: "distinct (map fst (handles s))" and ds: "distinct (map snd (handles s))"
    using ho by (auto simp: handles_ok_def distinct_map)
  have left: "set (handles ?s) = set (handles s) - {(b, h)}" unfolding f using d by simp
  have reg: "locks s b = Some e" using leases_registered [OF lo, of t] assms(2) by simp
  have "sessions_ok ?s"
  proof (rule sessions_leave [OF so, of t e _ b])
    show "holding (pcs s t) = Some e" by (rule ph)
    show "holder ?s = (holder s)(e := None)" "pcs ?s = (pcs s)(t := Releasing b e)" by (rule f)+
    fix u b' x g assume u: "u \<noteq> t" "pcs s u = In_session b' x g"
    have "x \<noteq> e"
    proof
      assume "x = e"
      with u(2) have "holding (pcs s u) = Some e" by simp
      from sessions_held [OF so ph this] u(1) show False by simp
    qed
    moreover have "locks s b' = Some x" using leases_registered [OF lo, of u] u by simp
    ultimately have "b' \<noteq> b" using reg by auto
    then show "(b', g) \<in> set (handles ?s)" using sessions_cached [OF so u(2)] left by auto
  qed
  moreover have "leases_ok ?s = leases_ok s" by (rule leases_ok_fields) (simp_all add: f assms(2))
  moreover have "handles_ok ?s"
  proof -
    have "distinct (map fst (handles ?s))" "distinct (map snd (handles ?s))"
      unfolding f by (simp_all add: distinct_map_remove1 df ds)
    moreover have "g \<noteq> h" if "(b', g) \<in> set (handles s) - {(b, h)}" for b' g
    proof
      assume "g = h"
      moreover have "inj_on snd (set (handles s))" using ds by (simp add: distinct_map)
      ultimately have "(b', g) = (b, h)"
        using that map_of_SomeD [OF Some] by (intro inj_onD [of snd "set (handles s)"]) auto
      with that show False by simp
    qed
    ultimately show ?thesis using ho map_of_SomeD [OF Some]
      unfolding handles_ok_def left unfolding f by auto
  qed
  moreover have "bounded ?s"
  proof -
    have "idle ?s = idle s" by (rule idle_fields) (simp_all add: f)
    moreover have "length (handles ?s) \<le> length (handles s)" unfolding f by (simp add: length_remove1)
    moreover have "set (handles ?s) \<subseteq> set (handles s)" unfolding left by blast
    ultimately show ?thesis by (rule bounded_sub [OF bo _ _ _ f(7)])
  qed
  ultimately show ?thesis using lo by (simp add: store_inv_def)
qed

lemma inv_release:
  assumes "store_inv s" "pcs s t = Releasing b e"
  shows "store_inv (at_pc t Idle (release b e s))"
proof -
  have lo: "leases_ok s" and ho: "handles_ok s" and so: "sessions_ok s" using assms(1) by (auto simp: store_inv_def)
  define s0 where "s0 = at_pc t Idle (s\<lparr>refcount := (refcount s)(e := refcount s e - 1)\<rparr>)"
  define s1 where "s1 = evict_idle s0"
  have reg: "locks s b = Some e" using leases_registered [OF lo, of t] assms(2) by simp
  have less: "leasing s0 x = (if x = e then leasing s e - {t} else leasing s x)" for x
    using assms(2) by (auto simp: leasing_def s0_def)
  have mem: "t \<in> leasing s e" using assms(2) by (simp add: leasing_def)
  have fin: "finite (leasing s x)" "refcount s x = int (card (leasing s x))" for x using lo by (simp_all add: leases_ok_def)
  have "int (card (leasing s e)) - 1 = int (card (leasing s e - {t}))"
    using card_Suc_Diff1 [OF fin(1) mem] by simp
  with lo fin have lo0: "leases_ok s0"
    unfolding leases_ok_def less by (auto simp: s0_def)
  have "handles_ok s0 = handles_ok s" by (rule handles_ok_fields) (simp_all add: s0_def)
  moreover have "sessions_ok s0" using so assms(2) by (auto simp: sessions_ok_def s0_def)
  ultimately have inv1: "store_inv s1" using evict_idle_keeps lo0 ho by (simp add: s1_def)
  have rel: "at_pc t Idle (release b e s) =
      (if refcount s1 e = 0 \<and> b \<notin> fst ` set (handles s1) \<and> locks s1 b = Some e
       then s1\<lparr>locks := (locks s1)(b := None)\<rparr> else s1)"
  proof -
    define w where "w = evict_idle (s\<lparr>refcount := (refcount s)(e := refcount s e - 1)\<rparr>)"
    have "s1 = at_pc t Idle w" by (simp only: s1_def s0_def evict_idle_at_pc w_def)
    moreover have "release b e s = (if refcount w e = 0 \<and> b \<notin> fst ` set (handles w) \<and> locks w b = Some e
        then w\<lparr>locks := (locks w)(b := None)\<rparr> else w)"
      by (simp only: release_def Let_def w_def)
    moreover have "at_pc t Idle (w\<lparr>locks := l\<rparr>) = (at_pc t Idle w)\<lparr>locks := l\<rparr>" for l by (simp add: at_pc_def)
    ultimately show ?thesis by simp
  qed
  show ?thesis
  proof (cases "refcount s1 e = 0 \<and> b \<notin> fst ` set (handles s1) \<and> locks s1 b = Some e")
    case False
    with rel inv1 show ?thesis by (simp only: if_False)
  next
    case True
    let ?s = "s1\<lparr>locks := (locks s1)(b := None)\<rparr>"
    have lo1: "leases_ok s1" and ho1: "handles_ok s1" and so1: "sessions_ok s1" and bo1: "bounded s1"
      using inv1 by (auto simp: store_inv_def)
    have none: "entry_of (pcs s1 u) \<noteq> Some (b, x)" for u x
    proof
      assume a: "entry_of (pcs s1 u) = Some (b, x)"
      then have "x = e" using lo1 True by (auto simp: leases_ok_def)
      with a have "u \<in> leasing s1 e" by (auto simp: leasing_def)
      then show False using lo1 True by (auto simp: leases_ok_def)
    qed
    have "leases_ok ?s" using lo1 none by (auto simp: leases_ok_def leasing_def)
    moreover have "handles_ok ?s" using ho1 True by (auto simp: handles_ok_def rev_image_eqI)
    moreover have "sessions_ok ?s" using so1 by (simp add: sessions_ok_def)
    moreover have "bounded ?s"
    proof -
      have "idle ?s h = idle s1 h" if "h \<in> set (handles s1)" for h
        using True that by (cases h) (auto simp: idle_def rev_image_eqI split: option.splits)
      then show ?thesis using bo1 by (auto simp: bounded_def)
    qed
    ultimately show ?thesis using True rel by (simp add: store_inv_def)
  qed
qed

lemma store_init_inv: "store_init limit backend = Inr s \<Longrightarrow> store_inv s"
  by (auto simp: store_init_def store_inv_def leases_ok_def leasing_def handles_ok_def sessions_ok_def bounded_def
      split: pyval.splits if_splits)

lemma store_step_inv:
  assumes "store_inv s" "store_step s s'"
  shows "store_inv s'"
  using assms(2)
proof cases
  case (step_open_fails t b e)
  then show ?thesis using inv_leave [OF assms(1), of t b e] by simp
next
  case (step_leave t b e h)
  then show ?thesis using inv_leave [OF assms(1), of t b e] by simp
qed (use assms(1) in \<open>auto intro: inv_lease inv_acquire inv_enter inv_drop inv_release\<close>)

lemma store_reachable_inv: "store_reachable s \<Longrightarrow> store_inv s"
  by (induction rule: store_reachable.induct) (auto intro: store_init_inv store_step_inv)


section \<open>Properties\<close>

text \<open>
  Property C10: at any point of any interleaving of sessions and evictions, the book lock and the handle
  cache keep a book's connection to a single session: two threads inside \<^verbatim>\<open>with store.book(b)\<close> on the
  same book are the same thread, and the connection a session works on is the cached one and has not
  been closed by the eviction of \<^verbatim>\<open>_evict_idle_locked\<close> or by \<^verbatim>\<open>evict\<close>.\<close>

theorem session_owns_its_connection:
  assumes "store_reachable s" "pcs s t = In_session b e h"
  shows "(pcs s u = In_session b e' h' \<longrightarrow> u = t) \<and> map_of (handles s) b = Some h \<and> h \<notin> shut s"
proof -
  have inv: "leases_ok s" "handles_ok s" "sessions_ok s" using store_reachable_inv [OF assms(1)] by (auto simp: store_inv_def)
  have "u = t" if "pcs s u = In_session b e' h'"
  proof -
    have "locks s b = Some e" "locks s b = Some e'"
      using leases_registered [OF inv(1), of t] leases_registered [OF inv(1), of u] assms(2) that by simp_all
    then have "e' = e" by simp
    then show ?thesis using sessions_held [OF inv(3), of t e u] assms(2) that by simp
  qed
  moreover have "(b, h) \<in> set (handles s)" using sessions_cached [OF inv(3) assms(2)] .
  ultimately show ?thesis using inv(2) by (auto simp: handles_ok_def)
qed

text \<open>
  Every cached handle is open, belongs to a registered lock entry (the lookup
  \<^verbatim>\<open>self._locks[book_id]\<close> of the eviction loop cannot fail) and is the only one of its book, no lease
  count is negative (the RuntimeError of \<^verbatim>\<open>_release\<close> is unreachable), and a lease is counted on the entry
  it registered.\<close>

theorem registry_is_consistent:
  assumes "store_reachable s"
  shows "distinct (map fst (handles s)) \<and> 0 \<le> refcount s e \<and>
    ((b, h) \<in> set (handles s) \<longrightarrow> locks s b \<noteq> None \<and> h \<notin> shut s) \<and>
    (entry_of (pcs s t) = Some (b, e) \<longrightarrow> locks s b = Some e \<and> 0 < refcount s e)"
proof -
  have inv: "leases_ok s" "handles_ok s" using store_reachable_inv [OF assms(1)] by (auto simp: store_inv_def)
  have r: "finite (leasing s e)" "refcount s e = int (card (leasing s e))" using inv(1) by (simp_all add: leases_ok_def)
  have "0 < refcount s e" if "entry_of (pcs s t) = Some (b, e)"
  proof -
    have "t \<in> leasing s e" using that by (auto simp: leasing_def)
    then show ?thesis using r by (auto simp: card_gt_0_iff)
  qed
  with r leases_registered [OF inv(1), of t b e] inv(2) show ?thesis by (auto simp: handles_ok_def)
qed

text \<open>
  The cache may exceed its limit only while handles are leased: once no thread is between a
  lease and its release, at most \<^verbatim>\<open>max_handles\<close> handles are open in the cache.\<close>

theorem idle_cache_is_bounded:
  assumes "store_reachable s" "\<And>t. pcs s t = Idle"
  shows "length (handles s) \<le> max_handles s"
proof -
  have inv: "leases_ok s" "handles_ok s" "bounded s" using store_reachable_inv [OF assms(1)] by (auto simp: store_inv_def)
  have "refcount s e = 0" for e using inv(1) assms(2) by (simp add: leases_ok_def leasing_def)
  then have "idle s h" if "h \<in> set (handles s)" for h
    using inv(2) that by (cases h) (auto simp: handles_ok_def idle_def)
  with inv(3) have "length (handles s) \<le> max_handles s \<or> set (handles s) = {}"
    unfolding bounded_def by (cases "handles s") auto
  then show ?thesis by auto
qed

lemma evict_idle_sub:
  assumes "distinct (map fst (handles s))"
  shows "set (handles (evict_idle s)) \<subseteq> set (handles s) \<and> distinct (map fst (handles (evict_idle s)))"
proof -
  obtain kept victims where loop: "evict_loop (max_handles s) (idle s) (handles s) = (kept, victims)" by fastforce
  have perm: "mset (handles s) = mset (kept @ victims)" using evict_loop_spec [OF loop] by simp
  then have "distinct (map fst (kept @ victims))" using assms distinct_map_mset by blast
  moreover have "set kept \<subseteq> set (handles s)" using perm by (metis set_mset_mset set_append Un_upper1)
  ultimately show ?thesis by (simp add: evict_idle_def loop)
qed

lemma evict_book_handles:
  assumes "distinct (map fst (handles s))"
  shows "set (handles (evict_book b s)) \<subseteq> {h \<in> set (handles s). fst h \<noteq> b} \<and> distinct (map fst (handles (evict_book b s)))"
proof -
  obtain e s1 where l: "lease b s = (e, s1)" by fastforce
  then have h1: "handles s1 = handles s" by (auto simp: lease_def Let_def split: option.splits)
  have d: "set (handles (drop_handle b s1)) \<subseteq> {h \<in> set (handles s). fst h \<noteq> b} \<and> distinct (map fst (handles (drop_handle b s1)))"
  proof (cases "map_of (handles s) b")
    case None
    then have "drop_handle b s1 = s1" "b \<notin> fst ` set (handles s)" by (simp add: drop_handle_def h1) (use None in \<open>simp add: map_of_eq_None_iff\<close>)
    then show ?thesis using assms by (auto simp: h1 rev_image_eqI)
  next
    case (Some h)
    have "set (remove1 (b, h) (handles s)) = set (handles s) - {(b, h)}"
      using assms by (simp add: distinct_map)
    moreover have "g = h" if "(b, g) \<in> set (handles s)" for g
      using that map_of_SomeD [OF Some] eq_key_imp_eq_value [OF assms] by blast
    ultimately show ?thesis using distinct_map_remove1 [OF assms, of "(b, h)"]
      by (auto simp: drop_handle_def h1 Some)
  qed
  have "handles (release b e s2) = handles (evict_idle (s2\<lparr>refcount := (refcount s2)(e := refcount s2 e - 1)\<rparr>))" for s2
    unfolding release_def Let_def by simp
  then have "set (handles (release b e s2)) \<subseteq> set (handles s2) \<and> distinct (map fst (handles (release b e s2)))"
    if "distinct (map fst (handles s2))" for s2
    using evict_idle_sub [of "s2\<lparr>refcount := (refcount s2)(e := refcount s2 e - 1)\<rparr>"] that
    by simp
  with d show ?thesis by (auto simp: evict_book_def l)
qed

lemma evict_books_handles:
  "distinct (map fst (handles s)) \<Longrightarrow> set (handles (fold evict_book bs s)) \<subseteq> {h \<in> set (handles s). fst h \<notin> set bs}"
proof (induction bs arbitrary: s)
  case (Cons b bs)
  from evict_book_handles [OF Cons.prems, of b] Cons.IH [of "evict_book b s"] show ?case by auto
qed simp

text \<open>
  Closing a store that no other thread uses empties the handle cache, whatever the order of its
  entries and whatever the evictions on the way do.\<close>

theorem close_empties_the_cache:
  assumes "store_reachable s"
  shows "handles (close_store s) = []"
proof -
  have "distinct (map fst (handles s))" using store_reachable_inv [OF assms] by (simp add: store_inv_def handles_ok_def)
  from evict_books_handles [OF this, of "map fst (handles s)"]
  have sub: "set (handles (close_store s)) \<subseteq> {h \<in> set (handles s). fst h \<notin> fst ` set (handles s)}"
    by (simp only: close_store_def set_map)
  show ?thesis
  proof (rule ccontr)
    assume "handles (close_store s) \<noteq> []"
    then have "hd (handles (close_store s)) \<in> set (handles (close_store s))" by (rule hd_in_set)
    with sub show False by auto
  qed
qed

text \<open>A run: thread 0 opens book a with room for one handle, thread 1 opens book b meanwhile.\<close>

definition store0 :: store where
  "store0 = \<lparr>handles = [], locks = (\<lambda>_. None), refcount = (\<lambda>_. 0), holder = (\<lambda>_. None), next_entry = 0,
     next_handle = 0, shut = {}, max_handles = 1, pcs = (\<lambda>_. Idle)\<rparr>"

definition store1 :: store where
  "store1 = at_pc 0 (Leased ''a'' 0 Session) (snd (lease ''a'' store0))"

definition store2 :: store where
  "store2 = at_pc 0 (Locked ''a'' 0 Session) (store1\<lparr>holder := (holder store1)(0 := Some 0)\<rparr>)"

definition store3 :: store where
  "store3 = at_pc 0 (In_session ''a'' 0 0) (snd (touch_handle ''a'' store2))"

lemma store0_init: "store_init (PyInt 1) ''vec0'' = Inr store0"
  by (simp add: store_init_def store0_def)

lemma store3_reachable: "store_reachable store3"
proof -
  have "store_step store0 store1"
    unfolding store1_def by (rule step_lease [where b = "''a''"]) (simp_all add: store0_def lease_def)
  moreover have "store_step store1 store2"
    unfolding store2_def
    by (rule step_acquire) (simp_all add: store1_def store0_def lease_def at_pc_def)
  moreover have "store_step store2 store3"
    unfolding store3_def
    by (rule step_enter [where b = "''a''" and e = 0])
      (simp_all add: store2_def store1_def store0_def lease_def at_pc_def touch_handle_def)
  ultimately show ?thesis using reach_init [OF store0_init] by (blast intro: reach_step)
qed

lemma store3_session: "pcs store3 0 = In_session ''a'' 0 0"
  by (simp add: store3_def)

theorem session_owns_its_connection_witness: "map_of (handles store3) ''a'' = Some 0 \<and> 0 \<notin> shut store3"
  using session_owns_its_connection [OF store3_reachable store3_session, of 0 0 0] by simp

theorem registry_is_consistent_witness: "0 \<le> refcount store3 0 \<and> distinct (map fst (handles store3))"
  using registry_is_consistent [OF store3_reachable, of 0 "''a''" 0 0] by simp

theorem idle_cache_is_bounded_witness: "length (handles store0) \<le> max_handles store0"
  by (rule idle_cache_is_bounded [OF reach_init [OF store0_init]]) (simp add: store0_def)

theorem close_empties_the_cache_witness: "handles (close_store store3) = []"
  by (rule close_empties_the_cache [OF store3_reachable])

end
