(* ===== verification/Jobs.thy ===== *)
theory Jobs imports Prelude PyText begin

text \<open>
  The durable ingestion jobs of the hosted service, \<^verbatim>\<open>backend/app/hosted/jobs.py\<close>: job rows and
  their leases (attempts), spend reservations and chapter commits. Every method of the repository is one
  PostgreSQL transaction, modelled as a function of the table contents and of the transaction's
  \<^verbatim>\<open>now()\<close>; the clocks of successive transactions are unrelated arguments. The rows that other
  transactions hold locked and the outcome of the advisory try-lock come from the environment.
  Identifiers are numbers, instants and durations are rationals in seconds, \<^verbatim>\<open>NUMERIC(20,10)\<close>
  columns are rationals rounded as PostgreSQL rounds them.
\<close>

section \<open>Tables\<close>

type_synonym uuid = nat

datatype job_state = JWaiting | JPending | JLeased | JRunning | JSucceeded | JFailed | JCancelled

datatype attempt_outcome = O_succeeded | O_failed | O_expired | O_cancelled

record failure =
  fl_code :: string
  fl_retryable :: bool

record job_row =
  jb_owner :: uuid
  jb_id :: uuid
  jb_book :: "uuid option"
  jb_incarnation :: "uuid option"
  jb_credential :: "uuid option"
  jb_kind :: string
  jb_state :: job_state
  jb_attempts :: int
  jb_max :: int
  jb_priority :: int
  jb_run_after :: rat
  jb_cancel :: "rat option"
  jb_error :: "failure option"
  jb_created :: rat
  jb_updated :: rat
  jb_completed :: "rat option"

record attempt_row =
  la_owner :: uuid
  la_job :: uuid
  la_no :: int
  la_worker :: string
  la_digest :: string
  la_leased :: rat
  la_expires :: rat
  la_heartbeat :: "rat option"
  la_started :: "rat option"
  la_finished :: "rat option"
  la_outcome :: "attempt_outcome option"
  la_error :: "failure option"

record owner_limit =
  ol_concurrency :: int
  ol_spend :: "rat option"

record spend_row =
  sv_owner :: uuid
  sv_id :: uuid
  sv_book :: "uuid option"
  sv_incarnation :: "uuid option"
  sv_job :: uuid
  sv_phase :: string
  sv_provider :: string
  sv_model :: string
  sv_in :: int
  sv_out :: int
  sv_usd :: rat
  sv_actual :: "(int \<times> int \<times> rat) option"
  sv_state :: string
  sv_key :: string
  sv_settled :: "rat option"

record cost_row =
  co_owner :: uuid
  co_id :: uuid
  co_book :: uuid
  co_incarnation :: uuid
  co_job :: uuid
  co_ordinal :: int
  co_phase :: string
  co_provider :: string
  co_model :: string
  co_in :: int
  co_out :: int
  co_usd :: rat
  co_key :: string

record hchapter_row =
  hc_owner :: uuid
  hc_book :: uuid
  hc_incarnation :: uuid
  hc_id :: uuid
  hc_key :: string
  hc_revealed :: int
  hc_title :: string
  hc_hash :: string
  hc_extractor :: string
  hc_retracted :: "rat option"

record hsummary_row =
  hs_owner :: uuid
  hs_book :: uuid
  hs_incarnation :: uuid
  hs_id :: uuid
  hs_chapter :: uuid
  hs_kind :: string
  hs_summary :: string
  hs_revealed :: int
  hs_extractor :: string
  hs_retracted :: "rat option"

record hreceipt_row =
  hr_owner :: uuid
  hr_book :: uuid
  hr_incarnation :: uuid
  hr_chapter :: uuid
  hr_hash :: string
  hr_model :: string
  hr_in :: int
  hr_out :: int
  hr_usd :: rat
  hr_completed :: rat

record credential_row =
  cd_owner :: uuid
  cd_id :: uuid
  cd_provider :: string
  cd_label :: string
  cd_cipher :: string
  cd_data_key :: string
  cd_algorithm :: string
  cd_version :: string
  cd_nonce :: string
  cd_disabled :: "rat option"
  cd_deleted :: "rat option"

record setting_row =
  se_owner :: uuid
  se_capability :: string
  se_credential :: "uuid option"
  se_enabled :: bool
  se_status :: string

record audit_row =
  au_owner :: uuid
  au_actor :: string
  au_action :: string
  au_target_kind :: string
  au_target :: uuid
  au_result :: string
  au_reason :: "string option"

record hosted =
  h_jobs :: "job_row list"
  h_attempts :: "attempt_row list"
  h_limits :: "uuid \<Rightarrow> owner_limit option"
  h_spend :: "spend_row list"
  h_ledger :: "cost_row list"
  h_chapters :: "hchapter_row list"
  h_summaries :: "hsummary_row list"
  h_receipts :: "hreceipt_row list"
  h_credentials :: "credential_row list"
  h_settings :: "setting_row list"
  h_audit :: "audit_row list"

text \<open>What other transactions do meanwhile: the jobs whose rows they hold, the owners whose advisory lock is free.\<close>

record pg_env =
  pg_held :: "uuid \<times> uuid \<Rightarrow> bool"
  pg_free :: "uuid \<Rightarrow> bool"

text \<open>A claim as the worker holds it.\<close>

record claim =
  cl_owner :: uuid
  cl_job :: uuid
  cl_book :: "uuid option"
  cl_incarnation :: "uuid option"
  cl_kind :: string
  cl_attempt :: int
  cl_worker :: string
  cl_token :: string
  cl_credential :: "uuid option"

section \<open>Guards\<close>

definition FAILURE_CODES :: "string list" where
  "FAILURE_CODES = [''attempts_exhausted'', ''budget_exceeded'', ''cancelled'', ''internal_error'',
     ''invalid_model_output'', ''provider_rejected'', ''provider_unavailable'', ''source_integrity'', ''source_missing'']"

definition sanitized_failure :: "string \<Rightarrow> pyval \<Rightarrow> failure res" where
  "sanitized_failure code retryable =
     (if code \<notin> set FAILURE_CODES then Inl (ValueError ''failure code must use the reviewed content-free vocabulary'')
      else case retryable of
        PyBool r \<Rightarrow> Inr \<lparr>fl_code = code, fl_retryable = r\<rparr>
      | _ \<Rightarrow> Inl (TypeError ''retryable must be a boolean''))"

definition duration :: "bool \<Rightarrow> rat \<Rightarrow> rat res" where
  "duration allow_zero s =
     (if s < 0 \<or> (s = 0 \<and> \<not> allow_zero) \<or> 24 * 60 * 60 < s
      then Inl (ValueError ''job duration must be within the allowed positive bound'') else Inr s)"

definition worker_char :: "char \<Rightarrow> bool" where
  "worker_char c = (is_alpha_ascii c \<or> is_digit_ascii c)"

definition worker_id_ok :: "string \<Rightarrow> bool" where
  "worker_id_ok w = (case w of [] \<Rightarrow> False
     | c # cs \<Rightarrow> worker_char c \<and> length cs \<le> 127 \<and> list_all (\<lambda>d. worker_char d \<or> d \<in> set ''._:-'') cs)"

definition validate_worker_id :: "pyval \<Rightarrow> string res" where
  "validate_worker_id v = (case v of
     PyStr w \<Rightarrow> if worker_id_ok w then Inr w
       else Inl (ValueError ''worker id must use the bounded content-free identifier format'')
   | _ \<Rightarrow> Inl (ValueError ''worker id must use the bounded content-free identifier format''))"

text \<open>Storing into \<^verbatim>\<open>NUMERIC(20,10)\<close>: ten decimals, half away from zero; ten digits before the point.\<close>

definition numeric10 :: "rat \<Rightarrow> rat" where
  "numeric10 x = (if 0 \<le> x then of_int \<lfloor>x * 10 ^ 10 + 1 / 2\<rfloor> / 10 ^ 10 else of_int \<lceil>x * 10 ^ 10 - 1 / 2\<rceil> / 10 ^ 10)"

definition store_usd :: "rat \<Rightarrow> rat res" where
  "store_usd x = (if 10 ^ 10 \<le> \<bar>numeric10 x\<bar> then Inl (DatabaseError ''numeric field overflow'')
     else if numeric10 x < 0 then Inl (IntegrityError ''usd check'') else Inr (numeric10 x))"

text \<open>\<^verbatim>\<open>BIGINT\<close> and \<^verbatim>\<open>INTEGER\<close> columns with their sign checks.\<close>

definition store_bigint :: "int \<Rightarrow> int res" where
  "store_bigint i = (if int64 i then if i < 0 then Inl (IntegrityError ''tokens check'') else Inr i
     else Inl (DatabaseError ''bigint out of range''))"

definition store_ordinal :: "int \<Rightarrow> int res" where
  "store_ordinal i = (if - (2 ^ 31) \<le> i \<and> i < 2 ^ 31 then if i < 1 then Inl (IntegrityError ''revealed_at check'') else Inr i
     else Inl (DatabaseError ''integer out of range''))"

definition hex64 :: "string \<Rightarrow> bool" where
  "hex64 s = (length s = 64 \<and> list_all (\<lambda>c. is_digit_ascii c \<or> c \<in> set ''abcdef'') s)"

section \<open>Statements\<close>

definition this_job :: "uuid \<Rightarrow> uuid \<Rightarrow> job_row \<Rightarrow> bool" where
  "this_job ow i j = (jb_owner j = ow \<and> jb_id j = i)"

definition this_attempt :: "uuid \<Rightarrow> uuid \<Rightarrow> int \<Rightarrow> attempt_row \<Rightarrow> bool" where
  "this_attempt ow i n a = (la_owner a = ow \<and> la_job a = i \<and> la_no a = n)"

definition set_job :: "uuid \<Rightarrow> uuid \<Rightarrow> (job_row \<Rightarrow> job_row) \<Rightarrow> hosted \<Rightarrow> hosted" where
  "set_job ow i f h = h\<lparr>h_jobs := update_where (this_job ow i) f (h_jobs h)\<rparr>"

definition set_attempt :: "uuid \<Rightarrow> uuid \<Rightarrow> int \<Rightarrow> (attempt_row \<Rightarrow> attempt_row) \<Rightarrow> hosted \<Rightarrow> hosted" where
  "set_attempt ow i n f h = h\<lparr>h_attempts := update_where (this_attempt ow i n) f (h_attempts h)\<rparr>"

definition set_live_attempt :: "uuid \<Rightarrow> uuid \<Rightarrow> int \<Rightarrow> (attempt_row \<Rightarrow> attempt_row) \<Rightarrow> hosted \<Rightarrow> hosted" where
  "set_live_attempt ow i n f h =
     h\<lparr>h_attempts := update_where (\<lambda>a. this_attempt ow i n a \<and> la_finished a = None) f (h_attempts h)\<rparr>"

definition finish :: "rat \<Rightarrow> attempt_outcome \<Rightarrow> attempt_row \<Rightarrow> attempt_row" where
  "finish now r a = a\<lparr>la_finished := Some now, la_outcome := Some r\<rparr>"

definition close_job :: "rat \<Rightarrow> job_state \<Rightarrow> job_row \<Rightarrow> job_row" where
  "close_job now st j = j\<lparr>jb_state := st, jb_completed := Some now, jb_updated := now\<rparr>"

definition audit :: "uuid \<Rightarrow> string \<Rightarrow> string \<Rightarrow> uuid \<Rightarrow> string \<Rightarrow> string option \<Rightarrow> hosted \<Rightarrow> hosted" where
  "audit ow action kind target result reason h = h\<lparr>h_audit := h_audit h @
     [\<lparr>au_owner = ow, au_actor = ''worker'', au_action = action, au_target_kind = kind, au_target = target,
       au_result = result, au_reason = reason\<rparr>]\<rparr>"

section \<open>Claiming\<close>

definition expired_rows :: "pg_env \<Rightarrow> rat \<Rightarrow> hosted \<Rightarrow> (attempt_row \<times> job_row) list" where
  "expired_rows env now h = sort_key (\<lambda>(a, j). (la_expires a, la_owner a, la_job a))
     (filter (\<lambda>(a, j). this_job (la_owner a) (la_job a) j \<and> la_finished a = None \<and> la_expires a \<le> now \<and>
          jb_state j \<in> {JLeased, JRunning} \<and> \<not> pg_held env (la_owner a, la_job a))
        (List.product (h_attempts h) (h_jobs h)))"

definition expire_one :: "rat \<Rightarrow> attempt_row \<times> job_row \<Rightarrow> hosted \<Rightarrow> hosted" where
  "expire_one now aj h = (case aj of (a, j) \<Rightarrow>
     set_job (la_owner a) (la_job a)
       (if jb_cancel j \<noteq> None then close_job now JCancelled
        else if jb_max j \<le> jb_attempts j
          then (\<lambda>r. (close_job now JFailed r)\<lparr>jb_error := Some \<lparr>fl_code = ''attempts_exhausted'', fl_retryable = False\<rparr>\<rparr>)
        else (\<lambda>r. r\<lparr>jb_state := JPending, jb_run_after := now, jb_updated := now\<rparr>))
       (set_live_attempt (la_owner a) (la_job a) (la_no a) (finish now O_expired) h))"

definition recover_expired :: "pg_env \<Rightarrow> rat \<Rightarrow> hosted \<Rightarrow> hosted" where
  "recover_expired env now h = fold (expire_one now) (expired_rows env now h) h"

text \<open>The next job of an owner not yet blocked, and the search over owners.\<close>

definition claimable :: "pg_env \<Rightarrow> rat \<Rightarrow> job_row \<Rightarrow> bool" where
  "claimable env now j = (jb_state j = JPending \<and> jb_run_after j \<le> now \<and> jb_cancel j = None \<and>
     jb_attempts j < jb_max j \<and> \<not> pg_held env (jb_owner j, jb_id j))"

definition candidate :: "pg_env \<Rightarrow> rat \<Rightarrow> hosted \<Rightarrow> uuid list \<Rightarrow> job_row option" where
  "candidate env now h blocked =
     (case sort_key (\<lambda>j. (- jb_priority j, jb_run_after j, jb_created j, jb_id j))
        (filter (\<lambda>j. claimable env now j \<and> jb_owner j \<notin> set blocked) (h_jobs h)) of
       [] \<Rightarrow> None | j # _ \<Rightarrow> Some j)"

definition active :: "uuid \<Rightarrow> hosted \<Rightarrow> int" where
  "active ow h = int (length (filter (\<lambda>j. jb_owner j = ow \<and> jb_state j \<in> {JLeased, JRunning}) (h_jobs h)))"

lemma candidate_Some:
  assumes "candidate env now h blocked = Some j"
  shows "j \<in> set (h_jobs h) \<and> claimable env now j \<and> jb_owner j \<notin> set blocked"
  using assms sort_key_head(1) unfolding candidate_def by (fastforce split: list.splits)

function next_job :: "pg_env \<Rightarrow> rat \<Rightarrow> hosted \<Rightarrow> uuid list \<Rightarrow> job_row option res" where
  "next_job env now h blocked = (case candidate env now h blocked of
     None \<Rightarrow> Inr None
   | Some j \<Rightarrow>
       if \<not> pg_free env (jb_owner j) then next_job env now h (jb_owner j # blocked)
       else (case h_limits h (jb_owner j) of
         None \<Rightarrow> Inl (WorkerConfigurationError ''owner limit policy is unavailable'')
       | Some l \<Rightarrow> if active (jb_owner j) h < ol_concurrency l then Inr (Some j)
           else next_job env now h (jb_owner j # blocked)))"
  by pat_completeness auto
termination
proof (relation "measure (\<lambda>(_, _, h, blocked). card (jb_owner ` set (h_jobs h) - set blocked))", simp)
qed (auto dest!: candidate_Some intro!: psubset_card_mono)

declare next_job.simps [simp del]

text \<open>\<^verbatim>\<open>claim_next\<close>: a fresh token and the digest function of the tokens are parameters.\<close>

definition lease_job :: "(string \<Rightarrow> string) \<Rightarrow> string \<Rightarrow> rat \<Rightarrow> string \<Rightarrow> rat \<Rightarrow> job_row \<Rightarrow> hosted \<Rightarrow> hosted" where
  "lease_job digest worker secs token now j h =
     audit (jb_owner j) ''job.claim'' ''job'' (jb_id j) ''succeeded'' None
       ((h\<lparr>h_jobs := update_where (\<lambda>r. this_job (jb_owner j) (jb_id j) r \<and> jb_state r = JPending)
             (\<lambda>r. r\<lparr>jb_state := JLeased, jb_attempts := jb_attempts j + 1, jb_updated := now\<rparr>) (h_jobs h)\<rparr>)
        \<lparr>h_attempts := h_attempts h @ [\<lparr>la_owner = jb_owner j, la_job = jb_id j, la_no = jb_attempts j + 1,
           la_worker = worker, la_digest = digest token, la_leased = now, la_expires = now + secs,
           la_heartbeat = Some now, la_started = None, la_finished = None, la_outcome = None, la_error = None\<rparr>]\<rparr>)"

text \<open>The keys of the attempts: one row per number, one unfinished row per job.\<close>

definition attempt_key_free :: "uuid \<Rightarrow> uuid \<Rightarrow> int \<Rightarrow> hosted \<Rightarrow> bool" where
  "attempt_key_free ow i n h =
     (\<not> list_ex (\<lambda>a. la_owner a = ow \<and> la_job a = i \<and> (la_no a = n \<or> la_finished a = None)) (h_attempts h))"

definition claim_next ::
  "(string \<Rightarrow> string) \<Rightarrow> pg_env \<Rightarrow> pyval \<Rightarrow> rat \<Rightarrow> string \<Rightarrow> rat \<Rightarrow> (hosted, claim option) act" where
  "claim_next digest env worker_id lease_for token now =
     bindA (liftA (validate_worker_id worker_id)) (\<lambda>worker.
     bindA (liftA (duration False lease_for)) (\<lambda>secs.
     atomically (bindA (modify (recover_expired env now)) (\<lambda>_.
       bindA (asks (\<lambda>h. next_job env now h [])) (\<lambda>found.
       bindA (liftA found) (\<lambda>pick. case pick of
         None \<Rightarrow> ret None
       | Some j \<Rightarrow>
           bindA (asks (attempt_key_free (jb_owner j) (jb_id j) (jb_attempts j + 1))) (\<lambda>free.
           if \<not> free then raise (IntegrityError ''job_attempts'')
           else bindA (modify (lease_job digest worker secs token now j)) (\<lambda>_.
             ret (Some \<lparr>cl_owner = jb_owner j, cl_job = jb_id j, cl_book = jb_book j,
               cl_incarnation = jb_incarnation j, cl_kind = jb_kind j, cl_attempt = jb_attempts j + 1,
               cl_worker = worker, cl_token = token, cl_credential = jb_credential j\<rparr>)))))))))"

section \<open>The lease fence\<close>

text \<open>\<^verbatim>\<open>_locked_lease\<close>: the job row and whether the lease is live; the row locks make the rest of the transaction atomic.\<close>

definition holds_lease :: "(string \<Rightarrow> string) \<Rightarrow> claim \<Rightarrow> attempt_row \<Rightarrow> bool" where
  "holds_lease digest c a = (this_attempt (cl_owner c) (cl_job c) (cl_attempt c) a \<and> la_worker a = cl_worker c \<and>
     la_digest a = digest (cl_token c) \<and> la_finished a = None)"

definition locked_lease :: "(string \<Rightarrow> string) \<Rightarrow> rat \<Rightarrow> claim \<Rightarrow> hosted \<Rightarrow> job_row res" where
  "locked_lease digest now c h =
     (case (find (this_job (cl_owner c) (cl_job c)) (h_jobs h), find (holds_lease digest c) (h_attempts h)) of
       (Some j, Some a) \<Rightarrow> if now < la_expires a then Inr j else Inl (LostLeaseError ''job lease is missing or expired'')
     | _ \<Rightarrow> Inl (LostLeaseError ''job lease is missing or expired''))"

text \<open>A repository method: one transaction that starts with the fence.\<close>

definition fenced :: "(string \<Rightarrow> string) \<Rightarrow> rat \<Rightarrow> claim \<Rightarrow> (job_row \<Rightarrow> (hosted, 'a) act) \<Rightarrow> (hosted, 'a) act" where
  "fenced digest now c f = atomically (bindA (asks (locked_lease digest now c)) (\<lambda>r. bindA (liftA r) f))"

section \<open>State transitions of a claimed job\<close>

definition cancel_locked :: "rat \<Rightarrow> claim \<Rightarrow> hosted \<Rightarrow> hosted" where
  "cancel_locked now c h = set_job (cl_owner c) (cl_job c) (close_job now JCancelled)
     (set_live_attempt (cl_owner c) (cl_job c) (cl_attempt c) (finish now O_cancelled) h)"

definition start :: "(string \<Rightarrow> string) \<Rightarrow> rat \<Rightarrow> claim \<Rightarrow> (hosted, bool) act" where
  "start digest now c = fenced digest now c (\<lambda>j.
     if jb_cancel j \<noteq> None then bindA (modify (cancel_locked now c)) (\<lambda>_. ret False)
     else if jb_state j \<noteq> JLeased then raise (LostLeaseError ''job is not in leased state'')
     else bindA (modify (\<lambda>h. audit (cl_owner c) ''job.start'' ''job'' (cl_job c) ''succeeded'' None
         (set_attempt (cl_owner c) (cl_job c) (cl_attempt c)
            (\<lambda>a. a\<lparr>la_started := Some now, la_heartbeat := Some now\<rparr>)
           (set_job (cl_owner c) (cl_job c) (\<lambda>r. r\<lparr>jb_state := JRunning, jb_updated := now\<rparr>) h)))) (\<lambda>_. ret True))"

text \<open>The extended lease has to end after it began, a constraint of the table.\<close>

definition lease_extends :: "claim \<Rightarrow> rat \<Rightarrow> hosted \<Rightarrow> bool" where
  "lease_extends c until h =
     list_all (\<lambda>a. this_attempt (cl_owner c) (cl_job c) (cl_attempt c) a \<longrightarrow> la_leased a < until) (h_attempts h)"

definition heartbeat :: "(string \<Rightarrow> string) \<Rightarrow> rat \<Rightarrow> claim \<Rightarrow> rat \<Rightarrow> (hosted, bool) act" where
  "heartbeat digest lease_for c now = bindA (liftA (duration False lease_for)) (\<lambda>secs.
     fenced digest now c (\<lambda>j.
       if jb_state j \<notin> {JLeased, JRunning} then raise (LostLeaseError ''job is not active'')
       else bindA (asks (lease_extends c (now + secs))) (\<lambda>ok.
         if \<not> ok then raise (IntegrityError ''lease_expires_at'')
         else bindA (modify (set_attempt (cl_owner c) (cl_job c) (cl_attempt c)
             (\<lambda>a. a\<lparr>la_heartbeat := Some now, la_expires := now + secs\<rparr>))) (\<lambda>_. ret (jb_cancel j \<noteq> None)))))"

definition succeed :: "(string \<Rightarrow> string) \<Rightarrow> rat \<Rightarrow> claim \<Rightarrow> (hosted, bool) act" where
  "succeed digest now c = fenced digest now c (\<lambda>j.
     if jb_cancel j \<noteq> None then bindA (modify (cancel_locked now c)) (\<lambda>_. ret False)
     else if jb_state j \<noteq> JRunning then raise (LostLeaseError ''job is not running'')
     else bindA (modify (\<lambda>h. audit (cl_owner c) ''job.succeed'' ''job'' (cl_job c) ''succeeded'' None
         (set_job (cl_owner c) (cl_job c) (\<lambda>r. (close_job now JSucceeded r)\<lparr>jb_error := None\<rparr>)
           (set_attempt (cl_owner c) (cl_job c) (cl_attempt c) (finish now O_succeeded) h)))) (\<lambda>_. ret True))"

definition fail :: "(string \<Rightarrow> string) \<Rightarrow> failure \<Rightarrow> rat \<Rightarrow> claim \<Rightarrow> rat \<Rightarrow> (hosted, unit) act" where
  "fail digest failure retry_after c now = bindA (liftA (duration True retry_after)) (\<lambda>retry.
     fenced digest now c (\<lambda>j.
       modify (\<lambda>h. audit (cl_owner c) ''job.fail'' ''job'' (cl_job c) ''failed'' (Some (fl_code failure))
         (set_job (cl_owner c) (cl_job c)
           (if jb_cancel j \<noteq> None then close_job now JCancelled
            else if fl_retryable failure \<and> jb_attempts j < jb_max j
              then (\<lambda>r. r\<lparr>jb_state := JPending, jb_run_after := now + retry, jb_updated := now, jb_error := Some failure\<rparr>)
            else (\<lambda>r. (close_job now JFailed r)\<lparr>jb_error := Some failure\<rparr>))
           (set_attempt (cl_owner c) (cl_job c) (cl_attempt c)
             (\<lambda>a. (finish now O_failed a)\<lparr>la_error := Some failure\<rparr>) h)))))"

section \<open>Spend\<close>

definition phases :: "string list" where
  "phases = [''extraction'', ''synthesis'', ''embedding'', ''judge'']"

definition ledger_usd :: "uuid \<Rightarrow> hosted \<Rightarrow> rat" where
  "ledger_usd ow h = sum_list (map co_usd (filter (\<lambda>r. co_owner r = ow) (h_ledger h)))"

definition reserved_usd :: "uuid \<Rightarrow> (uuid \<Rightarrow> bool) \<Rightarrow> hosted \<Rightarrow> rat" where
  "reserved_usd ow P h = sum_list (map sv_usd (filter (\<lambda>r. sv_owner r = ow \<and> sv_state r = ''reserved'' \<and> P (sv_id r)) (h_spend h)))"

definition spend_of :: "uuid \<Rightarrow> string \<Rightarrow> hosted \<Rightarrow> spend_row option" where
  "spend_of ow key h = find (\<lambda>r. sv_owner r = ow \<and> sv_key r = key) (h_spend h)"

definition limit_of :: "uuid \<Rightarrow> hosted \<Rightarrow> owner_limit res" where
  "limit_of ow h = (case h_limits h ow of
     None \<Rightarrow> Inl (WorkerConfigurationError ''owner limit policy is unavailable'') | Some l \<Rightarrow> Inr l)"

definition insert_spend ::
  "claim \<Rightarrow> uuid \<Rightarrow> string \<Rightarrow> string \<Rightarrow> string \<Rightarrow> int \<Rightarrow> int \<Rightarrow> rat \<Rightarrow> string \<Rightarrow> hosted \<Rightarrow> hosted" where
  "insert_spend c rid phase provider model tin tout usd key h = h\<lparr>h_spend := h_spend h @
     [\<lparr>sv_owner = cl_owner c, sv_id = rid, sv_book = cl_book c, sv_incarnation = cl_incarnation c, sv_job = cl_job c,
       sv_phase = phase, sv_provider = provider, sv_model = model, sv_in = tin, sv_out = tout, sv_usd = usd,
       sv_actual = None, sv_state = ''reserved'', sv_key = key, sv_settled = None\<rparr>]\<rparr>"

definition reserve_spend ::
  "(string \<Rightarrow> string) \<Rightarrow> rat \<Rightarrow> uuid \<Rightarrow> claim \<Rightarrow> string \<Rightarrow> string \<Rightarrow> string \<Rightarrow> int \<Rightarrow> int \<Rightarrow> rat \<Rightarrow> string \<Rightarrow> (hosted, uuid) act" where
  "reserve_spend digest now rid c phase provider model tin tout amount key =
     (if phase \<notin> set phases then raise (ValueError ''unsupported cost phase'')
      else if tin < 0 \<or> tout < 0 \<or> amount < 0 then raise (ValueError ''cost reservation values cannot be negative'')
      else fenced digest now c (\<lambda>j.
        if jb_state j \<noteq> JRunning \<or> jb_cancel j \<noteq> None then raise (LostLeaseError ''job is not eligible to reserve spend'')
        else bindA (asks (limit_of (cl_owner c))) (\<lambda>lr. bindA (liftA lr) (\<lambda>l.
          bindA (asks (\<lambda>h. (spend_of (cl_owner c) key h, ledger_usd (cl_owner c) h + reserved_usd (cl_owner c) (\<lambda>_. True) h))) (\<lambda>(existing, used).
          case existing of
            Some r \<Rightarrow>
              if (sv_phase r, sv_provider r, sv_model r, sv_in r, sv_out r, sv_usd r, sv_state r) =
                 (phase, provider, model, tin, tout, amount, ''reserved'')
              then ret (sv_id r) else raise (JobIdempotencyError ''cost reservation changed across retry'')
          | None \<Rightarrow>
              if (case ol_spend l of None \<Rightarrow> False | Some limit \<Rightarrow> limit < used + amount)
              then raise (LimitExceededError ''spend_limit_exceeded'')
              else bindA (liftA (store_bigint tin)) (\<lambda>ti. bindA (liftA (store_bigint tout)) (\<lambda>to.
                bindA (liftA (store_usd amount)) (\<lambda>usd.
                bindA (asks (\<lambda>h. list_ex (\<lambda>r. sv_owner r = cl_owner c \<and> sv_id r = rid) (h_spend h))) (\<lambda>dup.
                if dup then raise (IntegrityError ''cost_reservations'')
                else bindA (modify (insert_spend c rid phase provider model ti to usd key)) (\<lambda>_. ret rid))))))))))"

section \<open>Committing a chapter\<close>

record commit_args =
  cm_book :: uuid
  cm_incarnation :: uuid
  cm_chapter :: uuid
  cm_key :: string
  cm_ordinal :: int
  cm_hash :: string
  cm_summary :: string
  cm_extractor :: string
  cm_provider :: string
  cm_model :: string
  cm_in :: int
  cm_out :: int
  cm_usd :: rat
  cm_cost_key :: string

definition receipt_for :: "uuid \<Rightarrow> commit_args \<Rightarrow> hosted \<Rightarrow> hreceipt_row option" where
  "receipt_for ow m h = find (\<lambda>r. hr_owner r = ow \<and> hr_book r = cm_book m \<and> hr_incarnation r = cm_incarnation m \<and>
     hr_chapter r = cm_chapter m) (h_receipts h)"

text \<open>The spend rules of a commit under the owner's lock; the reservation it settles, if any.\<close>

definition commit_spend :: "uuid \<Rightarrow> commit_args \<Rightarrow> hosted \<Rightarrow> spend_row option res" where
  "commit_spend ow m h = (case limit_of ow h of Inl e \<Rightarrow> Inl e | Inr l \<Rightarrow>
     (case (spend_of ow (cm_cost_key m) h, ol_spend l) of
       (None, Some _) \<Rightarrow> Inl (LimitExceededError ''spend_reservation_required'')
     | (None, None) \<Rightarrow> Inr None
     | (Some r, spend_limit) \<Rightarrow>
         if sv_phase r \<noteq> ''extraction'' \<or> sv_provider r \<noteq> cm_provider m \<or> sv_model r \<noteq> cm_model m \<or> sv_state r \<noteq> ''reserved''
         then Inl (JobIdempotencyError ''cost reservation does not match chapter commit'')
         else (case spend_limit of
             None \<Rightarrow> Inr (Some r)
           | Some limit \<Rightarrow>
               if limit < ledger_usd ow h + reserved_usd ow (\<lambda>i. i \<noteq> sv_id r) h + cm_usd m
               then Inl (LimitExceededError ''spend_limit_exceeded'') else Inr (Some r))))"

definition same_chapter_key :: "uuid \<Rightarrow> commit_args \<Rightarrow> hchapter_row \<Rightarrow> bool" where
  "same_chapter_key ow m r = (hc_owner r = ow \<and> hc_book r = cm_book m \<and> hc_incarnation r = cm_incarnation m \<and> hc_key r = cm_key m)"

text \<open>The keys of the chapter table.\<close>

definition chapter_insertable :: "uuid \<Rightarrow> commit_args \<Rightarrow> hosted \<Rightarrow> bool" where
  "chapter_insertable ow m h = (hex64 (cm_hash m) \<and>
     \<not> list_ex (\<lambda>r. hc_owner r = ow \<and> hc_book r = cm_book m \<and> hc_incarnation r = cm_incarnation m \<and>
         (hc_id r = cm_chapter m \<or> (hc_revealed r = cm_ordinal m \<and> hc_retracted r = None))) (h_chapters h))"

definition insert_chapter :: "uuid \<Rightarrow> commit_args \<Rightarrow> hosted \<Rightarrow> hosted" where
  "insert_chapter ow m h = h\<lparr>h_chapters := h_chapters h @
     [\<lparr>hc_owner = ow, hc_book = cm_book m, hc_incarnation = cm_incarnation m, hc_id = cm_chapter m, hc_key = cm_key m,
       hc_revealed = cm_ordinal m, hc_title = cm_key m, hc_hash = cm_hash m, hc_extractor = cm_extractor m, hc_retracted = None\<rparr>]\<rparr>"

definition ensure_chapter :: "uuid \<Rightarrow> commit_args \<Rightarrow> (hosted, unit) act" where
  "ensure_chapter ow m = bindA (asks (\<lambda>h. (find (same_chapter_key ow m) (h_chapters h), chapter_insertable ow m h))) (\<lambda>(existing, free).
     case existing of
       None \<Rightarrow> bindA (liftA (store_ordinal (cm_ordinal m))) (\<lambda>_.
         if \<not> free then raise (IntegrityError ''chapters'') else modify (insert_chapter ow m))
     | Some r \<Rightarrow>
         if hc_id r \<noteq> cm_chapter m \<or> hc_revealed r \<noteq> cm_ordinal m \<or> hc_hash r \<noteq> cm_hash m
         then raise (JobIdempotencyError ''chapter identity changed across retry'') else ret ())"

definition summary_insertable :: "uuid \<Rightarrow> commit_args \<Rightarrow> uuid \<Rightarrow> hosted \<Rightarrow> bool" where
  "summary_insertable ow m sid h = (\<not> list_ex (\<lambda>r. hs_owner r = ow \<and> hs_book r = cm_book m \<and> hs_incarnation r = cm_incarnation m \<and>
     (hs_id r = sid \<or> (hs_chapter r = cm_chapter m \<and> hs_kind r = ''chapter'' \<and> hs_retracted r = None))) (h_summaries h))"

definition insert_summary :: "uuid \<Rightarrow> commit_args \<Rightarrow> uuid \<Rightarrow> hosted \<Rightarrow> hosted" where
  "insert_summary ow m sid h = h\<lparr>h_summaries := h_summaries h @
     [\<lparr>hs_owner = ow, hs_book = cm_book m, hs_incarnation = cm_incarnation m, hs_id = sid, hs_chapter = cm_chapter m,
       hs_kind = ''chapter'', hs_summary = cm_summary m, hs_revealed = cm_ordinal m, hs_extractor = cm_extractor m, hs_retracted = None\<rparr>]\<rparr>"

definition cost_insertable :: "uuid \<Rightarrow> commit_args \<Rightarrow> uuid \<Rightarrow> hosted \<Rightarrow> bool" where
  "cost_insertable ow m lid h = (\<not> list_ex (\<lambda>r. co_owner r = ow \<and> (co_id r = lid \<or> co_key r = cm_cost_key m)) (h_ledger h))"

definition insert_cost :: "claim \<Rightarrow> commit_args \<Rightarrow> uuid \<Rightarrow> rat \<Rightarrow> hosted \<Rightarrow> hosted" where
  "insert_cost c m lid usd h = h\<lparr>h_ledger := h_ledger h @
     [\<lparr>co_owner = cl_owner c, co_id = lid, co_book = cm_book m, co_incarnation = cm_incarnation m, co_job = cl_job c,
       co_ordinal = cm_ordinal m, co_phase = ''extraction'', co_provider = cm_provider m, co_model = cm_model m,
       co_in = cm_in m, co_out = cm_out m, co_usd = usd, co_key = cm_cost_key m\<rparr>]\<rparr>"

definition settle_spend :: "uuid \<Rightarrow> commit_args \<Rightarrow> rat \<Rightarrow> rat \<Rightarrow> spend_row option \<Rightarrow> hosted \<Rightarrow> hosted" where
  "settle_spend ow m usd now res h = (case res of None \<Rightarrow> h | Some r \<Rightarrow>
     h\<lparr>h_spend := update_where (\<lambda>x. sv_owner x = ow \<and> sv_id x = sv_id r \<and> sv_state x = ''reserved'')
        (\<lambda>x. x\<lparr>sv_actual := Some (cm_in m, cm_out m, usd), sv_state := ''settled'', sv_settled := Some now\<rparr>) (h_spend h)\<rparr>)"

definition insert_receipt :: "uuid \<Rightarrow> commit_args \<Rightarrow> rat \<Rightarrow> rat \<Rightarrow> hosted \<Rightarrow> hosted" where
  "insert_receipt ow m usd now h = h\<lparr>h_receipts := h_receipts h @
     [\<lparr>hr_owner = ow, hr_book = cm_book m, hr_incarnation = cm_incarnation m, hr_chapter = cm_chapter m, hr_hash = cm_hash m,
       hr_model = cm_model m, hr_in = cm_in m, hr_out = cm_out m, hr_usd = usd, hr_completed = now\<rparr>]\<rparr>"

definition commit_chapter ::
  "(string \<Rightarrow> string) \<Rightarrow> rat \<Rightarrow> uuid \<Rightarrow> uuid \<Rightarrow> claim \<Rightarrow> commit_args \<Rightarrow> (hosted, bool) act" where
  "commit_chapter digest now sid lid c m =
     (if cl_book c \<noteq> Some (cm_book m) \<or> cl_incarnation c \<noteq> Some (cm_incarnation m)
      then raise (JobIdempotencyError ''chapter commit does not match the claimed book'')
      else fenced digest now c (\<lambda>j.
        if jb_state j \<noteq> JRunning \<or> jb_cancel j \<noteq> None then raise (LostLeaseError ''job is not eligible to commit'')
        else bindA (asks (receipt_for (cl_owner c) m)) (\<lambda>receipt. case receipt of
          Some r \<Rightarrow> if hr_hash r \<noteq> cm_hash m
            then raise (JobIdempotencyError ''chapter receipt content hash changed across retry'') else ret False
        | None \<Rightarrow>
            bindA (asks (commit_spend (cl_owner c) m)) (\<lambda>sr. bindA (liftA sr) (\<lambda>res.
            bindA (ensure_chapter (cl_owner c) m) (\<lambda>_.
            bindA (asks (summary_insertable (cl_owner c) m sid)) (\<lambda>sum_ok. bindA (checkA sum_ok (IntegrityError ''chapter_summaries'')) (\<lambda>_.
            bindA (modify (insert_summary (cl_owner c) m sid)) (\<lambda>_.
            bindA (liftA (store_ordinal (cm_ordinal m))) (\<lambda>_. bindA (liftA (store_bigint (cm_in m))) (\<lambda>_. bindA (liftA (store_bigint (cm_out m))) (\<lambda>_.
            bindA (liftA (store_usd (cm_usd m))) (\<lambda>usd.
            bindA (asks (cost_insertable (cl_owner c) m lid)) (\<lambda>cost_ok. bindA (checkA cost_ok (IntegrityError ''cost_ledger'')) (\<lambda>_.
            bindA (modify (insert_cost c m lid usd)) (\<lambda>_.
            bindA (modify (settle_spend (cl_owner c) m usd now res)) (\<lambda>_.
            bindA (modify (insert_receipt (cl_owner c) m usd now)) (\<lambda>_.
            bindA (modify (audit (cl_owner c) ''chapter.commit'' ''chapter'' (cm_chapter m) ''succeeded'' None)) (\<lambda>_.
              ret True)))))))))))))))))))"

section \<open>Cancelling\<close>

text \<open>\<^verbatim>\<open>cancel_job\<close> of the tenant repository, as the owner.\<close>

definition cancel_request :: "rat \<Rightarrow> job_row \<Rightarrow> job_row" where
  "cancel_request now j =
     (if jb_state j \<in> {JWaiting, JPending}
        then (close_job now JCancelled j)\<lparr>jb_cancel := Some (case jb_cancel j of None \<Rightarrow> now | Some t \<Rightarrow> t)\<rparr>
      else if jb_state j \<in> {JLeased, JRunning}
        then j\<lparr>jb_cancel := Some (case jb_cancel j of None \<Rightarrow> now | Some t \<Rightarrow> t), jb_updated := now\<rparr>
      else j)"

definition cancel_job :: "uuid \<Rightarrow> uuid \<Rightarrow> rat \<Rightarrow> hosted \<Rightarrow> hosted" where
  "cancel_job ow i now h = set_job ow i (cancel_request now) h"

section \<open>Credentials of a claim\<close>

definition ready_setting :: "uuid \<Rightarrow> uuid \<Rightarrow> setting_row \<Rightarrow> bool" where
  "ready_setting ow cred s = (se_owner s = ow \<and> se_capability s = ''extraction'' \<and> se_credential s = Some cred \<and>
     se_enabled s \<and> se_status s = ''ready'')"

definition live_credential :: "uuid \<Rightarrow> uuid \<Rightarrow> credential_row \<Rightarrow> bool" where
  "live_credential ow cred r = (cd_owner r = ow \<and> cd_id r = cred \<and> cd_disabled r = None \<and> cd_deleted r = None)"

text \<open>\<^verbatim>\<open>resolve_credential\<close>: without a cipher, or outside a live running lease, there is nothing to decrypt.\<close>

definition resolve_credential ::
  "(string \<Rightarrow> string) \<Rightarrow> (credential_row \<Rightarrow> string res) option \<Rightarrow> rat \<Rightarrow> claim \<Rightarrow> hosted \<Rightarrow> (string \<times> string) res" where
  "resolve_credential digest cipher now c h = (case (cl_credential c, cipher) of
     (Some cred, Some decrypt) \<Rightarrow>
       if list_ex (\<lambda>j. this_job (cl_owner c) (cl_job c) j \<and> jb_credential j = Some cred \<and> jb_state j = JRunning) (h_jobs h) \<and>
          list_ex (\<lambda>a. holds_lease digest c a \<and> now < la_expires a) (h_attempts h) \<and>
          list_ex (ready_setting (cl_owner c) cred) (h_settings h)
       then (case find (live_credential (cl_owner c) cred) (h_credentials h) of
           None \<Rightarrow> Inl (CredentialUnavailableError ''job credential is unavailable'')
         | Some r \<Rightarrow> (case decrypt r of Inl e \<Rightarrow> Inl e | Inr key \<Rightarrow> Inr (cd_provider r, key)))
       else Inl (CredentialUnavailableError ''job credential is unavailable'')
   | _ \<Rightarrow> Inl (CredentialUnavailableError ''job credential is unavailable''))"

section \<open>Importing\<close>

text \<open>The job a book import inserts; it waits for a provider credential if the owner has none ready.\<close>

definition enqueue_job :: "uuid \<Rightarrow> uuid \<Rightarrow> uuid \<Rightarrow> uuid \<Rightarrow> uuid option \<Rightarrow> rat \<Rightarrow> (hosted, unit) act" where
  "enqueue_job ow i book incarnation ready now = atomically (bindA (asks (\<lambda>h. list_ex (this_job ow i) (h_jobs h))) (\<lambda>dup.
     if dup then raise (IntegrityError ''jobs'')
     else modify (\<lambda>h. h\<lparr>h_jobs := h_jobs h @
       [\<lparr>jb_owner = ow, jb_id = i, jb_book = Some book, jb_incarnation = Some incarnation, jb_credential = ready,
         jb_kind = ''ingest_book'', jb_state = (if ready \<noteq> None then JPending else JWaiting), jb_attempts = 0, jb_max = 3,
         jb_priority = 0, jb_run_after = now, jb_cancel = None, jb_error = None, jb_created = now, jb_updated = now,
         jb_completed = None\<rparr>]\<rparr>)))"

section \<open>Interleavings\<close>

text \<open>Transactions of any workers and owners, in any order, with any clocks.\<close>

inductive hosted_step :: "(string \<Rightarrow> string) \<Rightarrow> hosted \<Rightarrow> hosted \<Rightarrow> bool" for digest where
  step_enqueue: "hosted_step digest h (snd (enqueue_job ow i book incarnation ready now h))"
| step_claim: "hosted_step digest h (snd (claim_next digest env w l token now h))"
| step_start: "hosted_step digest h (snd (start digest now c h))"
| step_heartbeat: "hosted_step digest h (snd (heartbeat digest l c now h))"
| step_succeed: "hosted_step digest h (snd (succeed digest now c h))"
| step_fail: "hosted_step digest h (snd (fail digest failure retry c now h))"
| step_reserve: "hosted_step digest h (snd (reserve_spend digest now rid c phase provider model tin tout amount key h))"
| step_commit: "hosted_step digest h (snd (commit_chapter digest now sid lid c m h))"
| step_cancel: "hosted_step digest h (cancel_job ow i now h)"

inductive_cases hosted_stepE: "hosted_step digest h h'"

abbreviation hosted_run :: "(string \<Rightarrow> string) \<Rightarrow> hosted \<Rightarrow> hosted \<Rightarrow> bool" where
  "hosted_run digest \<equiv> (hosted_step digest)\<^sup>*\<^sup>*"

end
