(* ===== verification/JobSafety.thy ===== *)
theory JobSafety imports Jobs begin

text \<open>
  What every job transaction keeps: the table of jobs and leases stays consistent, and an attempt that is
  finished stays finished.
\<close>


section \<open>The job table and its leases\<close>

lemma sort_key_Nil: "sort_key f xs = [] \<Longrightarrow> xs = []"
  using length_sort [of f xs] by simp


definition running :: "job_row \<Rightarrow> bool" where
  "running j = (jb_state j \<in> {JLeased, JRunning})"

definition terminal :: "job_state \<Rightarrow> bool" where
  "terminal s = (s \<in> {JSucceeded, JFailed, JCancelled})"

definition job_local :: "job_row \<Rightarrow> bool" where
  "job_local j = (0 \<le> jb_attempts j \<and> jb_attempts j \<le> jb_max j \<and> (jb_completed j \<noteq> None) = terminal (jb_state j) \<and>
     (jb_state j \<in> {JWaiting, JPending} \<longrightarrow> jb_attempts j < jb_max j \<and> jb_cancel j = None))"

definition of_job :: "job_row \<Rightarrow> attempt_row \<Rightarrow> bool" where
  "of_job j a = (la_owner a = jb_owner j \<and> la_job a = jb_id j)"

definition jobs_ok :: "hosted \<Rightarrow> bool" where
  "jobs_ok h = (distinct (map (\<lambda>j. (jb_owner j, jb_id j)) (h_jobs h)) \<and>
     distinct (map (\<lambda>a. (la_owner a, la_job a, la_no a)) (h_attempts h)) \<and>
     (\<forall>j \<in> set (h_jobs h). job_local j \<and>
        (running j \<longrightarrow> (\<exists>a \<in> set (h_attempts h). of_job j a \<and> la_finished a = None))) \<and>
     (\<forall>a \<in> set (h_attempts h). \<exists>j \<in> set (h_jobs h). of_job j a \<and> la_no a \<le> jb_attempts j \<and>
        (la_finished a = None \<longrightarrow> running j \<and> la_no a = jb_attempts j)))"

lemma same_job:
  assumes "jobs_ok h" "j \<in> set (h_jobs h)" "j' \<in> set (h_jobs h)" "jb_owner j = jb_owner j'" "jb_id j = jb_id j'"
  shows "j = j'"
proof -
  have "inj_on (\<lambda>j. (jb_owner j, jb_id j)) (set (h_jobs h))" using assms(1) by (simp add: jobs_ok_def distinct_map)
  from inj_onD [OF this, of j j'] show ?thesis using assms by simp
qed

lemma same_attempt:
  assumes "jobs_ok h" "a \<in> set (h_attempts h)" "a' \<in> set (h_attempts h)"
    "la_owner a = la_owner a'" "la_job a = la_job a'" "la_no a = la_no a'"
  shows "a = a'"
proof -
  have "inj_on (\<lambda>a. (la_owner a, la_job a, la_no a)) (set (h_attempts h))"
    using assms(1) by (simp add: jobs_ok_def distinct_map)
  from inj_onD [OF this, of a a'] show ?thesis using assms by simp
qed

lemma attempt_bound:
  assumes "jobs_ok h" "a \<in> set (h_attempts h)" "j \<in> set (h_jobs h)" "of_job j a"
  shows "la_no a \<le> jb_attempts j \<and> (la_finished a = None \<longrightarrow> running j \<and> la_no a = jb_attempts j)"
proof -
  obtain j' where j': "j' \<in> set (h_jobs h)" "of_job j' a" "la_no a \<le> jb_attempts j'"
      "la_finished a = None \<longrightarrow> running j' \<and> la_no a = jb_attempts j'"
    using assms(1,2) unfolding jobs_ok_def by blast
  have "j' = j" using same_job [OF assms(1) j'(1) assms(3)] j'(2) assms(4) by (simp add: of_job_def)
  with j' show ?thesis by simp
qed

text \<open>Updates of rows that keep their keys.\<close>

lemma jobs_ok_update:
  assumes ok: "jobs_ok h" and jobs: "h_jobs h' = map F (h_jobs h)" and atts: "h_attempts h' = map G (h_attempts h)"
    and F: "\<And>j. j \<in> set (h_jobs h) \<Longrightarrow> (jb_owner (F j), jb_id (F j), jb_attempts (F j)) = (jb_owner j, jb_id j, jb_attempts j)"
    and G: "\<And>a. a \<in> set (h_attempts h) \<Longrightarrow> (la_owner (G a), la_job (G a), la_no (G a)) = (la_owner a, la_job a, la_no a)"
    and local: "\<And>j. j \<in> set (h_jobs h) \<Longrightarrow> job_local (F j)"
    and links: "\<And>j a. j \<in> set (h_jobs h) \<Longrightarrow> a \<in> set (h_attempts h) \<Longrightarrow> of_job j a \<Longrightarrow> la_finished a = None \<Longrightarrow>
      la_no a = jb_attempts j \<Longrightarrow> (la_finished (G a) = None) = running (F j)"
    and stays: "\<And>a. a \<in> set (h_attempts h) \<Longrightarrow> la_finished a \<noteq> None \<Longrightarrow> la_finished (G a) \<noteq> None"
    and idle: "\<And>j. j \<in> set (h_jobs h) \<Longrightarrow> running (F j) \<Longrightarrow> running j"
  shows "jobs_ok h'"
proof -
  have kj: "jb_owner (F j) = jb_owner j" "jb_id (F j) = jb_id j" "jb_attempts (F j) = jb_attempts j" if "j \<in> set (h_jobs h)" for j
    using F [OF that] by simp_all
  have ka: "la_owner (G a) = la_owner a" "la_job (G a) = la_job a" "la_no (G a) = la_no a" if "a \<in> set (h_attempts h)" for a
    using G [OF that] by simp_all
  have mj: "map (\<lambda>j. (jb_owner j, jb_id j)) (h_jobs h') = map (\<lambda>j. (jb_owner j, jb_id j)) (h_jobs h)"
    by (simp add: jobs kj)
  have ma: "map (\<lambda>a. (la_owner a, la_job a, la_no a)) (h_attempts h') = map (\<lambda>a. (la_owner a, la_job a, la_no a)) (h_attempts h)"
    by (simp add: atts ka)
  have "distinct (map (\<lambda>j. (jb_owner j, jb_id j)) (h_jobs h'))" "distinct (map (\<lambda>a. (la_owner a, la_job a, la_no a)) (h_attempts h'))"
    unfolding mj ma using ok by (simp_all add: jobs_ok_def)
  moreover have local': "job_local (F j) \<and> (running (F j) \<longrightarrow> (\<exists>a \<in> set (h_attempts h'). of_job (F j) a \<and> la_finished a = None))"
    if j: "j \<in> set (h_jobs h)" for j
  proof (intro conjI impI)
    show "job_local (F j)" using local [OF j] .
    assume r: "running (F j)"
    then obtain a where a: "a \<in> set (h_attempts h)" "of_job j a" "la_finished a = None"
      using ok idle [OF j r] j unfolding jobs_ok_def by blast
    then have "la_finished (G a) = None" using links [OF j a] attempt_bound [OF ok a(1) j a(2)] r by simp
    moreover have "of_job (F j) (G a)" using a(2) kj [OF j] ka [OF a(1)] by (simp add: of_job_def)
    ultimately show "\<exists>a \<in> set (h_attempts h'). of_job (F j) a \<and> la_finished a = None" using a(1) by (auto simp: atts)
  qed
  moreover have at': "\<exists>j \<in> set (h_jobs h'). of_job j (G a) \<and> la_no (G a) \<le> jb_attempts j \<and>
      (la_finished (G a) = None \<longrightarrow> running j \<and> la_no (G a) = jb_attempts j)" if a: "a \<in> set (h_attempts h)" for a
  proof -
    obtain j where j: "j \<in> set (h_jobs h)" "of_job j a" using ok a unfolding jobs_ok_def by blast
    note b = attempt_bound [OF ok a j]
    have "of_job (F j) (G a)" using j(2) kj [OF j(1)] ka [OF a] by (simp add: of_job_def)
    moreover have "la_finished (G a) = None \<longrightarrow> running (F j) \<and> la_no (G a) = jb_attempts (F j)"
      using stays [OF a] links [OF j(1) a j(2)] b kj [OF j(1)] ka [OF a] by (cases "la_finished a = None") auto
    ultimately show ?thesis using j(1) b kj [OF j(1)] ka [OF a] by (intro bexI [of _ "F j"]) (auto simp: jobs)
  qed
  moreover have "\<forall>r \<in> set (h_jobs h'). job_local r \<and> (running r \<longrightarrow> (\<exists>a \<in> set (h_attempts h'). of_job r a \<and> la_finished a = None))"
  proof
    fix r assume "r \<in> set (h_jobs h')"
    then obtain j where "j \<in> set (h_jobs h)" "r = F j" by (auto simp: jobs)
    then show "job_local r \<and> (running r \<longrightarrow> (\<exists>a \<in> set (h_attempts h'). of_job r a \<and> la_finished a = None))"
      using local' by blast
  qed
  moreover have "\<forall>x \<in> set (h_attempts h'). \<exists>j \<in> set (h_jobs h'). of_job j x \<and> la_no x \<le> jb_attempts j \<and>
      (la_finished x = None \<longrightarrow> running j \<and> la_no x = jb_attempts j)"
  proof
    fix x assume "x \<in> set (h_attempts h')"
    then obtain a where "a \<in> set (h_attempts h)" "x = G a" by (auto simp: atts)
    then show "\<exists>j \<in> set (h_jobs h'). of_job j x \<and> la_no x \<le> jb_attempts j \<and>
      (la_finished x = None \<longrightarrow> running j \<and> la_no x = jb_attempts j)" using at' by blast
  qed
  ultimately show ?thesis unfolding jobs_ok_def by blast
qed

text \<open>One job row and its live attempt change together.\<close>

lemma jobs_ok_transition:
  assumes ok: "jobs_ok h" and j: "j \<in> set (h_jobs h)" "jb_owner j = ow" "jb_id j = i"
    and a: "a \<in> set (h_attempts h)" "this_attempt ow i n a" "la_finished a = None"
    and jobs: "h_jobs h' = update_where (this_job ow i) f (h_jobs h)"
    and atts: "h_attempts h' = update_where Q g (h_attempts h)"
    and Q: "\<And>x. Q x \<Longrightarrow> this_attempt ow i n x" "Q a"
    and f: "(jb_owner (f j), jb_id (f j), jb_attempts (f j)) = (ow, i, jb_attempts j)" "job_local (f j)"
    and g: "(la_owner (g a), la_job (g a), la_no (g a)) = (ow, i, n)" "(la_finished (g a) = None) = running (f j)"
  shows "jobs_ok h'"
proof (rule jobs_ok_update [OF ok jobs [unfolded update_where_def] atts [unfolded update_where_def]])
  have tj: "this_job ow i r = (r = j)" if "r \<in> set (h_jobs h)" for r
    using that same_job [OF ok that j(1)] j by (auto simp: this_job_def)
  have one: "Q x = (x = a)" if "x \<in> set (h_attempts h)" for x
    using that same_attempt [OF ok that a(1)] a(2) Q by (auto simp: this_attempt_def)
  have aj: "of_job j a" using a(2) j by (simp add: of_job_def this_attempt_def)
  have run: "running j" "jb_attempts j = n"
    using attempt_bound [OF ok a(1) j(1) aj] a by (auto simp: this_attempt_def)
  fix r assume r: "r \<in> set (h_jobs h)"
  show "(jb_owner (if this_job ow i r then f r else r), jb_id (if this_job ow i r then f r else r),
      jb_attempts (if this_job ow i r then f r else r)) = (jb_owner r, jb_id r, jb_attempts r)"
    using f j by (simp add: tj [OF r])
  show "job_local (if this_job ow i r then f r else r)"
    using f ok r by (auto simp: tj [OF r] jobs_ok_def)
  show "running (if this_job ow i r then f r else r) \<Longrightarrow> running r"
    using run by (auto simp: tj [OF r] split: if_splits)
  fix x assume x: "x \<in> set (h_attempts h)" "of_job r x" "la_finished x = None" "la_no x = jb_attempts r"
  have "(x = a) = (r = j)"
  proof
    assume "x = a"
    then show "r = j" using x(2) aj same_job [OF ok r j(1)] by (simp add: of_job_def)
  next
    assume "r = j"
    then show "x = a" using x(2,4) aj run(2) a(2) same_attempt [OF ok x(1) a(1)]
      by (simp add: of_job_def this_attempt_def)
  qed
  then show "(la_finished (if Q x then g x else x) = None) = running (if this_job ow i r then f r else r)"
    using g attempt_bound [OF ok x(1) r x(2)] x(3) by (cases "r = j") (simp_all add: one [OF x(1)] one [OF a(1)] tj [OF r] tj [OF j(1)])
next
  fix x assume x: "x \<in> set (h_attempts h)"
  have one: "Q x = (x = a)"
    using same_attempt [OF ok x a(1)] a(2) Q by (auto simp: this_attempt_def)
  show "(la_owner (if Q x then g x else x), la_job (if Q x then g x else x), la_no (if Q x then g x else x)) =
      (la_owner x, la_job x, la_no x)"
    using g a(2) by (auto simp: one this_attempt_def)
  show "la_finished x \<noteq> None \<Longrightarrow> la_finished (if Q x then g x else x) \<noteq> None"
    using a(3) by (cases "x = a") (simp_all add: one)
qed

text \<open>What the fence returns.\<close>

lemma locked_lease_Inr:
  assumes "locked_lease digest now c h = Inr j"
  obtains a where "j \<in> set (h_jobs h)" "jb_owner j = cl_owner c" "jb_id j = cl_job c" "a \<in> set (h_attempts h)"
    "this_attempt (cl_owner c) (cl_job c) (cl_attempt c) a" "la_finished a = None" "now < la_expires a"
proof -
  from assms obtain a where a: "find (this_job (cl_owner c) (cl_job c)) (h_jobs h) = Some j"
      "find (holds_lease digest c) (h_attempts h) = Some a" "now < la_expires a"
    by (auto simp: locked_lease_def split: option.splits if_splits)
  show ?thesis
    using a by (intro that [of a]) (auto simp: find_Some_iff this_job_def holds_lease_def)
qed

lemma fence_running:
  assumes ok: "jobs_ok h" and "locked_lease digest now c h = Inr j"
  shows "running j \<and> jb_attempts j = cl_attempt c \<and> job_local j"
proof -
  from locked_lease_Inr [OF assms(2)] obtain a where a: "j \<in> set (h_jobs h)" "jb_owner j = cl_owner c" "jb_id j = cl_job c"
    "a \<in> set (h_attempts h)" "this_attempt (cl_owner c) (cl_job c) (cl_attempt c) a" "la_finished a = None" by metis
  then have "of_job j a" by (simp add: of_job_def this_attempt_def)
  from attempt_bound [OF ok a(4,1) this] a ok show ?thesis by (auto simp: this_attempt_def jobs_ok_def)
qed

lemma fenced_snd:
  "snd (fenced digest now c f h) = (case locked_lease digest now c h of Inl e \<Rightarrow> h
     | Inr j \<Rightarrow> (case f j h of (Inl e, _) \<Rightarrow> h | (Inr x, h') \<Rightarrow> h'))"
  by (auto simp: fenced_def atomically_def bindA_def asks_def liftA_def split: sum.splits prod.splits)

text \<open>A transition of the claimed job under its fence.\<close>

lemma fenced_transition:
  assumes ok: "jobs_ok h" and lease: "locked_lease digest now c h = Inr j"
    and jobs: "h_jobs h' = update_where (this_job (cl_owner c) (cl_job c)) f (h_jobs h)"
    and atts: "h_attempts h' = update_where Q g (h_attempts h)"
    and Q: "\<And>x. Q x \<Longrightarrow> this_attempt (cl_owner c) (cl_job c) (cl_attempt c) x"
      "\<And>x. this_attempt (cl_owner c) (cl_job c) (cl_attempt c) x \<Longrightarrow> la_finished x = None \<Longrightarrow> Q x"
    and f: "(jb_owner (f j), jb_id (f j), jb_attempts (f j)) = (jb_owner j, jb_id j, jb_attempts j)"
      "running j \<Longrightarrow> job_local j \<Longrightarrow> job_local (f j)"
    and g: "\<And>x. (la_owner (g x), la_job (g x), la_no (g x)) = (la_owner x, la_job x, la_no x)"
      "\<And>x. la_finished x = None \<Longrightarrow> (la_finished (g x) = None) = running (f j)"
  shows "jobs_ok h'"
proof -
  from locked_lease_Inr [OF lease] obtain a where a: "j \<in> set (h_jobs h)" "jb_owner j = cl_owner c" "jb_id j = cl_job c"
    "a \<in> set (h_attempts h)" "this_attempt (cl_owner c) (cl_job c) (cl_attempt c) a" "la_finished a = None" by metis
  note r = fence_running [OF ok lease]
  show ?thesis
  proof (rule jobs_ok_transition [OF ok a jobs atts Q(1)])
    show "Q a" using Q(2) a by blast
    show "(jb_owner (f j), jb_id (f j), jb_attempts (f j)) = (cl_owner c, cl_job c, jb_attempts j)" using f(1) a by simp
    show "job_local (f j)" using f(2) r by blast
    show "(la_owner (g a), la_job (g a), la_no (g a)) = (cl_owner c, cl_job c, cl_attempt c)"
      using g(1) a by (simp add: this_attempt_def)
    show "(la_finished (g a) = None) = running (f j)" using g(2) a by blast
  qed
qed

section \<open>Every operation keeps the table consistent\<close>

lemma jobs_ok_same: "h_jobs h' = h_jobs h \<Longrightarrow> h_attempts h' = h_attempts h \<Longrightarrow> jobs_ok h' = jobs_ok h"
  by (simp add: jobs_ok_def)

lemma audit_fields [simp]:
  "h_jobs (audit w x y z u v h) = h_jobs h" "h_attempts (audit w x y z u v h) = h_attempts h"
  "h_limits (audit w x y z u v h) = h_limits h" "h_spend (audit w x y z u v h) = h_spend h"
  "h_ledger (audit w x y z u v h) = h_ledger h" "h_receipts (audit w x y z u v h) = h_receipts h"
  by (simp_all add: audit_def)

lemma set_fields [simp]:
  "h_jobs (set_job ow i f h) = update_where (this_job ow i) f (h_jobs h)"
  "h_jobs (set_attempt ow i n g h) = h_jobs h" "h_jobs (set_live_attempt ow i n g h) = h_jobs h"
  "h_attempts (set_job ow i f h) = h_attempts h"
  "h_attempts (set_attempt ow i n g h) = update_where (this_attempt ow i n) g (h_attempts h)"
  "h_attempts (set_live_attempt ow i n g h) = update_where (\<lambda>a. this_attempt ow i n a \<and> la_finished a = None) g (h_attempts h)"
  "h_limits (set_job ow i f h) = h_limits h" "h_limits (set_attempt ow i n g h) = h_limits h"
  "h_limits (set_live_attempt ow i n g h) = h_limits h"
  "h_spend (set_job ow i f h) = h_spend h" "h_spend (set_attempt ow i n g h) = h_spend h"
  "h_spend (set_live_attempt ow i n g h) = h_spend h"
  "h_ledger (set_job ow i f h) = h_ledger h" "h_ledger (set_attempt ow i n g h) = h_ledger h"
  "h_ledger (set_live_attempt ow i n g h) = h_ledger h"
  "h_receipts (set_job ow i f h) = h_receipts h" "h_receipts (set_attempt ow i n g h) = h_receipts h"
  "h_receipts (set_live_attempt ow i n g h) = h_receipts h"
  by (simp_all add: set_job_def set_attempt_def set_live_attempt_def)

lemma keeps_fenced:
  assumes "\<And>h j x h'. jobs_ok h \<Longrightarrow> locked_lease digest now c h = Inr j \<Longrightarrow> f j h = (Inr x, h') \<Longrightarrow> jobs_ok h'"
  shows "keeps jobs_ok (fenced digest now c f)"
proof (rule keepsI)
  fix h assume "jobs_ok h"
  then show "jobs_ok (snd (fenced digest now c f h))"
    using assms by (auto simp: fenced_snd split: sum.splits prod.splits)
qed

lemmas transition_defs = job_local_def terminal_def running_def close_job_def finish_def

lemma jobs_ok_cancel_locked:
  "jobs_ok h \<Longrightarrow> locked_lease digest now c h = Inr j \<Longrightarrow> jobs_ok (cancel_locked now c h)"
  unfolding cancel_locked_def
  by (rule fenced_transition [where f = "close_job now JCancelled" and g = "finish now O_cancelled" and
        Q = "\<lambda>a. this_attempt (cl_owner c) (cl_job c) (cl_attempt c) a \<and> la_finished a = None"])
    (auto simp: transition_defs)

lemma keeps_start: "keeps jobs_ok (start digest now c)"
  unfolding start_def
proof (rule keeps_fenced)
  fix h j x h'
  assume h: "jobs_ok h" "locked_lease digest now c h = Inr j" and
    r: "(if jb_cancel j \<noteq> None then bindA (modify (cancel_locked now c)) (\<lambda>_. ret False)
       else if jb_state j \<noteq> JLeased then raise (LostLeaseError ''job is not in leased state'')
       else bindA (modify (\<lambda>h. audit (cl_owner c) ''job.start'' ''job'' (cl_job c) ''succeeded'' None
         (set_attempt (cl_owner c) (cl_job c) (cl_attempt c)
            (\<lambda>a. a\<lparr>la_started := Some now, la_heartbeat := Some now\<rparr>)
           (set_job (cl_owner c) (cl_job c) (\<lambda>r. r\<lparr>jb_state := JRunning, jb_updated := now\<rparr>) h)))) (\<lambda>_. ret True)) h = (Inr x, h')"
  show "jobs_ok h'"
  proof (cases "jb_cancel j = None")
    case False
    with r jobs_ok_cancel_locked [OF h] show ?thesis by (auto simp: bindA_Inr)
  next
    case True
    show ?thesis
      by (rule fenced_transition [OF h, where f = "\<lambda>r. r\<lparr>jb_state := JRunning, jb_updated := now\<rparr>" and
          g = "\<lambda>a. a\<lparr>la_started := Some now, la_heartbeat := Some now\<rparr>" and
          Q = "this_attempt (cl_owner c) (cl_job c) (cl_attempt c)"])
        (use r True in \<open>auto simp: bindA_Inr transition_defs split: if_splits\<close>)
  qed
qed

lemma keeps_succeed: "keeps jobs_ok (succeed digest now c)"
  unfolding succeed_def
proof (rule keeps_fenced)
  fix h j x h'
  assume h: "jobs_ok h" "locked_lease digest now c h = Inr j" and
    r: "(if jb_cancel j \<noteq> None then bindA (modify (cancel_locked now c)) (\<lambda>_. ret False)
       else if jb_state j \<noteq> JRunning then raise (LostLeaseError ''job is not running'')
       else bindA (modify (\<lambda>h. audit (cl_owner c) ''job.succeed'' ''job'' (cl_job c) ''succeeded'' None
         (set_job (cl_owner c) (cl_job c) (\<lambda>r. (close_job now JSucceeded r)\<lparr>jb_error := None\<rparr>)
           (set_attempt (cl_owner c) (cl_job c) (cl_attempt c) (finish now O_succeeded) h)))) (\<lambda>_. ret True)) h = (Inr x, h')"
  show "jobs_ok h'"
  proof (cases "jb_cancel j = None")
    case False
    with r jobs_ok_cancel_locked [OF h] show ?thesis by (auto simp: bindA_Inr)
  next
    case True
    show ?thesis
      by (rule fenced_transition [OF h, where f = "\<lambda>r. (close_job now JSucceeded r)\<lparr>jb_error := None\<rparr>" and
          g = "finish now O_succeeded" and Q = "this_attempt (cl_owner c) (cl_job c) (cl_attempt c)"])
        (use r True in \<open>auto simp: bindA_Inr transition_defs split: if_splits\<close>)
  qed
qed

definition failed_as :: "rat \<Rightarrow> failure \<Rightarrow> rat \<Rightarrow> job_row \<Rightarrow> job_row \<Rightarrow> job_row" where
  "failed_as now failure retry j =
     (if jb_cancel j \<noteq> None then close_job now JCancelled
      else if fl_retryable failure \<and> jb_attempts j < jb_max j
        then (\<lambda>r. r\<lparr>jb_state := JPending, jb_run_after := now + retry, jb_updated := now, jb_error := Some failure\<rparr>)
      else (\<lambda>r. (close_job now JFailed r)\<lparr>jb_error := Some failure\<rparr>))"

lemma keeps_fail: "keeps jobs_ok (fail digest failure retry_after c now)"
  unfolding fail_def
proof (intro keeps_intros keeps_fenced)
  fix retry h j x h'
  assume h: "jobs_ok h" "locked_lease digest now c h = Inr j" and
    r: "modify (\<lambda>h. audit (cl_owner c) ''job.fail'' ''job'' (cl_job c) ''failed'' (Some (fl_code failure))
         (set_job (cl_owner c) (cl_job c)
           (if jb_cancel j \<noteq> None then close_job now JCancelled
            else if fl_retryable failure \<and> jb_attempts j < jb_max j
              then (\<lambda>r. r\<lparr>jb_state := JPending, jb_run_after := now + retry, jb_updated := now, jb_error := Some failure\<rparr>)
            else (\<lambda>r. (close_job now JFailed r)\<lparr>jb_error := Some failure\<rparr>))
           (set_attempt (cl_owner c) (cl_job c) (cl_attempt c)
             (\<lambda>a. (finish now O_failed a)\<lparr>la_error := Some failure\<rparr>) h))) h = (Inr x, h')"
  show "jobs_ok h'"
    by (rule fenced_transition [OF h, where f = "failed_as now failure retry j" and
          g = "\<lambda>a. (finish now O_failed a)\<lparr>la_error := Some failure\<rparr>" and
          Q = "this_attempt (cl_owner c) (cl_job c) (cl_attempt c)"])
      (use r in \<open>auto simp: failed_as_def transition_defs\<close>)
qed

lemma update_where_id: "update_where P id xs = xs"
  by (simp add: update_where_def map_idI)

lemma keeps_heartbeat: "keeps jobs_ok (heartbeat digest lease_for c now)"
  unfolding heartbeat_def
proof (intro keeps_intros keeps_fenced)
  fix secs h j x h'
  assume h: "jobs_ok h" "locked_lease digest now c h = Inr j" and
    r: "(if jb_state j \<notin> {JLeased, JRunning} then raise (LostLeaseError ''job is not active'')
       else bindA (asks (lease_extends c (now + secs))) (\<lambda>ok.
         if \<not> ok then raise (IntegrityError ''lease_expires_at'')
         else bindA (modify (set_attempt (cl_owner c) (cl_job c) (cl_attempt c)
             (\<lambda>a. a\<lparr>la_heartbeat := Some now, la_expires := now + secs\<rparr>))) (\<lambda>_. ret (jb_cancel j \<noteq> None)))) h = (Inr x, h')"
  have jobs: "h_jobs h' = update_where (this_job (cl_owner c) (cl_job c)) id (h_jobs h)"
    using r by (auto simp: bindA_Inr update_where_id split: if_splits)
  show "jobs_ok h'"
    by (rule fenced_transition [OF h jobs, where g = "\<lambda>a. a\<lparr>la_heartbeat := Some now, la_expires := now + secs\<rparr>" and
          Q = "this_attempt (cl_owner c) (cl_job c) (cl_attempt c)"])
      (use r in \<open>auto simp: bindA_Inr transition_defs split: if_splits\<close>)
qed

text \<open>Recovery: the expired rows are of different jobs.\<close>

definition expirable :: "(attempt_row \<times> job_row) list \<Rightarrow> hosted \<Rightarrow> bool" where
  "expirable rows h = (distinct rows \<and> (\<forall>(a, j) \<in> set rows. a \<in> set (h_attempts h) \<and> j \<in> set (h_jobs h) \<and>
     of_job j a \<and> la_finished a = None))"

lemma this_job_of: "this_job (la_owner a) (la_job a) j = of_job j a"
  by (auto simp: this_job_def of_job_def)

lemma expire_one_step:
  assumes ok: "jobs_ok h" and e: "expirable ((a, j) # rows) h"
  shows "jobs_ok (expire_one now (a, j) h) \<and> expirable rows (expire_one now (a, j) h)"
proof -
  let ?h = "expire_one now (a, j) h"
  from e have aj: "a \<in> set (h_attempts h)" "j \<in> set (h_jobs h)" "of_job j a" "la_finished a = None"
    by (auto simp: expirable_def)
  note b = attempt_bound [OF ok aj(1,2,3)]
  have loc: "job_local j" using ok aj(2) by (simp add: jobs_ok_def)
  have keys: "jb_owner j = la_owner a" "jb_id j = la_job a" "this_attempt (la_owner a) (la_job a) (la_no a) a"
    using aj(3) by (simp_all add: of_job_def this_attempt_def)
  have "jobs_ok ?h"
    unfolding expire_one_def
    by (rule jobs_ok_transition [OF ok aj(2) keys(1,2) aj(1) keys(3) aj(4), where g = "finish now O_expired" and
          Q = "\<lambda>x. this_attempt (la_owner a) (la_job a) (la_no a) x \<and> la_finished x = None" and
          f = "if jb_cancel j \<noteq> None then close_job now JCancelled
        else if jb_max j \<le> jb_attempts j
          then (\<lambda>r. (close_job now JFailed r)\<lparr>jb_error := Some \<lparr>fl_code = ''attempts_exhausted'', fl_retryable = False\<rparr>\<rparr>)
        else (\<lambda>r. r\<lparr>jb_state := JPending, jb_run_after := now, jb_updated := now\<rparr>)"])
      (use aj keys loc b in \<open>auto simp: transition_defs\<close>)
  moreover have "expirable rows ?h"
    unfolding expirable_def
  proof (intro conjI ballI)
    show "distinct rows" using e by (simp add: expirable_def)
    fix p assume p: "p \<in> set rows"
    obtain a' j' where p': "p = (a', j')" by fastforce
    from e p p' have aj': "a' \<in> set (h_attempts h)" "j' \<in> set (h_jobs h)" "of_job j' a'" "la_finished a' = None"
      and ne: "(a', j') \<noteq> (a, j)" by (auto simp: expirable_def)
    note b' = attempt_bound [OF ok aj'(1,2,3)]
    have "j' \<noteq> j"
    proof
      assume "j' = j"
      then have "a' = a" using same_attempt [OF ok aj'(1) aj(1)] aj(3,4) aj'(3,4) b b' by (simp add: of_job_def)
      with \<open>j' = j\<close> ne show False by simp
    qed
    then have tj: "\<not> this_job (la_owner a) (la_job a) j'"
      using same_job [OF ok aj'(2) aj(2)] keys by (auto simp: this_job_def)
    then have ta: "\<not> this_attempt (la_owner a) (la_job a) (la_no a) a'"
      using aj'(3) by (auto simp: this_job_def this_attempt_def of_job_def)
    have "j' \<in> set (h_jobs ?h)" using aj'(2) tj by (auto simp: expire_one_def update_where_def image_iff)
    moreover have "a' \<in> set (h_attempts ?h)" using aj'(1) ta by (auto simp: expire_one_def update_where_def image_iff)
    ultimately show "case p of (a, j) \<Rightarrow> a \<in> set (h_attempts ?h) \<and> j \<in> set (h_jobs ?h) \<and> of_job j a \<and> la_finished a = None"
      using aj' p' by simp
  qed
  ultimately show ?thesis ..
qed

lemma expire_all: "jobs_ok h \<Longrightarrow> expirable rows h \<Longrightarrow> jobs_ok (fold (expire_one now) rows h)"
proof (induction rows arbitrary: h)
  case (Cons p rows)
  obtain a j where p: "p = (a, j)" by fastforce
  from expire_one_step [OF Cons.prems(1) Cons.prems(2) [unfolded p]] Cons.IH show ?case by (simp add: p)
qed simp

lemma distinct_rows: "jobs_ok h \<Longrightarrow> distinct (h_jobs h) \<and> distinct (h_attempts h)"
  by (auto simp: jobs_ok_def distinct_map)

lemma jobs_ok_recover: "jobs_ok h \<Longrightarrow> jobs_ok (recover_expired env now h)"
  unfolding recover_expired_def
  by (rule expire_all)
    (auto simp: expirable_def expired_rows_def this_job_of distinct_product distinct_rows)

text \<open>The search over the owners.\<close>

lemma next_job_stop: "candidate env now h blocked = None \<Longrightarrow> next_job env now h blocked = Inr None"
  by (simp add: next_job.simps [of env now h blocked])

lemma next_job_cases:
  assumes "candidate env now h blocked = Some r"
  obtains (block) "\<not> pg_free env (jb_owner r)" "next_job env now h blocked = next_job env now h (jb_owner r # blocked)"
  | (no_policy) "pg_free env (jb_owner r)" "h_limits h (jb_owner r) = None"
      "next_job env now h blocked = Inl (WorkerConfigurationError ''owner limit policy is unavailable'')"
  | (found) l where "pg_free env (jb_owner r)" "h_limits h (jb_owner r) = Some l" "active (jb_owner r) h < ol_concurrency l"
      "next_job env now h blocked = Inr (Some r)"
  | (full) l where "pg_free env (jb_owner r)" "h_limits h (jb_owner r) = Some l" "ol_concurrency l \<le> active (jb_owner r) h"
      "next_job env now h blocked = next_job env now h (jb_owner r # blocked)"
  using assms by (cases "h_limits h (jb_owner r)")
    (fastforce simp: next_job.simps [of env now h blocked] not_less split: if_splits)+

lemma next_job_Some:
  "next_job env now h blocked = Inr (Some j) \<Longrightarrow> j \<in> set (h_jobs h) \<and> claimable env now j \<and> pg_free env (jb_owner j) \<and>
     jb_owner j \<notin> set blocked \<and> (\<exists>l. h_limits h (jb_owner j) = Some l \<and> active (jb_owner j) h < ol_concurrency l)"
proof (induction env now h blocked rule: next_job.induct)
  case (1 env now h blocked)
  show ?case
  proof (cases "candidate env now h blocked")
    case None
    with "1.prems" show ?thesis by (simp add: next_job_stop)
  next
    case (Some r)
    from Some show ?thesis
    proof (cases rule: next_job_cases)
      case block
      have rest: "next_job env now h (jb_owner r # blocked) = Inr (Some j)" using "1.prems" block(2) by argo
      from "1.IH"(1) [OF Some block(1) rest] show ?thesis by simp
    next
      case no_policy
      with "1.prems" show ?thesis by simp
    next
      case (found l)
      with "1.prems" candidate_Some [OF Some] show ?thesis by simp
    next
      case (full l)
      have rest: "next_job env now h (jb_owner r # blocked) = Inr (Some j)" using "1.prems" full(4) by argo
      have "\<not> active (jb_owner r) h < ol_concurrency l" "\<not> \<not> pg_free env (jb_owner r)" using full by simp_all
      from "1.IH"(2) [OF Some this(2) full(2) this(1) rest] show ?thesis by simp
    qed
  qed
qed

lemma next_job_None:
  "next_job env now h blocked = Inr None \<Longrightarrow> j \<in> set (h_jobs h) \<Longrightarrow> claimable env now j \<Longrightarrow> jb_owner j \<notin> set blocked \<Longrightarrow>
     pg_free env (jb_owner j) \<Longrightarrow> \<exists>l. h_limits h (jb_owner j) = Some l \<and> ol_concurrency l \<le> active (jb_owner j) h"
proof (induction env now h blocked rule: next_job.induct)
  case (1 env now h blocked)
  show ?case
  proof (cases "candidate env now h blocked")
    case None
    then have "sort_key (\<lambda>j. (- jb_priority j, jb_run_after j, jb_created j, jb_id j))
        (filter (\<lambda>j. claimable env now j \<and> jb_owner j \<notin> set blocked) (h_jobs h)) = []"
      unfolding candidate_def by (simp split: list.splits)
    then have "filter (\<lambda>j. claimable env now j \<and> jb_owner j \<notin> set blocked) (h_jobs h) = []"
      by (rule sort_key_Nil)
    then have "\<not> (claimable env now j \<and> jb_owner j \<notin> set blocked)"
      using "1.prems"(2) unfolding filter_empty_conv by blast
    with "1.prems"(3,4) show ?thesis by blast
  next
    case (Some r)
    from Some show ?thesis
    proof (cases rule: next_job_cases)
      case block
      then have "jb_owner j \<noteq> jb_owner r" using "1.prems"(5) by auto
      then have nb: "jb_owner j \<notin> set (jb_owner r # blocked)" using "1.prems"(4) by simp
      have rest: "next_job env now h (jb_owner r # blocked) = Inr None" using "1.prems"(1) block(2) by argo
      show ?thesis by (rule "1.IH"(1) [OF Some block(1) rest "1.prems"(2,3) nb "1.prems"(5)])
    next
      case no_policy
      with "1.prems" show ?thesis by simp
    next
      case (found l)
      with "1.prems" show ?thesis by simp
    next
      case (full l)
      have rest: "next_job env now h (jb_owner r # blocked) = Inr None" using "1.prems"(1) full(4) by argo
      have no: "\<not> active (jb_owner r) h < ol_concurrency l" "\<not> \<not> pg_free env (jb_owner r)" using full by simp_all
      show ?thesis
      proof (cases "jb_owner j = jb_owner r")
        case True
        with full show ?thesis by simp
      next
        case False
        then have nb: "jb_owner j \<notin> set (jb_owner r # blocked)" using "1.prems"(4) by simp
        show ?thesis by (rule "1.IH"(2) [OF Some no(2) full(2) no(1) rest "1.prems"(2,3) nb "1.prems"(5)])
      qed
    qed
  qed
qed

lemma jobs_ok_lease:
  assumes ok: "jobs_ok h" and j: "j \<in> set (h_jobs h)" "claimable env now' j"
    and free: "attempt_key_free (jb_owner j) (jb_id j) (jb_attempts j + 1) h"
  shows "jobs_ok (lease_job digest worker secs token now j h)"
proof -
  let ?h = "lease_job digest worker secs token now j h"
  let ?F = "\<lambda>r. if this_job (jb_owner j) (jb_id j) r \<and> jb_state r = JPending
      then r\<lparr>jb_state := JLeased, jb_attempts := jb_attempts j + 1, jb_updated := now\<rparr> else r"
  define new where "new = \<lparr>la_owner = jb_owner j, la_job = jb_id j, la_no = jb_attempts j + 1, la_worker = worker,
    la_digest = digest token, la_leased = now, la_expires = now + secs, la_heartbeat = Some now, la_started = None,
    la_finished = None, la_outcome = None, la_error = None\<rparr>"
  have jobs: "h_jobs ?h = map ?F (h_jobs h)" and atts: "h_attempts ?h = h_attempts h @ [new]"
    by (simp_all add: lease_job_def new_def update_where_def)
  have pend: "jb_state j = JPending" "jb_attempts j < jb_max j" "jb_cancel j = None" using j(2) by (simp_all add: claimable_def)
  have upd: "?F r = (if r = j then j\<lparr>jb_state := JLeased, jb_attempts := jb_attempts j + 1, jb_updated := now\<rparr> else r)"
    if "r \<in> set (h_jobs h)" for r
    using same_job [OF ok that j(1)] pend by (auto simp: this_job_def)
  have keys: "map (\<lambda>j. (jb_owner j, jb_id j)) (h_jobs ?h) = map (\<lambda>j. (jb_owner j, jb_id j)) (h_jobs h)"
    by (simp add: jobs)
  have "distinct (map (\<lambda>j. (jb_owner j, jb_id j)) (h_jobs ?h))" unfolding keys using ok by (simp add: jobs_ok_def)
  moreover have "distinct (map (\<lambda>a. (la_owner a, la_job a, la_no a)) (h_attempts ?h))"
    using ok free by (auto simp: atts jobs_ok_def attempt_key_free_def list_ex_iff new_def)
  moreover have "\<forall>r \<in> set (h_jobs ?h). job_local r \<and>
      (running r \<longrightarrow> (\<exists>a \<in> set (h_attempts ?h). of_job r a \<and> la_finished a = None))"
  proof
    fix r assume "r \<in> set (h_jobs ?h)"
    then obtain r0 where r0: "r0 \<in> set (h_jobs h)" "r = ?F r0" by (auto simp: jobs)
    have loc: "job_local r0" and run: "running r0 \<Longrightarrow> \<exists>a \<in> set (h_attempts h). of_job r0 a \<and> la_finished a = None"
      using ok r0(1) by (auto simp: jobs_ok_def)
    show "job_local r \<and> (running r \<longrightarrow> (\<exists>a \<in> set (h_attempts ?h). of_job r a \<and> la_finished a = None))"
    proof (cases "r0 = j")
      case True
      then have r: "r = j\<lparr>jb_state := JLeased, jb_attempts := jb_attempts j + 1, jb_updated := now\<rparr>"
        using r0 upd [OF r0(1)] by simp
      have "of_job r new \<and> la_finished new = None" by (simp add: r new_def of_job_def)
      moreover have "job_local r" using loc pend True by (simp add: r job_local_def terminal_def)
      ultimately show ?thesis by (auto simp: atts)
    next
      case False
      then have "r = r0" using r0 upd [OF r0(1)] by simp
      with loc run show ?thesis by (auto simp: atts)
    qed
  qed
  moreover have "\<forall>a \<in> set (h_attempts ?h). \<exists>r \<in> set (h_jobs ?h). of_job r a \<and> la_no a \<le> jb_attempts r \<and>
      (la_finished a = None \<longrightarrow> running r \<and> la_no a = jb_attempts r)"
  proof
    have mem: "?F r \<in> set (h_jobs ?h)" if "r \<in> set (h_jobs h)" for r using that by (simp add: jobs)
    fix a assume "a \<in> set (h_attempts ?h)"
    then consider "a = new" | "a \<in> set (h_attempts h)" by (auto simp: atts)
    then show "\<exists>r \<in> set (h_jobs ?h). of_job r a \<and> la_no a \<le> jb_attempts r \<and>
      (la_finished a = None \<longrightarrow> running r \<and> la_no a = jb_attempts r)"
    proof cases
      case 1
      have "of_job (?F j) a \<and> running (?F j) \<and> la_no a = jb_attempts (?F j)"
        unfolding upd [OF j(1)] 1 by (simp add: new_def of_job_def running_def)
      with mem [OF j(1)] show ?thesis by (intro bexI [of _ "?F j"]) simp_all
    next
      case 2
      then obtain r where r: "r \<in> set (h_jobs h)" "of_job r a" using ok by (auto simp: jobs_ok_def)
      note b = attempt_bound [OF ok 2 r]
      show ?thesis
      proof (cases "r = j")
        case True
        define r' where "r' = ?F j"
        have "of_job r' a" "la_no a \<le> jb_attempts r'" "la_finished a \<noteq> None"
          using b r(2) pend True unfolding r'_def upd [OF j(1)] by (auto simp: of_job_def running_def)
        moreover have "r' \<in> set (h_jobs ?h)" unfolding r'_def by (rule mem [OF j(1)])
        ultimately show ?thesis by (intro bexI [of _ r'] conjI) auto
      next
        case False
        then have "?F r = r" using upd [OF r(1)] by simp
        with b r(2) mem [OF r(1)] show ?thesis by (intro bexI [of _ r]) simp_all
      qed
    qed
  qed
  ultimately show ?thesis unfolding jobs_ok_def by blast
qed

lemma jobs_ok_snd_atomically: "jobs_ok h \<Longrightarrow> (\<And>x h'. m h = (Inr x, h') \<Longrightarrow> jobs_ok h') \<Longrightarrow> jobs_ok (snd (atomically m h))"
  by (auto simp: atomically_def split: prod.splits sum.splits)

lemma claim_next_Some:
  assumes "claim_next digest env w l token now h = (Inr (Some c), h')"
  obtains worker secs j where "validate_worker_id w = Inr worker" "duration False l = Inr secs"
    "next_job env now (recover_expired env now h) [] = Inr (Some j)"
    "attempt_key_free (jb_owner j) (jb_id j) (jb_attempts j + 1) (recover_expired env now h)"
    "h' = lease_job digest worker secs token now j (recover_expired env now h)"
    "c = \<lparr>cl_owner = jb_owner j, cl_job = jb_id j, cl_book = jb_book j, cl_incarnation = jb_incarnation j,
       cl_kind = jb_kind j, cl_attempt = jb_attempts j + 1, cl_worker = worker, cl_token = token, cl_credential = jb_credential j\<rparr>"
  using assms by (auto simp: claim_next_def bindA_Inr atomically_Inr split: option.splits if_splits)

lemma keeps_claim: "keeps jobs_ok (claim_next digest env w l token now)"
proof (rule keepsI)
  fix h assume ok: "jobs_ok h"
  obtain r h' where c: "claim_next digest env w l token now h = (r, h')" by fastforce
  have "jobs_ok h'"
  proof (cases r)
    case (Inl e)
    with c have "h' = h"
      by (auto simp: claim_next_def bindA_def liftA_def atomically_def split: sum.splits prod.splits)
    with ok show ?thesis by simp
  next
    case (Inr pick)
    show ?thesis
    proof (cases pick)
      case None
      with c Inr have "h' = recover_expired env now h"
        by (auto simp: claim_next_def bindA_Inr atomically_Inr split: option.splits if_splits)
      with jobs_ok_recover [OF ok] show ?thesis by simp
    next
      case (Some cl)
      with c Inr obtain worker secs j where n: "next_job env now (recover_expired env now h) [] = Inr (Some j)"
        "attempt_key_free (jb_owner j) (jb_id j) (jb_attempts j + 1) (recover_expired env now h)"
        "h' = lease_job digest worker secs token now j (recover_expired env now h)"
        by (blast elim: claim_next_Some)
      from next_job_Some [OF n(1)] jobs_ok_lease [OF jobs_ok_recover [OF ok] _ _ n(2)] n(3)
      show ?thesis by blast
    qed
  qed
  with c show "jobs_ok (snd (claim_next digest env w l token now h))" by simp
qed

text \<open>Methods that leave the two tables alone.\<close>

definition leaves_jobs :: "(hosted, 'a) act \<Rightarrow> bool" where
  "leaves_jobs m = (\<forall>h. h_jobs (snd (m h)) = h_jobs h \<and> h_attempts (snd (m h)) = h_attempts h)"

named_theorems leaves_intros "methods that leave the job tables alone"

lemma leaves_pure [leaves_intros]: "leaves_jobs (ret x)" "leaves_jobs (raise e)" "leaves_jobs (liftA r)" "leaves_jobs (asks f)"
    "leaves_jobs (checkA b e)"
  by (simp_all add: leaves_jobs_def ret_def raise_def liftA_def asks_def checkA_def)

lemma leaves_bindA [leaves_intros]:
  assumes "leaves_jobs m" and "\<And>x. leaves_jobs (f x)"
  shows "leaves_jobs (bindA m f)"
  using assms by (auto simp: leaves_jobs_def bindA_def split: prod.splits sum.splits) (metis snd_conv)+

lemma leaves_modify [leaves_intros]:
  "(\<And>h. h_jobs (f h) = h_jobs h \<and> h_attempts (f h) = h_attempts h) \<Longrightarrow> leaves_jobs (modify f)"
  by (simp add: leaves_jobs_def modify_def)

lemma leaves_atomically [leaves_intros]: "leaves_jobs m \<Longrightarrow> leaves_jobs (atomically m)"
  by (auto simp: leaves_jobs_def atomically_def split: prod.splits sum.splits) (metis snd_conv)+

lemma leaves_fenced [leaves_intros]: "(\<And>j. leaves_jobs (f j)) \<Longrightarrow> leaves_jobs (fenced digest now c f)"
  unfolding fenced_def by (intro leaves_intros)

lemma leaves_cases [leaves_intros]:
  "(b \<Longrightarrow> leaves_jobs m) \<Longrightarrow> (\<not> b \<Longrightarrow> leaves_jobs n) \<Longrightarrow> leaves_jobs (if b then m else n)"
  "(x = None \<Longrightarrow> leaves_jobs m) \<Longrightarrow> (\<And>y. x = Some y \<Longrightarrow> leaves_jobs (g y)) \<Longrightarrow> leaves_jobs (case x of None \<Rightarrow> m | Some y \<Rightarrow> g y)"
  "(\<And>y z. p = (y, z) \<Longrightarrow> leaves_jobs (k y z)) \<Longrightarrow> leaves_jobs (case p of (y, z) \<Rightarrow> k y z)"
  by (cases b; cases x; cases p; simp)+

lemma leaves_reserve: "leaves_jobs (reserve_spend digest now rid c phase provider model tin tout amount key)"
  unfolding reserve_spend_def by (intro leaves_intros) (simp add: insert_spend_def)

lemma leaves_commit: "leaves_jobs (commit_chapter digest now sid lid c m)"
  unfolding commit_chapter_def ensure_chapter_def
  by (intro leaves_intros)
    (simp_all add: insert_chapter_def insert_summary_def insert_cost_def settle_spend_def insert_receipt_def split: option.split)

lemma jobs_ok_leaves: "leaves_jobs m \<Longrightarrow> keeps jobs_ok m"
  by (simp add: leaves_jobs_def keeps_def jobs_ok_def)

lemma jobs_ok_cancel: "jobs_ok h \<Longrightarrow> jobs_ok (cancel_job ow i now h)"
proof (rule jobs_ok_update [where h = h and F = "\<lambda>r. if this_job ow i r then cancel_request now r else r" and G = id])
  assume ok: "jobs_ok h"
  show "jobs_ok h" by fact
  show "h_jobs (cancel_job ow i now h) = map (\<lambda>r. if this_job ow i r then cancel_request now r else r) (h_jobs h)"
    "h_attempts (cancel_job ow i now h) = map id (h_attempts h)"
    by (simp_all add: cancel_job_def update_where_def)
  fix j assume j: "j \<in> set (h_jobs h)"
  then have "job_local j" using ok by (simp add: jobs_ok_def)
  then show "job_local (if this_job ow i j then cancel_request now j else j)"
    by (auto simp: cancel_request_def transition_defs)
  show "running (if this_job ow i j then cancel_request now j else j) \<Longrightarrow> running j"
    by (auto simp: cancel_request_def transition_defs split: if_splits)
  fix a assume "a \<in> set (h_attempts h)" "of_job j a" "la_finished a = None" "la_no a = jb_attempts j"
  then have "running j" using attempt_bound [OF ok _ j] by blast
  then have "running (if this_job ow i j then cancel_request now j else j)"
    by (auto simp: cancel_request_def transition_defs)
  with \<open>la_finished a = None\<close> show "(la_finished (id a) = None) = running (if this_job ow i j then cancel_request now j else j)"
    by simp
qed (auto simp: cancel_request_def close_job_def)

lemma jobs_ok_enqueue: "keeps jobs_ok (enqueue_job ow i book incarnation ready now)"
proof (rule keepsI)
  fix h assume ok: "jobs_ok h"
  show "jobs_ok (snd (enqueue_job ow i book incarnation ready now h))"
    unfolding enqueue_job_def
  proof (rule jobs_ok_snd_atomically [OF ok])
    fix x h' assume "bindA (asks (\<lambda>h. list_ex (this_job ow i) (h_jobs h))) (\<lambda>dup. if dup then raise (IntegrityError ''jobs'')
     else modify (\<lambda>h. h\<lparr>h_jobs := h_jobs h @
       [\<lparr>jb_owner = ow, jb_id = i, jb_book = Some book, jb_incarnation = Some incarnation, jb_credential = ready,
         jb_kind = ''ingest_book'', jb_state = (if ready \<noteq> None then JPending else JWaiting), jb_attempts = 0, jb_max = 3,
         jb_priority = 0, jb_run_after = now, jb_cancel = None, jb_error = None, jb_created = now, jb_updated = now,
         jb_completed = None\<rparr>]\<rparr>)) h = (Inr x, h')"
    then obtain j where j: "h_jobs h' = h_jobs h @ [j]" "h_attempts h' = h_attempts h" "jb_owner j = ow" "jb_id j = i"
        "job_local j" "\<not> running j" and new: "\<not> list_ex (this_job ow i) (h_jobs h)"
      by (auto simp: bindA_Inr transition_defs split: if_splits)
    have "(ow, i) \<notin> (\<lambda>j. (jb_owner j, jb_id j)) ` set (h_jobs h)"
      using new by (auto simp: list_ex_iff this_job_def)
    with ok j show "jobs_ok h'" unfolding jobs_ok_def by auto
  qed
qed

lemma step_jobs_ok: "hosted_step digest h h' \<Longrightarrow> jobs_ok h \<Longrightarrow> jobs_ok h'"
  by (induction rule: hosted_step.induct)
    (auto intro: keepsD [OF jobs_ok_enqueue] keepsD [OF keeps_claim] keepsD [OF keeps_start] keepsD [OF keeps_heartbeat]
      keepsD [OF keeps_succeed] keepsD [OF keeps_fail] keepsD [OF jobs_ok_leaves [OF leaves_reserve]]
      keepsD [OF jobs_ok_leaves [OF leaves_commit]] jobs_ok_cancel)

lemma run_jobs_ok: "hosted_run digest h h' \<Longrightarrow> jobs_ok h \<Longrightarrow> jobs_ok h'"
  by (induction rule: rtranclp_induct) (auto intro: step_jobs_ok)

section \<open>Finished attempts stay finished\<close>

definition spent_attempt :: "uuid \<Rightarrow> uuid \<Rightarrow> int \<Rightarrow> hosted \<Rightarrow> bool" where
  "spent_attempt ow i n h = (\<exists>a \<in> set (h_attempts h). this_attempt ow i n a \<and> la_finished a \<noteq> None)"

lemma spent_update:
  assumes "spent_attempt ow i n h" "h_attempts h' = update_where Q g (h_attempts h) @ added"
    and "\<And>a. (la_owner (g a), la_job (g a), la_no (g a)) = (la_owner a, la_job a, la_no a)"
    and "\<And>a. la_finished a \<noteq> None \<Longrightarrow> la_finished (g a) \<noteq> None"
  shows "spent_attempt ow i n h'"
proof -
  from assms(1) obtain a where a: "a \<in> set (h_attempts h)" "this_attempt ow i n a" "la_finished a \<noteq> None"
    by (auto simp: spent_attempt_def)
  have "(if Q a then g a else a) \<in> set (h_attempts h')" using a(1) by (simp add: assms(2) update_where_def)
  moreover have "this_attempt ow i n (if Q a then g a else a)" "la_finished (if Q a then g a else a) \<noteq> None"
    using a(2,3) assms(3) [of a] assms(4) [of a] by (simp_all add: this_attempt_def)
  ultimately show ?thesis unfolding spent_attempt_def by blast
qed

lemma spent_same: "spent_attempt ow i n h \<Longrightarrow> h_attempts h' = h_attempts h \<Longrightarrow> spent_attempt ow i n h'"
  by (simp add: spent_attempt_def)

lemma spent_fields [simp]:
  "spent_attempt ow i n (audit w x y z u v h) = spent_attempt ow i n h" "spent_attempt ow i n (set_job o' i' f h) = spent_attempt ow i n h"
  by (simp_all add: spent_attempt_def)

lemma spent_set_attempt:
  assumes "spent_attempt ow i n h"
    and "\<And>a. (la_owner (g a), la_job (g a), la_no (g a)) = (la_owner a, la_job a, la_no a)"
    and "\<And>a. la_finished a \<noteq> None \<Longrightarrow> la_finished (g a) \<noteq> None"
  shows "spent_attempt ow i n (set_attempt o' i' n' g h)"
  by (rule spent_update [OF assms(1) _ assms(2,3), where added = "[]"]) simp

lemma spent_set_live:
  assumes "spent_attempt ow i n h"
    and "\<And>a. (la_owner (g a), la_job (g a), la_no (g a)) = (la_owner a, la_job a, la_no a)"
    and "\<And>a. la_finished a \<noteq> None \<Longrightarrow> la_finished (g a) \<noteq> None"
  shows "spent_attempt ow i n (set_live_attempt o' i' n' g h)"
  by (rule spent_update [OF assms(1) _ assms(2,3), where added = "[]"]) simp

lemma spent_expire: "spent_attempt ow i n h \<Longrightarrow> spent_attempt ow i n (expire_one now p h)"
  by (cases p) (simp add: expire_one_def spent_set_live finish_def)

lemma spent_recover: "spent_attempt ow i n h \<Longrightarrow> spent_attempt ow i n (recover_expired env now h)"
proof -
  have "spent_attempt ow i n (fold (expire_one now) rows h)" if "spent_attempt ow i n h" for rows
    using that by (induction rows arbitrary: h) (auto intro: spent_expire)
  then show "spent_attempt ow i n h \<Longrightarrow> spent_attempt ow i n (recover_expired env now h)" by (simp add: recover_expired_def)
qed

lemma spent_cancel_locked: "spent_attempt ow i n h \<Longrightarrow> spent_attempt ow i n (cancel_locked now c h)"
  by (simp add: cancel_locked_def spent_set_live finish_def)

lemma keeps_modify: "(\<And>s. P s \<Longrightarrow> P (f s)) \<Longrightarrow> keeps P (modify f)"
  by (simp add: keeps_def modify_def)

lemma keeps_asks: "keeps P (asks f)"
  by (simp add: keeps_def asks_def)

lemma keeps_atomically: "keeps P m \<Longrightarrow> keeps P (atomically m)"
  by (auto simp: keeps_def atomically_def split: prod.splits sum.splits)

lemma keeps_fence: "(\<And>j. keeps P (f j)) \<Longrightarrow> keeps P (fenced digest now c f)"
  unfolding fenced_def by (intro keeps_atomically keeps_intros keeps_asks)

lemmas keeps_db = keeps_modify keeps_asks keeps_atomically keeps_fence

lemma keeps_spent_start: "keeps (spent_attempt ow i n) (start digest now c)"
  unfolding start_def by (intro keeps_intros keeps_db spent_cancel_locked) (simp_all add: spent_set_attempt)

lemma keeps_spent_succeed: "keeps (spent_attempt ow i n) (succeed digest now c)"
  unfolding succeed_def by (intro keeps_intros keeps_db spent_cancel_locked) (simp_all add: spent_set_attempt finish_def)

lemma keeps_spent_fail: "keeps (spent_attempt ow i n) (fail digest failure retry c now)"
  unfolding fail_def by (intro keeps_intros keeps_db) (simp_all add: spent_set_attempt finish_def)

lemma keeps_spent_heartbeat: "keeps (spent_attempt ow i n) (heartbeat digest l c now)"
  unfolding heartbeat_def by (intro keeps_intros keeps_db) (simp_all add: spent_set_attempt)

lemma spent_lease: "spent_attempt ow i n h \<Longrightarrow> spent_attempt ow i n (lease_job digest worker secs token now j h)"
  by (auto simp: lease_job_def spent_attempt_def)

lemma keeps_spent_claim: "keeps (spent_attempt ow i n) (claim_next digest env w l token now)"
  unfolding claim_next_def by (intro keeps_intros keeps_db spent_recover spent_lease)

lemma step_spent: "hosted_step digest h h' \<Longrightarrow> spent_attempt ow i n h \<Longrightarrow> spent_attempt ow i n h'"
proof (induction rule: hosted_step.induct)
  case (step_enqueue h o' i' book incarnation ready now)
  then show ?case
    by (auto simp: enqueue_job_def atomically_def bindA_def asks_def modify_def raise_def spent_attempt_def)
next
  case (step_reserve h now rid c phase provider model tin tout amount key)
  then show ?case using leaves_reserve unfolding leaves_jobs_def by (blast intro: spent_same)
next
  case (step_commit h now sid lid c m)
  then show ?case using leaves_commit unfolding leaves_jobs_def by (blast intro: spent_same)
qed (auto intro: keepsD [OF keeps_spent_start] keepsD [OF keeps_spent_succeed] keepsD [OF keeps_spent_fail] keepsD [OF keeps_spent_heartbeat]
    keepsD [OF keeps_spent_claim] spent_same simp: cancel_job_def)

lemma run_spent: "hosted_run digest h h' \<Longrightarrow> spent_attempt ow i n h \<Longrightarrow> spent_attempt ow i n h'"
  by (induction rule: rtranclp_induct) (auto intro: step_spent)

lemma spent_fence:
  assumes "jobs_ok h" "spent_attempt (cl_owner c) (cl_job c) (cl_attempt c) h"
  shows "locked_lease digest now c h = Inl (LostLeaseError ''job lease is missing or expired'')"
proof (cases "locked_lease digest now c h")
  case (Inl e)
  then show ?thesis by (auto simp: locked_lease_def split: option.splits if_splits)
next
  case (Inr j)
  from locked_lease_Inr [OF this] obtain a where a: "a \<in> set (h_attempts h)"
    "this_attempt (cl_owner c) (cl_job c) (cl_attempt c) a" "la_finished a = None" by metis
  from assms(2) obtain b where b: "b \<in> set (h_attempts h)"
    "this_attempt (cl_owner c) (cl_job c) (cl_attempt c) b" "la_finished b \<noteq> None" by (auto simp: spent_attempt_def)
  have "a = b" using same_attempt [OF assms(1) a(1) b(1)] a(2) b(2) by (simp add: this_attempt_def)
  with a(3) b(3) show ?thesis by simp
qed

end
