(* ===== verification/JobLimits.thy ===== *)
theory JobLimits imports JobSafety begin

text \<open>
  The limits of an owner: the number of active jobs and the spend, kept by every job transaction; and the
  receipts of committed chapters, which no transaction takes away.
\<close>

section \<open>Concurrency\<close>

definition within_concurrency :: "hosted \<Rightarrow> bool" where
  "within_concurrency h = (\<forall>ow l. h_limits h ow = Some l \<longrightarrow> active ow h \<le> ol_concurrency l)"

definition calm :: "(uuid \<Rightarrow> owner_limit option) \<Rightarrow> (uuid \<Rightarrow> int) \<Rightarrow> hosted \<Rightarrow> bool" where
  "calm L A h = (h_limits h = L \<and> (\<forall>ow. active ow h \<le> A ow))"

lemma length_filter_map_le:
  assumes "\<And>x. x \<in> set xs \<Longrightarrow> P (F x) \<Longrightarrow> P x"
  shows "length (filter P (map F xs)) \<le> length (filter P xs)"
  using assms by (induction xs) auto

lemma active_map:
  assumes "h_jobs h' = map F (h_jobs h)"
    and "\<And>j. j \<in> set (h_jobs h) \<Longrightarrow> running (F j) \<Longrightarrow> jb_owner (F j) = jb_owner j \<and> running j"
  shows "active ow h' \<le> active ow h"
  unfolding active_def assms(1) running_def [symmetric]
  by (rule of_nat_mono [OF length_filter_map_le]) (use assms(2) in auto)

lemma active_same: "h_jobs h' = h_jobs h \<Longrightarrow> active ow h' = active ow h"
  by (simp add: active_def)

lemma calm_set_job:
  assumes "calm L A h" and "\<And>j. running (f j) \<Longrightarrow> jb_owner (f j) = jb_owner j \<and> running j"
  shows "calm L A (set_job ow i f h)"
proof -
  have "active o' (set_job ow i f h) \<le> active o' h" for o'
    by (rule active_map [where F = "\<lambda>r. if this_job ow i r then f r else r"])
      (use assms(2) in \<open>auto simp: update_where_def split: if_splits\<close>)
  with assms(1) show ?thesis by (auto simp: calm_def intro: order_trans)
qed

lemma calm_fields [simp]:
  "calm L A (audit w x y z u v h) = calm L A h" "calm L A (set_attempt ow i n g h) = calm L A h"
  "calm L A (set_live_attempt ow i n g h) = calm L A h"
  by (simp_all add: calm_def active_def)

lemma calm_expire: "calm L A h \<Longrightarrow> calm L A (expire_one now p h)"
  by (cases p) (auto simp: expire_one_def transition_defs intro: calm_set_job)

lemma calm_recover: "calm L A h \<Longrightarrow> calm L A (recover_expired env now h)"
proof -
  have "calm L A (fold (expire_one now) rows h)" if "calm L A h" for rows
    using that by (induction rows arbitrary: h) (auto intro: calm_expire)
  then show "calm L A h \<Longrightarrow> calm L A (recover_expired env now h)" by (simp add: recover_expired_def)
qed

lemma calm_cancel_locked: "calm L A h \<Longrightarrow> calm L A (cancel_locked now c h)"
  by (auto simp: cancel_locked_def transition_defs intro: calm_set_job)

lemma calm_transitions:
  "keeps (calm L A) (succeed digest now c)" "keeps (calm L A) (fail digest failure retry c now)"
  "keeps (calm L A) (heartbeat digest l c now)"
  unfolding succeed_def fail_def heartbeat_def
  by (intro keeps_intros keeps_db calm_cancel_locked; auto simp: transition_defs intro!: calm_set_job split: if_splits)+

lemma calm_start: "jobs_ok h \<Longrightarrow> calm L A h \<Longrightarrow> calm L A (snd (start digest now c h))"
proof -
  assume ok: "jobs_ok h" and P: "calm L A h"
  show ?thesis
  proof (cases "locked_lease digest now c h")
    case (Inl e)
    with P show ?thesis by (simp add: start_def fenced_snd)
  next
    case (Inr j)
    from locked_lease_Inr [OF Inr] have j: "j \<in> set (h_jobs h)" "jb_owner j = cl_owner c" "jb_id j = cl_job c" by metis+
    have one: "this_job (cl_owner c) (cl_job c) r \<Longrightarrow> r = j" if "r \<in> set (h_jobs h)" for r
      using same_job [OF ok that j(1)] j by (auto simp: this_job_def)
    have run: "running j" using fence_running [OF ok Inr] by blast
    let ?h = "audit (cl_owner c) ''job.start'' ''job'' (cl_job c) ''succeeded'' None
         (set_attempt (cl_owner c) (cl_job c) (cl_attempt c) (\<lambda>a. a\<lparr>la_started := Some now, la_heartbeat := Some now\<rparr>)
           (set_job (cl_owner c) (cl_job c) (\<lambda>r. r\<lparr>jb_state := JRunning, jb_updated := now\<rparr>) h))"
    have "active ow ?h \<le> active ow h" for ow
      by (rule active_map [where F = "\<lambda>r. if this_job (cl_owner c) (cl_job c) r then r\<lparr>jb_state := JRunning, jb_updated := now\<rparr> else r"])
        (use one run in \<open>auto simp: update_where_def split: if_splits\<close>)
    with P have "calm L A ?h" by (auto simp: calm_def intro: order_trans)
    with P calm_cancel_locked [OF P] Inr show ?thesis
      by (simp add: start_def fenced_snd bindA_def modify_def raise_def ret_def)
  qed
qed

lemma leaves_limits:
  "h_limits (snd (reserve_spend digest now rid c phase provider model tin tout amount key h)) = h_limits h"
  "h_limits (snd (commit_chapter digest now sid lid c m h)) = h_limits h"
proof -
  have k: "keeps (\<lambda>h. h_limits h = L) (reserve_spend digest now rid c phase provider model tin tout amount key)"
    "keeps (\<lambda>h. h_limits h = L) (commit_chapter digest now sid lid c m)" for L
    unfolding reserve_spend_def commit_chapter_def ensure_chapter_def
    by (intro keeps_intros keeps_db; simp add: insert_spend_def insert_chapter_def insert_summary_def insert_cost_def
        settle_spend_def insert_receipt_def split: option.split)+
  from keepsD [OF k(1) refl] show "h_limits (snd (reserve_spend digest now rid c phase provider model tin tout amount key h)) = h_limits h" .
  from keepsD [OF k(2) refl] show "h_limits (snd (commit_chapter digest now sid lid c m h)) = h_limits h" .
qed

lemma within_of_calm: "within_concurrency h \<Longrightarrow> calm (h_limits h) (\<lambda>ow. active ow h) h' \<Longrightarrow> within_concurrency h'"
  by (auto simp: within_concurrency_def calm_def) (meson order_trans)

lemma calm_step:
  "within_concurrency h \<Longrightarrow> calm (h_limits h) (\<lambda>ow. active ow h) h' \<Longrightarrow> h_limits h' = h_limits h \<and> within_concurrency h'"
  using within_of_calm by (simp add: calm_def)

lemma calm_self: "calm (h_limits h) (\<lambda>ow. active ow h) h"
  by (simp add: calm_def)

lemma active_lease:
  assumes ok: "jobs_ok h" and j: "j \<in> set (h_jobs h)" "jb_state j = JPending"
  shows "active ow (lease_job digest worker secs token now j h) = active ow h + (if ow = jb_owner j then 1 else 0)"
proof -
  let ?h = "lease_job digest worker secs token now j h"
  let ?P = "\<lambda>r. jb_owner r = ow \<and> running r"
  let ?F = "\<lambda>r. if this_job (jb_owner j) (jb_id j) r \<and> jb_state r = JPending
      then r\<lparr>jb_state := JLeased, jb_attempts := jb_attempts j + 1, jb_updated := now\<rparr> else r"
  have jobs: "h_jobs ?h = map ?F (h_jobs h)" by (simp add: lease_job_def update_where_def)
  have upd: "?F r = r" if "r \<in> set (h_jobs h)" "r \<noteq> j" for r
    using same_job [OF ok that(1) j(1)] that(2) by (auto simp: this_job_def)
  have at_j: "?F j = j\<lparr>jb_state := JLeased, jb_attempts := jb_attempts j + 1, jb_updated := now\<rparr>"
    using j(2) by (simp add: this_job_def)
  obtain xs ys where split: "h_jobs h = xs @ j # ys" using j(1) by (auto simp: in_set_conv_decomp)
  have "j \<notin> set xs" "j \<notin> set ys" using distinct_rows [OF ok] split by auto
  then have "map ?F xs = xs" "map ?F ys = ys" using upd split by (auto intro!: map_idI)
  then have "h_jobs ?h = xs @ ?F j # ys" by (simp only: jobs split map_append list.map)
  then show ?thesis
    unfolding active_def running_def [symmetric] at_j using split j(2) by (simp add: running_def)
qed

lemma claim_next_other:
  assumes c: "claim_next digest env w l token now h = (r, h')" and r: "\<not> (\<exists>cl. r = Inr (Some cl))"
  shows "h' = h \<or> h' = recover_expired env now h"
proof (cases r)
  case (Inl e)
  with c show ?thesis
    by (auto simp: claim_next_def bindA_def liftA_def atomically_def split: sum.splits prod.splits)
next
  case (Inr pick)
  with r have "r = Inr None" by (cases pick) auto
  with c show ?thesis by (auto simp: claim_next_def bindA_Inr atomically_Inr split: option.splits if_splits)
qed

lemma step_limits: "hosted_step digest h h' \<Longrightarrow> jobs_ok h \<Longrightarrow> within_concurrency h \<Longrightarrow> h_limits h' = h_limits h \<and> within_concurrency h'"
proof (induction rule: hosted_step.induct)
  case (step_enqueue h ow i book incarnation ready now)
  then have "calm (h_limits h) (\<lambda>ow. active ow h) (snd (enqueue_job ow i book incarnation ready now h))"
    by (auto simp: enqueue_job_def atomically_def bindA_def asks_def modify_def raise_def calm_def active_def)
  with step_enqueue(2) show ?case by (rule calm_step)
next
  case (step_claim h env w l token now)
  obtain r h' where c: "claim_next digest env w l token now h = (r, h')" by fastforce
  have rec: "calm (h_limits h) (\<lambda>ow. active ow h) (recover_expired env now h)" by (rule calm_recover [OF calm_self])
  show ?case
  proof (cases "\<exists>cl. r = Inr (Some cl)")
    case True
    with c obtain worker secs j where n: "next_job env now (recover_expired env now h) [] = Inr (Some j)"
        "h' = lease_job digest worker secs token now j (recover_expired env now h)"
      by (blast elim: claim_next_Some)
    from next_job_Some [OF n(1)] obtain ol where j: "j \<in> set (h_jobs (recover_expired env now h))" "jb_state j = JPending"
      "h_limits (recover_expired env now h) (jb_owner j) = Some ol" "active (jb_owner j) (recover_expired env now h) < ol_concurrency ol"
      by (auto simp: claimable_def)
    have lim: "h_limits h' = h_limits h" using rec n(2) by (simp add: calm_def lease_job_def)
    have w: "within_concurrency (recover_expired env now h)" using within_of_calm [OF step_claim(2) rec] .
    have "within_concurrency h'"
      unfolding within_concurrency_def
    proof (intro allI impI)
      fix ow l assume l: "h_limits h' ow = Some l"
      have a: "active ow h' = active ow (recover_expired env now h) + (if ow = jb_owner j then 1 else 0)"
        unfolding n(2) by (rule active_lease [OF jobs_ok_recover [OF step_claim(1)] j(1,2)])
      have "h_limits (recover_expired env now h) ow = Some l" using l lim rec by (simp add: calm_def)
      with a w j show "active ow h' \<le> ol_concurrency l" by (auto simp: within_concurrency_def)
    qed
    with lim c show ?thesis by simp
  next
    case False
    with c claim_next_other have "h' = h \<or> h' = recover_expired env now h" by blast
    with rec calm_self have "calm (h_limits h) (\<lambda>ow. active ow h) h'" by auto
    from calm_step [OF step_claim(2) this] c show ?thesis by simp
  qed
next
  case (step_start h now c)
  show ?case by (rule calm_step [OF step_start(2) calm_start [OF step_start(1) calm_self]])
next
  case (step_heartbeat h l c now)
  show ?case by (rule calm_step [OF step_heartbeat(2) keepsD [OF calm_transitions(3) calm_self]])
next
  case (step_succeed h now c)
  show ?case by (rule calm_step [OF step_succeed(2) keepsD [OF calm_transitions(1) calm_self]])
next
  case (step_fail h failure retry c now)
  show ?case by (rule calm_step [OF step_fail(2) keepsD [OF calm_transitions(2) calm_self]])
next
  case (step_reserve h now rid c phase provider model tin tout amount key)
  from leaves_reserve leaves_limits(1) have "calm (h_limits h) (\<lambda>ow. active ow h)
      (snd (reserve_spend digest now rid c phase provider model tin tout amount key h))"
    by (simp add: calm_def leaves_jobs_def active_def)
  with step_reserve(2) show ?case by (rule calm_step)
next
  case (step_commit h now sid lid c m)
  from leaves_commit leaves_limits(2) have "calm (h_limits h) (\<lambda>ow. active ow h) (snd (commit_chapter digest now sid lid c m h))"
    by (simp add: calm_def leaves_jobs_def active_def)
  with step_commit(2) show ?case by (rule calm_step)
next
  case (step_cancel h ow i now)
  have "calm (h_limits h) (\<lambda>ow. active ow h) (cancel_job ow i now h)"
    unfolding cancel_job_def
    by (rule calm_set_job [OF calm_self]) (auto simp: cancel_request_def transition_defs split: if_splits)
  with step_cancel(2) show ?case by (rule calm_step)
qed

section \<open>Spend\<close>

definition cents :: "rat \<Rightarrow> bool" where
  "cents x = (\<exists>k::int. x * 10 ^ 10 = of_int k)"

lemma cents_sum: "(\<And>x. x \<in> set xs \<Longrightarrow> cents x) \<Longrightarrow> cents (sum_list xs)"
proof (induction xs)
  case Nil
  show ?case by (auto simp: cents_def intro: exI [of _ 0])
next
  case (Cons x xs)
  then obtain k l :: int where "x * 10 ^ 10 = of_int k" "sum_list xs * 10 ^ 10 = of_int l" by (fastforce simp: cents_def)
  then have "(x + sum_list xs) * 10 ^ 10 = of_int (k + l)" by (simp add: distrib_right)
  then show ?case unfolding cents_def by (intro exI [of _ "k + l"]) simp
qed

lemma cents_diff: "cents x \<Longrightarrow> cents y \<Longrightarrow> cents (x - y)"
proof -
  assume "cents x" "cents y"
  then obtain k l :: int where "x * 10 ^ 10 = of_int k" "y * 10 ^ 10 = of_int l" by (auto simp: cents_def)
  then have "(x - y) * 10 ^ 10 = of_int (k - l)" by (simp add: left_diff_distrib)
  then show ?thesis unfolding cents_def by blast
qed

lemma numeric10_cents: "cents (numeric10 x)"
  by (simp add: cents_def numeric10_def)

lemma numeric10_le:
  assumes "x \<le> m" "cents m"
  shows "numeric10 x \<le> m"
proof -
  obtain k :: int where k: "m * 10 ^ 10 = of_int k" using assms(2) by (auto simp: cents_def)
  have "x * 10 ^ 10 \<le> m * 10 ^ 10" using assms(1) by (rule mult_right_mono) simp
  then have le: "x * 10 ^ 10 \<le> of_int k" by (simp only: k)
  have "\<lfloor>x * 10 ^ 10 + 1 / 2\<rfloor> \<le> k" using le by linarith
  moreover have "\<lceil>x * 10 ^ 10 - 1 / 2\<rceil> \<le> k" using le by linarith
  ultimately have "numeric10 x * 10 ^ 10 \<le> of_int k" by (simp add: numeric10_def)
  then have "numeric10 x * 10 ^ 10 \<le> m * 10 ^ 10" by (simp only: k)
  then show ?thesis by simp
qed

definition money_ok :: "hosted \<Rightarrow> bool" where
  "money_ok h = ((\<forall>r \<in> set (h_spend h). cents (sv_usd r)) \<and> (\<forall>r \<in> set (h_ledger h). cents (co_usd r)) \<and>
     (\<forall>ow l s. h_limits h ow = Some l \<longrightarrow> ol_spend l = Some s \<longrightarrow> cents s \<and> ledger_usd ow h + reserved_usd ow (\<lambda>_. True) h \<le> s))"

lemma cents_usage:
  assumes "money_ok h"
  shows "cents (ledger_usd ow h)" "cents (reserved_usd ow P h)"
  using assms unfolding ledger_usd_def reserved_usd_def by (auto simp: money_ok_def intro!: cents_sum)

lemma fenced_Inr:
  "fenced digest now c f h = (Inr x, h') \<longleftrightarrow> (\<exists>j. locked_lease digest now c h = Inr j \<and> f j h = (Inr x, h'))"
  by (auto simp: fenced_def atomically_Inr bindA_Inr)

lemma store_usd_Inr: "store_usd x = Inr y \<Longrightarrow> y = numeric10 x"
  by (simp add: store_usd_def split: if_splits)

lemma limit_of_Inr: "limit_of ow h = Inr l \<longleftrightarrow> h_limits h ow = Some l"
  by (auto simp: limit_of_def split: option.splits)

lemma reserve_spend_Inr:
  assumes "reserve_spend digest now rid c phase provider model tin tout amount key h = (Inr i, h')"
  shows "(\<exists>r. spend_of (cl_owner c) key h = Some r \<and> sv_id r = i \<and> h' = h \<and> sv_usd r = amount) \<or>
    (\<exists>l. spend_of (cl_owner c) key h = None \<and> i = rid \<and> 0 \<le> amount \<and> 0 \<le> tin \<and> 0 \<le> tout \<and> phase \<in> set phases \<and>
       h_limits h (cl_owner c) = Some l \<and>
       (\<forall>s. ol_spend l = Some s \<longrightarrow> ledger_usd (cl_owner c) h + reserved_usd (cl_owner c) (\<lambda>_. True) h + amount \<le> s) \<and>
       h' = insert_spend c rid phase provider model tin tout (numeric10 amount) key h)"
proof (cases "spend_of (cl_owner c) key h")
  case None
  with assms show ?thesis
    by (auto simp: reserve_spend_def fenced_Inr bindA_Inr limit_of_Inr store_bigint_def not_less
        split: if_splits option.splits dest!: store_usd_Inr)
next
  case (Some r)
  with assms show ?thesis
    by (auto simp: reserve_spend_def fenced_Inr bindA_Inr split: if_splits)
qed

lemma usage_insert:
  "ledger_usd ow (insert_spend c rid phase provider model tin tout usd key h) = ledger_usd ow h"
  "reserved_usd ow P (insert_spend c rid phase provider model tin tout usd key h) =
     reserved_usd ow P h + (if ow = cl_owner c \<and> P rid then usd else 0)"
  by (simp_all add: ledger_usd_def reserved_usd_def insert_spend_def)

lemma money_reserve:
  assumes "money_ok h"
  shows "money_ok (snd (reserve_spend digest now rid c phase provider model tin tout amount key h))"
proof -
  obtain r h' where res: "reserve_spend digest now rid c phase provider model tin tout amount key h = (r, h')" by fastforce
  show ?thesis
  proof (cases r)
    case (Inl e)
    with res have "h' = h"
      by (auto simp: reserve_spend_def raise_def fenced_def dest!: atomically_Inl split: if_splits)
    with res assms show ?thesis by simp
  next
    case (Inr i)
    from reserve_spend_Inr [OF res [unfolded Inr]] show ?thesis
    proof (elim disjE exE conjE)
      fix x assume "h' = h"
      with res assms show ?thesis by simp
    next
      fix l assume l: "h_limits h (cl_owner c) = Some l"
        "\<forall>s. ol_spend l = Some s \<longrightarrow> ledger_usd (cl_owner c) h + reserved_usd (cl_owner c) (\<lambda>_. True) h + amount \<le> s" and
        h': "h' = insert_spend c rid phase provider model tin tout (numeric10 amount) key h"
      have f: "h_limits h' = h_limits h" "h_ledger h' = h_ledger h" by (simp_all add: h' insert_spend_def)
      have "ledger_usd ow h' + reserved_usd ow (\<lambda>_. True) h' \<le> s" if lim: "h_limits h ow = Some k" "ol_spend k = Some s" for ow k s
      proof -
        have old: "cents s" "ledger_usd ow h + reserved_usd ow (\<lambda>_. True) h \<le> s" using assms lim by (auto simp: money_ok_def)
        show ?thesis
        proof (cases "ow = cl_owner c")
          case True
          let ?used = "ledger_usd ow h + reserved_usd ow (\<lambda>_. True) h"
          have "amount \<le> s - ?used" using l lim True by (simp add: algebra_simps)
          moreover have "cents (s - ?used)"
            using cents_diff [OF cents_diff [OF old(1) cents_usage(1) [OF assms]] cents_usage(2) [OF assms]] by (simp add: algebra_simps)
          ultimately have "numeric10 amount \<le> s - ?used" by (rule numeric10_le)
          with True show ?thesis by (simp add: h' usage_insert)
        next
          case False
          with old show ?thesis by (simp add: h' usage_insert)
        qed
      qed
      moreover have "\<forall>x \<in> set (h_spend h'). cents (sv_usd x)"
        using assms by (auto simp: h' insert_spend_def money_ok_def numeric10_cents)
      ultimately have "money_ok h'" using assms by (auto simp: money_ok_def f)
      with res show ?thesis by simp
    qed
  qed
qed

text \<open>A commit that returns.\<close>

definition committed :: "claim \<Rightarrow> commit_args \<Rightarrow> uuid \<Rightarrow> uuid \<Rightarrow> rat \<Rightarrow> spend_row option \<Rightarrow> hosted \<Rightarrow> hosted" where
  "committed c m sid lid now res h =
     audit (cl_owner c) ''chapter.commit'' ''chapter'' (cm_chapter m) ''succeeded'' None
       (insert_receipt (cl_owner c) m (numeric10 (cm_usd m)) now
         (settle_spend (cl_owner c) m (numeric10 (cm_usd m)) now res
           (insert_cost c m lid (numeric10 (cm_usd m)) (insert_summary (cl_owner c) m sid h))))"

lemma ensure_chapter_Inr: "ensure_chapter ow m h = (Inr x, h1) \<Longrightarrow> h1 = h \<or> h1 = insert_chapter ow m h"
  by (auto simp: ensure_chapter_def bindA_Inr split: option.splits if_splits)

lemma commit_Inr:
  assumes "commit_chapter digest now sid lid c m h = (Inr b, h')"
  shows "(\<not> b \<and> h' = h \<and> (\<exists>r. receipt_for (cl_owner c) m h = Some r \<and> hr_hash r = cm_hash m)) \<or>
    (b \<and> receipt_for (cl_owner c) m h = None \<and> (\<exists>res h1. commit_spend (cl_owner c) m h = Inr res \<and>
       (h1 = h \<or> h1 = insert_chapter (cl_owner c) m h) \<and>
       cost_insertable (cl_owner c) m lid h \<and> h' = committed c m sid lid now res h1))"
proof (cases "receipt_for (cl_owner c) m h")
  case (Some r)
  with assms show ?thesis
    by (auto simp: commit_chapter_def fenced_Inr bindA_Inr split: if_splits)
next
  case None
  have lid: "cost_insertable (cl_owner c) m lid (insert_summary (cl_owner c) m sid h1) = cost_insertable (cl_owner c) m lid h"
    if "h1 = h \<or> h1 = insert_chapter (cl_owner c) m h" for h1
    using that by (auto simp: cost_insertable_def insert_summary_def insert_chapter_def)
  from None assms obtain res h1 usd where *: "b" "commit_spend (cl_owner c) m h = Inr res" "ensure_chapter (cl_owner c) m h = (Inr (), h1)"
      "store_usd (cm_usd m) = Inr usd" "cost_insertable (cl_owner c) m lid (insert_summary (cl_owner c) m sid h1)"
      "h' = audit (cl_owner c) ''chapter.commit'' ''chapter'' (cm_chapter m) ''succeeded'' None
       (insert_receipt (cl_owner c) m usd now (settle_spend (cl_owner c) m usd now res
           (insert_cost c m lid usd (insert_summary (cl_owner c) m sid h1))))"
    by (auto simp: commit_chapter_def fenced_Inr bindA_Inr split: if_splits)
  from ensure_chapter_Inr [OF *(3)] lid * store_usd_Inr [OF *(4)] None show ?thesis by (auto simp: committed_def)
qed

lemma usage_committed:
  assumes "h1 = h \<or> h1 = insert_chapter (cl_owner c) m h"
  shows "h_limits (committed c m sid lid now res h1) = h_limits h"
    and "ledger_usd ow (committed c m sid lid now res h1) = ledger_usd ow h + (if ow = cl_owner c then numeric10 (cm_usd m) else 0)"
    and "reserved_usd ow P (committed c m sid lid now res h1) =
      (case res of None \<Rightarrow> reserved_usd ow P h
       | Some r \<Rightarrow> if ow = cl_owner c then reserved_usd ow (\<lambda>i. P i \<and> i \<noteq> sv_id r) h else reserved_usd ow P h)"
    and "\<forall>x \<in> set (h_spend (committed c m sid lid now res h1)). \<exists>y \<in> set (h_spend h). sv_usd x = sv_usd y"
    and "set (h_ledger (committed c m sid lid now res h1)) \<subseteq> insert (last (h_ledger (insert_cost c m lid (numeric10 (cm_usd m)) h))) (set (h_ledger h))"
proof -
  have settled: "sum_list (map sv_usd (filter (\<lambda>r. sv_owner r = ow \<and> sv_state r = ''reserved'' \<and> P (sv_id r))
      (update_where (\<lambda>x. sv_owner x = cl_owner c \<and> sv_id x = i \<and> sv_state x = ''reserved'')
        (\<lambda>x. x\<lparr>sv_actual := v, sv_state := ''settled'', sv_settled := t\<rparr>) rs))) =
    sum_list (map sv_usd (filter (\<lambda>r. sv_owner r = ow \<and> sv_state r = ''reserved'' \<and> P (sv_id r) \<and> (ow = cl_owner c \<longrightarrow> sv_id r \<noteq> i)) rs))"
    for i v t and rs :: "spend_row list"
    by (induction rs) (auto simp: update_where_def)
  have base: "h_spend h1 = h_spend h" "h_ledger h1 = h_ledger h" "h_limits h1 = h_limits h"
    using assms by (auto simp: insert_chapter_def)
  show "h_limits (committed c m sid lid now res h1) = h_limits h"
    by (simp add: committed_def insert_receipt_def settle_spend_def insert_cost_def insert_summary_def base split: option.split)
  have led: "h_ledger (committed c m sid lid now res h1) = h_ledger (insert_cost c m lid (numeric10 (cm_usd m)) h)"
    by (simp add: committed_def insert_receipt_def settle_spend_def insert_cost_def insert_summary_def base split: option.split)
  then show "ledger_usd ow (committed c m sid lid now res h1) = ledger_usd ow h + (if ow = cl_owner c then numeric10 (cm_usd m) else 0)"
    by (simp add: ledger_usd_def) (simp add: insert_cost_def)
  show "set (h_ledger (committed c m sid lid now res h1)) \<subseteq> insert (last (h_ledger (insert_cost c m lid (numeric10 (cm_usd m)) h))) (set (h_ledger h))"
    unfolding led by (auto simp: insert_cost_def)
  have sp: "h_spend (committed c m sid lid now res h1) = (case res of None \<Rightarrow> h_spend h
      | Some r \<Rightarrow> update_where (\<lambda>x. sv_owner x = cl_owner c \<and> sv_id x = sv_id r \<and> sv_state x = ''reserved'')
        (\<lambda>x. x\<lparr>sv_actual := Some (cm_in m, cm_out m, numeric10 (cm_usd m)), sv_state := ''settled'', sv_settled := Some now\<rparr>) (h_spend h))"
    by (simp add: committed_def insert_receipt_def settle_spend_def insert_cost_def insert_summary_def base split: option.split)
  show "reserved_usd ow P (committed c m sid lid now res h1) =
      (case res of None \<Rightarrow> reserved_usd ow P h
       | Some r \<Rightarrow> if ow = cl_owner c then reserved_usd ow (\<lambda>i. P i \<and> i \<noteq> sv_id r) h else reserved_usd ow P h)"
    unfolding reserved_usd_def sp by (simp add: settled split: option.split)
  show "\<forall>x \<in> set (h_spend (committed c m sid lid now res h1)). \<exists>y \<in> set (h_spend h). sv_usd x = sv_usd y"
    unfolding sp by (auto simp: update_where_def split: option.splits if_splits)
qed

lemma commit_spend_Inr:
  assumes "commit_spend ow m h = Inr res" "h_limits h ow = Some l" "ol_spend l = Some s"
  shows "\<exists>r. res = Some r \<and> ledger_usd ow h + reserved_usd ow (\<lambda>i. i \<noteq> sv_id r) h + cm_usd m \<le> s"
proof (cases "spend_of ow (cm_cost_key m) h")
  case None
  with assms show ?thesis by (simp add: commit_spend_def limit_of_def)
next
  case (Some r)
  with assms have "res = Some r" "ledger_usd ow h + reserved_usd ow (\<lambda>i. i \<noteq> sv_id r) h + cm_usd m \<le> s"
    by (simp_all add: commit_spend_def limit_of_def not_less split: if_splits)
  then show ?thesis by blast
qed

lemma money_commit:
  assumes "money_ok h"
  shows "money_ok (snd (commit_chapter digest now sid lid c m h))"
proof -
  obtain r h' where res: "commit_chapter digest now sid lid c m h = (r, h')" by fastforce
  show ?thesis
  proof (cases r)
    case (Inl e)
    with res have "h' = h"
      by (auto simp: commit_chapter_def raise_def fenced_def dest!: atomically_Inl split: if_splits)
    with res assms show ?thesis by simp
  next
    case (Inr b)
    show ?thesis
    proof (cases "h' = h")
      case True
      with res assms show ?thesis by simp
    next
      case False
      with commit_Inr [OF res [unfolded Inr]] obtain v h1 where v: "commit_spend (cl_owner c) m h = Inr v" and
        h1: "h1 = h \<or> h1 = insert_chapter (cl_owner c) m h" and h': "h' = committed c m sid lid now v h1" by blast
      note u = usage_committed [OF h1, where sid = sid and lid = lid and now = now and res = v]
      have "cents s \<and> ledger_usd ow h' + reserved_usd ow (\<lambda>_. True) h' \<le> s" if lim: "h_limits h ow = Some k" "ol_spend k = Some s" for ow k s
      proof -
        have old: "cents s" "ledger_usd ow h + reserved_usd ow (\<lambda>_. True) h \<le> s" using assms lim by (auto simp: money_ok_def)
        show ?thesis
        proof (cases "ow = cl_owner c")
          case True
          from commit_spend_Inr [OF v] lim True obtain r where r: "v = Some r"
            "ledger_usd ow h + reserved_usd ow (\<lambda>i. i \<noteq> sv_id r) h + cm_usd m \<le> s" by blast
          let ?used = "ledger_usd ow h + reserved_usd ow (\<lambda>i. i \<noteq> sv_id r) h"
          have "cm_usd m \<le> s - ?used" using r(2) by (simp add: algebra_simps)
          moreover have "cents (s - ?used)"
            using cents_diff [OF cents_diff [OF old(1) cents_usage(1) [OF assms]] cents_usage(2) [OF assms]] by (simp add: algebra_simps)
          ultimately have "numeric10 (cm_usd m) \<le> s - ?used" by (rule numeric10_le)
          with True old(1) show ?thesis unfolding h' u(2) u(3) by (simp add: r(1))
        next
          case False
          with old show ?thesis unfolding h' u(2) u(3) by (simp split: option.split)
        qed
      qed
      moreover have "\<forall>x \<in> set (h_spend h'). cents (sv_usd x)"
        using u(4) assms unfolding h' by (metis money_ok_def)
      moreover have "\<forall>x \<in> set (h_ledger h'). cents (co_usd x)"
        using u(5) assms unfolding h' by (fastforce simp: money_ok_def insert_cost_def numeric10_cents)
      ultimately have "money_ok h'" using u(1) by (auto simp: money_ok_def h')
      with res show ?thesis by simp
    qed
  qed
qed

text \<open>The other transactions do not touch money, and no transaction takes a receipt away.\<close>

definition books_are :: "spend_row list \<Rightarrow> cost_row list \<Rightarrow> (uuid \<Rightarrow> owner_limit option) \<Rightarrow> hreceipt_row list \<Rightarrow> hosted \<Rightarrow> bool" where
  "books_are sp led lims rec h = (h_spend h = sp \<and> h_ledger h = led \<and> h_limits h = lims \<and> h_receipts h = rec)"

lemma books_fields [simp]:
  "books_are sp led lims rec (audit w x y z u v h) = books_are sp led lims rec h"
  "books_are sp led lims rec (set_job ow i f h) = books_are sp led lims rec h"
  "books_are sp led lims rec (set_attempt ow i n g h) = books_are sp led lims rec h"
  "books_are sp led lims rec (set_live_attempt ow i n g h) = books_are sp led lims rec h"
  "books_are sp led lims rec (cancel_locked now c h) = books_are sp led lims rec h"
  "books_are sp led lims rec (lease_job digest worker secs token now j h) = books_are sp led lims rec h"
  "books_are sp led lims rec (cancel_job ow i now h) = books_are sp led lims rec h"
  by (simp_all add: books_are_def cancel_locked_def lease_job_def cancel_job_def)

lemma books_recover: "books_are sp led lims rec h \<Longrightarrow> books_are sp led lims rec (recover_expired env now h)"
proof -
  have one: "books_are sp led lims rec (expire_one now p h) = books_are sp led lims rec h" for p h
    by (cases p) (simp add: expire_one_def)
  have "books_are sp led lims rec (fold (expire_one now) rows h) = books_are sp led lims rec h" for rows
    by (induction rows arbitrary: h) (simp_all add: one)
  then show "books_are sp led lims rec h \<Longrightarrow> books_are sp led lims rec (recover_expired env now h)"
    by (simp add: recover_expired_def)
qed

lemma keeps_books:
  "keeps (books_are sp led lims rec) (start digest now c)" "keeps (books_are sp led lims rec) (succeed digest now c)"
  "keeps (books_are sp led lims rec) (fail digest failure retry c now)" "keeps (books_are sp led lims rec) (heartbeat digest l c now)"
  "keeps (books_are sp led lims rec) (claim_next digest env w l token now)"
  unfolding start_def succeed_def fail_def heartbeat_def claim_next_def
  by (intro keeps_intros keeps_db books_recover; simp)+

lemma keeps_books_enqueue: "keeps (books_are sp led lims rec) (enqueue_job ow i book incarnation ready now)"
  unfolding enqueue_job_def by (intro keeps_intros keeps_db) (simp add: books_are_def)

definition money_same :: "hosted \<Rightarrow> hosted \<Rightarrow> bool" where
  "money_same h h' = (h_spend h' = h_spend h \<and> h_ledger h' = h_ledger h \<and> h_limits h' = h_limits h \<and> h_receipts h' = h_receipts h)"

lemma keeps_money_same: "(\<And>sp led lims rec. keeps (books_are sp led lims rec) m) \<Longrightarrow> money_same h (snd (m h))"
  using keepsD [of "books_are (h_spend h) (h_ledger h) (h_limits h) (h_receipts h)" m h]
  by (simp add: books_are_def money_same_def)

lemma money_same_ok: "money_same h h' \<Longrightarrow> money_ok h \<Longrightarrow> money_ok h'"
  by (simp add: money_same_def money_ok_def ledger_usd_def reserved_usd_def)

lemma money_same_ops:
  "money_same h (snd (enqueue_job ow i book incarnation ready now h))" "money_same h (snd (claim_next digest env w l token now h))"
  "money_same h (snd (start digest now c h))" "money_same h (snd (heartbeat digest l c now h))"
  "money_same h (snd (succeed digest now c h))" "money_same h (snd (fail digest failure retry c now h))"
  "money_same h (cancel_job ow i now h)"
  by ((rule keeps_money_same, rule keeps_books keeps_books_enqueue)+) (simp add: money_same_def cancel_job_def)

lemma step_money_cases:
  "hosted_step digest h h' \<Longrightarrow> money_same h h' \<or>
     (\<exists>now rid c phase provider model tin tout amount key.
        h' = snd (reserve_spend digest now rid c phase provider model tin tout amount key h)) \<or>
     (\<exists>now sid lid c m. h' = snd (commit_chapter digest now sid lid c m h))"
  by (induction rule: hosted_step.induct) (simp_all only: money_same_ops simp_thms, blast+)

lemma step_money: "hosted_step digest h h' \<Longrightarrow> money_ok h \<Longrightarrow> money_ok h'"
  using money_same_ok money_reserve money_commit by (auto dest!: step_money_cases)

lemma receipts_grow:
  assumes "hosted_step digest h h'"
  shows "\<exists>more. h_receipts h' = h_receipts h @ more"
proof -
  consider (same) "money_same h h'"
    | (reserve) now rid c phase provider model tin tout amount key where
        "h' = snd (reserve_spend digest now rid c phase provider model tin tout amount key h)"
    | (commit) now sid lid c m where "h' = snd (commit_chapter digest now sid lid c m h)"
    using step_money_cases [OF assms] by blast
  then show ?thesis
  proof cases
  case same
  then show ?thesis by (simp add: money_same_def)
next
  case reserve
  have "keeps (\<lambda>x. h_receipts x = h_receipts h) (reserve_spend digest now rid c phase provider model tin tout amount key)"
    unfolding reserve_spend_def by (intro keeps_intros keeps_db) (simp add: insert_spend_def)
  from keepsD [OF this refl] reserve show ?thesis by simp
next
  case commit
  obtain r h2 where res: "commit_chapter digest now sid lid c m h = (r, h2)" by fastforce
  show ?thesis
  proof (cases r)
    case (Inl e)
    with res have "h2 = h" by (auto simp: commit_chapter_def raise_def fenced_def dest!: atomically_Inl split: if_splits)
    with res commit show ?thesis by simp
  next
    case (Inr b)
    from commit_Inr [OF res [unfolded Inr]] res commit show ?thesis
      by (auto simp: committed_def insert_receipt_def settle_spend_def insert_cost_def insert_summary_def insert_chapter_def
          split: option.splits)
  qed
  qed
qed

lemma run_receipts: "hosted_run digest h h' \<Longrightarrow> \<exists>more. h_receipts h' = h_receipts h @ more"
proof (induction rule: rtranclp_induct)
  case (step y z)
  then show ?case using receipts_grow [OF step(2)] by auto
qed simp

end
