(* ===== verification/JobRuns.thy ===== *)
theory JobRuns imports JobLimits begin

text \<open>
  What holds after any interleaving of job transactions from an empty database: one lease per job, fenced
  workers, bounded concurrency and spend, chapters committed once, waiting work claimed.
\<close>

section \<open>Reachable databases\<close>

definition empty_hosted :: "(uuid \<Rightarrow> owner_limit option) \<Rightarrow> hosted" where
  "empty_hosted L = \<lparr>h_jobs = [], h_attempts = [], h_limits = L, h_spend = [], h_ledger = [], h_chapters = [],
     h_summaries = [], h_receipts = [], h_credentials = [], h_settings = [], h_audit = []\<rparr>"

lemma reachable_jobs_ok: "hosted_run digest (empty_hosted L) h \<Longrightarrow> jobs_ok h"
  by (erule run_jobs_ok) (simp add: jobs_ok_def empty_hosted_def)

lemma reachable_limits:
  assumes "hosted_run digest (empty_hosted L) h" "\<And>ow l. L ow = Some l \<Longrightarrow> 0 \<le> ol_concurrency l"
  shows "h_limits h = L \<and> within_concurrency h"
  using assms(1)
proof (induction rule: rtranclp_induct)
  case base
  show ?case using assms(2) by (auto simp: empty_hosted_def within_concurrency_def active_def)
next
  case (step y z)
  with step_limits [OF step(2)] reachable_jobs_ok show ?case by auto
qed

lemma reachable_money:
  assumes "hosted_run digest (empty_hosted L) h" "\<And>ow l s. L ow = Some l \<Longrightarrow> ol_spend l = Some s \<Longrightarrow> numeric10 s = s \<and> 0 \<le> s"
  shows "money_ok h"
  using assms(1)
proof (induction rule: rtranclp_induct)
  case base
  have "cents s \<and> 0 \<le> s" if "L ow = Some l" "ol_spend l = Some s" for ow l s
    using assms(2) [OF that] numeric10_cents [of s] by simp
  then show ?case by (simp add: empty_hosted_def money_ok_def ledger_usd_def reserved_usd_def)
next
  case (step y z)
  then show ?case by (blast intro: step_money)
qed

lemma lost_is_unchanged:
  assumes "locked_lease digest now c h = Inl e"
  shows "fenced digest now c f h = (Inl e, h)"
  using assms by (simp add: fenced_def atomically_def bindA_def asks_def liftA_def)

section \<open>Waiting work\<close>

lemma pending_survives:
  "jobs_ok h \<Longrightarrow> expirable rows h \<Longrightarrow> j \<in> set (h_jobs h) \<Longrightarrow> \<not> running j \<Longrightarrow> j \<in> set (h_jobs (fold (expire_one now) rows h))"
proof (induction rows arbitrary: h)
  case (Cons p rows)
  obtain a r where p: "p = (a, r)" by fastforce
  from Cons.prems(2) p have ar: "a \<in> set (h_attempts h)" "r \<in> set (h_jobs h)" "of_job r a" "la_finished a = None"
    by (auto simp: expirable_def)
  then have "running r" using attempt_bound [OF Cons.prems(1)] by blast
  then have "\<not> this_job (la_owner a) (la_job a) j"
    using same_job [OF Cons.prems(1,3) ar(2)] Cons.prems(4) ar(3) by (auto simp: this_job_def of_job_def)
  then have "j \<in> set (h_jobs (expire_one now (a, r) h))"
    using Cons.prems(3) by (auto simp: expire_one_def update_where_def image_iff)
  with Cons.IH expire_one_step [OF Cons.prems(1) Cons.prems(2) [unfolded p]] Cons.prems(4) show ?case by (simp add: p)
qed simp

lemma expirable_expired: "jobs_ok h \<Longrightarrow> expirable (expired_rows env now h) h"
  by (auto simp: expirable_def expired_rows_def this_job_of distinct_product distinct_rows)

lemma owners_after_recover:
  "map jb_owner (h_jobs (recover_expired env now h)) = map jb_owner (h_jobs h)"
proof -
  have one: "map jb_owner (h_jobs (expire_one now p h)) = map jb_owner (h_jobs h)" for p h
    by (cases p) (simp add: expire_one_def map_update_where close_job_def)
  have "map jb_owner (h_jobs (fold (expire_one now) rows h)) = map jb_owner (h_jobs h)" for rows
    by (induction rows arbitrary: h) (simp_all add: one)
  then show ?thesis by (simp add: recover_expired_def)
qed

lemma lease_holder:
  assumes "locked_lease digest now c h = Inr j"
  obtains a where "a \<in> set (h_attempts h)" "holds_lease digest c a"
proof -
  from assms obtain a where "find (holds_lease digest c) (h_attempts h) = Some a"
    by (auto simp: locked_lease_def split: option.splits)
  then show ?thesis by (intro that [of a]) (auto simp: find_Some_iff)
qed

lemma next_job_Inl:
  "next_job env now h blocked = Inl e \<Longrightarrow> \<exists>j \<in> set (h_jobs h). h_limits h (jb_owner j) = None"
proof (induction env now h blocked rule: next_job.induct)
  case (1 env now h blocked)
  show ?case
  proof (cases "candidate env now h blocked")
    case None
    with "1.prems" show ?thesis by (simp add: next_job_stop)
  next
    case (Some r)
    from Some show ?thesis
    proof (cases rule: next_job_cases)
      case block
      have rest: "next_job env now h (jb_owner r # blocked) = Inl e" using "1.prems" block(2) by argo
      show ?thesis by (rule "1.IH"(1) [OF Some block(1) rest])
    next
      case no_policy
      with candidate_Some [OF Some] show ?thesis by blast
    next
      case (found l)
      with "1.prems" show ?thesis by simp
    next
      case (full l)
      have rest: "next_job env now h (jb_owner r # blocked) = Inl e" using "1.prems" full(4) by argo
      have no: "\<not> active (jb_owner r) h < ol_concurrency l" "\<not> \<not> pg_free env (jb_owner r)" using full by simp_all
      show ?thesis by (rule "1.IH"(2) [OF Some no(2) full(2) no(1) rest])
    qed
  qed
qed

lemma idle_key_free:
  assumes ok: "jobs_ok h" and j: "j \<in> set (h_jobs h)" "\<not> running j"
  shows "attempt_key_free (jb_owner j) (jb_id j) (jb_attempts j + 1) h"
proof -
  have "la_no a \<noteq> jb_attempts j + 1 \<and> la_finished a \<noteq> None"
    if "a \<in> set (h_attempts h)" "la_owner a = jb_owner j" "la_job a = jb_id j" for a
    using attempt_bound [OF ok that(1) j(1)] that j(2) by (auto simp: of_job_def)
  then show ?thesis by (auto simp: attempt_key_free_def list_ex_iff)
qed

section \<open>Properties\<close>

text \<open>
  Property C11: two claims of the same job that both pass the lease fence of \<^verbatim>\<open>_locked_lease\<close> are the same
  lease: same attempt number, worker and token digest, and the job is leased or running. So no two workers
  can ever act on one job, whatever the transactions before.\<close>

theorem lease_is_exclusive:
  assumes "hosted_run digest (empty_hosted L) h"
    and "locked_lease digest now c h = Inr j" "locked_lease digest now' c' h = Inr j'"
    and "cl_owner c' = cl_owner c" "cl_job c' = cl_job c"
  shows "cl_attempt c' = cl_attempt c \<and> cl_worker c' = cl_worker c \<and> digest (cl_token c') = digest (cl_token c) \<and>
    j' = j \<and> jb_state j \<in> {JLeased, JRunning}"
proof -
  note ok = reachable_jobs_ok [OF assms(1)]
  have jj: "j' = j"
    using locked_lease_Inr [OF assms(2)] locked_lease_Inr [OF assms(3)] same_job [OF ok] assms(4,5) by metis
  have n: "cl_attempt c' = cl_attempt c"
    using fence_running [OF ok assms(2)] fence_running [OF ok assms(3)] jj by simp
  obtain a where a: "a \<in> set (h_attempts h)" "holds_lease digest c a" using lease_holder [OF assms(2)] .
  obtain b where b: "b \<in> set (h_attempts h)" "holds_lease digest c' b" using lease_holder [OF assms(3)] .
  have "a = b" using same_attempt [OF ok a(1) b(1)] a(2) b(2) n assms(4,5) by (simp add: holds_lease_def this_attempt_def)
  with a(2) b(2) n jj fence_running [OF ok assms(2)] show ?thesis by (simp add: holds_lease_def running_def)
qed

text \<open>
  Property C12: once the attempt of a claim is finished (succeeded, failed, cancelled, or expired and recovered
  by another worker), every later call of its worker raises and changes nothing, after any further
  transactions.\<close>

theorem finished_lease_is_fenced:
  assumes "hosted_run digest (empty_hosted L) h" "spent_attempt (cl_owner c) (cl_job c) (cl_attempt c) h" "hosted_run digest h h'"
  shows "(\<exists>e. start digest now c h' = (Inl e, h')) \<and> (\<exists>e. heartbeat digest lease_for c now h' = (Inl e, h')) \<and>
    (\<exists>e. succeed digest now c h' = (Inl e, h')) \<and> (\<exists>e. fail digest failure retry c now h' = (Inl e, h')) \<and>
    (\<exists>e. reserve_spend digest now rid c phase provider model tin tout amount key h' = (Inl e, h')) \<and>
    (\<exists>e. commit_chapter digest now sid lid c m h' = (Inl e, h'))"
proof -
  note ok = run_jobs_ok [OF assms(3) reachable_jobs_ok [OF assms(1)]]
  note lost = lost_is_unchanged [OF spent_fence [OF ok run_spent [OF assms(3,2)]]]
  show ?thesis
    by (simp add: start_def succeed_def fail_def heartbeat_def reserve_spend_def commit_chapter_def lost raise_def
        bindA_def liftA_def split: sum.split)
qed

text \<open>
  Property C16: in every reachable database a job's attempt count stays within its maximum, it is completed exactly
  when its state is terminal, a job waiting for a worker has an attempt left and no cancellation pending, and
  a job is leased or running exactly when its newest attempt is unfinished.\<close>

theorem job_table_is_consistent:
  assumes "hosted_run digest (empty_hosted L) h" "j \<in> set (h_jobs h)"
  shows "0 \<le> jb_attempts j \<and> jb_attempts j \<le> jb_max j \<and>
    (jb_completed j \<noteq> None) = (jb_state j \<in> {JSucceeded, JFailed, JCancelled}) \<and>
    (jb_state j \<in> {JWaiting, JPending} \<longrightarrow> jb_attempts j < jb_max j \<and> jb_cancel j = None) \<and>
    (jb_state j \<in> {JLeased, JRunning}) = (\<exists>a \<in> set (h_attempts h).
       this_attempt (jb_owner j) (jb_id j) (jb_attempts j) a \<and> la_finished a = None)"
proof -
  note ok = reachable_jobs_ok [OF assms(1)]
  have loc: "job_local j" and live: "running j \<Longrightarrow> \<exists>a \<in> set (h_attempts h). of_job j a \<and> la_finished a = None"
    using ok assms(2) by (auto simp: jobs_ok_def)
  have "running j = (\<exists>a \<in> set (h_attempts h). this_attempt (jb_owner j) (jb_id j) (jb_attempts j) a \<and> la_finished a = None)"
  proof
    assume "running j"
    then obtain a where a: "a \<in> set (h_attempts h)" "of_job j a" "la_finished a = None" using live by blast
    with attempt_bound [OF ok a(1) assms(2) a(2)]
    show "\<exists>a \<in> set (h_attempts h). this_attempt (jb_owner j) (jb_id j) (jb_attempts j) a \<and> la_finished a = None"
      by (intro bexI [of _ a]) (simp_all add: this_attempt_def of_job_def)
  next
    assume "\<exists>a \<in> set (h_attempts h). this_attempt (jb_owner j) (jb_id j) (jb_attempts j) a \<and> la_finished a = None"
    then obtain a where a: "a \<in> set (h_attempts h)" "of_job j a" "la_finished a = None"
      by (auto simp: this_attempt_def of_job_def)
    then show "running j" using attempt_bound [OF ok a(1) assms(2) a(2)] by blast
  qed
  with loc show ?thesis by (simp add: job_local_def terminal_def running_def)
qed

text \<open>
  Property C17: a worker that asks for work gets some whenever a due job of an owner below the concurrency limit is
  free: \<^verbatim>\<open>claim_next\<close> returns a claim, it neither gives up on a blocked owner in front nor fails.\<close>

theorem waiting_work_is_claimed:
  assumes reach: "hosted_run digest (empty_hosted L) h"
    and policy: "\<forall>ow l. L ow = Some l \<longrightarrow> 0 \<le> ol_concurrency l" "\<forall>r \<in> set (h_jobs h). L (jb_owner r) \<noteq> None"
    and j: "j \<in> set (h_jobs h)" "claimable env now j" "pg_free env (jb_owner j)"
      "L (jb_owner j) = Some l" "active (jb_owner j) h < ol_concurrency l"
    and args: "validate_worker_id w = Inr worker" "duration False lease_for = Inr secs"
  shows "\<exists>c h'. claim_next digest env w lease_for token now h = (Inr (Some c), h')"
proof -
  note ok = reachable_jobs_ok [OF reach]
  let ?h = "recover_expired env now h"
  have lim: "h_limits h = L" using reachable_limits [OF reach] policy(1) by blast
  have c: "calm L (\<lambda>ow. active ow h) ?h" by (rule calm_recover) (simp add: calm_def lim)
  have rec: "jobs_ok ?h" "h_limits ?h = L" "active (jb_owner j) ?h < ol_concurrency l"
    using jobs_ok_recover [OF ok] c j(5) by (auto simp: calm_def intro: le_less_trans)
  have nj: "\<not> running j" using j(2) by (simp add: claimable_def running_def)
  have mem: "j \<in> set (h_jobs ?h)"
    unfolding recover_expired_def by (rule pending_survives [OF ok expirable_expired [OF ok] j(1) nj])
  have "next_job env now ?h [] \<noteq> Inl e" for e
  proof
    assume "next_job env now ?h [] = Inl e"
    from next_job_Inl [OF this] obtain r where r: "r \<in> set (h_jobs ?h)" "L (jb_owner r) = None" using rec(2) by auto
    then have "jb_owner r \<in> set (map jb_owner (h_jobs h))"
      using owners_after_recover [of env now h] by (metis image_eqI list.set_map)
    then obtain r' where "r' \<in> set (h_jobs h)" "jb_owner r' = jb_owner r" by auto
    with policy(2) r(2) show False by auto
  qed
  moreover have "next_job env now ?h [] \<noteq> Inr None"
  proof
    assume "next_job env now ?h [] = Inr None"
    from next_job_None [OF this mem j(2) _ j(3)] rec(2,3) j(4) show False by simp
  qed
  ultimately obtain r where r: "next_job env now ?h [] = Inr (Some r)"
    by (metis sum.exhaust option.exhaust)
  from next_job_Some [OF r] have "r \<in> set (h_jobs ?h)" "\<not> running r" by (auto simp: claimable_def running_def)
  from idle_key_free [OF rec(1) this] r args show ?thesis
    by (simp add: claim_next_def atomically_def bindA_def liftA_def modify_def asks_def ret_def)
qed

text \<open>
  Property C18: while the policies stand, no owner ever has more jobs leased or running than
  \<^verbatim>\<open>max_provider_concurrency\<close>, in any interleaving of claims, expiries, retries and cancellations.\<close>

theorem owner_concurrency_is_bounded:
  assumes "hosted_run digest (empty_hosted L) h" "\<forall>ow l. L ow = Some l \<longrightarrow> 0 \<le> ol_concurrency l" "L ow = Some l"
  shows "active ow h \<le> ol_concurrency l"
  using reachable_limits [OF assms(1)] assms(2,3) by (auto simp: within_concurrency_def)

text \<open>
  For an owner with a spend limit, ledger plus open reservations never exceed it in any interleaving
  of reservations and chapter commits, although the checks compare the unrounded amount and the columns
  store ten decimals.\<close>

theorem owner_spend_is_bounded:
  assumes "hosted_run digest (empty_hosted L) h"
    and "\<forall>ow l s. L ow = Some l \<longrightarrow> ol_spend l = Some s \<longrightarrow> numeric10 s = s \<and> 0 \<le> s"
    and "L ow = Some l" "ol_spend l = Some s" "\<forall>ow l. L ow = Some l \<longrightarrow> 0 \<le> ol_concurrency l"
  shows "ledger_usd ow h + reserved_usd ow (\<lambda>_. True) h \<le> s"
proof -
  have "money_ok h" by (rule reachable_money [OF assms(1)]) (use assms(2) in blast)
  moreover have "h_limits h = L" using reachable_limits [OF assms(1)] assms(5) by blast
  ultimately show ?thesis using assms(3,4) by (auto simp: money_ok_def)
qed

lemma receipt_for_append:
  "receipt_for ow m h = Some r \<Longrightarrow> h_receipts h' = h_receipts h @ added \<Longrightarrow> receipt_for ow m h' = Some r"
  by (auto simp: receipt_for_def find_append)

lemma committed_receipt:
  assumes "cm_book m' = cm_book m" "cm_incarnation m' = cm_incarnation m" "cm_chapter m' = cm_chapter m"
    and "receipt_for (cl_owner c) m h = None" "h1 = h \<or> h1 = insert_chapter (cl_owner c) m h"
  shows "\<exists>r. receipt_for (cl_owner c) m' (committed c m sid lid now res h1) = Some r \<and> hr_hash r = cm_hash m"
proof -
  have r: "h_receipts (committed c m sid lid now res h1) = h_receipts h @
      [\<lparr>hr_owner = cl_owner c, hr_book = cm_book m, hr_incarnation = cm_incarnation m, hr_chapter = cm_chapter m,
        hr_hash = cm_hash m, hr_model = cm_model m, hr_in = cm_in m, hr_out = cm_out m, hr_usd = numeric10 (cm_usd m), hr_completed = now\<rparr>]"
    using assms(5) by (auto simp: committed_def insert_receipt_def settle_spend_def insert_cost_def insert_summary_def
        insert_chapter_def split: option.split)
  have "find (\<lambda>r. hr_owner r = cl_owner c \<and> hr_book r = cm_book m \<and> hr_incarnation r = cm_incarnation m \<and>
      hr_chapter r = cm_chapter m) (h_receipts h) = None" using assms(4) by (simp add: receipt_for_def)
  then show ?thesis by (simp add: receipt_for_def r find_append assms(1-3))
qed

text \<open>
  A chapter of a book is committed once: after \<^verbatim>\<open>commit_chapter\<close> returned True, whatever happens in
  between, a commit of the same chapter by any worker of the owner changes nothing; it returns False only
  for the same content hash and never returns True again, so neither cost nor summary is recorded twice.\<close>

theorem chapter_is_committed_once:
  assumes "commit_chapter digest now sid lid c m h = (Inr True, h1)" "hosted_run digest h1 h2"
    and "commit_chapter digest now' sid' lid' c' m' h2 = (r, h3)" "cl_owner c' = cl_owner c"
    and "cm_book m' = cm_book m" "cm_incarnation m' = cm_incarnation m" "cm_chapter m' = cm_chapter m"
  shows "h3 = h2 \<and> r \<noteq> Inr True \<and> (r = Inr False \<longrightarrow> cm_hash m' = cm_hash m)"
proof -
  from commit_Inr [OF assms(1)] obtain res g where none: "receipt_for (cl_owner c) m h = None" and
    g: "g = h \<or> g = insert_chapter (cl_owner c) m h" "h1 = committed c m sid lid now res g" by auto
  from committed_receipt [OF assms(5-7) none g(1)] g(2) obtain x where
    x: "receipt_for (cl_owner c) m' h1 = Some x" "hr_hash x = cm_hash m" by blast
  from run_receipts [OF assms(2)] obtain added where "h_receipts h2 = h_receipts h1 @ added" by blast
  from receipt_for_append [OF x(1) this] have x2: "receipt_for (cl_owner c') m' h2 = Some x" by (simp add: assms(4))
  show ?thesis
  proof (cases r)
    case (Inl e)
    with assms(3) have "h3 = h2" by (auto simp: commit_chapter_def raise_def fenced_def dest!: atomically_Inl split: if_splits)
    with Inl show ?thesis by simp
  next
    case (Inr b)
    from commit_Inr [OF assms(3) [unfolded Inr]] x2 x(2) Inr show ?thesis by auto
  qed
qed

lemma spend_of_insert:
  "spend_of (cl_owner c) key h = None \<Longrightarrow> spend_of (cl_owner c) key (insert_spend c rid phase provider model tin tout usd key h) =
     Some \<lparr>sv_owner = cl_owner c, sv_id = rid, sv_book = cl_book c, sv_incarnation = cl_incarnation c, sv_job = cl_job c,
       sv_phase = phase, sv_provider = provider, sv_model = model, sv_in = tin, sv_out = tout, sv_usd = usd,
       sv_actual = None, sv_state = ''reserved'', sv_key = key, sv_settled = None\<rparr>"
  by (simp add: spend_of_def insert_spend_def find_append)

text \<open>
  Retrying a reservation with the same arguments and idempotency key returns the first reservation
  when the amount has at most ten decimals; with more, the stored amount was rounded and the honest retry
  is refused as changed.\<close>

theorem reservation_retry_depends_on_rounding:
  assumes first: "reserve_spend digest now rid c phase provider model tin tout amount key h = (Inr i, h')"
    and new: "spend_of (cl_owner c) key h = None"
  shows "reserve_spend digest now rid' c phase provider model tin tout amount key h' =
    (if numeric10 amount = amount then (Inr i, h')
     else (Inl (JobIdempotencyError ''cost reservation changed across retry''), h'))"
proof -
  from reserve_spend_Inr [OF first] new obtain l where l: "i = rid" "0 \<le> amount" "0 \<le> tin" "0 \<le> tout" "phase \<in> set phases"
    "h_limits h (cl_owner c) = Some l" "h' = insert_spend c rid phase provider model tin tout (numeric10 amount) key h" by auto
  from first l(2-5) obtain j where j: "locked_lease digest now c h = Inr j" "jb_state j = JRunning" "jb_cancel j = None"
    by (auto simp: reserve_spend_def fenced_Inr raise_def bindA_Inr split: if_splits)
  have j': "locked_lease digest now c h' = Inr j" using j(1) by (simp add: l(7) locked_lease_def insert_spend_def)
  have lim: "limit_of (cl_owner c) h' = Inr l" using l(6) by (simp add: l(7) limit_of_def insert_spend_def)
  show ?thesis
    using l(1-5) spend_of_insert [OF new, of rid phase provider model tin tout "numeric10 amount"] j(2,3)
    by (simp add: reserve_spend_def not_less fenced_def atomically_def bindA_def asks_def liftA_def j' lim
        l(7) [symmetric] raise_def ret_def)
qed

section \<open>A run\<close>

text \<open>Owner 1 imports a book, worker w1 claims the job, starts it, reserves a dollar and commits a chapter.\<close>

definition limits1 :: "uuid \<Rightarrow> owner_limit option" where
  "limits1 ow = (if ow = 1 then Some \<lparr>ol_concurrency = 1, ol_spend = Some 10\<rparr> else None)"

definition env1 :: pg_env where
  "env1 = \<lparr>pg_held = (\<lambda>_. False), pg_free = (\<lambda>_. True)\<rparr>"

definition claim1 :: claim where
  "claim1 = \<lparr>cl_owner = 1, cl_job = 7, cl_book = Some 5, cl_incarnation = Some 6, cl_kind = ''ingest_book'',
     cl_attempt = 1, cl_worker = ''w1'', cl_token = ''tok'', cl_credential = Some 3\<rparr>"

definition commit1 :: commit_args where
  "commit1 = \<lparr>cm_book = 5, cm_incarnation = 6, cm_chapter = 21, cm_key = ''c1'', cm_ordinal = 1,
     cm_hash = replicate 64 (CHR ''a''), cm_summary = ''s'', cm_extractor = ''x'', cm_provider = ''p'', cm_model = ''m'',
     cm_in = 5, cm_out = 5, cm_usd = 1, cm_cost_key = ''k''\<rparr>"

definition queued :: hosted where
  "queued = snd (enqueue_job 1 7 5 6 (Some 3) 0 (empty_hosted limits1))"

definition leased :: hosted where
  "leased = snd (claim_next id env1 (PyStr ''w1'') 60 ''tok'' 1 queued)"

definition started :: hosted where
  "started = snd (start id 2 claim1 leased)"

definition reserved :: hosted where
  "reserved = snd (reserve_spend id 3 11 claim1 ''extraction'' ''p'' ''m'' 5 5 1 ''k'' started)"

definition committed1 :: hosted where
  "committed1 = snd (commit_chapter id 4 31 32 claim1 commit1 reserved)"

definition done1 :: hosted where
  "done1 = snd (succeed id 5 claim1 committed1)"

lemma run_step: "hosted_run digest a b \<Longrightarrow> hosted_step digest b c \<Longrightarrow> hosted_run digest a c"
  by (rule rtranclp.rtrancl_into_rtrancl)

lemma queued_reachable: "hosted_run id (empty_hosted limits1) queued"
  unfolding queued_def by (rule run_step, rule rtranclp.rtrancl_refl, rule step_enqueue)

lemma started_reachable: "hosted_run id (empty_hosted limits1) started"
  unfolding started_def leased_def by (rule run_step, rule run_step, rule queued_reachable, rule step_claim, rule step_start)

lemma reserved_reachable: "hosted_run id (empty_hosted limits1) reserved"
  unfolding reserved_def by (rule run_step, rule started_reachable, rule step_reserve)

lemma done_reachable: "hosted_run id (empty_hosted limits1) done1"
  unfolding done1_def committed1_def
  by (rule run_step, rule run_step, rule reserved_reachable, rule step_commit, rule step_succeed)

lemma limits1_policy: "\<forall>ow l. limits1 ow = Some l \<longrightarrow> 0 \<le> ol_concurrency l"
  by (auto simp: limits1_def)

definition job1 :: job_row where
  "job1 = hd (h_jobs started)"

lemma lease1: "locked_lease id 3 claim1 started = Inr job1"
  unfolding job1_def by code_simp

lemma finished1: "spent_attempt (cl_owner claim1) (cl_job claim1) (cl_attempt claim1) done1"
  by code_simp

lemma committed1_returns: "commit_chapter id 4 31 32 claim1 commit1 reserved = (Inr True, committed1)"
proof -
  have "fst (commit_chapter id 4 31 32 claim1 commit1 reserved) = Inr True" by code_simp
  then show ?thesis by (simp add: committed1_def prod_eq_iff)
qed

lemma reserved_returns: "reserve_spend id 3 11 claim1 ''extraction'' ''p'' ''m'' 5 5 (1 / 3) ''k'' started =
    (Inr 11, snd (reserve_spend id 3 11 claim1 ''extraction'' ''p'' ''m'' 5 5 (1 / 3) ''k'' started))"
proof -
  have "fst (reserve_spend id 3 11 claim1 ''extraction'' ''p'' ''m'' 5 5 (1 / 3) ''k'' started) = Inr 11" by code_simp
  then show ?thesis by (simp add: prod_eq_iff)
qed

theorem lease_is_exclusive_witness: "jb_state job1 \<in> {JLeased, JRunning}"
  using lease_is_exclusive [OF started_reachable lease1 lease1 refl refl] by simp

theorem finished_lease_is_fenced_witness: "\<exists>e. succeed id 9 claim1 done1 = (Inl e, done1)"
  using finished_lease_is_fenced [OF done_reachable finished1 rtranclp.rtrancl_refl] by blast

theorem job_table_is_consistent_witness: "jb_attempts job1 \<le> jb_max job1"
proof -
  have "h_jobs started \<noteq> []" by code_simp
  then have "job1 \<in> set (h_jobs started)" by (simp add: job1_def)
  from job_table_is_consistent [OF started_reachable this] show ?thesis by simp
qed

theorem waiting_work_is_claimed_witness:
  "\<exists>c h'. claim_next id env1 (PyStr ''w1'') 60 ''tok'' 1 queued = (Inr (Some c), h')"
proof -
  define j where "j = hd (h_jobs queued)"
  have "h_jobs queued \<noteq> []" by code_simp
  then have j: "j \<in> set (h_jobs queued)" by (simp add: j_def)
  have "list_all (\<lambda>r. limits1 (jb_owner r) \<noteq> None) (h_jobs queued)" by code_simp
  then have pol: "\<forall>r \<in> set (h_jobs queued). limits1 (jb_owner r) \<noteq> None" by (simp add: list_all_iff)
  have due: "claimable env1 1 j" "pg_free env1 (jb_owner j)"
    "limits1 (jb_owner j) = Some \<lparr>ol_concurrency = 1, ol_spend = Some 10\<rparr>"
    "active (jb_owner j) queued < ol_concurrency \<lparr>ol_concurrency = 1, ol_spend = Some 10\<rparr>"
    unfolding j_def by code_simp+
  have args: "validate_worker_id (PyStr ''w1'') = Inr ''w1''" "duration False 60 = Inr 60" by code_simp+
  show ?thesis by (rule waiting_work_is_claimed [OF queued_reachable limits1_policy pol j due args])
qed

theorem owner_concurrency_is_bounded_witness: "active 1 started \<le> 1"
  using owner_concurrency_is_bounded [OF started_reachable limits1_policy, of 1] by (simp add: limits1_def)

theorem owner_spend_is_bounded_witness: "ledger_usd 1 reserved + reserved_usd 1 (\<lambda>_. True) reserved \<le> 10"
proof -
  have n: "numeric10 10 = 10" by code_simp
  have exact: "\<forall>ow l s. limits1 ow = Some l \<longrightarrow> ol_spend l = Some s \<longrightarrow> numeric10 s = s \<and> 0 \<le> s"
    by (auto simp: limits1_def n)
  have l: "limits1 1 = Some \<lparr>ol_concurrency = 1, ol_spend = Some 10\<rparr>" by (simp add: limits1_def)
  show ?thesis by (rule owner_spend_is_bounded [OF reserved_reachable exact l _ limits1_policy]) simp
qed

theorem chapter_is_committed_once_witness:
  "snd (commit_chapter id 5 41 42 claim1 commit1 committed1) = committed1"
  using chapter_is_committed_once [OF committed1_returns rtranclp.rtrancl_refl prod.collapse [symmetric] refl refl refl refl] by blast

theorem reservation_retry_depends_on_rounding_witness:
  "\<exists>h. fst (reserve_spend id 3 12 claim1 ''extraction'' ''p'' ''m'' 5 5 (1 / 3) ''k'' h) =
     Inl (JobIdempotencyError ''cost reservation changed across retry'')"
proof -
  have "spend_of (cl_owner claim1) ''k'' started = None" by code_simp
  moreover have "numeric10 (1 / 3) \<noteq> 1 / 3" by code_simp
  ultimately show ?thesis
    using reservation_retry_depends_on_rounding [OF reserved_returns, of 12] by (metis fst_conv)
qed

end
