(* ===== verification/Worker.thy ===== *)
theory Worker imports JobRuns begin

text \<open>
  The worker process, \<^verbatim>\<open>backend/app/hosted/worker.py\<close>: one round of the worker loop with its
  classification of failures, and the startup check of the worker's database role
  (\<^verbatim>\<open>check_runtime_role\<close> of \<^verbatim>\<open>backend/app/hosted/jobs.py\<close>). The job handler is a parameter.
\<close>

section \<open>The database role\<close>

record db_role =
  ro_super :: bool
  ro_bypass :: bool
  ro_createdb :: bool
  ro_createrole :: bool
  ro_replication :: bool
  ro_inherit :: bool
  ro_membership :: bool

definition required_privileges :: "(string \<times> string list) list" where
  "required_privileges =
    [(''public.jobs'', [''SELECT'', ''UPDATE'']),
     (''public.job_attempts'', [''SELECT'', ''INSERT'', ''UPDATE'']),
     (''public.chapters'', [''SELECT'', ''INSERT'']),
     (''public.chapter_summaries'', [''INSERT'']),
     (''public.cost_ledger'', [''SELECT'', ''INSERT'']),
     (''public.ingested_chapters'', [''SELECT'', ''INSERT'']),
     (''public.provider_credentials'', [''SELECT'']),
     (''public.provider_model_settings'', [''SELECT'']),
     (''public.owner_limits'', [''SELECT'']),
     (''public.cost_reservations'', [''SELECT'', ''INSERT'', ''UPDATE'']),
     (''public.audit_events'', [''INSERT''])]"

definition all_privileges :: "string list" where
  "all_privileges = [''SELECT'', ''INSERT'', ''UPDATE'', ''DELETE'', ''TRUNCATE'', ''REFERENCES'', ''TRIGGER'']"

text \<open>\<^verbatim>\<open>held\<close> answers \<^verbatim>\<open>has_table_privilege\<close>, \<^verbatim>\<open>tables\<close> are the base tables of the public schema.\<close>

definition role_invalid :: "db_role option \<Rightarrow> bool" where
  "role_invalid role = (case role of None \<Rightarrow> True
     | Some r \<Rightarrow> ro_super r \<or> \<not> ro_bypass r \<or> ro_createdb r \<or> ro_createrole r \<or> ro_replication r \<or> ro_inherit r \<or> ro_membership r)"

definition incorrect_privileges :: "(string \<Rightarrow> string \<Rightarrow> bool) \<Rightarrow> (string \<times> string) list" where
  "incorrect_privileges held = concat (map (\<lambda>(t, ps). map (\<lambda>p. (t, p))
     (filter (\<lambda>p. held t p \<noteq> (p \<in> set ps)) all_privileges)) required_privileges)"

definition unexpected_tables :: "(string \<Rightarrow> string \<Rightarrow> bool) \<Rightarrow> string list \<Rightarrow> string list" where
  "unexpected_tables held tables = filter (\<lambda>t. ''public.'' @ t \<notin> fst ` set required_privileges \<and>
     list_ex (held (''public.'' @ t)) all_privileges) tables"

definition check_runtime_role :: "db_role option \<Rightarrow> (string \<Rightarrow> string \<Rightarrow> bool) \<Rightarrow> string list \<Rightarrow> unit res" where
  "check_runtime_role role held tables =
     (if role_invalid role
      then Inl (WorkerConfigurationError ''HOSTED_WORKER_DSN must use an isolated non-superuser BYPASSRLS role'')
      else if incorrect_privileges held \<noteq> [] \<or> unexpected_tables held tables \<noteq> []
      then Inl (WorkerConfigurationError ''worker runtime role privileges are not the reviewed repository allow-list'')
      else Inr ())"

section \<open>One round\<close>

definition classify :: "exc \<Rightarrow> failure" where
  "classify e = (case e of
     HandledJobFailure code retryable \<Rightarrow> \<lparr>fl_code = code, fl_retryable = retryable\<rparr>
   | CredentialUnavailableError _ \<Rightarrow> \<lparr>fl_code = ''provider_rejected'', fl_retryable = False\<rparr>
   | LimitExceededError _ \<Rightarrow> \<lparr>fl_code = ''budget_exceeded'', fl_retryable = False\<rparr>
   | _ \<Rightarrow> \<lparr>fl_code = ''internal_error'', fl_retryable = True\<rparr>)"

text \<open>A lost lease at the end of a round is not an error.\<close>

definition lease_may_be_lost :: "(hosted, 'a) act \<Rightarrow> (hosted, bool) act" where
  "lease_may_be_lost m h = (case m h of
     (Inl (LostLeaseError _), h') \<Rightarrow> (Inr True, h')
   | (Inl e, h') \<Rightarrow> (Inl e, h')
   | (Inr _, h') \<Rightarrow> (Inr True, h'))"

definition handle ::
  "(string \<Rightarrow> string) \<Rightarrow> rat \<Rightarrow> (claim \<Rightarrow> (hosted, unit) act) \<Rightarrow> rat \<Rightarrow> claim \<Rightarrow> (hosted, bool) act" where
  "handle digest retry_after handler now c h = (case handler c h of
     (Inl (LostLeaseError _), h') \<Rightarrow> (Inr True, h')
   | (Inl e, h') \<Rightarrow> lease_may_be_lost (fail digest (classify e) retry_after c now) h'
   | (Inr _, h') \<Rightarrow> lease_may_be_lost (succeed digest now c) h')"

definition run_once ::
  "(string \<Rightarrow> string) \<Rightarrow> pg_env \<Rightarrow> (claim \<Rightarrow> (hosted, unit) act) \<Rightarrow> pyval \<Rightarrow> rat \<Rightarrow> rat \<Rightarrow> string \<Rightarrow> rat \<Rightarrow> rat \<Rightarrow> rat \<Rightarrow> (hosted, bool) act" where
  "run_once digest env handler worker_id lease_for retry_after token t1 t2 t3 =
     bindA (claim_next digest env worker_id lease_for token t1) (\<lambda>found. case found of
       None \<Rightarrow> ret False
     | Some c \<Rightarrow> (\<lambda>h. case start digest t2 c h of
           (Inl (LostLeaseError _), h') \<Rightarrow> (Inr True, h')
         | (Inl e, h') \<Rightarrow> (Inl e, h')
         | (Inr began, h') \<Rightarrow> if \<not> began then (Inr True, h') else handle digest retry_after handler t3 c h'))"

section \<open>Properties\<close>

text \<open>
  The startup check accepts a role only if it is an isolated BYPASSRLS role whose privileges on the
  tables of the database are exactly the reviewed ones.\<close>

theorem worker_role_is_least_privilege:
  assumes "check_runtime_role role held tables = Inr ()" and "t \<in> set tables" and "p \<in> set all_privileges"
  shows "held (''public.'' @ t) p = (\<exists>ps. (''public.'' @ t, ps) \<in> set required_privileges \<and> p \<in> set ps) \<and>
    (\<exists>r. role = Some r \<and> ro_bypass r \<and> \<not> ro_super r \<and> \<not> ro_membership r)"
proof -
  have role: "\<not> role_invalid role" and inc: "incorrect_privileges held = []" and une: "unexpected_tables held tables = []"
    using assms(1) by (auto simp: check_runtime_role_def split: if_splits)
  have dist: "distinct (map fst required_privileges)" by (simp add: required_privileges_def)
  have "held (''public.'' @ t) p = (\<exists>ps. (''public.'' @ t, ps) \<in> set required_privileges \<and> p \<in> set ps)"
  proof (cases "''public.'' @ t \<in> fst ` set required_privileges")
    case True
    then obtain ps where ps: "(''public.'' @ t, ps) \<in> set required_privileges" by auto
    then have "held (''public.'' @ t) p = (p \<in> set ps)"
      using inc assms(3) by (fastforce simp: incorrect_privileges_def filter_empty_conv)
    then show ?thesis using ps eq_key_imp_eq_value [OF dist] by blast
  next
    case False
    then have "\<not> held (''public.'' @ t) p"
      using une assms(2,3) by (fastforce simp: unexpected_tables_def filter_empty_conv list_ex_iff)
    with False show ?thesis by (force simp: image_iff)
  qed
  with role show ?thesis by (auto simp: role_invalid_def split: option.splits)
qed

definition worker_role :: db_role where
  "worker_role = \<lparr>ro_super = False, ro_bypass = True, ro_createdb = False, ro_createrole = False, ro_replication = False,
     ro_inherit = False, ro_membership = False\<rparr>"

definition granted :: "string \<Rightarrow> string \<Rightarrow> bool" where
  "granted t p = (case map_of required_privileges t of None \<Rightarrow> False | Some ps \<Rightarrow> p \<in> set ps)"

theorem worker_role_is_least_privilege_witness: "\<not> granted ''public.users'' ''SELECT''"
proof -
  have "check_runtime_role (Some worker_role) granted [''jobs'', ''users''] = Inr ()" by code_simp
  moreover have "''users'' \<in> set [''jobs'', ''users'']" "''SELECT'' \<in> set all_privileges" by (simp_all add: all_privileges_def)
  ultimately have "granted (''public.'' @ ''users'') ''SELECT'' = (\<exists>ps. (''public.'' @ ''users'', ps) \<in> set required_privileges \<and> ''SELECT'' \<in> set ps)"
    using worker_role_is_least_privilege by blast
  then show ?thesis by (simp add: required_privileges_def)
qed

section \<open>A round finishes what it claims\<close>

definition holding_lease :: "(string \<Rightarrow> string) \<Rightarrow> claim \<Rightarrow> rat \<Rightarrow> job_state \<Rightarrow> hosted \<Rightarrow> bool" where
  "holding_lease digest c until st h = (\<exists>j \<in> set (h_jobs h). \<exists>a \<in> set (h_attempts h). this_job (cl_owner c) (cl_job c) j \<and>
     jb_cancel j = None \<and> jb_state j = st \<and> holds_lease digest c a \<and> la_expires a = until)"

lemma holding_lease:
  assumes "jobs_ok h" "holding_lease digest c until st h" "now < until"
  shows "\<exists>j. locked_lease digest now c h = Inr j \<and> jb_cancel j = None \<and> jb_state j = st"
proof -
  from assms(2) obtain j a where j: "j \<in> set (h_jobs h)" "this_job (cl_owner c) (cl_job c) j" "jb_cancel j = None" "jb_state j = st"
    and a: "a \<in> set (h_attempts h)" "holds_lease digest c a" "la_expires a = until" unfolding holding_lease_def by blast
  have "find (this_job (cl_owner c) (cl_job c)) (h_jobs h) \<noteq> None" using j by (auto simp: find_None_iff)
  then obtain j' where j': "find (this_job (cl_owner c) (cl_job c)) (h_jobs h) = Some j'" by blast
  have "j' = j" using j' same_job [OF assms(1) _ j(1)] j(2) by (auto simp: find_Some_iff this_job_def)
  have "find (holds_lease digest c) (h_attempts h) \<noteq> None" using a by (auto simp: find_None_iff)
  then obtain a' where a': "find (holds_lease digest c) (h_attempts h) = Some a'" by blast
  have h': "a' \<in> set (h_attempts h)" "holds_lease digest c a'" using a' by (auto simp: find_Some_iff)
  have "a' = a"
    by (rule same_attempt [OF assms(1) h'(1) a(1)]) (use h'(2) a(2) in \<open>simp_all add: holds_lease_def this_attempt_def\<close>)
  with j' a' \<open>j' = j\<close> j a assms(3) show ?thesis by (simp add: locked_lease_def)
qed

lemma holding_claimed:
  assumes "claim_next digest env w l token now h = (Inr (Some c), h')" "duration False l = Inr secs"
  shows "holding_lease digest c (now + secs) JLeased h'"
proof -
  from claim_next_Some [OF assms(1)] obtain worker s j where n: "duration False l = Inr s"
    "next_job env now (recover_expired env now h) [] = Inr (Some j)"
    "h' = lease_job digest worker s token now j (recover_expired env now h)"
    "c = \<lparr>cl_owner = jb_owner j, cl_job = jb_id j, cl_book = jb_book j, cl_incarnation = jb_incarnation j,
       cl_kind = jb_kind j, cl_attempt = jb_attempts j + 1, cl_worker = worker, cl_token = token, cl_credential = jb_credential j\<rparr>"
    by metis
  from next_job_Some [OF n(2)] have j: "j \<in> set (h_jobs (recover_expired env now h))" "claimable env now j" by blast+
  let ?j = "j\<lparr>jb_state := JLeased, jb_attempts := jb_attempts j + 1, jb_updated := now\<rparr>"
  have "?j \<in> set (h_jobs h')"
    using j by (force simp: n(3) lease_job_def update_where_def this_job_def claimable_def image_iff)
  then show ?thesis
    unfolding holding_lease_def by (rule rev_bexI)
      (use j n(1) assms(2) in \<open>auto simp: n(3,4) lease_job_def this_job_def claimable_def holds_lease_def this_attempt_def\<close>)
qed

lemma holding_start:
  assumes "jobs_ok h" "holding_lease digest c until JLeased h" "now < until"
  shows "\<exists>h'. start digest now c h = (Inr True, h') \<and> holding_lease digest c until JRunning h'"
proof -
  obtain j where lease: "locked_lease digest now c h = Inr j" "jb_cancel j = None" "jb_state j = JLeased"
    using holding_lease [OF assms] by blast
  from assms(2) obtain r a where r: "r \<in> set (h_jobs h)" "this_job (cl_owner c) (cl_job c) r" "jb_cancel r = None"
    and a: "a \<in> set (h_attempts h)" "holds_lease digest c a" "la_expires a = until" unfolding holding_lease_def by blast
  let ?g = "\<lambda>a. a\<lparr>la_started := Some now, la_heartbeat := Some now\<rparr>" and ?f = "\<lambda>r. r\<lparr>jb_state := JRunning, jb_updated := now\<rparr>"
  let ?h = "audit (cl_owner c) ''job.start'' ''job'' (cl_job c) ''succeeded'' None
    (set_attempt (cl_owner c) (cl_job c) (cl_attempt c) ?g (set_job (cl_owner c) (cl_job c) ?f h))"
  have "?f r \<in> set (h_jobs ?h)" "?g a \<in> set (h_attempts ?h)"
    using r a by (auto simp: update_where_def image_iff holds_lease_def intro!: bexI [of _ r] bexI [of _ a])
  then have "holding_lease digest c until JRunning ?h"
    unfolding holding_lease_def by (rule_tac bexI, rule_tac bexI)
      (use r a in \<open>auto simp: this_job_def holds_lease_def this_attempt_def\<close>)
  moreover have "start digest now c h = (Inr True, ?h)"
    by (simp add: start_def fenced_def atomically_def bindA_def asks_def liftA_def lease modify_def ret_def)
  ultimately show ?thesis by blast
qed

lemma holding_leaves: "leaves_jobs m \<Longrightarrow> holding_lease digest c until st h \<Longrightarrow> m h = (r, h') \<Longrightarrow> holding_lease digest c until st h'"
  unfolding leaves_jobs_def holding_lease_def by (metis snd_conv)

lemma spent_finished:
  assumes "holding_lease digest c until st h" "h_attempts h' = update_where (this_attempt (cl_owner c) (cl_job c) (cl_attempt c)) g (h_attempts h)"
    "\<And>a. this_attempt (cl_owner c) (cl_job c) (cl_attempt c) a \<Longrightarrow> this_attempt (cl_owner c) (cl_job c) (cl_attempt c) (g a) \<and> la_finished (g a) \<noteq> None"
  shows "spent_attempt (cl_owner c) (cl_job c) (cl_attempt c) h'"
proof -
  from assms(1) obtain a where a: "a \<in> set (h_attempts h)" "this_attempt (cl_owner c) (cl_job c) (cl_attempt c) a"
    unfolding holding_lease_def holds_lease_def by blast
  then have "g a \<in> set (h_attempts h')" by (force simp: assms(2) update_where_def)
  with assms(3) [OF a(2)] show ?thesis unfolding spent_attempt_def by blast
qed

lemma holding_succeed:
  assumes "jobs_ok h" "holding_lease digest c until JRunning h" "now < until"
  shows "\<exists>h'. succeed digest now c h = (Inr True, h') \<and> spent_attempt (cl_owner c) (cl_job c) (cl_attempt c) h'"
proof -
  obtain j where lease: "locked_lease digest now c h = Inr j" "jb_cancel j = None" "jb_state j = JRunning"
    using holding_lease [OF assms] by blast
  show ?thesis
    by (simp add: succeed_def fenced_def atomically_def bindA_def asks_def liftA_def lease modify_def ret_def)
      (rule spent_finished [OF assms(2), where g = "finish now O_succeeded"], simp_all add: set_attempt_def finish_def this_attempt_def)
qed

lemma holding_fail:
  assumes "jobs_ok h" "holding_lease digest c until JRunning h" "now < until" "duration True retry = Inr s"
  shows "\<exists>h'. fail digest f retry c now h = (Inr (), h') \<and> spent_attempt (cl_owner c) (cl_job c) (cl_attempt c) h'"
proof -
  obtain j where lease: "locked_lease digest now c h = Inr j" "jb_cancel j = None" "jb_state j = JRunning"
    using holding_lease [OF assms(1-3)] by blast
  show ?thesis
    by (simp add: fail_def fenced_def atomically_def bindA_def asks_def liftA_def lease modify_def ret_def assms(4))
      (rule spent_finished [OF assms(2), where g = "\<lambda>a. (finish now O_failed a)\<lparr>la_error := Some f\<rparr>"],
        simp_all add: set_attempt_def finish_def this_attempt_def)
qed


definition failing :: "claim \<Rightarrow> (hosted, unit) act" where
  "failing c = raise (ValueError ''parser'')"


end
