(* ===== verification/PyBytes.thy ===== *)
theory PyBytes imports Prelude "HOL-Library.Word" begin

unbundle bit_operations_syntax

text \<open>
  Python strings as lists of code points, their UTF-8 codec on octets, and the searches
  \<^verbatim>\<open>find\<close> and \<^verbatim>\<open>rfind\<close>. Code points run up to 0x10FFFF; a lone surrogate is a
  code point that UTF-8 cannot encode.
\<close>

section \<open>Searching\<close>

type_synonym pytext = "nat list"

type_synonym octets = "8 word list"

definition occurs_at :: "'a list \<Rightarrow> 'a list \<Rightarrow> nat \<Rightarrow> bool" where
  "occurs_at pat s i = (take (length pat) (drop i s) = pat)"

text \<open>The last, or the first, occurrence that lies within the slice \<^verbatim>\<open>s[lo:hi]\<close>; -1 if there is none.\<close>

definition rfind_in :: "'a list \<Rightarrow> 'a list \<Rightarrow> nat \<Rightarrow> nat \<Rightarrow> int" where
  "rfind_in pat s lo hi = (let h = min hi (length s) in
     case filter (\<lambda>i. i + length pat \<le> h \<and> occurs_at pat s i) (rev [lo..<Suc h]) of [] \<Rightarrow> -1 | i # _ \<Rightarrow> int i)"

definition find_in :: "'a list \<Rightarrow> 'a list \<Rightarrow> nat \<Rightarrow> nat \<Rightarrow> int" where
  "find_in pat s lo hi = (let h = min hi (length s) in
     case filter (\<lambda>i. i + length pat \<le> h \<and> occurs_at pat s i) [lo..<Suc h] of [] \<Rightarrow> -1 | i # _ \<Rightarrow> int i)"

definition rfind :: "'a list \<Rightarrow> 'a list \<Rightarrow> int" where
  "rfind pat s = rfind_in pat s 0 (length s)"

lemma rfind_in_bounds:
  "rfind_in pat s lo hi = -1 \<or> (\<exists>i. rfind_in pat s lo hi = int i \<and> lo \<le> i \<and> i + length pat \<le> min hi (length s))"
proof (cases "filter (\<lambda>i. i + length pat \<le> min hi (length s) \<and> occurs_at pat s i) (rev [lo..<Suc (min hi (length s))])")
  case Nil
  then show ?thesis by (simp add: rfind_in_def Let_def)
next
  case (Cons i js)
  then have "i \<in> set (filter (\<lambda>i. i + length pat \<le> min hi (length s) \<and> occurs_at pat s i) (rev [lo..<Suc (min hi (length s))]))"
    by (metis list.set_intros(1))
  then have "lo \<le> i \<and> i + length pat \<le> min hi (length s)" unfolding set_filter set_rev set_upt by simp
  moreover have "rfind_in pat s lo hi = int i" by (simp only: rfind_in_def Let_def Cons list.case)
  ultimately show ?thesis by blast
qed

lemma find_in_bounds:
  "find_in pat s lo hi = -1 \<or> (\<exists>i. find_in pat s lo hi = int i \<and> lo \<le> i \<and> i + length pat \<le> min hi (length s))"
proof (cases "filter (\<lambda>i. i + length pat \<le> min hi (length s) \<and> occurs_at pat s i) [lo..<Suc (min hi (length s))]")
  case Nil
  then show ?thesis by (simp add: find_in_def Let_def)
next
  case (Cons i js)
  then have "i \<in> set (filter (\<lambda>i. i + length pat \<le> min hi (length s) \<and> occurs_at pat s i) [lo..<Suc (min hi (length s))])"
    by (metis list.set_intros(1))
  then have "lo \<le> i \<and> i + length pat \<le> min hi (length s)" unfolding set_filter set_rev set_upt by simp
  moreover have "find_in pat s lo hi = int i" by (simp only: find_in_def Let_def Cons list.case)
  ultimately show ?thesis by blast
qed

lemma rfind_bounds: "-1 \<le> rfind pat s \<and> (pat \<noteq> [] \<longrightarrow> rfind pat s < int (length s) \<or> s = [])"
  using rfind_in_bounds [of pat s 0 "length s"] by (cases pat) (auto simp: rfind_def)

text \<open>\<^verbatim>\<open>pat in s\<close>.\<close>

definition contains :: "'a list \<Rightarrow> 'a list \<Rightarrow> bool" where
  "contains pat s = list_ex (occurs_at pat s) [0..<Suc (length s)]"

lemma occurs_at_iff: "i \<le> length s \<Longrightarrow> occurs_at pat s i = (\<exists>u v. s = u @ pat @ v \<and> length u = i)"
proof
  assume "i \<le> length s" "occurs_at pat s i"
  then have "s = take i s @ pat @ drop (length pat) (drop i s)" unfolding occurs_at_def by (metis append_take_drop_id)
  with \<open>i \<le> length s\<close> show "\<exists>u v. s = u @ pat @ v \<and> length u = i"
    by (intro exI [of _ "take i s"] exI [of _ "drop (length pat) (drop i s)"]) simp
qed (auto simp: occurs_at_def)

lemma contains_iff: "contains pat s = (\<exists>u v. s = u @ pat @ v)"
proof -
  have "contains pat s = (\<exists>i \<le> length s. occurs_at pat s i)" by (auto simp: contains_def list_ex_iff less_Suc_eq_le simp del: upt_Suc)
  also have "\<dots> = (\<exists>u v. s = u @ pat @ v)"
  proof
    assume "\<exists>i \<le> length s. occurs_at pat s i"
    then obtain i where "i \<le> length s" "occurs_at pat s i" by blast
    then show "\<exists>u v. s = u @ pat @ v" using occurs_at_iff [of i s pat] by metis
  next
    assume "\<exists>u v. s = u @ pat @ v"
    then obtain u v where s: "s = u @ pat @ v" by blast
    have "length u \<le> length (u @ pat @ v) \<and> occurs_at pat (u @ pat @ v) (length u)" by (simp add: occurs_at_def)
    then show "\<exists>i \<le> length s. occurs_at pat s i" unfolding s by blast
  qed
  finally show ?thesis .
qed

lemma contains_past_separator:
  assumes "c \<notin> set pat" "\<not> contains pat a"
  shows "contains pat (a @ c # b) = contains pat b"
proof
  assume "contains pat (a @ c # b)"
  then obtain u v where e: "a @ c # b = u @ pat @ v" by (auto simp: contains_iff)
  show "contains pat b"
  proof (cases "length u \<le> length a")
    case False
    have "take (length u) (a @ c # b) = u" "drop (length u) (a @ c # b) = pat @ v" unfolding e by simp_all
    with False have "drop (length u - length a - 1) b = pat @ v" by (simp add: drop_Cons')
    then show ?thesis unfolding contains_iff by (metis append_take_drop_id)
  next
    case True
    define i where "i = length a - length u"
    have d: "drop (length u) a @ c # b = pat @ v" using True e by (metis append_eq_append_conv_if)
    have "\<not> i < length pat"
    proof
      assume "i < length pat"
      then have "pat ! i = (pat @ v) ! i" by (simp add: nth_append)
      also have "\<dots> = c" unfolding d [symmetric] using True by (simp add: nth_append i_def)
      finally show False using assms(1) \<open>i < length pat\<close> by (metis nth_mem)
    qed
    then have "pat = take (length pat) (drop (length u) a)"
      using d True by (metis append_eq_conv_conj i_def length_drop not_less take_append take_all_iff diff_is_0_eq take0 append_Nil2)
    then have "a = u @ pat @ drop (length pat) (drop (length u) a)"
      using True e by (metis append_take_drop_id append_eq_conv_conj take_append diff_is_0_eq take0 append_Nil2)
    with assms(2) show ?thesis unfolding contains_iff by blast
  qed
next
  assume "contains pat b"
  then show "contains pat (a @ c # b)" unfolding contains_iff by (metis append.assoc append_Cons)
qed

section \<open>UTF-8\<close>

definition scalar :: "nat \<Rightarrow> bool" where
  "scalar c = (c < 0xD800 \<or> (0xE000 \<le> c \<and> c < 0x110000))"

definition utf8_char :: "nat \<Rightarrow> octets" where
  "utf8_char c = (if c < 0x80 then [of_nat c]
     else if c < 0x800 then [of_nat (192 + c div 64), of_nat (128 + c mod 64)]
     else if c < 0x10000 then [of_nat (224 + c div 4096), of_nat (128 + c div 64 mod 64), of_nat (128 + c mod 64)]
     else [of_nat (240 + c div 262144), of_nat (128 + c div 4096 mod 64), of_nat (128 + c div 64 mod 64), of_nat (128 + c mod 64)])"

definition utf8 :: "pytext \<Rightarrow> octets" where
  "utf8 s = concat (map utf8_char s)"

text \<open>\<^verbatim>\<open>s.encode("utf-8")\<close>: strict, a \<^verbatim>\<open>UnicodeEncodeError\<close> is a ValueError.\<close>

definition encode :: "pytext \<Rightarrow> octets res" where
  "encode s = (if list_all scalar s then Inr (utf8 s) else Inl (ValueError ''surrogates not allowed''))"

text \<open>A continuation octet, as the code tests it.\<close>

definition cont :: "8 word \<Rightarrow> bool" where
  "cont b = (b AND 0b11000000 = 0b10000000)"

text \<open>\<^verbatim>\<open>raw.decode("utf-8")\<close>: one code point from the front, rejecting overlong forms, surrogates and stray octets.\<close>

definition tail_bits :: "8 word \<Rightarrow> nat" where
  "tail_bits b = unat (b AND 0b00111111)"

fun decode_one :: "octets \<Rightarrow> (nat \<times> octets) option" where
  "decode_one [] = None"
| "decode_one (a # r) = (let n = unat a in
     if n < 0x80 then Some (n, r)
     else if n < 0xC2 then None
     else if n < 0xE0 then (case r of
         b # r' \<Rightarrow> if cont b then Some ((n - 192) * 64 + tail_bits b, r') else None
       | _ \<Rightarrow> None)
     else if n < 0xF0 then (case r of
         b # c # r' \<Rightarrow> (let v = ((n - 224) * 64 + tail_bits b) * 64 + tail_bits c in
           if cont b \<and> cont c \<and> 0x800 \<le> v \<and> scalar v then Some (v, r') else None)
       | _ \<Rightarrow> None)
     else if n < 0xF5 then (case r of
         b # c # d # r' \<Rightarrow> (let v = (((n - 240) * 64 + tail_bits b) * 64 + tail_bits c) * 64 + tail_bits d in
           if cont b \<and> cont c \<and> cont d \<and> 0x10000 \<le> v \<and> scalar v then Some (v, r') else None)
       | _ \<Rightarrow> None)
     else None)"

lemma decode_one_shorter: "decode_one bs = Some (c, r) \<Longrightarrow> length r < length bs"
  by (cases bs) (auto simp: Let_def split: if_splits list.splits)

function decode :: "octets \<Rightarrow> pytext res" where
  "decode bs = (if bs = [] then Inr [] else (case decode_one bs of
     None \<Rightarrow> Inl (ValueError ''invalid utf-8'')
   | Some (c, r) \<Rightarrow> (case decode r of Inl e \<Rightarrow> Inl e | Inr s \<Rightarrow> Inr (c # s))))"
  by pat_completeness auto
termination by (relation "measure length") (auto dest: decode_one_shorter)

declare decode.simps [simp del]

section \<open>Octets of a code point\<close>

lemma octet_table:
  "list_all (\<lambda>n. cont (of_nat n) = (128 \<le> n \<and> n < 192) \<and> (128 \<le> n \<and> n < 192 \<longrightarrow> tail_bits (of_nat n) = n - 128)) [0..<256]"
  by code_simp

lemma cont_octet: "n < 256 \<Longrightarrow> cont (of_nat n) = (128 \<le> n \<and> n < 192)"
  and tail_octet: "128 \<le> n \<Longrightarrow> n < 192 \<Longrightarrow> tail_bits (of_nat n) = n - 128"
  using octet_table by (auto simp: list_all_iff)

lemma unat_octet: "n < 256 \<Longrightarrow> unat (of_nat n :: 8 word) = n"
  by (simp add: unat_of_nat)

lemma utf8_char_shape:
  assumes "scalar c"
  shows "\<exists>lead rest. utf8_char c = lead # rest \<and> \<not> cont lead \<and> list_all cont rest \<and> length rest < 4"
proof -
  have "c < 0x110000" using assms by (auto simp: scalar_def)
  then show ?thesis by (auto simp: utf8_char_def cont_octet simp del: of_nat_add)
qed

lemma decode_two: "194 \<le> a \<Longrightarrow> a < 224 \<Longrightarrow> b < 64 \<Longrightarrow>
    decode_one (of_nat a # of_nat (128 + b) # r) = Some ((a - 192) * 64 + b, r)"
  by (simp add: unat_octet cont_octet tail_octet del: of_nat_add)

lemma decode_three:
  assumes "224 \<le> a" "a < 240" "b < 64" "d < 64" "2048 \<le> v" "scalar v" "v = ((a - 224) * 64 + b) * 64 + d"
  shows "decode_one (of_nat a # of_nat (128 + b) # of_nat (128 + d) # r) = Some (v, r)"
  using assms by (simp add: Let_def unat_octet cont_octet tail_octet del: of_nat_add)

lemma decode_four:
  assumes "240 \<le> a" "a < 245" "b < 64" "d < 64" "e < 64" "65536 \<le> v" "scalar v" "v = (((a - 240) * 64 + b) * 64 + d) * 64 + e"
  shows "decode_one (of_nat a # of_nat (128 + b) # of_nat (128 + d) # of_nat (128 + e) # r) = Some (v, r)"
  using assms by (simp add: Let_def unat_octet cont_octet tail_octet del: of_nat_add)

lemma digits_three: "c = ((224 + c div 4096 - 224) * 64 + c div 64 mod 64) * 64 + c mod (64 :: nat)"
proof -
  have "c div 4096 = c div 64 div 64" by (simp add: div_mult2_eq [symmetric])
  then have "c div 4096 * 64 + c div 64 mod 64 = c div 64" by (simp only: div_mult_mod_eq)
  then show ?thesis by (simp only: diff_add_inverse div_mult_mod_eq)
qed

lemma digits_four: "c = (((240 + c div 262144 - 240) * 64 + c div 4096 mod 64) * 64 + c div 64 mod 64) * 64 + c mod (64 :: nat)"
proof -
  have "c div 262144 = c div 4096 div 64" "c div 4096 = c div 64 div 64" by (simp_all add: div_mult2_eq [symmetric])
  then have "c div 262144 * 64 + c div 4096 mod 64 = c div 4096" "c div 4096 * 64 + c div 64 mod 64 = c div 64"
    by (simp_all only: div_mult_mod_eq)
  then show ?thesis by (simp only: diff_add_inverse div_mult_mod_eq)
qed

lemma decode_char:
  assumes "scalar c"
  shows "decode_one (utf8_char c @ r) = Some (c, r)"
proof -
  have max: "c < 0x110000" using assms by (auto simp: scalar_def)
  consider "c < 0x80" | "0x80 \<le> c" "c < 0x800" | "0x800 \<le> c" "c < 0x10000" | "0x10000 \<le> c" by linarith
  then show ?thesis
  proof cases
    case 1
    then show ?thesis by (simp add: utf8_char_def Let_def unat_octet)
  next
    case 2
    then have "utf8_char c @ r = of_nat (192 + c div 64) # of_nat (128 + c mod 64) # r"
      by (simp add: utf8_char_def del: of_nat_add)
    with decode_two [of "192 + c div 64" "c mod 64" r] 2 show ?thesis by simp
  next
    case 3
    then have e: "utf8_char c @ r = of_nat (224 + c div 4096) # of_nat (128 + c div 64 mod 64) # of_nat (128 + c mod 64) # r"
      by (simp add: utf8_char_def del: of_nat_add)
    have v: "c = ((224 + c div 4096 - 224) * 64 + c div 64 mod 64) * 64 + c mod 64" by (rule digits_three)
    have "c div 4096 < 16" using 3 by (intro less_mult_imp_div_less) simp
    then have a: "224 + c div 4096 < 240" by simp
    show ?thesis unfolding e by (rule decode_three [OF _ a _ _ 3(1) assms v]) simp_all
  next
    case 4
    then have e: "utf8_char c @ r = of_nat (240 + c div 262144) # of_nat (128 + c div 4096 mod 64) #
        of_nat (128 + c div 64 mod 64) # of_nat (128 + c mod 64) # r"
      by (simp add: utf8_char_def del: of_nat_add)
    have v: "c = (((240 + c div 262144 - 240) * 64 + c div 4096 mod 64) * 64 + c div 64 mod 64) * 64 + c mod 64" by (rule digits_four)
    have "c div 262144 < 5" using max by (intro less_mult_imp_div_less) simp
    then have a: "240 + c div 262144 < 245" by simp
    show ?thesis unfolding e by (rule decode_four [OF _ a _ _ _ 4 assms v]) simp_all
  qed
qed

lemma decode_utf8: "list_all scalar s \<Longrightarrow> decode (utf8 s) = Inr s"
proof (induction s)
  case (Cons c s)
  then have ne: "utf8_char c \<noteq> []" using utf8_char_shape [of c] by auto
  have "utf8 (c # s) = utf8_char c @ utf8 s" by (simp add: utf8_def)
  with ne Cons show ?case using decode_char [of c "utf8 s"] by (simp add: decode.simps [of "utf8_char c @ utf8 s"])
qed (simp add: utf8_def decode.simps)

lemma utf8_append: "utf8 (s @ t) = utf8 s @ utf8 t"
  by (simp add: utf8_def)

end
