(* ===== verification/Splitting.thy ===== *)
theory Splitting imports PyBytes begin

text \<open>
  Splitting a chapter for the prompt of a model, \<^verbatim>\<open>_split_bytes\<close> of
  \<^verbatim>\<open>backend/app/cost/limits.py\<close>: chunks of bounded UTF-8 length that end at a code point, preferably
  at a paragraph, line or word.
\<close>

section \<open>Splitting an input\<close>

text \<open>\<^verbatim>\<open>_split_bytes\<close>: back from the limit to the start of a code point, then to a nearby separator.\<close>

fun cut_back :: "octets \<Rightarrow> nat \<Rightarrow> nat" where
  "cut_back raw 0 = 0"
| "cut_back raw (Suc n) = (if cont (raw ! Suc n) then cut_back raw n else Suc n)"

definition separator :: "pytext \<Rightarrow> int" where
  "separator s = max (max (rfind [10, 10] s) (rfind [10] s)) (rfind [32] s)"

definition at_separator :: "pytext \<Rightarrow> pytext" where
  "at_separator s = (if max 1 (int (length s) div 2) \<le> separator s then take (nat (separator s + 1)) s else s)"

definition next_chunk :: "nat \<Rightarrow> pytext \<Rightarrow> pytext res" where
  "next_chunk limit remaining = (case encode remaining of Inl e \<Rightarrow> Inl e | Inr raw \<Rightarrow>
     if length raw \<le> limit then Inr remaining
     else (case decode (take (cut_back raw limit) raw) of Inl e \<Rightarrow> Inl e | Inr s \<Rightarrow> Inr (at_separator s)))"

function split_loop :: "nat \<Rightarrow> pytext \<Rightarrow> pytext list res" where
  "split_loop limit remaining = (if remaining = [] then Inr []
     else (case next_chunk limit remaining of Inl e \<Rightarrow> Inl e | Inr c \<Rightarrow>
       if c = [] then Inl (ValueError ''input chunk byte limit is too small for one Unicode code point'')
       else (case split_loop limit (drop (length c) remaining) of Inl e \<Rightarrow> Inl e | Inr cs \<Rightarrow> Inr (c # cs))))"
  by pat_completeness auto
termination by (relation "measure (\<lambda>(_, r). length r)") auto

declare split_loop.simps [simp del]

definition split_bytes :: "pytext \<Rightarrow> nat \<Rightarrow> pytext list res" where
  "split_bytes s limit = (case encode s of Inl e \<Rightarrow> Inl e | Inr raw \<Rightarrow>
     if length raw \<le> limit then Inr [s] else split_loop limit s)"

section \<open>Facts\<close>

lemma utf8_Cons: "utf8 (c # s) = utf8_char c @ utf8 s"
  by (simp add: utf8_def)

lemma cut_back_ge: "j \<le> i \<Longrightarrow> (j = 0 \<or> \<not> cont (raw ! j)) \<Longrightarrow> j \<le> cut_back raw i"
  by (induction raw i rule: cut_back.induct) (auto simp: le_Suc_eq)

lemma cut_back_le: "cut_back raw i \<le> i"
  by (induction raw i rule: cut_back.induct) auto

lemma cut_back_lead: "cut_back raw i = 0 \<or> \<not> cont (raw ! cut_back raw i)"
  by (induction raw i rule: cut_back.induct) auto

text \<open>The octets that are not continuations are where code points begin.\<close>

lemma lead_prefix:
  assumes "list_all scalar s" "i < length (utf8 s)" "\<not> cont (utf8 s ! i)"
  shows "\<exists>k < length s. i = length (utf8 (take k s))"
  using assms
proof (induction s arbitrary: i)
  case (Cons c s)
  from Cons.prems(1) obtain l r where c: "utf8_char c = l # r" "list_all cont r" using utf8_char_shape [of c] by auto
  show ?case
  proof (cases "i < length (utf8_char c)")
    case True
    have "i = 0"
    proof (rule ccontr)
      assume "i \<noteq> 0"
      then have "utf8 (c # s) ! i = r ! (i - 1)" "i - 1 < length r" using True c by (auto simp: utf8_Cons nth_append nth_Cons')
      with c(2) Cons.prems(3) show False by (simp add: list_all_length)
    qed
    then show ?thesis by (intro exI [of _ 0]) (simp add: utf8_def)
  next
    case False
    have "\<exists>k < length s. i - length (utf8_char c) = length (utf8 (take k s))"
      using False Cons.prems by (intro Cons.IH) (auto simp: utf8_Cons nth_append)
    then obtain k where "k < length s" "i - length (utf8_char c) = length (utf8 (take k s))" by blast
    then show ?thesis using False by (intro exI [of _ "Suc k"]) (simp add: utf8_Cons)
  qed
qed (simp add: utf8_def)

lemma prefix_lead:
  assumes "list_all scalar s" "k < length s"
  shows "length (utf8 (take k s)) < length (utf8 s) \<and> \<not> cont (utf8 s ! length (utf8 (take k s)))"
proof -
  have "s = take k s @ s ! k # drop (Suc k) s" using assms(2) by (simp add: id_take_nth_drop)
  then have e: "utf8 s = utf8 (take k s) @ utf8_char (s ! k) @ utf8 (drop (Suc k) s)"
    by (metis utf8_append utf8_Cons)
  obtain l r where "utf8_char (s ! k) = l # r" "\<not> cont l"
    using utf8_char_shape [of "s ! k"] assms by (auto simp: list_all_length)
  then show ?thesis unfolding e by simp
qed

lemma utf8_take_mono: "j \<le> k \<Longrightarrow> length (utf8 (take j s)) \<le> length (utf8 (take k s))"
proof -
  assume "j \<le> k"
  then have "take k s = take j s @ take (k - j) (drop j s)" by (metis take_add le_add_diff_inverse)
  then show ?thesis by (simp add: utf8_append)
qed

text \<open>What is cut off is a prefix of whole code points, the longest within the limit.\<close>

lemma cut_prefix:
  assumes "list_all scalar s" "limit < length (utf8 s)"
  obtains k where "k < length s" "take (cut_back (utf8 s) limit) (utf8 s) = utf8 (take k s)"
    "length (utf8 (take k s)) \<le> limit" "limit < length (utf8 (take (Suc k) s))"
proof -
  let ?c = "cut_back (utf8 s) limit"
  have s: "0 < length s" using assms(2) by (cases s) (simp_all add: utf8_def)
  have "\<exists>k < length s. ?c = length (utf8 (take k s))"
  proof (cases "?c = 0")
    case True
    then show ?thesis using s by (intro exI [of _ 0]) (simp add: utf8_def)
  next
    case False
    have "?c < length (utf8 s)" using cut_back_le [of "utf8 s" limit] assms(2) by simp
    moreover have "\<not> cont (utf8 s ! ?c)" using cut_back_lead [of "utf8 s" limit] False by blast
    ultimately show ?thesis by (rule lead_prefix [OF assms(1)])
  qed
  then obtain k where k: "k < length s" "?c = length (utf8 (take k s))" by blast
  have "utf8 s = utf8 (take k s) @ utf8 (drop k s)" by (metis append_take_drop_id utf8_append)
  then have t: "take ?c (utf8 s) = utf8 (take k s)" unfolding k(2) by (metis append_eq_conv_conj)
  have le: "length (utf8 (take k s)) \<le> limit" using cut_back_le [of "utf8 s" limit] k(2) by simp
  have "limit < length (utf8 (take (Suc k) s))"
  proof (rule ccontr)
    assume a: "\<not> limit < length (utf8 (take (Suc k) s))"
    then have "Suc k < length s" using assms(2) k(1) by (metis Suc_lessI take_all_iff order_refl)
    then have "length (utf8 (take (Suc k) s)) \<le> ?c"
      using a prefix_lead [OF assms(1)] by (intro cut_back_ge) auto
    moreover have "length (utf8 (take k s)) < length (utf8 (take (Suc k) s))"
    proof -
      have "utf8 (take (Suc k) s) = utf8 (take k s) @ utf8_char (s ! k)"
        using k(1) by (simp add: take_Suc_conv_app_nth utf8_append) (simp add: utf8_def)
      moreover have "utf8_char (s ! k) \<noteq> []" using utf8_char_shape [of "s ! k"] assms(1) k(1) by (auto simp: list_all_length)
      ultimately show ?thesis by simp
    qed
    ultimately show False using k(2) by simp
  qed
  with k t le show ?thesis using that by blast
qed

lemma at_separator_prefix: "\<exists>n. at_separator s = take n s \<and> (s \<noteq> [] \<longrightarrow> 0 < n)"
proof (cases "max 1 (int (length s) div 2) \<le> separator s")
  case True
  then show ?thesis unfolding at_separator_def by (intro exI [of _ "nat (separator s + 1)"]) auto
next
  case False
  then show ?thesis unfolding at_separator_def by (intro exI [of _ "length s"]) auto
qed

lemma next_chunk_ok:
  assumes "list_all scalar s" "s \<noteq> []" "list_all (\<lambda>c. length (utf8_char c) \<le> limit) s"
  obtains n where "next_chunk limit s = Inr (take n s)" "0 < n" "length (utf8 (take n s)) \<le> limit"
proof (cases "length (utf8 s) \<le> limit")
  case True
  then show ?thesis using assms by (intro that [of "length s"]) (auto simp: next_chunk_def encode_def)
next
  case False
  then have "limit < length (utf8 s)" by simp
  from cut_prefix [OF assms(1) this] obtain k where k: "k < length s" "take (cut_back (utf8 s) limit) (utf8 s) = utf8 (take k s)"
    "length (utf8 (take k s)) \<le> limit" "limit < length (utf8 (take (Suc k) s))" .
  have "0 < k"
  proof (rule ccontr)
    assume "\<not> 0 < k"
    with k(4) assms show False by (cases s) (simp_all add: utf8_def)
  qed
  have dec: "decode (utf8 (take k s)) = Inr (take k s)" using assms(1) by (intro decode_utf8) (auto simp: list_all_iff dest: in_set_takeD)
  obtain n where n: "at_separator (take k s) = take n (take k s)" "take k s \<noteq> [] \<longrightarrow> 0 < n" using at_separator_prefix by blast
  have m: "at_separator (take k s) = take (min n k) s" "0 < min n k" using n \<open>0 < k\<close> assms(2) by auto
  show ?thesis
    using m assms k(2,3) False dec utf8_take_mono [of "min n k" k s]
    by (intro that [of "min n k"]) (auto simp: next_chunk_def encode_def)
qed

lemma split_loop_ok:
  "list_all scalar s \<Longrightarrow> list_all (\<lambda>c. length (utf8_char c) \<le> limit) s \<Longrightarrow>
    \<exists>cs. split_loop limit s = Inr cs \<and> concat cs = s \<and> list_all (\<lambda>c. c \<noteq> [] \<and> length (utf8 c) \<le> limit) cs"
proof (induction s rule: length_induct)
  case (1 s)
  show ?case
  proof (cases "s = []")
    case True
    then show ?thesis by (simp add: split_loop.simps)
  next
    case False
    from next_chunk_ok [OF "1.prems"(1) False "1.prems"(2)] obtain n where n: "next_chunk limit s = Inr (take n s)" "0 < n"
      "length (utf8 (take n s)) \<le> limit" .
    have "length (drop n s) < length s" using n(2) False by (cases s) auto
    moreover have "list_all scalar (drop n s)" "list_all (\<lambda>c. length (utf8_char c) \<le> limit) (drop n s)"
      using "1.prems" by (auto simp: list_all_iff dest: in_set_dropD)
    ultimately obtain cs where cs: "split_loop limit (drop n s) = Inr cs" "concat cs = drop n s"
      "list_all (\<lambda>c. c \<noteq> [] \<and> length (utf8 c) \<le> limit) cs" using "1.IH" by blast
    have "drop (length (take n s)) s = drop n s" by (cases "n \<le> length s") (auto simp: min_def)
    with n cs False show ?thesis by (subst split_loop.simps) auto
  qed
qed

text \<open>
  Property C35: splitting a chapter for the prompt loses and alters nothing, and every piece fits: the chunks
  concatenate to the chapter, each encodes to at most the limit, and the loop ends without an error as
  soon as the limit holds the widest code point of the chapter.\<close>

theorem split_bytes_is_lossless:
  assumes "list_all scalar s" and "list_all (\<lambda>c. length (utf8_char c) \<le> limit) s"
  shows "\<exists>cs. split_bytes s limit = Inr cs \<and> concat cs = s \<and> (\<forall>c \<in> set cs. length (utf8 c) \<le> limit)"
proof (cases "length (utf8 s) \<le> limit")
  case True
  then show ?thesis using assms(1) by (intro exI [of _ "[s]"]) (simp add: split_bytes_def encode_def)
next
  case False
  from split_loop_ok [OF assms] obtain cs where cs: "split_loop limit s = Inr cs" "concat cs = s"
    "list_all (\<lambda>c. c \<noteq> [] \<and> length (utf8 c) \<le> limit) cs" by blast
  then show ?thesis using assms(1) False
    by (intro exI [of _ cs]) (simp add: split_bytes_def encode_def list_all_iff)
qed

theorem split_bytes_is_lossless_witness:
  "\<exists>cs. split_bytes [97, 32, 228, 8364, 128512, 32, 98] 4 = Inr cs \<and> concat cs = [97, 32, 228, 8364, 128512, 32, 98] \<and>
     (\<forall>c \<in> set cs. length (utf8 c) \<le> 4)"
  by (rule split_bytes_is_lossless) (simp_all add: scalar_def utf8_char_def)

end
