(* ===== verification/Pricing.thy ===== *)
theory Pricing imports Splitting Catalog begin

text \<open>
  Prices and token estimates, \<^verbatim>\<open>backend/app/cost/limits.py\<close>: the price table, the usage a provider
  reports, and the dollars reserved for a call, which bound the dollars it is billed. Dollars are
  rationals where the code has floats; model names are strings below code point 256.
\<close>

section \<open>Prices\<close>

text \<open>Dollars per token in and out, in the order of the table; the cached rates of the models that have them.\<close>

definition USD :: "(string \<times> rat \<times> rat) list" where
  "USD = [(''jev-1.13.0'', 42 / 10 ^ 9, 0), (''jev-1.14.0'', 42 / 10 ^ 9, 0),
     (''gpt-6-luna'', 10 / 10 ^ 8, 50 / 10 ^ 8), (''gpt-6.1-sol'', 2 / 10 ^ 6, 10 / 10 ^ 6),
     (''gpt-5.4-mini'', 75 / 10 ^ 8, 450 / 10 ^ 8), (''gpt-5.4'', 250 / 10 ^ 8, 15 / 10 ^ 6),
     (''gpt-4o-mini'', 15 / 10 ^ 8, 60 / 10 ^ 8), (''gpt-4o'', 250 / 10 ^ 8, 10 / 10 ^ 6),
     (''text-embedding-3-small'', 2 / 10 ^ 8, 0)]"

definition CACHE_INPUT_USD :: "(string \<times> rat \<times> rat) list" where
  "CACHE_INPUT_USD = [(''gpt-6-luna'', 1 / 10 ^ 8, 125 / 10 ^ 9), (''gpt-6.1-sol'', 10 / 10 ^ 8, 250 / 10 ^ 8)]"

definition price_name :: "string \<Rightarrow> string option" where
  "price_name model = find (\<lambda>name. if name \<in> fst ` set CACHE_INPUT_USD then last (split_on (CHR '':'') model) = name
     else contains name model) (map fst USD)"

text \<open>The usage a call is billed for; absent cache counts are zero.\<close>

record bill =
  u_in :: int
  u_out :: int
  u_read :: int
  u_write :: int

definition int_or_zero :: "pyval \<Rightarrow> int res" where
  "int_or_zero v = py_int (case v of PyNone \<Rightarrow> PyInt 0 | PyStr s \<Rightarrow> if s = [] then PyInt 0 else v | _ \<Rightarrow> v)"

definition cache_counts :: "int \<Rightarrow> pyval \<Rightarrow> pyval \<Rightarrow> int \<times> int" where
  "cache_counts inp read written = (case (read, written) of
     (PyInt r, PyInt w) \<Rightarrow> if 0 \<le> r \<and> 0 \<le> w \<and> r + w \<le> inp then (r, w) else (0, inp)
   | _ \<Rightarrow> (0, inp))"

definition completion_usage :: "(string \<times> pyval) list \<Rightarrow> bill res" where
  "completion_usage reported = (case int_or_zero (cost_get reported ''in'' (PyInt 0)) of Inl e \<Rightarrow> Inl e | Inr i \<Rightarrow>
     (case int_or_zero (cost_get reported ''out'' (PyInt 0)) of Inl e \<Rightarrow> Inl e | Inr out \<Rightarrow>
       (case cache_counts i (cost_get reported ''cache_read'' (PyInt 0)) (cost_get reported ''cache_write'' (PyInt 0)) of
         (r, w) \<Rightarrow> Inr \<lparr>u_in = i, u_out = out, u_read = r, u_write = w\<rparr>)))"

definition fast :: "string \<Rightarrow> bool" where
  "fast model = (take 5 model = ''fast:'')"

definition usd_of :: "string \<Rightarrow> bill \<Rightarrow> rat" where
  "usd_of model u = (case price_name model of None \<Rightarrow> 0
   | Some name \<Rightarrow> (case the (map_of USD name) of (p, q) \<Rightarrow>
       let tier = (if fast model then 2 else 1 :: rat) in
       (case map_of CACHE_INPUT_USD name of
         None \<Rightarrow> of_int (u_in u) * (p * tier) + of_int (u_out u) * (q * tier)
       | Some (cr, cw) \<Rightarrow>
           (case cache_counts (u_in u) (PyInt (u_read u)) (PyInt (u_write u)) of (r, w) \<Rightarrow>
             let long = 272000 < u_in u in
             (of_int (u_in u - r - w) * (p * tier) + of_int r * (cr * tier) + of_int w * (cw * tier)) *
               (if long then 2 else 1) + of_int (u_out u) * (q * tier) * (if long then 3 / 2 else 1)))))"

definition reserved_usd_of :: "string \<Rightarrow> bill \<Rightarrow> rat" where
  "reserved_usd_of model u = usd_of model
     (case price_name model of None \<Rightarrow> u
      | Some name \<Rightarrow> if name \<in> fst ` set CACHE_INPUT_USD then u\<lparr>u_read := 0, u_write := u_in u\<rparr> else u)"

definition pricing_known :: "string \<Rightarrow> bool" where
  "pricing_known model = (take 5 model = ''stub:'' \<or> take 5 model = ''stub-'' \<or> price_name model \<noteq> None)"

text \<open>An upper bound of the input tokens, from UTF-8 lengths; the JSON schema of the answer counts by its length.\<close>

definition estimate_input_tokens :: "pytext \<Rightarrow> pytext \<Rightarrow> nat option \<Rightarrow> int res" where
  "estimate_input_tokens system user schema = (case encode system of Inl e \<Rightarrow> Inl e | Inr a \<Rightarrow>
     (case encode user of Inl e \<Rightarrow> Inl e | Inr b \<Rightarrow>
       Inr (int (length a) + int (length b) + int (case schema of None \<Rightarrow> 0 | Some n \<Rightarrow> n) + 64)))"

definition split_text_for_prompt :: "pytext \<Rightarrow> pytext \<Rightarrow> pytext \<Rightarrow> int \<Rightarrow> nat option \<Rightarrow> pytext list res" where
  "split_text_for_prompt s prompt system max_input schema =
     (case estimate_input_tokens system prompt schema of Inl e \<Rightarrow> Inl e | Inr overhead \<Rightarrow>
       if max_input - overhead \<le> 0
       then Inl (CostCeilingExceeded ''prompt metadata alone exceeds the per-call input ceiling'')
       else split_bytes s (nat (max_input - overhead)))"

section \<open>Prices are bounded by the reservation\<close>

lemma price_tables:
  "list_all (\<lambda>(name, p, q). 0 \<le> p \<and> 0 \<le> q) USD"
  "list_all (\<lambda>(name, cr, cw). 0 \<le> cr \<and> cr \<le> cw \<and> (case map_of USD name of None \<Rightarrow> True | Some (p, q) \<Rightarrow> p \<le> cw)) CACHE_INPUT_USD"
  by code_simp+

lemma prices_positive: "map_of USD name = Some (p, q) \<Longrightarrow> 0 \<le> p \<and> 0 \<le> q"
  using price_tables(1) by (auto simp: list_all_iff dest!: map_of_SomeD)

lemma cached_prices:
  assumes "map_of CACHE_INPUT_USD name = Some (cr, cw)" "map_of USD name = Some (p, q)"
  shows "0 \<le> cr \<and> cr \<le> cw \<and> 0 \<le> p \<and> p \<le> cw \<and> 0 \<le> q"
proof -
  have "(name, cr, cw) \<in> set CACHE_INPUT_USD" using assms(1) by (rule map_of_SomeD)
  with price_tables(2) have "0 \<le> cr \<and> cr \<le> cw \<and> (case map_of USD name of None \<Rightarrow> True | Some (p, q) \<Rightarrow> p \<le> cw)"
    unfolding list_all_iff by fastforce
  with assms(2) prices_positive [OF assms(2)] show ?thesis by simp
qed

lemma price_name_listed:
  assumes "price_name model = Some name"
  shows "\<exists>p q. map_of USD name = Some (p, q)"
proof -
  have "name \<in> set (map fst USD)" using assms unfolding price_name_def find_Some_iff by (metis nth_mem)
  then have "map_of USD name \<noteq> None" by (simp add: map_of_eq_None_iff)
  then show ?thesis by auto
qed

lemma cache_counts_ok: "0 \<le> n \<Longrightarrow> cache_counts n a b = (r, w) \<Longrightarrow> 0 \<le> r \<and> 0 \<le> w \<and> r + w \<le> n"
  by (auto simp: cache_counts_def split: pyval.splits if_splits)

lemma cached_input_bound:
  fixes p cr cw :: rat and r w i i' :: int
  assumes "0 \<le> cr" "cr \<le> cw" "0 \<le> p" "p \<le> cw" "0 \<le> r" "0 \<le> w" "r + w \<le> i" "i \<le> i'"
  shows "of_int (i - r - w) * p + of_int r * cr + of_int w * cw \<le> of_int i' * cw"
proof -
  have "of_int (i - r - w) * p \<le> of_int (i - r - w) * cw" "of_int r * cr \<le> of_int r * cw"
    using assms by (auto intro!: mult_left_mono)
  moreover have "of_int (i - r - w) * cw + of_int r * cw + of_int w * cw = of_int i * cw"
    by (simp add: algebra_simps)
  moreover have "of_int i * cw \<le> of_int i' * cw" using assms by (intro mult_right_mono) auto
  ultimately show ?thesis by linarith
qed

text \<open>The tier of the model that is billed may be lower than the reserved one.\<close>

lemma usd_of_le:
  assumes "price_name model' = price_name model" "fast model' \<Longrightarrow> fast model"
    and "0 \<le> u_in u" "u_in u \<le> u_in v" "0 \<le> u_out u" "u_out u \<le> u_out v"
  shows "usd_of model' u \<le> reserved_usd_of model v"
proof (cases "price_name model")
  case None
  then show ?thesis using assms(1) by (simp add: usd_of_def reserved_usd_of_def)
next
  case (Some name)
  then obtain p q where pq: "map_of USD name = Some (p, q)" using price_name_listed by blast
  note pos = prices_positive [OF pq]
  define t t' :: rat where "t = (if fast model then 2 else 1)" and "t' = (if fast model' then 2 else 1)"
  have t: "0 < t'" "t' \<le> t" using assms(2) by (auto simp: t_def t'_def)
  have out: "of_int (u_out u) * (q * t') \<le> of_int (u_out v) * (q * t)" "0 \<le> of_int (u_out v) * (q * t)"
    using assms(5,6) pos t by (auto intro!: mult_mono mult_nonneg_nonneg)
  show ?thesis
  proof (cases "map_of CACHE_INPUT_USD name")
    case None
    then have no: "name \<notin> fst ` set CACHE_INPUT_USD" by (simp add: map_of_eq_None_iff)
    have "of_int (u_in u) * (p * t') \<le> of_int (u_in v) * (p * t)"
      using assms(3,4) pos t by (intro mult_mono mult_nonneg_nonneg) auto
    with out show ?thesis
      by (simp add: usd_of_def reserved_usd_of_def Some assms(1) pq None no Let_def t_def t'_def)
  next
    case (Some cached)
    obtain cr cw where c: "cached = (cr, cw)" by fastforce
    then have yes: "name \<in> fst ` set CACHE_INPUT_USD" using map_of_SomeD [OF Some] by force
    note rates = cached_prices [OF Some [unfolded c] pq]
    obtain r w where rw: "cache_counts (u_in u) (PyInt (u_read u)) (PyInt (u_write u)) = (r, w)" by fastforce
    note ok = cache_counts_ok [OF assms(3) rw]
    define s s' l l' :: rat where "s = (if 272000 < u_in v then 2 else 1)" and "s' = (if 272000 < u_in u then 2 else 1)"
      and "l = (if 272000 < u_in v then 3 / 2 else 1)" and "l' = (if 272000 < u_in u then 3 / 2 else 1)"
    have sl: "0 < s'" "s' \<le> s" "0 < l'" "l' \<le> l" using assms(4) by (auto simp: s_def s'_def l_def l'_def)
    have "of_int (u_in u - r - w) * p + of_int r * cr + of_int w * cw \<le> of_int (u_in v) * cw"
      using rates ok assms(4) by (intro cached_input_bound) auto
    then have "(of_int (u_in u - r - w) * p + of_int r * cr + of_int w * cw) * (t' * s') \<le> (of_int (u_in v) * cw) * (t * s)"
      using rates t sl assms(3,4) by (intro mult_mono mult_nonneg_nonneg) auto
    then have inp: "(of_int (u_in u - r - w) * (p * t') + of_int r * (cr * t') + of_int w * (cw * t')) * s' \<le> (of_int (u_in v) * (cw * t)) * s"
      by (simp add: algebra_simps)
    have outl: "of_int (u_out u) * (q * t') * l' \<le> of_int (u_out v) * (q * t) * l"
      using out sl assms(5,6) pos t by (intro mult_mono mult_nonneg_nonneg) auto
    have all: "cache_counts (u_in v) (PyInt 0) (PyInt (u_in v)) = (0, u_in v)" using assms(3,4) by (simp add: cache_counts_def)
    have left: "usd_of model' u = (of_int (u_in u - r - w) * (p * t') + of_int r * (cr * t') + of_int w * (cw * t')) * s' +
        of_int (u_out u) * (q * t') * l'"
      by (simp add: usd_of_def assms(1) \<open>price_name model = Some name\<close> pq Some c rw Let_def t'_def s'_def l'_def)
    have right: "reserved_usd_of model v = (of_int (u_in v) * (cw * t)) * s + of_int (u_out v) * (q * t) * l"
      by (simp add: usd_of_def reserved_usd_of_def \<open>price_name model = Some name\<close> pq Some c yes all Let_def t_def s_def l_def)
    show ?thesis unfolding left right using inp outl by linarith
  qed
qed

text \<open>The fast tier of a model has the price of the model.\<close>

lemma split_on_append: "split_on sep (a @ sep # b) = split_on sep a @ split_on sep b"
  by (induction a) (auto split: list.splits)

lemma price_name_fast: "price_name (''fast:'' @ rest) = price_name rest"
proof -
  have names: "list_all (\<lambda>name. (CHR '':'') \<notin> set name \<and> \<not> contains name ''fast'') (map fst USD)" by code_simp
  have one: "contains name (''fast:'' @ rest) = contains name rest" if "name \<in> set (map fst USD)" for name
    using contains_past_separator [of "CHR '':''" name "''fast''" rest] names that by (auto simp: list_all_iff)
  have two: "last (split_on (CHR '':'') (''fast:'' @ rest)) = last (split_on (CHR '':'') rest)"
    using split_on_append [of "CHR '':''" "''fast''" rest] by (simp del: split_on.simps)
  show ?thesis unfolding price_name_def two using one by (intro find_cong) auto
qed

end
