(* ===== verification/Budgeted.thy ===== *)
theory Budgeted imports Pricing begin

text \<open>
  Paid model calls under the ceilings of a book, \<^verbatim>\<open>budgeted_completion\<close> and
  \<^verbatim>\<open>budgeted_embedding\<close> of \<^verbatim>\<open>backend/app/cost/limits.py\<close>, over the catalog's reservations:
  reserve the worst case, call the provider, record what it billed, settle.
\<close>

section \<open>Budgeted calls\<close>

record settings =
  st_call_in :: int
  st_call_out :: int
  st_book_in :: int
  st_book_out :: int
  st_book_usd :: rat

text \<open>A client for one tier: its billing model, provider, whether it speaks to the native API, its embedding identity.\<close>

record llm_client =
  lc_model :: string
  lc_provider :: "string option"
  lc_native :: bool
  lc_embed :: string

record 'v budgeted_result =
  br_value :: 'v
  br_usage :: bill
  br_usd :: rat
  br_id :: string
  br_model :: "string option"

definition plain_bill :: "int \<Rightarrow> int \<Rightarrow> bill" where
  "plain_bill i out = \<lparr>u_in = i, u_out = out, u_read = 0, u_write = 0\<rparr>"

text \<open>\<^verbatim>\<open>try: ... except E as exc: raise F from exc\<close>.\<close>

definition mapping_error :: "(exc \<Rightarrow> exc) \<Rightarrow> ('s, 'a) act \<Rightarrow> ('s, 'a) act" where
  "mapping_error f m s = (case m s of (Inl e, s') \<Rightarrow> (Inl (f e), s') | (Inr x, s') \<Rightarrow> (Inr x, s'))"

definition ceiling_of_runtime :: "exc \<Rightarrow> exc" where
  "ceiling_of_runtime e = (case e of RuntimeError m \<Rightarrow> CostCeilingExceeded m | _ \<Rightarrow> e)"

definition lost_reservation :: "exc \<Rightarrow> exc" where
  "lost_reservation e = (case e of ValueError _ \<Rightarrow> RuntimeError ''cost reservation disappeared while provider call was in flight'' | _ \<Rightarrow> e)"

text \<open>\<^verbatim>\<open>try: ... except Exception: handler; raise\<close>: the handler may raise itself.\<close>

definition on_error :: "('s, unit) act \<Rightarrow> ('s, 'a) act \<Rightarrow> ('s, 'a) act" where
  "on_error handler m s = (case m s of
     (Inl e, s') \<Rightarrow> bindA handler (\<lambda>_. raise e) s' | (Inr x, s') \<Rightarrow> (Inr x, s'))"

text \<open>A generic endpoint may be asked twice for valid JSON.\<close>

definition generic_reask :: "llm_client \<Rightarrow> nat option \<Rightarrow> bool" where
  "generic_reask c schema = (schema \<noteq> None \<and> lc_provider c = Some ''openai-compatible'' \<and> \<not> lc_native c)"

definition reserved_tokens :: "settings \<Rightarrow> llm_client \<Rightarrow> nat option \<Rightarrow> int \<Rightarrow> bill" where
  "reserved_tokens st c schema estimated =
     (if generic_reask c schema then plain_bill (estimated * 2 + st_call_out st + 512) (st_call_out st * 2)
      else plain_bill estimated (st_call_out st))"

definition reserve_call ::
  "settings \<Rightarrow> string \<Rightarrow> string \<Rightarrow> string \<Rightarrow> bill \<Rightarrow> rat \<Rightarrow> int option \<Rightarrow> string \<Rightarrow> string \<Rightarrow> (catalog, string) act" where
  "reserve_call st b phase model u usd chapter rid now =
     mapping_error ceiling_of_runtime (reserve_cost b phase (Some model) (PyInt (u_in u)) (PyInt (u_out u)) (PyFloat usd)
       (PyInt (st_book_in st)) (PyInt (st_book_out st)) (PyFloat (st_book_usd st)) chapter None None rid now)"

text \<open>What a completion is billed: missing usage of a real provider is the reservation.\<close>

definition missing_usage :: "llm_client \<Rightarrow> bill \<Rightarrow> bool" where
  "missing_usage c actual = (actual = plain_bill 0 0 \<and> lc_provider c \<noteq> Some ''stub'')"

definition served_model :: "llm_client \<Rightarrow> (string \<times> pyval) list \<Rightarrow> bool \<Rightarrow> string" where
  "served_model c reported missing =
     (if \<not> missing \<and> lc_native c \<and> fast (lc_model c) \<and> cost_get reported ''service_tier'' PyNone = PyStr ''default''
      then drop 5 (lc_model c) else lc_model c)"

definition settle_call ::
  "llm_client \<Rightarrow> string \<Rightarrow> string \<Rightarrow> bill \<Rightarrow> bool \<Rightarrow> string \<Rightarrow> string \<Rightarrow> 'v \<Rightarrow> (string \<times> pyval) list \<Rightarrow> (catalog, 'v budgeted_result) act" where
  "settle_call c b phase reserved defer rid now v reported =
     bindA (liftA (completion_usage reported)) (\<lambda>actual0.
       let missing = missing_usage c actual0;
           actual = (if missing then reserved else actual0);
           served = served_model c reported missing;
           usd = (if missing then reserved_usd_of (lc_model c) actual else usd_of served actual) in
       bindA (mapping_error lost_reservation (note_reservation_actual b rid (PyInt (u_in actual)) (PyInt (u_out actual)) (PyFloat usd)
         (if served \<noteq> lc_model c then PyStr served else PyNone))) (\<lambda>_.
       if u_in reserved < u_in actual \<or> u_out reserved < u_out actual
       then bindA (settle_cost b rid (Some (phase @ ''-provider-limit-violation'')) now) (\<lambda>_.
         raise (CostCeilingExceeded ''provider usage exceeded its reserved hard limit''))
       else bindA (if defer then ret () else settle_cost b rid None now) (\<lambda>_.
         ret \<lparr>br_value = v, br_usage = actual, br_usd = usd, br_id = rid, br_model = Some served\<rparr>)))"

text \<open>
  \<^verbatim>\<open>budgeted_completion\<close>: the provider call is a parameter; it takes the catalog because other threads
  use the catalog while the call is in flight.\<close>

definition budgeted_completion ::
  "settings \<Rightarrow> llm_client \<Rightarrow> string \<Rightarrow> string \<Rightarrow> pytext \<Rightarrow> pytext \<Rightarrow> nat option \<Rightarrow> int option \<Rightarrow> bool \<Rightarrow>
   (catalog, 'v \<times> (string \<times> pyval) list) act \<Rightarrow> string \<Rightarrow> string \<Rightarrow> string \<Rightarrow> (catalog, 'v budgeted_result) act" where
  "budgeted_completion st c b phase system user schema chapter defer call new_id t1 t2 =
     bindA (liftA (estimate_input_tokens system user schema)) (\<lambda>estimated.
       let peak = estimated + (if generic_reask c schema then st_call_out st + 512 else 0);
           reserved = reserved_tokens st c schema estimated in
       if st_call_in st < peak then raise (CostCeilingExceeded ''completion input exceeds per-call ceiling'')
       else bindA (reserve_call st b phase (lc_model c) reserved (reserved_usd_of (lc_model c) reserved) chapter new_id t1) (\<lambda>rid.
         bindA (on_error (settle_cost b rid (Some (phase @ ''-failed-reserved'')) t2) call) (\<lambda>(v, reported).
           settle_call c b phase reserved defer rid t2 v reported)))"

fun octet_count :: "pytext list \<Rightarrow> int res" where
  "octet_count [] = Inr 0"
| "octet_count (s # ss) = (case encode s of Inl e \<Rightarrow> Inl e | Inr raw \<Rightarrow>
     (case octet_count ss of Inl e \<Rightarrow> Inl e | Inr n \<Rightarrow> Inr (int (length raw) + n)))"

definition stub_model :: "string \<Rightarrow> bool" where
  "stub_model model = (take 5 model = ''stub:'')"

definition settle_embedding ::
  "string \<Rightarrow> string \<Rightarrow> string \<Rightarrow> int \<Rightarrow> string \<Rightarrow> string \<Rightarrow> 'v \<Rightarrow> (string \<times> pyval) list \<Rightarrow> (catalog, 'v budgeted_result) act" where
  "settle_embedding model b phase estimated rid now v reported =
     bindA (liftA (int_or_zero (cost_get reported ''in'' (PyInt 0)))) (\<lambda>n.
       let tokens = (if n = 0 \<and> \<not> stub_model model then estimated else n);
           usd = usd_of model (plain_bill tokens 0) in
       bindA (mapping_error lost_reservation (note_reservation_actual b rid (PyInt tokens) (PyInt 0) (PyFloat usd) PyNone)) (\<lambda>_.
       if estimated < tokens
       then bindA (settle_cost b rid (Some (phase @ ''-provider-limit-violation'')) now) (\<lambda>_.
         raise (CostCeilingExceeded ''embedding provider usage exceeded its reserved hard limit''))
       else bindA (if tokens = 0 \<and> stub_model model then discard_cost_reservation b rid else settle_cost b rid None now) (\<lambda>_.
         ret \<lparr>br_value = v, br_usage = plain_bill tokens 0, br_usd = usd, br_id = rid, br_model = None\<rparr>)))"

definition budgeted_embedding ::
  "settings \<Rightarrow> llm_client \<Rightarrow> string \<Rightarrow> string \<Rightarrow> pytext list \<Rightarrow> int option \<Rightarrow>
   (catalog, 'v \<times> (string \<times> pyval) list) act \<Rightarrow> string \<Rightarrow> string \<Rightarrow> string \<Rightarrow> (catalog, 'v budgeted_result) act" where
  "budgeted_embedding st c b phase texts chapter call new_id t1 t2 =
     bindA (liftA (octet_count texts)) (\<lambda>n.
       if st_call_in st < n + 32 then raise (CostCeilingExceeded ''embedding input exceeds per-call ceiling'')
       else bindA (reserve_call st b phase (lc_embed c) (plain_bill (n + 32) 0) (usd_of (lc_embed c) (plain_bill (n + 32) 0)) chapter new_id t1) (\<lambda>rid.
         bindA (on_error (settle_cost b rid (Some (phase @ ''-failed-reserved'')) t2) call) (\<lambda>(v, reported).
           settle_embedding (lc_embed c) b phase (n + 32) rid t2 v reported)))"

section \<open>Chunks of one chapter\<close>

record ('e, 'r, 'v, 't) extraction =
  xt_summary :: string
  xt_entities :: "'e list"
  xt_relationships :: "'r list"
  xt_events :: "'v list"
  xt_themes :: "'t list"

definition merge_extractions :: "('e, 'r, 'v, 't) extraction list \<Rightarrow> ('e, 'r, 'v, 't) extraction res" where
  "merge_extractions parts = (if parts = [] then Inl (ValueError ''at least one extraction part is required'')
     else Inr \<lparr>xt_summary = join '' '' (filter (\<lambda>s. s \<noteq> []) (map (\<lambda>p. strip (xt_summary p)) parts)),
       xt_entities = concat (map xt_entities parts), xt_relationships = concat (map xt_relationships parts),
       xt_events = concat (map xt_events parts), xt_themes = concat (map xt_themes parts)\<rparr>)"

section \<open>The reservation of a call\<close>

definition holds_reservation :: "string \<Rightarrow> string \<Rightarrow> bill \<Rightarrow> rat \<Rightarrow> catalog \<Rightarrow> bool" where
  "holds_reservation b rid u usd k = (\<exists>r. reservation_of b rid k = Some r \<and> rv_in r = u_in u \<and> rv_out r = u_out u \<and> rv_usd r = usd)"

lemma reserve_call_Inr:
  assumes "reserve_call st b phase model u usd chapter new_id now k = (Inr rid, k')"
    and "in_budget b (st_book_in st, st_book_out st, st_book_usd st) k"
  shows "in_budget b (st_book_in st, st_book_out st, st_book_usd st) k' \<and> holds_reservation b rid u usd k' \<and>
    usage b k' = add3 (usage b k) (u_in u, u_out u, usd) \<and> 0 \<le> u_in u \<and> 0 \<le> u_out u \<and> 0 \<le> usd"
proof -
  from assms(1) have r: "reserve_cost b phase (Some model) (PyInt (u_in u)) (PyInt (u_out u)) (PyFloat usd)
       (PyInt (st_book_in st)) (PyInt (st_book_out st)) (PyFloat (st_book_usd st)) chapter None None new_id now k = (Inr rid, k')"
    by (auto simp: reserve_call_def mapping_error_def split: prod.splits sum.splits)
  from r have new: "rid = new_id" "new_id \<notin> rv_id ` set (reservations k)"
    and k': "k' = k\<lparr>reservations := reservations k @ [\<lparr>rv_id = new_id, rv_book = b, rv_chapter = chapter,
          rv_phase = phase, rv_model = Some model, rv_in = u_in u, rv_out = u_out u, rv_usd = usd, rv_actual = None, rv_at = now\<rparr>]\<rparr>"
    and pos: "0 \<le> u_in u" "0 \<le> u_out u" "0 \<le> usd"
    by (auto simp: reserve_cost_def bindA_Inr atomically_Inr list_ex_iff split: if_splits option.splits sum.splits
        dest!: check_cost_value_Inr check_usd_Inr)
  have "find (\<lambda>r. rv_id r = new_id \<and> rv_book r = b) (reservations k) = None"
    using new(2) by (auto simp: find_None_iff)
  then have "holds_reservation b rid u usd k'"
    by (simp add: holds_reservation_def reservation_of_def find_append k' new(1))
  moreover have "usage b k' = add3 (usage b k) (u_in u, u_out u, usd)"
    by (simp add: usage_def spent_def pending_def k' Let_def algebra_simps)
  ultimately show ?thesis using in_budget_reserve [OF r assms(2)] pos by blast
qed

lemma sum_list_update_one:
  fixes f :: "'a \<Rightarrow> 'b::linordered_idom"
  assumes "distinct xs" "r \<in> set xs" "\<And>x. x \<in> set xs \<Longrightarrow> Q x = (x = r)" "P r" "P (g r)"
  shows "sum_list (map f (filter P (update_where Q g xs))) + f r = sum_list (map f (filter P xs)) + f (g r)"
  using assms
proof (induction xs)
  case (Cons x xs)
  show ?case
  proof (cases "x = r")
    case True
    then have "update_where Q g xs = xs" using Cons.prems by (intro update_where_none) (auto simp: list_ex_iff)
    with True Cons.prems show ?thesis by (simp add: update_where_def)
  next
    case False
    with Cons.prems have "r \<in> set xs" "\<not> Q x" by auto
    moreover have "distinct xs" using Cons.prems by simp
    ultimately have "sum_list (map f (filter P (update_where Q g xs))) + f r = sum_list (map f (filter P xs)) + f (g r)"
      using Cons.prems(3-5) by (intro Cons.IH) auto
    with \<open>\<not> Q x\<close> show ?thesis by (simp add: update_where_def)
  qed
qed simp

lemma note_Inr:
  assumes "note_reservation_actual b rid (PyInt i) (PyInt out) (PyFloat usd) model k = (Inr x, k')"
  shows "0 \<le> i \<and> 0 \<le> out \<and> 0 \<le> usd \<and> (\<exists>m. k' = k\<lparr>reservations := update_where (\<lambda>r. rv_id r = rid \<and> rv_book r = b)
          (\<lambda>r. r\<lparr>rv_in := i, rv_out := out, rv_usd := usd, rv_actual := Some (i, out, usd), rv_model := m r\<rparr>) (reservations k)\<rparr>)"
  using assms by (auto simp: note_reservation_actual_def bindA_Inr atomically_Inr split: if_splits
      dest!: check_cost_value_Inr check_usd_Inr)

lemma note_usage:
  assumes "note_reservation_actual b rid (PyInt i) (PyInt out) (PyFloat usd) model k = (Inr x, k')"
    and "reservations_ok k" and "holds_reservation b rid u w k"
  shows "reservations_ok k' \<and> add3 (usage b k') (u_in u, u_out u, w) = add3 (usage b k) (i, out, usd)"
proof -
  from note_Inr [OF assms(1)] obtain m where pos: "0 \<le> i" "0 \<le> out" "0 \<le> usd" and
    k': "k' = k\<lparr>reservations := update_where (\<lambda>r. rv_id r = rid \<and> rv_book r = b)
          (\<lambda>r. r\<lparr>rv_in := i, rv_out := out, rv_usd := usd, rv_actual := Some (i, out, usd), rv_model := m r\<rparr>) (reservations k)\<rparr>"
    by blast
  from assms(3) obtain r where r: "reservation_of b rid k = Some r" "rv_in r = u_in u" "rv_out r = u_out u" "rv_usd r = w"
    by (auto simp: holds_reservation_def)
  note mem = reservation_of_Some [OF r(1)]
  have d: "distinct (map rv_id (reservations k))" using assms(2) by (simp add: reservations_ok_def)
  then have inj: "inj_on rv_id (set (reservations k))" and dist: "distinct (reservations k)" by (auto simp: distinct_map)
  have only: "(rv_id x = rid \<and> rv_book x = b) = (x = r)" if "x \<in> set (reservations k)" for x
    using mem inj_onD [OF inj, of x r] that by auto
  have sum: "sum_list (map f (filter (\<lambda>x. rv_book x = b) (reservations k'))) + f r =
      sum_list (map f (filter (\<lambda>x. rv_book x = b) (reservations k))) +
      f (r\<lparr>rv_in := i, rv_out := out, rv_usd := usd, rv_actual := Some (i, out, usd), rv_model := m r\<rparr>)"
    for f :: "reservation_row \<Rightarrow> 'z::linordered_idom"
    unfolding k' using mem by (simp, intro sum_list_update_one [OF dist mem(1) only]) simp_all
  have "reservations_ok k'"
    using assms(2) pos by (auto simp: reservations_ok_def k' map_update_where list_all_iff dest!: set_update_whereD)
  moreover have "ledger k' = ledger k" by (simp add: k')
  ultimately show ?thesis using sum [of rv_in] sum [of rv_out] sum [of rv_usd] r(2-4)
    by (simp add: usage_def spent_def pending_def Let_def)
qed

lemma note_in_budget:
  assumes "note_reservation_actual b rid (PyInt i) (PyInt out) (PyFloat usd) model k = (Inr x, k')"
    and "in_budget b limits k" and "holds_reservation b rid u w k" and "i \<le> u_in u" "out \<le> u_out u" "usd \<le> w"
  shows "in_budget b limits k'"
proof -
  from note_usage [OF assms(1) _ assms(3)] assms(2)
  have k': "reservations_ok k'" "add3 (usage b k') (u_in u, u_out u, w) = add3 (usage b k) (i, out, usd)"
    by (auto simp: in_budget_def)
  obtain a1 a2 a3 c1 c2 c3 where u: "usage b k' = (a1, a2, a3)" "usage b k = (c1, c2, c3)" by (metis prod_cases3)
  obtain mi mo mu where l: "limits = (mi, mo, mu)" by (metis prod_cases3)
  from k'(2) assms(4-6) have "a1 \<le> c1" "a2 \<le> c2" "a3 \<le> c3" by (simp_all add: u)
  with assms(2) k'(1) show ?thesis by (simp add: in_budget_def over_ceiling_def u l)
qed

lemma fast_drop: "fast model \<Longrightarrow> ''fast:'' @ drop 5 model = model"
  unfolding fast_def by (metis append_take_drop_id)

lemma served_price: "price_name (served_model c reported missing) = price_name (lc_model c)"
  using price_name_fast [of "drop 5 (lc_model c)"] fast_drop [of "lc_model c"] by (auto simp: served_model_def)

lemma served_fast: "fast (served_model c reported missing) \<Longrightarrow> fast (lc_model c)"
  by (auto simp: served_model_def split: if_splits)

lemma bindA_liftA: "bindA (liftA (Inr x)) f = f x"
  by (simp add: bindA_def liftA_def fun_eq_iff)

lemma settle_keeps_budget: "in_budget b limits k \<Longrightarrow> in_budget b limits (snd (settle_cost b' rid phase now k))"
  if "b' = b"
  using that by (intro in_budget_call) (auto intro: aon_methods in_budget_settle)

definition overshoot :: "bill \<Rightarrow> (string \<times> pyval) list \<Rightarrow> bool" where
  "overshoot reserved reported = (\<exists>u. completion_usage reported = Inr u \<and> (u_in reserved < u_in u \<or> u_out reserved < u_out u))"

lemma settle_call_budget:
  assumes "in_budget b limits k" "holds_reservation b rid reserved (reserved_usd_of (lc_model c) reserved) k"
    and "settle_call c b phase reserved defer rid now v reported k = (r, k')"
  shows "in_budget b limits k' \<or> ((\<exists>e. r = Inl e) \<and> overshoot reserved reported)"
proof (cases "completion_usage reported")
  case (Inl e)
  with assms(1,3) show ?thesis by (simp add: settle_call_def bindA_def liftA_def)
next
  case (Inr u)
  define missing where "missing = missing_usage c u"
  define actual where "actual = (if missing then reserved else u)"
  define served where "served = served_model c reported missing"
  define usd where "usd = (if missing then reserved_usd_of (lc_model c) actual else usd_of served actual)"
  define note_it where "note_it = note_reservation_actual b rid (PyInt (u_in actual)) (PyInt (u_out actual)) (PyFloat usd)
         (if served \<noteq> lc_model c then PyStr served else PyNone)"
  have call: "settle_call c b phase reserved defer rid now v reported = bindA (mapping_error lost_reservation note_it) (\<lambda>_.
       if u_in reserved < u_in actual \<or> u_out reserved < u_out actual
       then bindA (settle_cost b rid (Some (phase @ ''-provider-limit-violation'')) now) (\<lambda>_.
         raise (CostCeilingExceeded ''provider usage exceeded its reserved hard limit''))
       else bindA (if defer then ret () else settle_cost b rid None now) (\<lambda>_.
         ret \<lparr>br_value = v, br_usage = actual, br_usd = usd, br_id = rid, br_model = Some served\<rparr>))"
    unfolding settle_call_def Inr bindA_liftA Let_def note_it_def usd_def served_def actual_def missing_def by (rule refl)
  obtain n k2 where nt: "note_it k = (n, k2)" by fastforce
  show ?thesis
  proof (cases n)
    case (Inl e)
    have "k2 = k" using aon_methods nt Inl unfolding note_it_def all_or_nothing_def by metis
    with assms(1,3) nt Inl show ?thesis unfolding call by (simp add: bindA_def mapping_error_def)
  next
    case (Inr x)
    have rest: "settle_call c b phase reserved defer rid now v reported k =
       (if u_in reserved < u_in actual \<or> u_out reserved < u_out actual
       then bindA (settle_cost b rid (Some (phase @ ''-provider-limit-violation'')) now) (\<lambda>_.
         raise (CostCeilingExceeded ''provider usage exceeded its reserved hard limit''))
       else bindA (if defer then ret () else settle_cost b rid None now) (\<lambda>_.
         ret \<lparr>br_value = v, br_usage = actual, br_usd = usd, br_id = rid, br_model = Some served\<rparr>)) k2"
      unfolding call using nt Inr by (simp add: bindA_def mapping_error_def)
    note noted = nt [unfolded Inr note_it_def]
    show ?thesis
    proof (cases "u_in reserved < u_in actual \<or> u_out reserved < u_out actual")
      case True
      then have "overshoot reserved reported"
        using \<open>completion_usage reported = Inr u\<close> by (auto simp: overshoot_def actual_def split: if_splits)
      moreover have "\<exists>e. r = Inl e"
        using assms(3) True unfolding rest by (auto simp: bindA_def raise_def split: prod.splits sum.splits)
      ultimately show ?thesis by blast
    next
      case False
      have "usd \<le> reserved_usd_of (lc_model c) reserved"
      proof (cases missing)
        case False
        from note_Inr [OF noted] have "0 \<le> u_in actual" "0 \<le> u_out actual" by blast+
        then show ?thesis
          using usd_of_le [OF served_price served_fast] \<open>\<not> (u_in reserved < u_in actual \<or> u_out reserved < u_out actual)\<close> False
          by (simp add: usd_def served_def)
      qed (simp add: usd_def actual_def)
      then have "in_budget b limits k2" using note_in_budget [OF noted assms(1,2)] False by auto
      with settle_keeps_budget [OF refl this] assms(3) False show ?thesis
        unfolding rest by (auto simp: bindA_def ret_def split: prod.splits sum.splits if_splits) (metis snd_conv)+
    qed
  qed
qed

text \<open>Other threads may use the catalog while the provider call runs; they keep the budget and this reservation.\<close>

definition fair_call :: "string \<Rightarrow> (int \<times> int \<times> rat) \<Rightarrow> (catalog, 'a) act \<Rightarrow> bool" where
  "fair_call b limits call = (\<forall>k. in_budget b limits k \<longrightarrow> in_budget b limits (snd (call k)) \<and>
     (\<forall>rid u w. holds_reservation b rid u w k \<longrightarrow> holds_reservation b rid u w (snd (call k))))"


text \<open>What is recorded for a call that no other thread interleaves with.\<close>

lemma settle_usage_always: "reservations_ok k \<Longrightarrow> usage b (snd (settle_cost b rid phase now k)) = usage b k"
proof -
  assume ok: "reservations_ok k"
  obtain r k' where s: "settle_cost b rid phase now k = (r, k')" by fastforce
  show ?thesis
  proof (cases r)
    case (Inl e)
    have "all_or_nothing (settle_cost b rid phase now)" by (rule aon_methods)
    then have "k' = k" using s Inl unfolding all_or_nothing_def by metis
    then show ?thesis using s by simp
  next
    case (Inr u)
    with settle_usage s ok show ?thesis by fastforce
  qed
qed

lemma reservation_ofI: "r \<in> set (reservations k) \<Longrightarrow> rv_id r = rid \<Longrightarrow> rv_book r = b \<Longrightarrow> reservation_of b rid k \<noteq> None"
  by (auto simp: reservation_of_def find_None_iff)

lemma settle_removes: "settle_cost b rid phase now k = (Inr u, k') \<Longrightarrow> reservation_of b rid k' = None"
  by (auto dest!: settle_Inr simp: reservation_of_def find_None_iff)

lemma settle_call_usage:
  assumes "reservations_ok k" "holds_reservation b rid reserved w k"
    and "settle_call c b phase reserved defer rid now v reported k = (Inr res, k')"
  shows "add3 (usage b k') (u_in reserved, u_out reserved, w) = add3 (usage b k) (u_in (br_usage res), u_out (br_usage res), br_usd res) \<and>
    (reservation_of b (br_id res) k' \<noteq> None) = defer"
proof -
  obtain u where u: "completion_usage reported = Inr u"
    using assms(3) by (auto simp: settle_call_def bindA_Inr)
  define missing where "missing = missing_usage c u"
  define actual where "actual = (if missing then reserved else u)"
  define served where "served = served_model c reported missing"
  define usd where "usd = (if missing then reserved_usd_of (lc_model c) actual else usd_of served actual)"
  from assms(3) u obtain k2 where nt: "note_reservation_actual b rid (PyInt (u_in actual)) (PyInt (u_out actual)) (PyFloat usd)
         (if served \<noteq> lc_model c then PyStr served else PyNone) k = (Inr (), k2)"
    and rest: "bindA (if defer then ret () else settle_cost b rid None now) (\<lambda>_.
         ret \<lparr>br_value = v, br_usage = actual, br_usd = usd, br_id = rid, br_model = Some served\<rparr>) k2 = (Inr res, k')"
    unfolding settle_call_def u bindA_liftA Let_def missing_def actual_def served_def usd_def
    by (auto simp: bindA_Inr mapping_error_def split: prod.splits sum.splits if_splits)
  note n = note_usage [OF nt assms(1,2)]
  from rest have res: "res = \<lparr>br_value = v, br_usage = actual, br_usd = usd, br_id = rid, br_model = Some served\<rparr>"
    by (auto simp: bindA_Inr)
  show ?thesis
  proof (cases "defer")
    case True
    with rest have "k' = k2" by (auto simp: bindA_Inr)
    moreover have "reservation_of b rid k2 \<noteq> None"
    proof -
      let ?g = "\<lambda>m r. r\<lparr>rv_in := u_in actual, rv_out := u_out actual, rv_usd := usd, rv_actual := Some (u_in actual, u_out actual, usd), rv_model := m r\<rparr>"
      from note_Inr [OF nt] obtain m where m: "reservations k2 = update_where (\<lambda>r. rv_id r = rid \<and> rv_book r = b) (?g m) (reservations k)"
        by auto
      obtain r where r: "r \<in> set (reservations k)" "rv_id r = rid" "rv_book r = b"
        using assms(2) reservation_of_Some unfolding holds_reservation_def by metis
      then have "?g m r \<in> set (reservations k2)" by (auto simp: m update_where_def image_iff intro!: bexI [of _ r])
      from reservation_ofI [OF this] r(2,3) show ?thesis by simp
    qed
    ultimately show ?thesis using n True by (simp add: res)
  next
    case False
    with rest obtain x where s: "settle_cost b rid None now k2 = (Inr x, k')" by (auto simp: bindA_Inr)
    have "usage b k' = usage b k2" using settle_usage_always [of k2 b rid None now] n s by simp
    with n settle_removes [OF s] False show ?thesis by (simp add: res)
  qed
qed

lemma add3_cancel: "add3 a x = add3 (add3 b x) y \<Longrightarrow> a = add3 b y"
  by (cases a; cases b; cases x; cases y) simp


section \<open>Witnesses\<close>

definition settings1 :: settings where
  "settings1 = \<lparr>st_call_in = 1000, st_call_out = 50, st_book_in = 1000, st_book_out = 100, st_book_usd = 2\<rparr>"

definition client1 :: llm_client where
  "client1 = \<lparr>lc_model = ''fast:openai:gpt-6-luna'', lc_provider = Some ''openai'', lc_native = True, lc_embed = ''openai:text-embedding-3-small''\<rparr>"

definition answer1 :: "(string \<times> pyval) list" where
  "answer1 = [(''in'', PyInt 60), (''out'', PyInt 20), (''cache_read'', PyInt 10), (''service_tier'', PyStr ''default'')]"

definition call1 :: "(catalog, nat \<times> (string \<times> pyval) list) act" where
  "call1 s = (Inr (7, answer1), s)"

lemma estimate1: "estimate_input_tokens [104, 105] [63] None = Inr 67"
  by (simp add: estimate_input_tokens_def encode_def scalar_def utf8_def utf8_char_def)

lemma sample_in_budget: "in_budget ''bk1'' (st_book_in settings1, st_book_out settings1, st_book_usd settings1) sample_catalog"
  by code_simp



end
