(* ===== verification/Resolve.thy ===== *)
theory Resolve imports PyText "HOL-Library.Multiset" begin

text \<open>
  Entity resolution against the cast roster, \<^verbatim>\<open>backend/app/ingest/extraction/resolve.py\<close> with
  \<^verbatim>\<open>normalize_text\<close> of \<^verbatim>\<open>backend/app/unicode_text.py\<close>: is a name of this chapter an entity the
  roster already has? Names are strings of code points below 256, where NFC is the identity and the
  Cyrillic and Chinese entries of the word lists cannot occur; similarity scores are rationals, the
  embedding function and the cosine are parameters.
\<close>

section \<open>Names\<close>

definition normalize_text :: "string \<Rightarrow> string" where
  "normalize_text s = join '' '' (split_words (casefold s))"

definition ROLE_NOUNS :: "string list" where
  "ROLE_NOUNS = [''mother'', ''father'', ''brother'', ''sister'', ''son'', ''daughter'', ''wife'', ''husband'', ''child'',
     ''children'', ''parent'', ''elder'', ''superior'', ''abbot'', ''monk'', ''novice'', ''priest'', ''nun'',
     ''servant'', ''cousin'', ''uncle'', ''aunt'', ''grandmother'', ''grandfather'', ''widow'', ''widower'',
     ''lady'', ''gentleman'', ''man'', ''woman'', ''boy'', ''girl'', ''old'', ''young'', ''little'', ''general'',
     ''captain'', ''colonel'', ''madame'', ''madam'', ''mister'', ''mr'', ''mrs'', ''doctor'', ''dr'', ''narrator'',
     ''author'', ''hero'', ''heroine'', ''family'', ''the'', ''a'', ''an'', ''this'', ''that'', ''his'', ''her'',
     ''their'', ''our'', ''my'', ''your'', ''its'', ''one'', ''same'', ''first'', ''second'', ''third'', ''eldest'',
     ''youngest'', ''former'', ''late'', ''dead'', ''deceased'', ''crazy'', ''poor'', ''drunken'', ''of'', ''and'',
     ''to'', ''in'', ''buffoon'', ''landowner'', ''benefactor'', ''patron'', ''teacher'', ''student'', ''people'',
     ''madre'', ''padre'', ''hermano'', ''hermana'', ''hijo'', ''hija'', ''esposa'', ''esposo'',
     ''m'' @ CHR 0xE8 # ''re'', ''p'' @ CHR 0xE8 # ''re'', ''fr'' @ CHR 0xE8 # ''re'', ''fils'', ''fille'', ''mari'', ''femme'',
     ''mutter'', ''vater'', ''bruder'', ''schwester'', ''sohn'', ''tochter'', ''ehefrau'', ''ehemann'']"

definition PRONOUNS :: "string list" where
  "PRONOUNS = [''i'', ''us'', ''we'', ''he'', ''she'', ''they'', ''me'', ''him'', ''them'', ''you'', ''it'', ''my'']"

definition NAME_HONORIFICS :: "string list" where
  "NAME_HONORIFICS = [''father'', ''elder'', ''brother'', ''sister'', ''abbot'', ''priest'', ''madame'', ''madam'', ''mister'',
     ''mr'', ''mrs'', ''doctor'', ''dr'', ''captain'', ''colonel'', ''general'']"

definition ends_with :: "string \<Rightarrow> string \<Rightarrow> bool" where
  "ends_with suf s = (length suf \<le> length s \<and> drop (length s - length suf) s = suf)"

definition apostrophe :: char where
  "apostrophe = CHR 0x27"

definition depossess :: "string \<Rightarrow> string" where
  "depossess t = (if ends_with [apostrophe, CHR ''s''] t then take (length t - 2) t
     else if ends_with [apostrophe] t then take (length t - 1) t else t)"

definition name_words :: "string \<Rightarrow> string list" where
  "name_words form = map depossess (split_words (normalize_text form))"

definition proper_tokens :: "string \<Rightarrow> string list" where
  "proper_tokens form = filter (\<lambda>d. 2 \<le> length d \<and> d \<notin> set ROLE_NOUNS \<and> d \<notin> set PRONOUNS) (name_words form)"

definition namelike :: "string \<Rightarrow> bool" where
  "namelike form = (proper_tokens form \<noteq> [])"

definition norm_key :: "string \<Rightarrow> string" where
  "norm_key form = join '' '' (name_words form)"

section \<open>Merge keys\<close>

definition match_forms :: "string \<Rightarrow> string list \<Rightarrow> string set" where
  "match_forms name aliases = set (map norm_key (filter namelike (name # aliases)))"

definition honorific_key :: "string \<Rightarrow> string option" where
  "honorific_key form = (case name_words form of [] \<Rightarrow> None
     | t # ts \<Rightarrow> if t \<notin> set NAME_HONORIFICS then None
         else if length ts = 1 \<and> length (proper_tokens (join '' '' ts)) = 1 then Some (norm_key (join '' '' ts)) else None)"

definition honorific_keys :: "string \<Rightarrow> string list \<Rightarrow> string set" where
  "honorific_keys name aliases = set (List.map_filter honorific_key (name # aliases))"

definition bare_name_key :: "string \<Rightarrow> string option" where
  "bare_name_key form = (case name_words form of
     [t] \<Rightarrow> if length (proper_tokens t) = 1 then Some (norm_key t) else None | _ \<Rightarrow> None)"

definition bare_name_keys :: "string \<Rightarrow> string list \<Rightarrow> string set" where
  "bare_name_keys name aliases = set (List.map_filter bare_name_key (name # aliases))"

section \<open>Roster and decisions\<close>

text \<open>Ids of the roster, and of entities this chapter creates, by their position in it.\<close>

datatype roster_id = Known int | Pending nat

record 'v cast =
  ca_name :: string
  ca_type :: string
  ca_aliases :: "string list"
  ca_id :: roster_id
  ca_embed :: "'v option"

record extracted =
  xe_name :: string
  xe_type :: string
  xe_aliases :: "string list"
  xe_matched :: bool

datatype decision =
    Merge roster_id string rat
  | Create bool bool

text \<open>\<^verbatim>\<open>Create ambiguous unmatched\<close>: the two warnings.\<close>

definition same_kind :: "extracted \<Rightarrow> 'v cast \<Rightarrow> bool" where
  "same_kind e r = (ca_type r = xe_type e)"

text \<open>A layer decides if exactly one entry matches, and refuses if several do.\<close>

definition gate :: "string \<Rightarrow> 'v cast list \<Rightarrow> decision option \<Rightarrow> decision option" where
  "gate m hits otherwise = (case hits of [r] \<Rightarrow> Some (Merge (ca_id r) m 1) | [] \<Rightarrow> otherwise | _ \<Rightarrow> Some (Create True False))"

definition same_canonical :: "extracted \<Rightarrow> 'v cast \<Rightarrow> bool" where
  "same_canonical e r = (normalize_text (xe_name e) = normalize_text (ca_name r))"

definition fuzzy_layer :: "extracted \<Rightarrow> 'v cast list \<Rightarrow> decision option \<Rightarrow> decision option" where
  "fuzzy_layer e same otherwise =
     (if 2 \<le> card (set (proper_tokens (xe_name e)))
      then (case filter (\<lambda>r. set (proper_tokens (xe_name e)) \<subseteq> set (proper_tokens (ca_name r))) same of
          [r] \<Rightarrow> Some (Merge (ca_id r) ''roster-fuzzy'' (9 / 10)) | _ \<Rightarrow> otherwise)
      else otherwise)"

definition link_layer :: "extracted \<Rightarrow> 'v cast list \<Rightarrow> decision option \<Rightarrow> decision option" where
  "link_layer e same otherwise = (if xe_matched e
     then gate ''roster-link'' (filter (\<lambda>r. namelike (ca_name r) \<and> same_canonical e r) same) (fuzzy_layer e same otherwise)
     else otherwise)"

definition exact_layer :: "extracted \<Rightarrow> 'v cast list \<Rightarrow> decision option \<Rightarrow> decision option" where
  "exact_layer e same otherwise =
     (if namelike (xe_name e) then gate ''exact'' (filter (same_canonical e) same) otherwise else otherwise)"

definition honorific_hit :: "extracted \<Rightarrow> 'v cast \<Rightarrow> bool" where
  "honorific_hit e r =
     (honorific_keys (xe_name e) (xe_aliases e) \<inter>
        (honorific_keys (ca_name r) (ca_aliases r) \<union> bare_name_keys (ca_name r) (ca_aliases r)) \<noteq> {} \<or>
      bare_name_keys (xe_name e) (xe_aliases e) \<inter> honorific_keys (ca_name r) (ca_aliases r) \<noteq> {})"

definition alias_hit :: "extracted \<Rightarrow> 'v cast \<Rightarrow> bool" where
  "alias_hit e r = (match_forms (xe_name e) (xe_aliases e) \<inter> match_forms (ca_name r) (ca_aliases r) \<noteq> {})"

text \<open>Nearest neighbour: the best score, a clear margin over the second.\<close>

definition similarity :: "(string \<Rightarrow> 'v) \<Rightarrow> ('v \<Rightarrow> 'v \<Rightarrow> rat) \<Rightarrow> extracted \<Rightarrow> 'v cast \<Rightarrow> rat" where
  "similarity emb cosine e r = cosine (emb (xe_name e @ '' '' @ join '' '' (xe_aliases e)))
     (case ca_embed r of Some v \<Rightarrow> v | None \<Rightarrow> emb (ca_name r @ '' '' @ join '' '' (ca_aliases r)))"

definition nearest :: "('v cast \<Rightarrow> rat) \<Rightarrow> rat \<Rightarrow> 'v cast list \<Rightarrow> decision option" where
  "nearest score threshold same = (case sort_key (\<lambda>r. - score r) same of [] \<Rightarrow> None
     | best # others \<Rightarrow>
         if threshold \<le> score best \<and> 1 / 20 \<le> score best - (case others of [] \<Rightarrow> 0 | r # _ \<Rightarrow> score r)
         then Some (Merge (ca_id best) ''embedding'' (score best)) else None)"

definition resolve_one ::
  "((string \<Rightarrow> 'v) \<times> ('v \<Rightarrow> 'v \<Rightarrow> rat)) option \<Rightarrow> rat \<Rightarrow> extracted \<Rightarrow> 'v cast list \<Rightarrow> decision" where
  "resolve_one engine threshold e roster = (let same = filter (same_kind e) roster in
     case link_layer e same (exact_layer e same (gate ''honorific'' (filter (honorific_hit e) same)
       (gate ''alias'' (filter (alias_hit e) same)
         (case engine of None \<Rightarrow> None | Some (emb, cosine) \<Rightarrow> nearest (similarity emb cosine e) threshold same)))) of
       Some d \<Rightarrow> d | None \<Rightarrow> Create False (xe_matched e))"

section \<open>A chapter\<close>

text \<open>The surfaces a reviewed link adds to the working copy of its target.\<close>

definition learn :: "string list \<Rightarrow> 'v cast \<Rightarrow> 'v cast" where
  "learn surfaces r = r\<lparr>ca_aliases := fst (fold (\<lambda>s (aliases, known).
     if namelike s \<and> norm_key s \<notin> known then (aliases @ [s], insert (norm_key s) known) else (aliases, known))
     surfaces (ca_aliases r, set (map norm_key (ca_name r # ca_aliases r))))\<rparr>"

definition reviewed ::
  "(extracted \<Rightarrow> 'v cast list \<Rightarrow> int option res) \<Rightarrow> extracted \<Rightarrow> 'v cast list \<Rightarrow> decision \<Rightarrow> (decision \<times> 'v cast list) res" where
  "reviewed review e work d = (case review e work of Inl x \<Rightarrow> Inl x
   | Inr None \<Rightarrow> Inr (d, work)
   | Inr (Some eid) \<Rightarrow>
       if length (filter (\<lambda>r. ca_id r = Known eid \<and> same_kind e r) work) \<noteq> 1
       then Inl (ValueError ''reviewed identity is absent or ambiguous in the roster'')
       else Inr (Merge (Known eid) ''reviewed-alias'' 1,
         update_where (\<lambda>r. ca_id r = Known eid \<and> same_kind e r) (learn (xe_name e # xe_aliases e)) work))"

definition decide ::
  "((string \<Rightarrow> 'v) \<times> ('v \<Rightarrow> 'v \<Rightarrow> rat)) option \<Rightarrow> rat \<Rightarrow> (extracted \<Rightarrow> 'v cast list \<Rightarrow> int option res) option \<Rightarrow>
   extracted \<Rightarrow> 'v cast list \<Rightarrow> (decision \<times> 'v cast list) res" where
  "decide engine threshold review e work = (case review of
     None \<Rightarrow> Inr (resolve_one engine threshold e work, work)
   | Some rv \<Rightarrow> (case resolve_one None threshold e work of
         Create a u \<Rightarrow> reviewed rv e work (Create a u)
       | d \<Rightarrow> Inr (d, work)))"

definition newcomer :: "nat \<Rightarrow> extracted \<Rightarrow> decision \<Rightarrow> 'v cast list" where
  "newcomer n e d = (case d of
     Create _ _ \<Rightarrow> [\<lparr>ca_name = xe_name e, ca_type = xe_type e, ca_aliases = xe_aliases e, ca_id = Pending n, ca_embed = None\<rparr>]
   | _ \<Rightarrow> [])"

fun resolve_from ::
  "((string \<Rightarrow> 'v) \<times> ('v \<Rightarrow> 'v \<Rightarrow> rat)) option \<Rightarrow> rat \<Rightarrow> (extracted \<Rightarrow> 'v cast list \<Rightarrow> int option res) option \<Rightarrow>
   nat \<Rightarrow> extracted list \<Rightarrow> 'v cast list \<Rightarrow> (extracted \<times> decision) list res" where
  "resolve_from engine threshold review n [] work = Inr []"
| "resolve_from engine threshold review n (e # es) work =
     (case decide engine threshold review e work of Inl x \<Rightarrow> Inl x
      | Inr (d, work') \<Rightarrow> (case resolve_from engine threshold review (Suc n) es (work' @ newcomer n e d) of
          Inl x \<Rightarrow> Inl x | Inr out \<Rightarrow> Inr ((e, d) # out)))"

definition resolve_chapter where
  "resolve_chapter engine threshold review entities roster = resolve_from engine threshold review 0 entities roster"

section \<open>Decisions\<close>

lemma case_perm:
  assumes "mset hs = mset hs'"
  shows "(case hs of [] \<Rightarrow> a | [r] \<Rightarrow> f r | _ \<Rightarrow> b) = (case hs' of [] \<Rightarrow> a | [r] \<Rightarrow> f r | _ \<Rightarrow> b)"
proof -
  have n: "length hs = length hs'" using assms by (rule mset_eq_length)
  show ?thesis
  proof (cases "length hs = 1")
    case True
    then obtain x y where "hs = [x]" "hs' = [y]" using n by (metis One_nat_def length_0_conv length_Suc_conv)
    with assms show ?thesis by simp
  next
    case False
    with n show ?thesis by (cases hs; cases hs') (auto split: list.splits)
  qed
qed

lemma mset_filter_perm: "mset xs = mset ys \<Longrightarrow> mset (filter P xs) = mset (filter P ys)"
  by simp

lemma gate_perm: "mset xs = mset ys \<Longrightarrow> gate m (filter P xs) d = gate m (filter P ys) d"
  unfolding gate_def by (rule case_perm) (rule mset_filter_perm)

lemma fuzzy_perm: "mset xs = mset ys \<Longrightarrow> fuzzy_layer e xs d = fuzzy_layer e ys d"
  unfolding fuzzy_layer_def by (rule if_cong [OF refl case_perm refl]) (rule mset_filter_perm)

text \<open>
  Property C36: without an embedding engine the decision about a name does not depend on the order of the
  roster: every layer merges only into the single entry that matches, and refuses to choose among several.\<close>

theorem resolution_ignores_roster_order:
  assumes "mset roster = mset roster'"
  shows "resolve_one None threshold e roster = resolve_one None threshold e roster'"
proof -
  have m: "mset (filter (same_kind e) roster) = mset (filter (same_kind e) roster')" using assms by simp
  show ?thesis
    unfolding resolve_one_def link_layer_def exact_layer_def Let_def
    using gate_perm [OF m] fuzzy_perm [OF m] by simp
qed

lemma gate_Some: "gate m hits d = Some (Merge i t s) \<Longrightarrow> (\<exists>r \<in> set hits. i = ca_id r) \<or> d = Some (Merge i t s)"
  by (auto simp: gate_def split: list.splits)

lemma fuzzy_Some: "fuzzy_layer e same d = Some (Merge i t s) \<Longrightarrow> (\<exists>r \<in> set same. i = ca_id r) \<or> d = Some (Merge i t s)"
proof -
  assume a: "fuzzy_layer e same d = Some (Merge i t s)"
  let ?hits = "filter (\<lambda>r. set (proper_tokens (xe_name e)) \<subseteq> set (proper_tokens (ca_name r))) same"
  from a consider r where "?hits = [r]" "i = ca_id r" | "d = Some (Merge i t s)"
    by (auto simp: fuzzy_layer_def split: if_splits list.splits)
  then show ?thesis
  proof cases
    case (1 r)
    then have "r \<in> set ?hits" by (metis list.set_intros(1))
    then have "r \<in> set same" by simp
    with 1(2) show ?thesis by blast
  qed simp
qed

lemma nearest_Some: "nearest score threshold same = Some (Merge i t s) \<Longrightarrow> \<exists>r \<in> set same. i = ca_id r"
  using sort_key_head(1) unfolding nearest_def by (fastforce split: list.splits if_splits)

lemma resolve_one_Merge:
  assumes "resolve_one engine threshold e roster = Merge i t s"
  shows "\<exists>r \<in> set roster. ca_id r = i \<and> ca_type r = xe_type e"
proof -
  let ?same = "filter (same_kind e) roster"
  define d4 where "d4 = (case engine of None \<Rightarrow> None | Some (emb, cosine) \<Rightarrow> nearest (similarity emb cosine e) threshold ?same)"
  define d3 where "d3 = gate ''honorific'' (filter (honorific_hit e) ?same) (gate ''alias'' (filter (alias_hit e) ?same) d4)"
  have "link_layer e ?same (exact_layer e ?same d3) = Some (Merge i t s)"
    using assms by (auto simp: resolve_one_def Let_def d3_def d4_def split: option.splits)
  then have "(\<exists>r \<in> set ?same. i = ca_id r) \<or> exact_layer e ?same d3 = Some (Merge i t s)"
    by (fastforce simp: link_layer_def split: if_splits dest!: gate_Some fuzzy_Some)
  then have "(\<exists>r \<in> set ?same. i = ca_id r) \<or> d3 = Some (Merge i t s)"
    by (fastforce simp: exact_layer_def split: if_splits dest!: gate_Some)
  then have "(\<exists>r \<in> set ?same. i = ca_id r) \<or> d4 = Some (Merge i t s)"
    unfolding d3_def by (fastforce dest!: gate_Some)
  then have "\<exists>r \<in> set ?same. i = ca_id r"
    by (auto simp: d4_def split: option.splits prod.splits dest!: nearest_Some)
  then show ?thesis by (auto simp: same_kind_def)
qed

section \<open>A chapter resolves to known or earlier identities\<close>

text \<open>Where an id of the working roster comes from: the roster, or an entity created before position \<open>n\<close>.\<close>

definition sourced :: "'v cast list \<Rightarrow> (extracted \<times> decision) list \<Rightarrow> roster_id \<Rightarrow> string \<Rightarrow> bool" where
  "sourced roster out i t = (case i of
     Known k \<Rightarrow> \<exists>r \<in> set roster. ca_id r = Known k \<and> ca_type r = t
   | Pending j \<Rightarrow> j < length out \<and> xe_type (fst (out ! j)) = t \<and> (\<exists>a u. snd (out ! j) = Create a u))"

lemma sourced_append: "sourced roster out i t \<Longrightarrow> sourced roster (out @ more_out) i t"
  by (auto simp: sourced_def nth_append split: roster_id.splits)

lemma learn_fields [simp]: "ca_id (learn ss r) = ca_id r" "ca_type (learn ss r) = ca_type r"
  by (simp_all add: learn_def)

lemma decide_sourced:
  assumes "decide engine threshold review e work = Inr (d, work')"
    and "\<forall>r \<in> set work. sourced roster out (ca_id r) (ca_type r)"
  shows "(\<forall>i t s. d = Merge i t s \<longrightarrow> sourced roster out i (xe_type e)) \<and>
    (\<forall>r \<in> set work'. sourced roster out (ca_id r) (ca_type r))"
proof -
  have one: "sourced roster out i (xe_type e)" if "resolve_one en threshold e work = Merge i t s" for en i t s
    using resolve_one_Merge [OF that] assms(2) by auto
  show ?thesis
  proof (cases review)
    case None
    with assms one show ?thesis by (auto simp: decide_def)
  next
    case (Some rv)
    show ?thesis
    proof (cases "resolve_one None threshold e work")
      case (Merge i t s)
      with assms(1) Some have d: "d = Merge i t s" "work' = work" by (simp_all add: decide_def)
      show ?thesis unfolding d using one [OF Merge] assms(2) by blast
    next
      case (Create a u)
      with assms(1) Some have rv: "reviewed rv e work (Create a u) = Inr (d, work')" by (simp add: decide_def)
      consider "d = Create a u" "work' = work"
        | eid where "d = Merge (Known eid) ''reviewed-alias'' 1" "length (filter (\<lambda>r. ca_id r = Known eid \<and> same_kind e r) work) = 1"
            "work' = update_where (\<lambda>r. ca_id r = Known eid \<and> same_kind e r) (learn (xe_name e # xe_aliases e)) work"
      proof (cases "rv e work")
        case (Inr pick)
        show ?thesis
        proof (cases pick)
          case None
          with rv Inr show ?thesis by (intro that(1)) (simp_all add: reviewed_def)
        next
          case (Some eid)
          with rv Inr show ?thesis by (intro that(2) [of eid]) (simp_all add: reviewed_def split: if_splits)
        qed
      qed (use rv in \<open>simp add: reviewed_def\<close>)
      then show ?thesis
      proof cases
        case 1
        show ?thesis unfolding 1 using assms(2) by blast
      next
        case (2 eid)
        then have "filter (\<lambda>r. ca_id r = Known eid \<and> same_kind e r) work \<noteq> []" by auto
        then obtain r where "r \<in> set work" "ca_id r = Known eid" "same_kind e r" by (auto simp: filter_empty_conv)
        with assms(2) have "sourced roster out (Known eid) (xe_type e)" by (metis same_kind_def)
        moreover have "\<forall>r \<in> set work'. sourced roster out (ca_id r) (ca_type r)"
        proof
          fix r' assume "r' \<in> set work'"
          then obtain r0 where "r0 \<in> set work" "ca_id r' = ca_id r0" "ca_type r' = ca_type r0"
            unfolding 2(3) by (auto simp: update_where_def)
          with assms(2) show "sourced roster out (ca_id r') (ca_type r')" by simp
        qed
        ultimately show ?thesis unfolding 2(1) by blast
      qed
    qed
  qed
qed

lemma resolve_from_sourced:
  assumes "resolve_from engine threshold review (length out) es work = Inr rest"
    and "\<forall>r \<in> set work. sourced roster out (ca_id r) (ca_type r)"
  shows "map fst rest = es \<and> (\<forall>k < length rest. \<forall>i t s. snd (rest ! k) = Merge i t s \<longrightarrow>
    sourced roster (out @ take k rest) i (xe_type (fst (rest ! k))))"
  using assms
proof (induction es arbitrary: out work rest)
  case (Cons e es)
  from Cons.prems(1) obtain d work' rest' where d: "decide engine threshold review e work = Inr (d, work')"
    "resolve_from engine threshold review (Suc (length out)) es (work' @ newcomer (length out) e d) = Inr rest'" "rest = (e, d) # rest'"
    by (auto split: sum.splits)
  from decide_sourced [OF d(1) Cons.prems(2)]
  have s: "\<And>i t s. d = Merge i t s \<Longrightarrow> sourced roster out i (xe_type e)" "\<forall>r \<in> set work'. sourced roster out (ca_id r) (ca_type r)"
    by blast+
  have "\<forall>r \<in> set (work' @ newcomer (length out) e d). sourced roster (out @ [(e, d)]) (ca_id r) (ca_type r)"
  proof
    fix r assume "r \<in> set (work' @ newcomer (length out) e d)"
    then consider "r \<in> set work'" | "r \<in> set (newcomer (length out) e d)" by auto
    then show "sourced roster (out @ [(e, d)]) (ca_id r) (ca_type r)"
    proof cases
      case 1
      with s(2) sourced_append show ?thesis by blast
    next
      case 2
      then show ?thesis by (auto simp: newcomer_def sourced_def split: decision.splits)
    qed
  qed
  from Cons.IH [OF _ this] d(2) have ih: "map fst rest' = es" "\<forall>k < length rest'. \<forall>i t s. snd (rest' ! k) = Merge i t s \<longrightarrow>
      sourced roster ((out @ [(e, d)]) @ take k rest') i (xe_type (fst (rest' ! k)))" by simp_all
  show ?case
  proof (intro conjI allI impI)
    show "map fst rest = e # es" using ih d(3) by simp
    fix k i t q assume k: "k < length rest" "snd (rest ! k) = Merge i t q"
    show "sourced roster (out @ take k rest) i (xe_type (fst (rest ! k)))"
    proof (cases k)
      case 0
      with k(2) s(1) show ?thesis by (simp add: d(3))
    next
      case (Suc m)
      with k ih(2) show ?thesis by (simp add: d(3))
    qed
  qed
qed simp

text \<open>
  Property C37: the resolution of a chapter answers for every extracted entity in order, and every merge is
  into an entity of the same type that the roster has, or that the chapter created at an earlier position;
  a pending reference never dangles, with or without embeddings and reviewed links.\<close>

theorem chapter_merges_are_grounded:
  assumes "resolve_chapter engine threshold review entities roster = Inr out"
    and "\<forall>r \<in> set roster. \<exists>i. ca_id r = Known i"
  shows "map fst out = entities \<and> (\<forall>k < length out. case snd (out ! k) of
      Merge (Known i) m s \<Rightarrow> \<exists>r \<in> set roster. ca_id r = Known i \<and> ca_type r = xe_type (fst (out ! k))
    | Merge (Pending j) m s \<Rightarrow> j < k \<and> xe_type (fst (out ! j)) = xe_type (fst (out ! k)) \<and> (\<exists>a u. snd (out ! j) = Create a u)
    | Create a u \<Rightarrow> True)"
proof -
  have "\<forall>r \<in> set roster. sourced roster [] (ca_id r) (ca_type r)" using assms(2) by (fastforce simp: sourced_def)
  from resolve_from_sourced [of engine threshold review "[]" entities roster out, OF _ this] assms(1)
  have out: "map fst out = entities" "\<forall>k < length out. \<forall>i t s. snd (out ! k) = Merge i t s \<longrightarrow> sourced roster (take k out) i (xe_type (fst (out ! k)))"
    by (simp_all add: resolve_chapter_def)
  have "case snd (out ! k) of Merge (Known i) m s \<Rightarrow> \<exists>r \<in> set roster. ca_id r = Known i \<and> ca_type r = xe_type (fst (out ! k))
    | Merge (Pending j) m s \<Rightarrow> j < k \<and> xe_type (fst (out ! j)) = xe_type (fst (out ! k)) \<and> (\<exists>a u. snd (out ! j) = Create a u)
    | Create a u \<Rightarrow> True" if k: "k < length out" for k
  proof (cases "snd (out ! k)")
    case (Merge i m s)
    with out(2) k have "sourced roster (take k out) i (xe_type (fst (out ! k)))" by blast
    with Merge show ?thesis by (cases i) (auto simp: sourced_def)
  qed simp
  with out(1) show ?thesis by blast
qed

definition roster1 :: "rat cast list" where
  "roster1 = [\<lparr>ca_name = ''Zosima'', ca_type = ''c'', ca_aliases = [], ca_id = Known 9, ca_embed = None\<rparr>]"

definition a_person :: "string \<Rightarrow> extracted" where
  "a_person n = \<lparr>xe_name = n, xe_type = ''c'', xe_aliases = [], xe_matched = False\<rparr>"

lemma resolve1: "resolve_chapter None 0 None [a_person ''zosima''] roster1 = Inr [(a_person ''zosima'', Merge (Known 9) ''exact'' 1)]"
  by code_simp

theorem chapter_merges_are_grounded_witness:
  "\<exists>r \<in> set roster1. ca_id r = Known 9 \<and> ca_type r = ''c''"
proof -
  have "\<forall>r \<in> set roster1. \<exists>i. ca_id r = Known i" by (simp add: roster1_def)
  from chapter_merges_are_grounded [OF resolve1 this] show ?thesis by (auto simp: a_person_def)
qed

theorem resolution_ignores_roster_order_witness:
  "resolve_one None 0 (a_person ''Zosima'') (rev roster1) = resolve_one None 0 (a_person ''Zosima'') roster1"
  by (rule resolution_ignores_roster_order) simp

end
