(* ===== verification/Passages.thy ===== *)
theory Passages imports PyText PyBytes begin

text \<open>
  The source windows of the retrieval index, \<^verbatim>\<open>backend/app/retrieval_passages.py\<close>: overlapping
  windows over the normalised prose of a chapter, and the batches their embeddings are requested in.
\<close>

section \<open>Windows\<close>

definition PASSAGE_CHARS :: nat where "PASSAGE_CHARS = 1500"
definition PASSAGE_OVERLAP :: nat where "PASSAGE_OVERLAP = 250"
definition TITLE_CONTEXT_CHARS :: nat where "TITLE_CONTEXT_CHARS = 256"

definition PASSAGE_INDEX_VERSION :: string where
  "PASSAGE_INDEX_VERSION = ''full-source-v1''"

definition normalize_source :: "string \<Rightarrow> string" where
  "normalize_source s = join '' '' (split_words s)"

definition slice :: "nat \<Rightarrow> nat \<Rightarrow> 'a list \<Rightarrow> 'a list" where
  "slice lo hi s = take (hi - lo) (drop lo s)"

text \<open>Where the window from \<open>start\<close> ends, and where the next one begins.\<close>

definition window_end :: "string \<Rightarrow> nat \<Rightarrow> nat" where
  "window_end s start = (let e = min (start + PASSAGE_CHARS) (length s) in
     if e < length s then (let b = rfind_in '' '' s (start + PASSAGE_CHARS div 2) e in if int start < b then nat b else e) else e)"

definition next_start :: "string \<Rightarrow> nat \<Rightarrow> nat \<Rightarrow> nat" where
  "next_start s start e = (let n = max (start + 1) (e - PASSAGE_OVERLAP); b = find_in '' '' s n e in if 0 \<le> b then nat b + 1 else n)"

lemma window_end_bounds:
  assumes "start < length s"
  shows "start < window_end s start" "window_end s start \<le> length s" "window_end s start \<le> start + PASSAGE_CHARS"
proof -
  let ?e = "min (start + PASSAGE_CHARS) (length s)"
  have e: "start < ?e" "?e \<le> length s" "?e \<le> start + PASSAGE_CHARS" using assms by (simp_all add: PASSAGE_CHARS_def)
  have "int start < rfind_in '' '' s (start + PASSAGE_CHARS div 2) ?e \<Longrightarrow> nat (rfind_in '' '' s (start + PASSAGE_CHARS div 2) ?e) \<le> ?e"
    using rfind_in_bounds [of "'' ''" s "start + PASSAGE_CHARS div 2" ?e] by auto
  with e show "start < window_end s start" "window_end s start \<le> length s" "window_end s start \<le> start + PASSAGE_CHARS"
    unfolding window_end_def Let_def by auto
qed

lemma next_start_bounds:
  assumes "start < e"
  shows "start < next_start s start e" "next_start s start e \<le> e"
  using find_in_bounds [of "'' ''" s "max (start + 1) (e - PASSAGE_OVERLAP)" e] assms
  by (auto simp: next_start_def Let_def)

function windows_from :: "string \<Rightarrow> nat \<Rightarrow> (nat \<times> nat \<times> string) list" where
  "windows_from s start = (if start < length s
     then (start, window_end s start, slice start (window_end s start) s) #
       (if window_end s start = length s then [] else windows_from s (next_start s start (window_end s start)))
     else [])"
  by pat_completeness auto
termination
  by (relation "measure (\<lambda>(s, start). length s - start)") (auto dest: next_start_bounds [OF window_end_bounds(1)] intro!: diff_less_mono2)

declare windows_from.simps [simp del]

definition passage_windows :: "string \<Rightarrow> (nat \<times> nat \<times> string) list" where
  "passage_windows s = windows_from (normalize_source s) 0"

definition embedding_text :: "string \<Rightarrow> string \<Rightarrow> string" where
  "embedding_text title passage = (let t = take TITLE_CONTEXT_CHARS (normalize_source title) in
     if t = [] then passage else ''Chapter: '' @ t @ [CHR 0x0A, CHR 0x0A] @ passage)"

text \<open>The digest of the JSON text of the payload is a parameter.\<close>

definition source_digest :: "(string list \<Rightarrow> string) \<Rightarrow> string \<Rightarrow> string \<Rightarrow> string" where
  "source_digest digest title s = digest [PASSAGE_INDEX_VERSION, normalize_source title, normalize_source s]"

record 'v passage =
  pg_start :: nat
  pg_end :: nat
  pg_text :: string
  pg_vec :: "'v option"

definition source_passages :: "string \<Rightarrow> 'v passage list" where
  "source_passages s = map (\<lambda>(a, b, p). \<lparr>pg_start = a, pg_end = b, pg_text = p, pg_vec = None\<rparr>) (passage_windows s)"

section \<open>Batches\<close>

definition utf8_length :: "string \<Rightarrow> nat" where
  "utf8_length s = length (utf8 (map of_char s))"

definition passage_octets :: "string \<Rightarrow> 'v passage \<Rightarrow> nat" where
  "passage_octets title p = utf8_length (embedding_text title (pg_text p))"

text \<open>The loop keeps the open batch and its size.\<close>

fun batches_from :: "string \<Rightarrow> nat \<Rightarrow> 'v passage list \<Rightarrow> 'v passage list \<Rightarrow> nat \<Rightarrow> 'v passage list list res" where
  "batches_from title limit [] batch size_so_far = Inr (if batch = [] then [] else [batch])"
| "batches_from title limit (p # ps) batch size_so_far = (let n = passage_octets title p in
     if limit < n + 32 then Inl (CostCeilingExceeded ''embedding input ceiling cannot fit a source passage'')
     else if batch \<noteq> [] \<and> limit < size_so_far + n
     then (case batches_from title limit ps [p] (32 + n) of Inl e \<Rightarrow> Inl e | Inr bs \<Rightarrow> Inr (batch # bs))
     else batches_from title limit ps (batch @ [p]) (size_so_far + n))"

definition embedding_batches :: "string \<Rightarrow> 'v passage list \<Rightarrow> pyval \<Rightarrow> 'v passage list list res" where
  "embedding_batches title ps limit = (case limit of
     PyInt n \<Rightarrow> if n < 33 then Inl (CostCeilingExceeded ''embedding input ceiling cannot fit a source passage'')
       else batches_from title (nat n) ps [] 32
   | _ \<Rightarrow> Inl (CostCeilingExceeded ''embedding input ceiling cannot fit a source passage''))"

fun embed_batches :: "string \<Rightarrow> (string list \<Rightarrow> 'v list res) \<Rightarrow> 'v passage list list \<Rightarrow> 'v passage list res" where
  "embed_batches title embed_fn [] = Inr []"
| "embed_batches title embed_fn (b # bs) = (case embed_fn (map (\<lambda>p. embedding_text title (pg_text p)) b) of Inl e \<Rightarrow> Inl e
   | Inr vs \<Rightarrow>
       if length vs \<noteq> length b then Inl (ValueError ''source embedding count does not match passage count'')
       else (case embed_batches title embed_fn bs of Inl e \<Rightarrow> Inl e
         | Inr rest \<Rightarrow> Inr (map2 (\<lambda>p v. p\<lparr>pg_vec := Some v\<rparr>) b vs @ rest)))"

definition prepare_passages :: "string \<Rightarrow> string \<Rightarrow> (string list \<Rightarrow> 'v list res) \<Rightarrow> pyval \<Rightarrow> 'v passage list res" where
  "prepare_passages title s embed_fn limit =
     (case embedding_batches title (source_passages s) limit of Inl e \<Rightarrow> Inl e | Inr bs \<Rightarrow> embed_batches title embed_fn bs)"

section \<open>Properties\<close>

lemma windows_from_ok:
  "start < length s \<Longrightarrow> (\<forall>(a, b, p) \<in> set (windows_from s start). start \<le> a \<and> a < b \<and> b \<le> length s \<and> b \<le> a + PASSAGE_CHARS \<and> p = slice a b s) \<and>
    (\<forall>i. start \<le> i \<longrightarrow> i < length s \<longrightarrow> (\<exists>(a, b, p) \<in> set (windows_from s start). a \<le> i \<and> i < b))"
proof (induction s start rule: windows_from.induct)
  case (1 s start)
  let ?e = "window_end s start" and ?n = "next_start s start (window_end s start)"
  note w = window_end_bounds [OF "1.prems"]
  show ?case
  proof (cases "?e = length s")
    case True
    then have "windows_from s start = [(start, ?e, slice start ?e s)]" using "1.prems" by (subst windows_from.simps) simp
    with w True show ?thesis by simp
  next
    case False
    then have win: "windows_from s start = (start, ?e, slice start ?e s) # windows_from s ?n"
      using "1.prems" by (subst windows_from.simps) simp
    have n: "start < ?n" "?n \<le> ?e" using next_start_bounds [OF w(1)] by blast+
    then have "?n < length s" using w False by linarith
    note ih = "1.IH" [OF "1.prems" False this]
    have "\<exists>(a, b, p) \<in> set (windows_from s start). a \<le> i \<and> i < b" if "start \<le> i" "i < length s" for i
    proof (cases "i < ?e")
      case True
      with that show ?thesis unfolding win by simp
    next
      case False
      with n ih that show ?thesis unfolding win by fastforce
    qed
    moreover have "\<forall>(a, b, p) \<in> set (windows_from s start). start \<le> a \<and> a < b \<and> b \<le> length s \<and> b \<le> a + PASSAGE_CHARS \<and> p = slice a b s"
      using ih w n unfolding win by fastforce
    ultimately show ?thesis by blast
  qed
qed

text \<open>
  The retrieval windows of a chapter quote it exactly and leave no gap: the loop ends, every window is the
  exact slice of the normalised prose between its offsets and at most 1500 characters long, and every
  character of the prose is in some window.\<close>

theorem passages_cover_the_source:
  "(\<forall>(a, b, p) \<in> set (passage_windows s). a < b \<and> b \<le> length (normalize_source s) \<and> b \<le> a + 1500 \<and> p = slice a b (normalize_source s)) \<and>
   (\<forall>i < length (normalize_source s). \<exists>(a, b, p) \<in> set (passage_windows s). a \<le> i \<and> i < b)"
proof (cases "0 < length (normalize_source s)")
  case True
  from windows_from_ok [OF this] show ?thesis unfolding passage_windows_def PASSAGE_CHARS_def by fastforce
next
  case False
  then show ?thesis by (simp add: passage_windows_def windows_from.simps)
qed

theorem passages_cover_the_source_witness:
  "\<exists>(a, b, p) \<in> set (passage_windows ''abc''). a \<le> 1 \<and> 1 < b"
proof -
  have "1 < length (normalize_source ''abc'')" by code_simp
  with passages_cover_the_source [of "''abc''"] show ?thesis by blast
qed

definition batch_octets :: "string \<Rightarrow> 'v passage list \<Rightarrow> nat" where
  "batch_octets title b = 32 + sum_list (map (passage_octets title) b)"

lemma batches_from_ok:
  "batches_from title limit ps batch n = Inr bs \<Longrightarrow> n = batch_octets title batch \<Longrightarrow> n \<le> limit \<or> batch = [] \<Longrightarrow>
    concat bs = batch @ ps \<and> list_all (\<lambda>b. b \<noteq> [] \<and> batch_octets title b \<le> limit) bs"
proof (induction title limit ps batch n arbitrary: bs rule: batches_from.induct)
  case (1 title limit batch n)
  then show ?case by (auto split: if_splits)
next
  case (2 title limit p ps batch n)
  let ?m = "passage_octets title p"
  have fits: "?m + 32 \<le> limit" using "2.prems"(1) by (auto simp: Let_def split: if_splits)
  show ?case
  proof (cases "batch \<noteq> [] \<and> limit < n + ?m")
    case True
    then obtain bs' where bs: "batches_from title limit ps [p] (32 + ?m) = Inr bs'" "bs = batch # bs'"
      using "2.prems"(1) fits by (auto simp: Let_def split: sum.splits if_splits)
    have "concat bs' = [p] @ ps \<and> list_all (\<lambda>b. b \<noteq> [] \<and> batch_octets title b \<le> limit) bs'"
      using "2.IH"(1) [OF refl _ True bs(1)] fits by (simp add: batch_octets_def)
    with bs(2) True "2.prems"(2,3) show ?thesis by simp
  next
    case False
    then have rest: "batches_from title limit ps (batch @ [p]) (n + ?m) = Inr bs"
      using "2.prems"(1) fits by (auto simp: Let_def split: if_splits)
    have "n + ?m = batch_octets title (batch @ [p])" "n + ?m \<le> limit"
      using False "2.prems"(2,3) fits by (auto simp: batch_octets_def)
    then show ?thesis using "2.IH"(2) [OF refl _ False rest] fits by simp
  qed
qed

lemma embed_batches_ok:
  "embed_batches title embed_fn bs = Inr out \<Longrightarrow>
    map (\<lambda>p. (pg_start p, pg_end p, pg_text p)) out = map (\<lambda>p. (pg_start p, pg_end p, pg_text p)) (concat bs) \<and>
    list_all (\<lambda>p. pg_vec p \<noteq> None) out"
proof (induction bs arbitrary: out)
  case (Cons b bs)
  then obtain vs rest where vs: "length vs = length b" "embed_batches title embed_fn bs = Inr rest"
    "out = map2 (\<lambda>p v. p\<lparr>pg_vec := Some v\<rparr>) b vs @ rest"
    by (auto split: sum.splits if_splits)
  have "map (\<lambda>p. (pg_start p, pg_end p, pg_text p)) (map2 (\<lambda>p v. p\<lparr>pg_vec := Some v\<rparr>) b vs) = map (\<lambda>p. (pg_start p, pg_end p, pg_text p)) b"
    by (rule nth_equalityI) (use vs(1) in auto)
  moreover have "list_all (\<lambda>p. pg_vec p \<noteq> None) (map2 (\<lambda>p v. p\<lparr>pg_vec := Some v\<rparr>) b vs)" by (auto simp: list_all_iff)
  ultimately show ?case using Cons.IH [OF vs(2)] vs(3) by simp
qed simp

text \<open>
  A chapter is indexed completely or not at all: when \<^verbatim>\<open>prepare_passages\<close> returns, its passages are
  exactly the windows of the chapter, in order, each with a vector, and every embedding request it made
  was for a batch whose conservative token estimate is within the input ceiling.\<close>

theorem prepared_passages_are_complete:
  fixes embed_fn :: "string list \<Rightarrow> 'v list res"
  assumes "prepare_passages title s embed_fn (PyInt n) = Inr out"
  shows "map (\<lambda>p. (pg_start p, pg_end p, pg_text p)) out = passage_windows s \<and> (\<forall>p \<in> set out. pg_vec p \<noteq> None) \<and>
    (\<exists>bs. embedding_batches title (source_passages s :: 'v passage list) (PyInt n) = Inr bs \<and> (\<forall>b \<in> set bs. b \<noteq> [] \<and> int (batch_octets title b) \<le> n))"
proof -
  from assms obtain bs where bs: "embedding_batches title (source_passages s :: 'v passage list) (PyInt n) = Inr bs"
    "embed_batches title embed_fn bs = Inr out" by (auto simp: prepare_passages_def split: sum.splits)
  from bs(1) have n: "33 \<le> n" "batches_from title (nat n) (source_passages s :: 'v passage list) [] 32 = Inr bs"
    by (auto simp: embedding_batches_def split: if_splits)
  from batches_from_ok [OF n(2)] have cat: "concat bs = source_passages s" "list_all (\<lambda>b. b \<noteq> [] \<and> batch_octets title b \<le> nat n) bs"
    by (simp_all add: batch_octets_def)
  have "map (\<lambda>p. (pg_start p, pg_end p, pg_text p)) (source_passages s :: 'v passage list) = passage_windows s"
    by (simp add: source_passages_def o_def case_prod_unfold)
  with embed_batches_ok [OF bs(2)] cat bs(1) n(1) show ?thesis by (auto simp: list_all_iff)
qed

theorem prepared_passages_are_complete_witness:
  "\<exists>out. map (\<lambda>p. (pg_start p, pg_end p, pg_text p)) (out :: nat passage list) = passage_windows ''two words''"
proof -
  have "case prepare_passages ''t'' ''two words'' (\<lambda>ts. Inr (map length ts)) (PyInt 100) of Inl _ \<Rightarrow> False | Inr _ \<Rightarrow> True" by code_simp
  then obtain out where "prepare_passages ''t'' ''two words'' (\<lambda>ts. Inr (map length ts)) (PyInt 100) = Inr out"
    by (auto split: sum.splits)
  from prepared_passages_are_complete [OF this] show ?thesis by blast
qed

end
