(* ===== verification/Manifest.thy ===== *)
theory Manifest imports Frontier MemWrites MemAdmin PyBytes begin

text \<open>
  The atom manifest of a book, \<^verbatim>\<open>backend/app/ingest/manifest.py\<close>: built once at import, self-verified on
  every load, cross-checked against the store. The file is a parameter: what the JSON decoder returned,
  or nothing if it could not be read; SHA-256 is a parameter too.
\<close>

section \<open>Atoms and their version\<close>

record atom =
  ma_ordinal :: int
  ma_key :: string
  ma_href :: string
  ma_title :: string
  ma_part :: string
  ma_len :: int

definition atom_text :: "atom \<Rightarrow> string" where
  "atom_text a = show_int (ma_ordinal a) @ '':'' @ ma_key a @ '':'' @ show_int (ma_len a)"

definition atom_blob :: "atom list \<Rightarrow> string" where
  "atom_blob atoms = join ''|'' (map atom_text atoms)"

definition atom_version :: "(string \<Rightarrow> string) \<Rightarrow> atom list \<Rightarrow> string" where
  "atom_version digest atoms = take 16 (digest (atom_blob atoms))"

definition book_id_ok :: "string \<Rightarrow> bool" where
  "book_id_ok b = (take 2 b = ''bk'' \<and> 3 \<le> length b \<and> length b \<le> 66 \<and>
     list_all (\<lambda>c. is_lower_ascii c \<or> is_digit_ascii c) (drop 2 b))"

definition validated_book_id :: "pyval \<Rightarrow> string res" where
  "validated_book_id v = (case v of
     PyStr b \<Rightarrow> if book_id_ok b then Inr b else Inl (AtomSetMismatch ''malformed book id'')
   | _ \<Rightarrow> Inl (AtomSetMismatch ''malformed book id''))"

record segmented =
  sg_ordinal :: int
  sg_key :: string
  sg_href :: string
  sg_title :: string
  sg_part :: string
  sg_text :: string

record manifest =
  mf_book :: string
  mf_mode :: string
  mf_flags :: "string list"
  mf_language :: string
  mf_recorded :: bool
  mf_atoms :: "atom list"
  mf_version :: string

definition build_manifest :: "(string \<Rightarrow> string) \<Rightarrow> string \<Rightarrow> string \<Rightarrow> string list \<Rightarrow> pyval \<Rightarrow> segmented list \<Rightarrow> manifest" where
  "build_manifest digest book mode flags language parts =
     (let atoms = map (\<lambda>c. \<lparr>ma_ordinal = sg_ordinal c, ma_key = sg_key c, ma_href = sg_href c, ma_title = sg_title c,
        ma_part = sg_part c, ma_len = int (length (sg_text c))\<rparr>) parts in
      \<lparr>mf_book = book, mf_mode = mode, mf_flags = flags, mf_language = normalize_content_language language,
       mf_recorded = True, mf_atoms = atoms, mf_version = atom_version digest atoms\<rparr>)"

text \<open>The JSON object of the file; a missing language field is not \<^verbatim>\<open>und\<close>.\<close>

record raw_manifest =
  rm_book :: string
  rm_mode :: string
  rm_flags :: "string list"
  rm_language :: "pyval option"
  rm_atoms :: "atom list"
  rm_version :: "string option"

definition saved :: "manifest \<Rightarrow> raw_manifest" where
  "saved m = \<lparr>rm_book = mf_book m, rm_mode = mf_mode m, rm_flags = mf_flags m, rm_language = Some (PyStr (mf_language m)),
     rm_atoms = mf_atoms m, rm_version = Some (mf_version m)\<rparr>"

definition load_manifest :: "(string \<Rightarrow> string) \<Rightarrow> string \<Rightarrow> raw_manifest option \<Rightarrow> manifest res" where
  "load_manifest digest book content =
     (if \<not> book_id_ok book then Inl (AtomSetMismatch ''malformed book id'')
      else case content of
        None \<Rightarrow> Inl (AtomSetMismatch ''atom manifest is missing or unreadable'')
      | Some m \<Rightarrow>
          if rm_version m \<noteq> Some (atom_version digest (rm_atoms m))
          then Inl (AtomSetMismatch ''atom manifest fails self-verification'')
          else (let raw = (case rm_language m of None \<Rightarrow> PyStr ''und'' | Some v \<Rightarrow> v);
                    language = normalize_content_language raw in
            if raw \<noteq> PyStr language then Inl (AtomSetMismatch ''atom manifest has malformed content language'')
            else if map ma_ordinal (rm_atoms m) \<noteq> [1..int (length (rm_atoms m))]
            then Inl (AtomSetMismatch ''atom manifest ordinals are not contiguous 1..N'')
            else Inr \<lparr>mf_book = rm_book m, mf_mode = rm_mode m, mf_flags = rm_flags m, mf_language = language,
              mf_recorded = (rm_language m \<noteq> None), mf_atoms = rm_atoms m, mf_version = atom_version digest (rm_atoms m)\<rparr>))"

definition bounds_of :: "manifest \<Rightarrow> bounds res" where
  "bounds_of m = (case chapter_bounds (map ma_len (mf_atoms m)) of Inl e \<Rightarrow> Inl e | Inr b \<Rightarrow>
     (case assert_aligned b (Ordinals (map ma_ordinal (mf_atoms m))) of Inl e \<Rightarrow> Inl e | Inr _ \<Rightarrow> Inr b))"

text \<open>\<^verbatim>\<open>want\<close>: the later atom wins, as in a dict comprehension.\<close>

definition want :: "manifest \<Rightarrow> int \<Rightarrow> string option" where
  "want m = map_of (rev (map (\<lambda>a. (ma_ordinal a, ma_key a)) (mf_atoms m)))"

definition assert_matches_store :: "manifest \<Rightarrow> (mem conn, unit) act" where
  "assert_matches_store m =
     bindA content_language (\<lambda>language.
     if mf_language m \<noteq> language then raise (AtomSetMismatch ''store/manifest content language mismatch'')
     else bindA (chapters_of (int (card (ma_ordinal ` set (mf_atoms m))))) (\<lambda>rows.
       if list_ex (\<lambda>(key, ordinal, _, _). want m ordinal \<noteq> Some key) rows
       then raise (AtomSetMismatch ''store/manifest atom mismatch'') else ret ()))"

section \<open>What a version pins\<close>

lemma show_nat_digits: "list_all is_digit_ascii (show_nat n) \<and> show_nat n \<noteq> []"
proof (induction n rule: show_nat.induct)
  case (1 n)
  have d: "is_digit_ascii (char_of (48 + k))" if "k < 10" for k :: nat
    using that by (simp add: is_digit_ascii_def Let_def)
  show ?case
  proof (cases "n < 10")
    case True
    then show ?thesis by (simp add: show_nat.simps [of n] d)
  next
    case False
    with 1 d [of "n mod 10"] show ?thesis by (simp add: show_nat.simps [of n])
  qed
qed

lemma digits_value_snoc: "digits_value (s @ [c]) = 10 * digits_value s + digit_value c"
  by (simp add: digits_value_def)

lemma show_nat_value: "digits_value (show_nat n) = int n"
proof (induction n rule: show_nat.induct)
  case (1 n)
  have d: "digit_value (char_of (48 + k)) = int k" if "k < 10" for k :: nat
    using that by (simp add: digit_value_def)
  show ?case
  proof (cases "n < 10")
    case True
    then show ?thesis by (simp add: show_nat.simps [of n] digits_value_def d)
  next
    case False
    have "digits_value (show_nat n) = 10 * int (n div 10) + int (n mod 10)"
      using 1 False d [of "n mod 10"] by (subst show_nat.simps) (simp add: digits_value_snoc)
    also have "\<dots> = int n" by presburger
    finally show ?thesis .
  qed
qed

lemma show_nat_inj: "show_nat a = show_nat b \<Longrightarrow> a = b"
  by (metis show_nat_value of_nat_eq_iff)

lemma show_int_inj: "show_int i = show_int j \<Longrightarrow> i = j"
proof -
  have minus: "hd (show_nat n) \<noteq> CHR ''-''" for n
    using show_nat_digits [of n] by (cases "show_nat n") (auto simp: is_digit_ascii_def Let_def)
  assume "show_int i = show_int j"
  with minus show ?thesis
    by (auto simp: show_int_def split: if_splits dest!: show_nat_inj) (metis list.sel(1))+
qed

lemma show_int_no_separator: "CHR '':'' \<notin> set (show_int i) \<and> CHR ''|'' \<notin> set (show_int i)"
proof -
  have "c \<in> set (show_nat n) \<Longrightarrow> c \<noteq> CHR '':'' \<and> c \<noteq> CHR ''|''" for c n
    using show_nat_digits [of n] by (auto simp: list_all_iff is_digit_ascii_def Let_def)
  then show ?thesis by (auto simp: show_int_def)
qed

lemma split_at_first:
  "x \<notin> set a \<Longrightarrow> x \<notin> set b \<Longrightarrow> a @ x # s = b @ x # t \<Longrightarrow> a = b \<and> s = t"
  by (induction a arbitrary: b) (case_tac b; auto)+

lemma atom_text_inj:
  assumes "atom_text a = atom_text b"
  shows "ma_ordinal a = ma_ordinal b \<and> ma_key a = ma_key b \<and> ma_len a = ma_len b"
proof -
  from assms have "show_int (ma_ordinal a) @ CHR '':'' # (ma_key a @ CHR '':'' # show_int (ma_len a)) =
      show_int (ma_ordinal b) @ CHR '':'' # (ma_key b @ CHR '':'' # show_int (ma_len b))" by (simp add: atom_text_def)
  from split_at_first [OF _ _ this] show_int_no_separator
  have one: "show_int (ma_ordinal a) = show_int (ma_ordinal b)"
    and rest: "ma_key a @ CHR '':'' # show_int (ma_len a) = ma_key b @ CHR '':'' # show_int (ma_len b)" by blast+
  from arg_cong [OF rest, of rev]
  have "rev (show_int (ma_len a)) @ CHR '':'' # rev (ma_key a) = rev (show_int (ma_len b)) @ CHR '':'' # rev (ma_key b)" by simp
  from split_at_first [OF _ _ this] show_int_no_separator
  have "rev (show_int (ma_len a)) = rev (show_int (ma_len b))" "rev (ma_key a) = rev (ma_key b)" by simp_all
  with one show ?thesis by (auto dest: show_int_inj)
qed

lemma join_inj:
  assumes "join [x] as = join [x] bs" "list_all (\<lambda>w. x \<notin> set w \<and> w \<noteq> []) as" "list_all (\<lambda>w. x \<notin> set w \<and> w \<noteq> []) bs"
  shows "as = bs"
  using assms
proof (induction "[x]" as arbitrary: bs rule: join.induct)
  case 1
  then show ?case by (cases bs rule: list.exhaust; cases "tl bs") auto
next
  case (2 w)
  show ?case
  proof (cases bs)
    case (Cons v vs)
    with 2 show ?thesis by (cases vs) auto
  qed (use 2 in auto)
next
  case (3 w v vs)
  show ?case
  proof (cases bs)
    case Nil
    with "3.prems" show ?thesis by simp
  next
    case (Cons b bs')
    show ?thesis
    proof (cases bs')
      case Nil
      with Cons "3.prems" have "x \<in> set b" by (metis in_set_conv_decomp join.simps(2,3) append_Cons append_Nil)
      with Cons "3.prems" show ?thesis by simp
    next
      case (Cons c cs)
      with \<open>bs = b # bs'\<close> "3.prems"(1) have "w @ x # join [x] (v # vs) = b @ x # join [x] (c # cs)" by simp
      from split_at_first [OF _ _ this] "3.prems" \<open>bs = b # bs'\<close> have "w = b" "join [x] (v # vs) = join [x] (c # cs)" by auto
      with "3.hyps" [of "c # cs"] "3.prems" \<open>bs = b # bs'\<close> Cons show ?thesis by auto
    qed
  qed
qed

text \<open>
  As long as no chapter key contains a bar, the version of a manifest identifies the numbered
  chapters it was built from: two atom lists with the same hashed text have the same ordinals, keys and
  lengths, so any renumbering, re-split or change of length changes the text that is hashed.\<close>

theorem version_identifies_atoms:
  assumes "atom_blob as = atom_blob bs"
    and "\<forall>a \<in> set as. CHR ''|'' \<notin> set (ma_key a)" "\<forall>b \<in> set bs. CHR ''|'' \<notin> set (ma_key b)"
  shows "map (\<lambda>a. (ma_ordinal a, ma_key a, ma_len a)) as = map (\<lambda>b. (ma_ordinal b, ma_key b, ma_len b)) bs"
proof -
  have ok: "list_all (\<lambda>w. CHR ''|'' \<notin> set w \<and> w \<noteq> []) (map atom_text xs)" if "\<forall>a \<in> set xs. CHR ''|'' \<notin> set (ma_key a)" for xs
    using that show_int_no_separator by (auto simp: list_all_iff atom_text_def)
  have eq: "map atom_text as = map atom_text bs"
    using join_inj [OF assms(1) [unfolded atom_blob_def] ok [OF assms(2)] ok [OF assms(3)]] .
  show ?thesis
  proof (rule nth_equalityI)
    show len: "length (map (\<lambda>a. (ma_ordinal a, ma_key a, ma_len a)) as) = length (map (\<lambda>b. (ma_ordinal b, ma_key b, ma_len b)) bs)"
      using arg_cong [OF eq, of length] by simp
    fix i assume "i < length (map (\<lambda>a. (ma_ordinal a, ma_key a, ma_len a)) as)"
    with len have i: "i < length as" "i < length bs" by simp_all
    have "atom_text (as ! i) = map atom_text as ! i" using i by simp
    also have "\<dots> = map atom_text bs ! i" by (simp only: eq)
    also have "\<dots> = atom_text (bs ! i)" using i by simp
    finally have "atom_text (as ! i) = atom_text (bs ! i)" .
    from atom_text_inj [OF this] i show "map (\<lambda>a. (ma_ordinal a, ma_key a, ma_len a)) as ! i = map (\<lambda>b. (ma_ordinal b, ma_key b, ma_len b)) bs ! i"
      by simp
  qed
qed

definition atom :: "int \<Rightarrow> string \<Rightarrow> string \<Rightarrow> int \<Rightarrow> atom" where
  "atom ordinal key title len = \<lparr>ma_ordinal = ordinal, ma_key = key, ma_href = [], ma_title = title, ma_part = [], ma_len = len\<rparr>"

theorem version_identifies_atoms_witness:
  "map (\<lambda>a. (ma_ordinal a, ma_key a, ma_len a)) [atom 1 ''bk1:a'' ''One'' 12] =
   map (\<lambda>a. (ma_ordinal a, ma_key a, ma_len a)) [atom 1 ''bk1:a'' ''I'' 12]"
  by (rule version_identifies_atoms) (simp_all add: atom_def atom_blob_def atom_text_def)

text \<open>With a bar in a key it does not: the same text for two chapters and for one.\<close>

theorem version_misses_a_resplit:
  "atom_version digest [atom 1 ''bk1:a'' ''One'' 5, atom 2 ''bk1:b'' ''Two'' 7] = atom_version digest [atom 1 ''bk1:a:5|2:bk1:b'' ''One'' 7]"
proof -
  have "atom_blob [atom 1 ''bk1:a'' ''One'' 5, atom 2 ''bk1:b'' ''Two'' 7] = atom_blob [atom 1 ''bk1:a:5|2:bk1:b'' ''One'' 7]"
    by code_simp
  then show ?thesis by (simp add: atom_version_def)
qed

lemma load_manifest_Inr:
  assumes "load_manifest digest book content = Inr m"
  obtains r where "content = Some r" "rm_version r = Some (atom_version digest (rm_atoms r))" "mf_atoms m = rm_atoms r"
    "map ma_ordinal (mf_atoms m) = [1..int (length (mf_atoms m))]" "mf_version m = atom_version digest (mf_atoms m)"
    "normalize_content_language (PyStr (mf_language m)) = mf_language m"
proof -
  from assms obtain r where r: "content = Some r" "rm_version r = Some (atom_version digest (rm_atoms r))"
    "map ma_ordinal (rm_atoms r) = [1..int (length (rm_atoms r))]"
    "(case rm_language r of None \<Rightarrow> PyStr ''und'' | Some v \<Rightarrow> v) =
       PyStr (normalize_content_language (case rm_language r of None \<Rightarrow> PyStr ''und'' | Some v \<Rightarrow> v))"
    "m = \<lparr>mf_book = rm_book r, mf_mode = rm_mode r, mf_flags = rm_flags r,
      mf_language = normalize_content_language (case rm_language r of None \<Rightarrow> PyStr ''und'' | Some v \<Rightarrow> v),
      mf_recorded = (rm_language r \<noteq> None), mf_atoms = rm_atoms r, mf_version = atom_version digest (rm_atoms r)\<rparr>"
    by (auto simp: load_manifest_def Let_def split: if_splits option.splits)
  have "normalize_content_language (PyStr (mf_language m)) = mf_language m"
    unfolding r(5) using r(4) by (metis manifest.select_convs(4))
  with r show ?thesis by (intro that [of r]) simp_all
qed

text \<open>
  Property C34: a manifest that was written at import loads back unchanged, as long as the segmenter numbered
  the chapters from one.\<close>

theorem manifest_round_trip:
  assumes "book_id_ok book" and "map sg_ordinal parts = [1..int (length parts)]"
  shows "load_manifest digest book (Some (saved (build_manifest digest book mode flags language parts))) =
    Inr (build_manifest digest book mode flags language parts)"
  using assms by (simp add: load_manifest_def build_manifest_def saved_def Let_def o_def normalize_idem)

theorem manifest_round_trip_witness:
  "load_manifest id ''bk1'' (Some (saved (build_manifest id ''bk1'' ''toc'' [] (PyStr ''en_GB'')
      [\<lparr>sg_ordinal = 1, sg_key = ''bk1:a'', sg_href = ''a'', sg_title = ''One'', sg_part = [], sg_text = ''text''\<rparr>]))) =
    Inr (build_manifest id ''bk1'' ''toc'' [] (PyStr ''en_GB'')
      [\<lparr>sg_ordinal = 1, sg_key = ''bk1:a'', sg_href = ''a'', sg_title = ''One'', sg_part = [], sg_text = ''text''\<rparr>])"
  by (rule manifest_round_trip) code_simp+

end
