(* ===== verification/Reading.thy ===== *)
theory Reading imports Manifest Catalog begin

text \<open>
  The position routes, \<^verbatim>\<open>backend/app/api/reading.py\<close>: a reader reports an offset, the frontier turns it
  into a bookmark, the catalog keeps the highest one of the reading epoch, and the ingestion worker is
  told. Every route first loads the manifest and checks it against the store. The application state is
  the catalog, the session of the book's store, and what was sent to the worker and the warmer.
\<close>

section \<open>Requests\<close>

record app =
  ap_catalog :: catalog
  ap_mem :: "mem conn"
  ap_queue :: "(string \<times> int) list"
  ap_warm :: "(string \<times> string) list"

definition on_catalog :: "(catalog, 'a) act \<Rightarrow> (app, 'a) act" where
  "on_catalog m s = (case m (ap_catalog s) of (r, k) \<Rightarrow> (r, s\<lparr>ap_catalog := k\<rparr>))"

definition on_mem :: "(mem conn, 'a) act \<Rightarrow> (app, 'a) act" where
  "on_mem m s = (case m (ap_mem s) of (r, c) \<Rightarrow> (r, s\<lparr>ap_mem := c\<rparr>))"

text \<open>The body of a report, as pydantic lets it through.\<close>

record position_in =
  pi_cfi :: string
  pi_offset :: int
  pi_high :: "int option"
  pi_epoch :: "int option"

definition strict_nat :: "int option \<Rightarrow> pyval \<Rightarrow> int option" where
  "strict_nat hi v = (case v of
     PyInt i \<Rightarrow> if 0 \<le> i \<and> (case hi of None \<Rightarrow> True | Some h \<Rightarrow> i \<le> h) then Some i else None
   | _ \<Rightarrow> None)"

definition optional_nat :: "pyval \<Rightarrow> int option option" where
  "optional_nat v = (case v of PyNone \<Rightarrow> Some None | _ \<Rightarrow> map_option Some (strict_nat (Some (2 ^ 63 - 1)) v))"

definition position_body :: "pyval \<Rightarrow> pyval \<Rightarrow> pyval \<Rightarrow> pyval \<Rightarrow> position_in res" where
  "position_body cfi offset high epoch =
     (case (cfi, strict_nat None offset, optional_nat high, optional_nat epoch) of
       (PyStr c, Some o1, Some h, Some e) \<Rightarrow>
         if length c \<le> 4096 then Inr \<lparr>pi_cfi = c, pi_offset = o1, pi_high = h, pi_epoch = e\<rparr> else Inl (HTTPException 422 ''cfi'')
     | _ \<Rightarrow> Inl (HTTPException 422 ''body''))"

section \<open>The prologue\<close>

definition fail_closed :: "('s, 'a) act \<Rightarrow> ('s, 'a) act" where
  "fail_closed m s = (case m s of
     (Inl (AtomSetMismatch _), s') \<Rightarrow> (Inl (HTTPException 409 ''atom-set mismatch''), s')
   | r \<Rightarrow> r)"

text \<open>\<^verbatim>\<open>opened\<close> is what entering \<^verbatim>\<open>store.book\<close> raises, if anything.\<close>

definition load_checked ::
  "(string \<Rightarrow> string) \<Rightarrow> string \<Rightarrow> raw_manifest option \<Rightarrow> unit res \<Rightarrow> (app, manifest \<times> bounds \<times> int) act" where
  "load_checked digest book content opened =
     bindA (on_catalog (asks (get_book book))) (\<lambda>row.
     if row = None then raise (HTTPException 404 ''unknown book'')
     else fail_closed (
       bindA (liftA (load_manifest digest book content)) (\<lambda>m.
       bindA (liftA opened) (\<lambda>_.
       bindA (on_mem (assert_matches_store m)) (\<lambda>_.
       bindA (on_mem (completion_frontier digest (map (\<lambda>a. (ma_key a, ma_ordinal a)) (mf_atoms m)))) (\<lambda>durable.
       bindA (liftA (bounds_of m)) (\<lambda>bounds. ret (m, bounds, durable))))))))"

section \<open>The routes\<close>

definition position_conflict :: "('s, 'a) act \<Rightarrow> ('s, 'a) act" where
  "position_conflict m s = (case m s of
     (Inl (ValueError e), s') \<Rightarrow>
       (Inl (if contains ''position epoch'' e then HTTPException 409 ''reading position was reset in another session'' else ValueError e), s')
   | r \<Rightarrow> r)"

record position_out =
  po_bookmark :: int
  po_cfi :: "string option"
  po_ingest :: "int option"
  po_chapter :: "int option"
  po_progress :: "rat option"
  po_epoch :: int
  po_atoms :: int

definition get_position ::
  "(string \<Rightarrow> string) \<Rightarrow> string \<Rightarrow> raw_manifest option \<Rightarrow> unit res \<Rightarrow> (app, position_out) act" where
  "get_position digest book content opened =
     bindA (load_checked digest book content opened) (\<lambda>(m, bounds, durable).
     bindA (on_catalog (state_after book)) (\<lambda>st.
       ret \<lparr>po_bookmark = rs_bookmark st, po_cfi = rs_cfi st, po_ingest = Some (min (rs_progress st) durable),
         po_chapter = None, po_progress = None, po_epoch = rs_epoch st, po_atoms = int (length (mf_atoms m))\<rparr>))"

text \<open>\<^verbatim>\<open>round(x, 4)\<close>: half to even.\<close>

definition round_half_even :: "rat \<Rightarrow> int" where
  "round_half_even x = (let f = \<lfloor>x\<rfloor>; d = x - of_int f in
     if d < 1 / 2 then f else if 1 / 2 < d then f + 1 else if even f then f else f + 1)"

definition round4 :: "rat \<Rightarrow> rat" where
  "round4 x = of_int (round_half_even (x * 10000)) / 10000"

definition notify_warmer :: "bool \<Rightarrow> string \<Rightarrow> (app, unit) act" where
  "notify_warmer warmer book = (if \<not> warmer then ret ()
     else bindA (on_catalog (asks (get_book book))) (\<lambda>row. case row of
       None \<Rightarrow> raise (TypeError ''NoneType'')
     | Some r \<Rightarrow> modify (\<lambda>s. s\<lparr>ap_warm := ap_warm s @ [(book, bk_incarnation r)]\<rparr>)))"

definition or_zero :: "int option \<Rightarrow> int" where
  "or_zero v = (case v of None \<Rightarrow> 0 | Some i \<Rightarrow> i)"

definition put_position ::
  "(string \<Rightarrow> string) \<Rightarrow> string \<Rightarrow> raw_manifest option \<Rightarrow> unit res \<Rightarrow> bool \<Rightarrow> position_in \<Rightarrow> string \<Rightarrow> (app, position_out) act" where
  "put_position digest book content opened warmer p now =
     bindA (load_checked digest book content opened) (\<lambda>(m, bounds, _).
     bindA (on_catalog (asks (high_water book))) (\<lambda>prev. case prev of
       None \<Rightarrow> raise (TypeError ''NoneType'')
     | Some pb \<Rightarrow>
         bindA (position_conflict (on_catalog (set_position book (Some (pi_cfi p))
             (PyInt (bookmark_high_water pb (max (pi_offset p) (or_zero (pi_high p))) bounds)) (PyInt (or_zero (pi_epoch p))) now))) (\<lambda>st.
         bindA (if 0 < rs_bookmark st then modify (\<lambda>s. s\<lparr>ap_queue := ap_queue s @ [(book, rs_bookmark st)]\<rparr>) else ret ()) (\<lambda>_.
         bindA (notify_warmer warmer book) (\<lambda>_.
           ret \<lparr>po_bookmark = rs_bookmark st, po_cfi = Some (pi_cfi p), po_ingest = None,
             po_chapter = Some (current_chapter (pi_offset p) bounds),
             po_progress = Some (round4 (chapter_progress (pi_offset p) bounds)), po_epoch = rs_epoch st,
             po_atoms = int (length (mf_atoms m))\<rparr>)))))"

definition reset_route ::
  "(string \<Rightarrow> string) \<Rightarrow> string \<Rightarrow> raw_manifest option \<Rightarrow> unit res \<Rightarrow> bool \<Rightarrow> int \<Rightarrow> string \<Rightarrow> (app, position_out) act" where
  "reset_route digest book content opened warmer epoch now =
     bindA (load_checked digest book content opened) (\<lambda>(m, bounds, durable).
     bindA (position_conflict (on_catalog (reset_position book (PyInt epoch) now))) (\<lambda>st.
     bindA (notify_warmer warmer book) (\<lambda>_.
       ret \<lparr>po_bookmark = rs_bookmark st, po_cfi = rs_cfi st, po_ingest = Some (min (rs_progress st) durable),
         po_chapter = None, po_progress = None, po_epoch = rs_epoch st, po_atoms = int (length (mf_atoms m))\<rparr>)))"

section \<open>What the prologue establishes\<close>

definition agrees :: "manifest \<Rightarrow> mem conn \<Rightarrow> bool" where
  "agrees m c = (\<forall>r \<in> set (chapters (working c)).
     spoiler_clause T_chapters (book_id c) (int (card (ma_ordinal ` set (mf_atoms m)))) r \<longrightarrow> want m (f_rev r) = Some (ch_key r))"

definition sends :: "catalog \<Rightarrow> (string \<times> int) list \<Rightarrow> (string \<times> string) list \<Rightarrow> app \<Rightarrow> bool" where
  "sends k q w s = (ap_catalog s = k \<and> ap_queue s = q \<and> ap_warm s = w)"

lemma content_language_Inr:
  assumes "content_language c = (Inr x, c')"
  shows "working c' = working c \<and> book_id c' = book_id c"
proof -
  have "book_id c' = book_id c"
    by (rule book_kept [where m = content_language, OF _ assms]) (unfold content_language_def Let_def, intro keeps_intros)
  moreover from assms obtain row where row: "writer (query [T_book_meta] (meta_of (book_id c))) c = (Inr row, c')"
    unfolding content_language_def with_book_def by (auto simp: bindA_Inr Let_def raise_def ret_def split: option.splits if_splits)
  ultimately show ?thesis using writer_query_Inr [OF row] by blast
qed

lemma assert_matches_store_Inr:
  assumes "assert_matches_store m c = (Inr x, c')"
  shows "agrees m c"
proof -
  from assms obtain language c1 rows where l: "content_language c = (Inr language, c1)"
    and rows: "chapters_of (int (card (ma_ordinal ` set (mf_atoms m)))) c1 = (Inr rows, c')"
    and ok: "\<not> list_ex (\<lambda>(key, ordinal, _, _). want m ordinal \<noteq> Some key) rows"
    by (auto simp: assert_matches_store_def bindA_Inr split: if_splits)
  note same = content_language_Inr [OF l]
  show ?thesis
    unfolding agrees_def
  proof (intro ballI impI)
    fix r assume r: "r \<in> set (chapters (working c))"
      "spoiler_clause T_chapters (book_id c) (int (card (ma_ordinal ` set (mf_atoms m)))) r"
    from tab_chapters.select_complete [OF rows [unfolded chapters_of_def], of r] r same
    have "(ch_key r, f_rev r, ch_title r, ch_part r) \<in> set rows" by simp
    with ok show "want m (f_rev r) = Some (ch_key r)" by (fastforce simp: list_ex_iff)
  qed
qed

lemma fail_closed_Inr [simp]: "(fail_closed m s = (Inr x, s')) = (m s = (Inr x, s'))"
  by (auto simp: fail_closed_def split: prod.splits sum.splits exc.splits)

lemma on_mem_Inr: "(on_mem m s = (Inr x, s')) = (\<exists>c. m (ap_mem s) = (Inr x, c) \<and> s' = s\<lparr>ap_mem := c\<rparr>)"
  by (auto simp: on_mem_def split: prod.splits)

lemma on_catalog_Inr: "(on_catalog m s = (Inr x, s')) = (\<exists>k. m (ap_catalog s) = (Inr x, k) \<and> s' = s\<lparr>ap_catalog := k\<rparr>)"
  by (auto simp: on_catalog_def split: prod.splits)

lemma load_checked_Inr:
  assumes "load_checked digest book content opened s = (Inr (m, bounds, durable), s')"
  shows "load_manifest digest book content = Inr m \<and> bounds_of m = Inr bounds \<and> agrees m (ap_mem s) \<and>
    get_book book (ap_catalog s) \<noteq> None \<and> sends (ap_catalog s) (ap_queue s) (ap_warm s) s'"
  using assms
  by (auto simp: load_checked_def bindA_Inr on_mem_Inr on_catalog_Inr sends_def dest: assert_matches_store_Inr split: if_splits)

lemma keeps_on_mem: "keeps (sends k q w) (on_mem m)"
  by (auto simp: keeps_def sends_def on_mem_def split: prod.splits)

lemma keeps_on_asks: "keeps (sends k q w) (on_catalog (asks f))"
  by (auto simp: keeps_def sends_def on_catalog_def asks_def)

lemma keeps_fail_closed: "keeps P m \<Longrightarrow> keeps P (fail_closed m)"
  by (auto simp: keeps_def fail_closed_def split: prod.splits sum.splits exc.splits)

lemma keeps_load_checked: "keeps (sends k q w) (load_checked digest book content opened)"
  unfolding load_checked_def by (intro keeps_intros keeps_on_mem keeps_on_asks keeps_fail_closed)

section \<open>Properties of the routes\<close>

text \<open>
  Property C21: a position is only answered, moved or reset for a store that agrees with the manifest. Whenever one of the
  three routes succeeds, the manifest passed its self-verification and every live chapter the store shows up
  to the end of the book has exactly the key the manifest has at that ordinal; in any other case the
  request fails.\<close>

theorem positions_need_a_matching_store:
  assumes "fst (put_position digest book content opened warmer p now s) = Inr out \<or>
    fst (get_position digest book content opened s) = Inr out \<or> fst (reset_route digest book content opened warmer epoch now s) = Inr out"
  shows "\<exists>m. load_manifest digest book content = Inr m \<and> mf_version m = atom_version digest (mf_atoms m) \<and> agrees m (ap_mem s)"
proof -
  from assms obtain m bounds durable s1 where l: "load_checked digest book content opened s = (Inr (m, bounds, durable), s1)"
  proof (elim disjE)
    assume "fst (put_position digest book content opened warmer p now s) = Inr out"
    then have "\<exists>m bounds durable s1. load_checked digest book content opened s = (Inr (m, bounds, durable), s1)"
      by (auto simp: put_position_def bindA_def split: prod.splits sum.splits)
    with that show ?thesis by blast
  next
    assume "fst (get_position digest book content opened s) = Inr out"
    then have "\<exists>m bounds durable s1. load_checked digest book content opened s = (Inr (m, bounds, durable), s1)"
      by (auto simp: get_position_def bindA_def split: prod.splits sum.splits)
    with that show ?thesis by blast
  next
    assume "fst (reset_route digest book content opened warmer epoch now s) = Inr out"
    then have "\<exists>m bounds durable s1. load_checked digest book content opened s = (Inr (m, bounds, durable), s1)"
      by (auto simp: reset_route_def bindA_def split: prod.splits sum.splits)
    with that show ?thesis by blast
  qed
  from load_checked_Inr [OF this] show ?thesis by (blast elim: load_manifest_Inr)
qed

definition sample_app :: app where
  "sample_app = \<lparr>ap_catalog = sample_catalog, ap_mem = conn_on ''bk1'' 7 (empty_mem\<lparr>meta := [meta_at ''bk1'' None None ''und''],
     chapters := [chapter_at ''bk1'' ''bk1:a'' 1 ''One'']\<rparr>), ap_queue = [], ap_warm = []\<rparr>"

definition sample_parts :: "segmented list" where
  "sample_parts = [\<lparr>sg_ordinal = 1, sg_key = ''bk1:a'', sg_href = ''a'', sg_title = ''One'', sg_part = [], sg_text = ''abcde''\<rparr>,
     \<lparr>sg_ordinal = 2, sg_key = ''bk1:b'', sg_href = ''b'', sg_title = ''Two'', sg_part = [], sg_text = ''fgh''\<rparr>]"

abbreviation sample_file :: "raw_manifest option" where
  "sample_file \<equiv> Some (saved (build_manifest id ''bk1'' ''toc'' [] (PyStr ''und'') sample_parts))"

definition sample_report :: position_in where
  "sample_report = \<lparr>pi_cfi = ''/6'', pi_offset = 6, pi_high = None, pi_epoch = None\<rparr>"

theorem positions_need_a_matching_store_witness:
  "\<exists>m. load_manifest id ''bk1'' sample_file = Inr m \<and> agrees m (ap_mem sample_app)"
proof -
  have "map_sum (\<lambda>_. ()) (\<lambda>_. ()) (fst (get_position id ''bk1'' sample_file (Inr ()) sample_app)) = Inr ()" by code_simp
  then obtain out where "fst (get_position id ''bk1'' sample_file (Inr ()) sample_app) = Inr out"
    by (cases "fst (get_position id ''bk1'' sample_file (Inr ()) sample_app)") auto
  with positions_need_a_matching_store [of id "''bk1''" sample_file "Inr ()" False sample_report "[]" sample_app out 0] show ?thesis by blast
qed

text \<open>The abstract reading position of a book: the epoch and the highest bookmark of the epoch.\<close>

definition reading_of :: "string \<Rightarrow> app \<Rightarrow> (int \<times> int) option" where
  "reading_of b s = map_option (\<lambda>r. (rs_epoch r, rs_bookmark r)) (get_state b (ap_catalog s))"

definition report_spec :: "int \<Rightarrow> int \<Rightarrow> (int \<times> int) \<Rightarrow> (int \<times> int) option" where
  "report_spec epoch mark st = (if fst st = epoch then Some (epoch, max (snd st) mark) else None)"

lemma set_position_Inr:
  assumes "set_position b cfi (PyInt mark) (PyInt epoch) now k = (Inr st, k')"
  shows "\<exists>r. get_state b k = Some r \<and> rs_epoch r = epoch \<and> get_state b k' = Some st \<and> rs_epoch st = epoch \<and>
    rs_bookmark st = max (rs_bookmark r) mark \<and> books k' = books k \<and> (\<forall>b'. b' \<noteq> b \<longrightarrow> get_state b' k' = get_state b' k)"
proof -
  let ?f = "\<lambda>r. r\<lparr>rs_bookmark := max (rs_bookmark r) mark, rs_cfi := cfi, rs_updated := Some now\<rparr>"
  let ?P = "\<lambda>r. rs_book r = b \<and> rs_epoch r = epoch"
  from assms obtain r where r: "get_state b k = Some r" "rs_epoch r = epoch"
    and k': "k' = k\<lparr>reading := update_where ?P ?f (reading k)\<rparr>" "get_state b k' = Some st"
    by (auto simp: set_position_def bindA_Inr atomically_Inr check_int_def split: if_splits option.splits)
  have rb: "rs_book r = b" using r(1) by (auto simp: get_state_def find_Some_iff)
  have st: "get_state x k' = map_option (\<lambda>r. if ?P r then ?f r else r) (get_state x k)" for x
    unfolding k'(1) by (rule get_state_update) simp
  have other: "get_state b' k' = get_state b' k" if "b' \<noteq> b" for b'
  proof (cases "get_state b' k")
    case (Some r')
    then have "rs_book r' = b'" by (auto simp: get_state_def find_Some_iff)
    with Some that show ?thesis by (simp add: st)
  qed (simp add: st)
  have "st = ?f r" using st [of b] k'(2) r rb by simp
  with r k' other show ?thesis by auto
qed

lemma position_conflict_Inr [simp]: "(position_conflict m s = (Inr x, s')) = (m s = (Inr x, s'))"
  by (auto simp: position_conflict_def split: prod.splits sum.splits exc.splits)

lemma position_conflict_snd: "snd (position_conflict m s) = snd (m s)"
  by (auto simp: position_conflict_def split: prod.splits sum.splits exc.splits)

lemma set_position_fails: "fst (set_position b cfi mark epoch now k) = Inl e \<Longrightarrow> snd (set_position b cfi mark epoch now k) = k"
proof -
  assume a: "fst (set_position b cfi mark epoch now k) = Inl e"
  have "all_or_nothing (set_position b cfi mark epoch now)" by (rule aon_methods)
  with a show ?thesis unfolding all_or_nothing_def by (metis prod.collapse)
qed

lemma notify_warmer_known:
  assumes "get_book book (ap_catalog s) \<noteq> None"
  shows "\<exists>w. notify_warmer warmer book s = (Inr (), s\<lparr>ap_warm := w\<rparr>)"
proof (cases warmer)
  case True
  from assms obtain r where "get_book book (ap_catalog s) = Some r" by blast
  with True show ?thesis
    by (intro exI [of _ "ap_warm s @ [(book, bk_incarnation r)]"])
      (simp add: notify_warmer_def bindA_def on_catalog_def asks_def modify_def)
next
  case False
  then show ?thesis by (intro exI [of _ "ap_warm s"]) (simp add: notify_warmer_def ret_def)
qed

text \<open>
  Property C22: a position report refines the abstract rule of the reading position: in the epoch it names the
  mark becomes the maximum of the old mark and the chapters completed at the reported offset, in any other
  epoch nothing changes. A successful report returns the new mark, tells the worker about it (and nothing
  else) and leaves every other book alone; a failed one leaves catalog and queue as they were.\<close>

theorem position_report_refines_high_water:
  assumes "put_position digest book content opened warmer p now s = (r, s')"
  shows "case r of
      Inl e \<Rightarrow> ap_catalog s' = ap_catalog s \<and> ap_queue s' = ap_queue s
    | Inr out \<Rightarrow> \<exists>m bounds st. load_manifest digest book content = Inr m \<and> bounds_of m = Inr bounds \<and>
        reading_of book s = Some st \<and>
        reading_of book s' = report_spec (or_zero (pi_epoch p)) (cfi_to_bookmark (max (pi_offset p) (or_zero (pi_high p))) bounds) st \<and>
        reading_of book s' = Some (po_epoch out, po_bookmark out) \<and>
        ap_queue s' = ap_queue s @ (if 0 < po_bookmark out then [(book, po_bookmark out)] else []) \<and>
        (\<forall>b. b \<noteq> book \<longrightarrow> reading_of b s' = reading_of b s)"
proof -
  obtain q s1 where l: "load_checked digest book content opened s = (q, s1)" by fastforce
  have s1: "sends (ap_catalog s) (ap_queue s) (ap_warm s) s1"
    using keepsD [OF keeps_load_checked, of "ap_catalog s" "ap_queue s" "ap_warm s" s digest book content opened] l
    by (simp add: sends_def)
  show ?thesis
  proof (cases q)
    case (Inl e)
    with l assms s1 show ?thesis by (auto simp: put_position_def bindA_def sends_def)
  next
    case (Inr mbd)
    obtain m bounds durable where mbd: "mbd = (m, bounds, durable)" by (metis prod_cases3)
    note ok = load_checked_Inr [OF l [unfolded Inr mbd]]
    let ?off = "max (pi_offset p) (or_zero (pi_high p))"
    show ?thesis
    proof (cases "high_water book (ap_catalog s)")
      case None
      with l assms s1 Inr mbd show ?thesis
        by (auto simp: put_position_def bindA_def sends_def on_catalog_def asks_def raise_def)
    next
      case (Some pb)
      let ?set = "set_position book (Some (pi_cfi p)) (PyInt (bookmark_high_water pb ?off bounds)) (PyInt (or_zero (pi_epoch p))) now"
      obtain sr s2 where sr: "position_conflict (on_catalog ?set) s1 = (sr, s2)" by fastforce
      have after: "put_position digest book content opened warmer p now s = (case sr of Inl e \<Rightarrow> (Inl e, s2) | Inr st \<Rightarrow>
         bindA (if 0 < rs_bookmark st then modify (\<lambda>s. s\<lparr>ap_queue := ap_queue s @ [(book, rs_bookmark st)]\<rparr>) else ret ()) (\<lambda>_.
         bindA (notify_warmer warmer book) (\<lambda>_.
           ret \<lparr>po_bookmark = rs_bookmark st, po_cfi = Some (pi_cfi p), po_ingest = None,
             po_chapter = Some (current_chapter (pi_offset p) bounds),
             po_progress = Some (round4 (chapter_progress (pi_offset p) bounds)), po_epoch = rs_epoch st,
             po_atoms = int (length (mf_atoms m))\<rparr>)) s2)"
        using l Inr mbd s1 Some sr
        by (simp add: put_position_def bindA_def on_catalog_def asks_def sends_def split: sum.splits)
      show ?thesis
      proof (cases sr)
        case (Inl e)
        have "fst (?set (ap_catalog s1)) \<noteq> Inr x" for x
          using sr Inl by (auto simp: position_conflict_def on_catalog_def split: prod.splits sum.splits exc.splits)
        then obtain e' where "fst (?set (ap_catalog s1)) = Inl e'" by (cases "fst (?set (ap_catalog s1))") auto
        from set_position_fails [OF this] have "s2 = s1"
          using sr position_conflict_snd [of "on_catalog ?set" s1] by (auto simp: on_catalog_def split: prod.splits)
        with assms after Inl s1 show ?thesis by (auto simp: sends_def)
      next
        case (Inr st)
        with sr obtain k2 where k2: "?set (ap_catalog s) = (Inr st, k2)" "s2 = s1\<lparr>ap_catalog := k2\<rparr>"
          using s1 by (auto simp: on_catalog_Inr sends_def)
        from set_position_Inr [OF k2(1)] obtain row where row: "get_state book (ap_catalog s) = Some row"
          "rs_epoch row = or_zero (pi_epoch p)" "get_state book k2 = Some st" "rs_epoch st = or_zero (pi_epoch p)"
          "rs_bookmark st = max (rs_bookmark row) (bookmark_high_water pb ?off bounds)" "books k2 = books (ap_catalog s)"
          "\<forall>b'. b' \<noteq> book \<longrightarrow> get_state b' k2 = get_state b' (ap_catalog s)" by blast
        have pb: "pb = rs_bookmark row" using Some row(1) by (simp add: high_water_def)
        have mark: "rs_bookmark st = max (rs_bookmark row) (cfi_to_bookmark ?off bounds)"
          using row(5) by (simp add: pb bookmark_high_water_def)
        define s3 where "s3 = (if 0 < rs_bookmark st then s2\<lparr>ap_queue := ap_queue s2 @ [(book, rs_bookmark st)]\<rparr> else s2)"
        have "get_book book (ap_catalog s3) \<noteq> None"
          using ok row(6) by (simp add: s3_def k2(2) get_book_def)
        from notify_warmer_known [OF this] obtain w where w: "notify_warmer warmer book s3 = (Inr (), s3\<lparr>ap_warm := w\<rparr>)" by blast
        have "put_position digest book content opened warmer p now s =
          (Inr \<lparr>po_bookmark = rs_bookmark st, po_cfi = Some (pi_cfi p), po_ingest = None,
             po_chapter = Some (current_chapter (pi_offset p) bounds),
             po_progress = Some (round4 (chapter_progress (pi_offset p) bounds)), po_epoch = rs_epoch st,
             po_atoms = int (length (mf_atoms m))\<rparr>, s3\<lparr>ap_warm := w\<rparr>)"
          unfolding after Inr using w by (cases "0 < rs_bookmark st") (simp_all add: bindA_def modify_def ret_def s3_def)
        with assms obtain "r = Inr \<lparr>po_bookmark = rs_bookmark st, po_cfi = Some (pi_cfi p), po_ingest = None,
             po_chapter = Some (current_chapter (pi_offset p) bounds),
             po_progress = Some (round4 (chapter_progress (pi_offset p) bounds)), po_epoch = rs_epoch st,
             po_atoms = int (length (mf_atoms m))\<rparr>" "s' = s3\<lparr>ap_warm := w\<rparr>" by simp
        with ok row mark s1 show ?thesis
          by (simp add: s3_def k2(2) sends_def reading_of_def report_spec_def)
      qed
    qed
  qed
qed

theorem position_report_refines_high_water_witness:
  "reading_of ''bk1'' (snd (put_position id ''bk1'' sample_file (Inr ()) False sample_report ''t'' sample_app)) = Some (0, 1)"
proof -
  let ?q = "put_position id ''bk1'' sample_file (Inr ()) False sample_report ''t'' sample_app"
  have "map_sum (\<lambda>_. ()) (\<lambda>o1. (po_epoch o1, po_bookmark o1)) (fst ?q) = Inr (0, 1)" by code_simp
  then obtain out where out: "fst ?q = Inr out" "po_epoch out = 0" "po_bookmark out = 1" by (cases "fst ?q") auto
  then have "?q = (Inr out, snd ?q)" by (simp add: prod_eq_iff)
  from position_report_refines_high_water [OF this] out(2,3) show ?thesis by auto
qed

end
