(* ===== verification/Scheduler.thy ===== *)
theory Scheduler imports Prelude begin

text \<open>
  The scheduling of the ingestion worker, \<^verbatim>\<open>backend/app/ingest/worker.py\<close>: requests, the executor's tasks
  and deletion interleave, and every section under \<^verbatim>\<open>_mu\<close> is one step. A task is followed from the
  thread that submits it to its last section; the chapter loop appears as what it publishes, returns or
  raises. \<^verbatim>\<open>enqueue\<close> reads the catalog and updates the state under the lifecycle lock of the book,
  which deletion takes too, so it is one step as well.
\<close>

section \<open>State\<close>

datatype status = S_Idle | S_Running | S_Blocked | S_Done | S_Error

record task_state =
  ts_status :: status
  ts_error :: "string option"
  ts_flags :: "string list"
  ts_target :: int
  ts_generation :: int
  ts_incarnation :: "string option"

text \<open>Where a task is: the book, then the values its local variables hold there.\<close>

datatype task_pc =
    Free
  | Submitting string int "string option"
  | Queued string
  | Looping string
  | Ingesting string int int "string option" "int option"
  | Returned string int "string option" "int option"
  | Failing string int "string option" string
  | Stopped string
  | Notifying string "string option"

text \<open>
  Besides the fields of the worker: the incarnation of each book's catalog row, the incarnations drawn
  so far (they are uuid4 values and never come back) and what \<^verbatim>\<open>on_complete\<close> was told.\<close>

record worker =
  w_catalog :: "string \<Rightarrow> string option"
  w_used :: "string set"
  w_state :: "string \<Rightarrow> task_state option"
  w_running :: "string set"
  w_verified :: "string \<Rightarrow> (string option \<times> int \<times> int) option"
  w_stopping :: bool
  w_pc :: "nat \<Rightarrow> task_pc"
  w_told :: "(string \<times> string option) list"

definition goto :: "nat \<Rightarrow> task_pc \<Rightarrow> worker \<Rightarrow> worker" where
  "goto i p w = w\<lparr>w_pc := (w_pc w)(i := p)\<rparr>"

definition new_state :: "string option \<Rightarrow> task_state" where
  "new_state n = \<lparr>ts_status = S_Idle, ts_error = None, ts_flags = [], ts_target = 0, ts_generation = 0, ts_incarnation = n\<rparr>"

section \<open>Sections under the mutex\<close>

text \<open>\<^verbatim>\<open>enqueue\<close>: the state it works on, the state it leaves, and the whole section by thread \<open>i\<close>.\<close>

definition state_for :: "string \<Rightarrow> worker \<Rightarrow> task_state" where
  "state_for b w = (case w_state w b of
     Some st \<Rightarrow> if ts_incarnation st \<noteq> w_catalog w b then new_state (w_catalog w b) else st
   | None \<Rightarrow> new_state (w_catalog w b))"

definition raised :: "int \<Rightarrow> task_state \<Rightarrow> task_state" where
  "raised target st = st\<lparr>ts_target := max (ts_target st) target, ts_generation := ts_generation st + 1,
     ts_error := None, ts_flags := [], ts_status := S_Running\<rparr>"

definition enqueue :: "nat \<Rightarrow> string \<Rightarrow> int \<Rightarrow> worker \<Rightarrow> worker" where
  "enqueue i b target w =
     (if w_stopping w then w else
      let st = raised target (state_for b w);
          w1 = w\<lparr>w_state := (w_state w)(b \<mapsto> st), w_verified := (w_verified w)(b \<mapsto> (ts_incarnation st, ts_generation st, 0))\<rparr> in
      if b \<in> w_running w then w1
      else goto i (Submitting b (ts_generation st) (ts_incarnation st)) (w1\<lparr>w_running := insert b (w_running w)\<rparr>))"

text \<open>\<^verbatim>\<open>_after_failure\<close>: the successor to submit, if any.\<close>

definition after_failure :: "string \<Rightarrow> int \<Rightarrow> string option \<Rightarrow> string \<Rightarrow> worker \<Rightarrow> (int \<times> string option) option \<times> worker" where
  "after_failure b g n e w = (case w_state w b of None \<Rightarrow> (None, w) | Some st \<Rightarrow>
     let w1 = w\<lparr>w_running := w_running w - {b}\<rparr>; put = (\<lambda>st'. (w_state w)(b \<mapsto> st')) in
     if w_stopping w then (None, w1\<lparr>w_state := put (st\<lparr>ts_status := S_Idle, ts_error := None\<rparr>)\<rparr>)
     else if ts_incarnation st \<noteq> n \<or> g < ts_generation st
     then (Some (ts_generation st, ts_incarnation st),
       w1\<lparr>w_state := put (st\<lparr>ts_status := S_Running, ts_error := None\<rparr>), w_running := insert b (w_running w)\<rparr>)
     else (None, w1\<lparr>w_state := put (st\<lparr>ts_status := S_Error, ts_error := Some e\<rparr>)\<rparr>))"

definition failed :: "nat \<Rightarrow> string \<Rightarrow> int \<Rightarrow> string option \<Rightarrow> string \<Rightarrow> worker \<Rightarrow> worker" where
  "failed i b g n e w = (case after_failure b g n e w of
     (None, w') \<Rightarrow> goto i Free w'
   | (Some (g', n'), w') \<Rightarrow> goto i (Submitting b g' n') w')"

text \<open>The head of the loop of \<^verbatim>\<open>_run\<close>.\<close>

definition read_target :: "nat \<Rightarrow> string \<Rightarrow> worker \<Rightarrow> worker" where
  "read_target i b w = (if w_stopping w then goto i (Stopped b) w
     else (case w_state w b of None \<Rightarrow> goto i (Failing b (-1) None ''KeyError'') w
       | Some st \<Rightarrow> goto i (Ingesting b (ts_target st) (ts_generation st) (ts_incarnation st) None) w))"

text \<open>\<^verbatim>\<open>_require_incarnation\<close> and \<^verbatim>\<open>_publish_validated\<close>; the check precedes the write.\<close>

definition current_run :: "string \<Rightarrow> int \<Rightarrow> string option \<Rightarrow> worker \<Rightarrow> bool" where
  "current_run b g n w = (case w_state w b of None \<Rightarrow> False | Some st \<Rightarrow> ts_incarnation st = n \<and> ts_generation st = g)"

definition publish :: "nat \<Rightarrow> string \<Rightarrow> int \<Rightarrow> int \<Rightarrow> string option \<Rightarrow> int \<Rightarrow> worker \<Rightarrow> worker" where
  "publish i b t g n v w =
     (if n = None \<or> w_catalog w b \<noteq> n then goto i (Failing b g n ''stale catalog incarnation'') w
      else if \<not> current_run b g n w then goto i (Failing b g n ''stale worker generation'') w
      else goto i (Ingesting b t g n (Some v)) (w\<lparr>w_verified := (w_verified w)(b \<mapsto> (n, g, v))\<rparr>))"

text \<open>The blocked gate of \<^verbatim>\<open>_ingest_upto\<close>.\<close>

definition gate_blocks :: "nat \<Rightarrow> string \<Rightarrow> int \<Rightarrow> string option \<Rightarrow> string list \<Rightarrow> worker \<Rightarrow> worker" where
  "gate_blocks i b g n flags w = goto i (Returned b g n None)
     (if current_run b g n w
      then w\<lparr>w_state := (w_state w)(b := map_option (\<lambda>st. st\<lparr>ts_status := S_Blocked, ts_flags := flags\<rparr>) (w_state w b))\<rparr> else w)"

text \<open>The exit decision of \<^verbatim>\<open>_run\<close>.\<close>

definition leave :: "nat \<Rightarrow> string \<Rightarrow> int \<Rightarrow> string option \<Rightarrow> int option \<Rightarrow> worker \<Rightarrow> worker" where
  "leave i b g n v w = (case w_state w b of None \<Rightarrow> goto i (Failing b g n ''KeyError'') w | Some st \<Rightarrow>
     if ts_incarnation st \<noteq> n \<or> ts_generation st \<noteq> g then goto i (Looping b) w
     else (case v of
       None \<Rightarrow> goto i Free (w\<lparr>w_running := w_running w - {b}\<rparr>)
     | Some k \<Rightarrow>
         if ts_target st \<le> k
         then goto i (Notifying b n) (w\<lparr>w_state := (w_state w)(b \<mapsto> st\<lparr>ts_status := S_Done, ts_error := None\<rparr>), w_running := w_running w - {b}\<rparr>)
         else goto i (Looping b) w))"

definition stopped :: "nat \<Rightarrow> string \<Rightarrow> worker \<Rightarrow> worker" where
  "stopped i b w = goto i Free (w\<lparr>w_running := w_running w - {b},
     w_state := (w_state w)(b := map_option (\<lambda>st. st\<lparr>ts_status := S_Idle, ts_error := None\<rparr>) (w_state w b))\<rparr>)"

text \<open>The last section of \<^verbatim>\<open>shutdown\<close>.\<close>

definition clear_running :: "worker \<Rightarrow> worker" where
  "clear_running w = w\<lparr>w_running := {}, w_state := (\<lambda>b. if b \<in> w_running w
     then map_option (\<lambda>st. st\<lparr>ts_status := S_Idle\<rparr>) (w_state w b) else w_state w b)\<rparr>"

section \<open>Queries\<close>

definition status_of :: "string \<Rightarrow> worker \<Rightarrow> status" where
  "status_of b w = (case w_state w b of None \<Rightarrow> S_Idle | Some st \<Rightarrow> if ts_incarnation st \<noteq> w_catalog w b then S_Idle else ts_status st)"

definition validated_frontier :: "string \<Rightarrow> worker \<Rightarrow> int" where
  "validated_frontier b w = (case w_catalog w b of None \<Rightarrow> 0 | Some u \<Rightarrow>
     (case (w_verified w b, w_state w b) of
        (Some (n, g, v), Some st) \<Rightarrow> if n \<noteq> Some u \<or> g \<noteq> ts_generation st then 0 else v
      | _ \<Rightarrow> 0))"

section \<open>Steps\<close>

inductive sched_step :: "worker \<Rightarrow> worker \<Rightarrow> bool" where
  import_book: "w_catalog w b = None \<Longrightarrow> u \<notin> w_used w \<Longrightarrow>
    sched_step w (w\<lparr>w_catalog := (w_catalog w)(b \<mapsto> u), w_used := insert u (w_used w)\<rparr>)"
| delete_book: "sched_step w (w\<lparr>w_catalog := (w_catalog w)(b := None)\<rparr>)"
| enqueue: "w_pc w i = Free \<Longrightarrow> sched_step w (enqueue i b target w)"
| submitted: "w_pc w i = Submitting b g n \<Longrightarrow> sched_step w (goto i (Queued b) w)"
| submit_fails: "w_pc w i = Submitting b g n \<Longrightarrow> sched_step w (failed i b g n e w)"
| start_task: "w_pc w i = Queued b \<Longrightarrow> sched_step w (goto i (Looping b) w)"
| loop_head: "w_pc w i = Looping b \<Longrightarrow> sched_step w (read_target i b w)"
| publish_start: "w_pc w i = Ingesting b t g n None \<Longrightarrow> sched_step w (publish i b t g n 0 w)"
| publish_chapter: "w_pc w i = Ingesting b t g n (Some v) \<Longrightarrow> sched_step w (publish i b t g n v' w)"
| gate: "w_pc w i = Ingesting b t g n (Some v) \<Longrightarrow> sched_step w (gate_blocks i b g n flags w)"
| ingested: "w_pc w i = Ingesting b t g n (Some v) \<Longrightarrow> sched_step w (goto i (Returned b g n (Some v)) w)"
| ingest_raises: "w_pc w i = Ingesting b t g n v \<Longrightarrow> sched_step w (goto i (Failing b g n e) w)"
| ingest_stops: "w_pc w i = Ingesting b t g n v \<Longrightarrow> w_stopping w \<Longrightarrow> sched_step w (goto i (Stopped b) w)"
| exit_section: "w_pc w i = Returned b g n v \<Longrightarrow> sched_step w (leave i b g n v w)"
| failure_section: "w_pc w i = Failing b g n e \<Longrightarrow> sched_step w (failed i b g n e w)"
| stop_section: "w_pc w i = Stopped b \<Longrightarrow> sched_step w (stopped i b w)"
| notify: "w_pc w i = Notifying b n \<Longrightarrow> sched_step w (goto i Free (w\<lparr>w_told := w_told w @ [(b, n)]\<rparr>))"
| shutdown_begins: "sched_step w (w\<lparr>w_stopping := True\<rparr>)"
| cancel_future: "w_pc w i = Queued b \<Longrightarrow> w_stopping w \<Longrightarrow> sched_step w (goto i Free w)"
| shutdown_ends: "w_stopping w \<Longrightarrow> sched_step w (clear_running w)"

definition sched_start :: worker where
  "sched_start = \<lparr>w_catalog = Map.empty, w_used = {}, w_state = Map.empty, w_running = {}, w_verified = Map.empty,
     w_stopping = False, w_pc = (\<lambda>_. Free), w_told = []\<rparr>"

inductive sched_reachable :: "worker \<Rightarrow> bool" where
  init: "sched_reachable sched_start"
| step: "sched_reachable w \<Longrightarrow> sched_step w w' \<Longrightarrow> sched_reachable w'"

section \<open>The invariant\<close>

text \<open>The book a task owns, and what it has published for the run it is in.\<close>

fun live :: "task_pc \<Rightarrow> string option" where
  "live Free = None"
| "live (Notifying b n) = None"
| "live (Submitting b g n) = Some b"
| "live (Queued b) = Some b"
| "live (Looping b) = Some b"
| "live (Ingesting b t g n v) = Some b"
| "live (Returned b g n v) = Some b"
| "live (Failing b g n e) = Some b"
| "live (Stopped b) = Some b"

fun promise :: "task_pc \<Rightarrow> (string \<times> int \<times> string option \<times> int option) option" where
  "promise (Ingesting b t g n (Some v)) = Some (b, g, n, Some v)"
| "promise (Returned b g n v) = Some (b, g, n, v)"
| "promise _ = None"

text \<open>
  What a task published stays the record of its run: while the state is that of the run, the verified
  entry is what the task published and a blocked run is not waiting; once the book has another
  incarnation, the old one is gone.\<close>

definition promise_ok :: "worker \<Rightarrow> string \<Rightarrow> int \<Rightarrow> string option \<Rightarrow> int option \<Rightarrow> bool" where
  "promise_ok w b g n v = (\<exists>u st. n = Some u \<and> u \<in> w_used w \<and> w_state w b = Some st \<and>
     (if ts_incarnation st = n then g \<le> ts_generation st \<and> (ts_generation st = g \<longrightarrow>
        (case v of Some k \<Rightarrow> w_verified w b = Some (n, g, k) | None \<Rightarrow> ts_status st \<noteq> S_Running))
      else w_catalog w b \<noteq> n))"

text \<open>A book whose task is at \<open>p\<close>, a book without a task, and the two together.\<close>

definition busy :: "string \<Rightarrow> task_pc \<Rightarrow> worker \<Rightarrow> bool" where
  "busy b p w = ((w_stopping w \<or> b \<in> w_running w) \<and> (\<exists>st. w_state w b = Some st \<and> ts_status st \<noteq> S_Done) \<and>
     (\<forall>g n v. promise p = Some (b, g, n, v) \<longrightarrow> promise_ok w b g n v))"

definition quiet :: "string \<Rightarrow> worker \<Rightarrow> bool" where
  "quiet b w = ((w_stopping w \<or> b \<notin> w_running w) \<and> (\<forall>st. w_state w b = Some st \<longrightarrow>
     (w_stopping w \<or> ts_status st \<noteq> S_Running) \<and>
     (ts_status st = S_Done \<longrightarrow> (\<exists>v. w_verified w b = Some (ts_incarnation st, ts_generation st, v) \<and> ts_target st \<le> v))))"

definition book_inv :: "string \<Rightarrow> worker \<Rightarrow> bool" where
  "book_inv b w = ((\<forall>i. live (w_pc w i) = Some b \<longrightarrow> busy b (w_pc w i) w \<and> (\<forall>j. live (w_pc w j) = Some b \<longrightarrow> j = i)) \<and>
     ((\<forall>i. live (w_pc w i) \<noteq> Some b) \<longrightarrow> quiet b w))"

definition sched_inv :: "worker \<Rightarrow> bool" where
  "sched_inv w = ((\<forall>b. book_inv b w) \<and> (\<forall>b u. w_catalog w b = Some u \<longrightarrow> u \<in> w_used w))"

definition only :: "string \<Rightarrow> nat \<Rightarrow> worker \<Rightarrow> worker \<Rightarrow> bool" where
  "only b i w w' = ((\<forall>j. j \<noteq> i \<longrightarrow> w_pc w' j = w_pc w j) \<and> w_catalog w' = w_catalog w \<and> w_used w' = w_used w \<and>
     w_stopping w' = w_stopping w \<and> (\<forall>b'. b' \<noteq> b \<longrightarrow> w_state w' b' = w_state w b' \<and> w_verified w' b' = w_verified w b' \<and>
       (b' \<in> w_running w') = (b' \<in> w_running w)))"

lemma promise_live: "promise p = Some (b, g, n, v) \<Longrightarrow> live p = Some b"
  by (cases p rule: promise.cases) auto

lemma only_frame:
  assumes "only b i w w'" "b' \<noteq> b"
  shows "busy b' p w' = busy b' p w" "quiet b' w' = quiet b' w"
  using assms by (simp_all add: only_def busy_def quiet_def promise_ok_def cong: option.case_cong)

lemma owned_step:
  assumes inv: "sched_inv w" and o: "only b i w w'" and before: "live (w_pc w i) = Some b \<or> live (w_pc w i) = None \<and> (\<forall>j. live (w_pc w j) \<noteq> Some b)"
    and after: "live (w_pc w' i) = Some b \<and> busy b (w_pc w' i) w' \<or> live (w_pc w' i) = None \<and> quiet b w'"
  shows "sched_inv w'"
  unfolding sched_inv_def
proof (intro conjI allI)
  fix b'
  have pcs: "w_pc w' j = w_pc w j" if "j \<noteq> i" for j using o that by (simp add: only_def)
  have sole: "j = i" if "live (w_pc w j) = Some b" for j
    using inv before that by (auto simp: sched_inv_def book_inv_def)
  show "book_inv b' w'"
  proof (cases "b' = b")
    case True
    have "live (w_pc w' j) = Some b \<Longrightarrow> j = i" for j
      using pcs [of j] sole [of j] by (cases "j = i") auto
    with after show ?thesis unfolding book_inv_def True by (metis option.distinct(1))
  next
    case False
    have same: "live (w_pc w' j) = Some b' \<longleftrightarrow> j \<noteq> i \<and> live (w_pc w j) = Some b'" for j
      using pcs after before False by (cases "j = i") auto
    have "book_inv b' w" using inv by (simp add: sched_inv_def)
    moreover have "live (w_pc w j) = Some b' \<Longrightarrow> j \<noteq> i" for j using before False by auto
    ultimately show ?thesis unfolding book_inv_def same using only_frame [OF o False] pcs by metis
  qed
qed (use inv o in \<open>auto simp: sched_inv_def only_def\<close>)

lemmas sched_sections = goto_def enqueue_def failed_def after_failure_def read_target_def publish_def gate_blocks_def
  leave_def stopped_def current_run_def raised_def

definition kept :: "task_state option \<Rightarrow> task_state option \<Rightarrow> bool" where
  "kept s s' = (\<forall>st. s = Some st \<longrightarrow> (\<exists>st'. s' = Some st' \<and> ts_incarnation st' = ts_incarnation st \<and>
     ts_generation st' = ts_generation st \<and> (ts_status st' = ts_status st \<or> ts_status st' = S_Idle)))"

lemma kept_refl [simp]: "kept s s"
  by (simp add: kept_def)

lemma promise_ok_mono:
  assumes "promise_ok w b g n v" "kept (w_state w b) (w_state w' b)" "w_verified w' b = w_verified w b" "w_used w \<subseteq> w_used w'"
    and "\<forall>u \<in> w_used w. w_catalog w' b = Some u \<longrightarrow> w_catalog w b = Some u"
  shows "promise_ok w' b g n v"
proof -
  from assms(1) obtain u st where st: "n = Some u" "u \<in> w_used w" "w_state w b = Some st"
    "if ts_incarnation st = n then g \<le> ts_generation st \<and> (ts_generation st = g \<longrightarrow>
        (case v of Some k \<Rightarrow> w_verified w b = Some (n, g, k) | None \<Rightarrow> ts_status st \<noteq> S_Running))
      else w_catalog w b \<noteq> n" by (auto simp: promise_ok_def)
  moreover from st(3) assms(2) obtain st' where "w_state w' b = Some st'" "ts_incarnation st' = ts_incarnation st"
    "ts_generation st' = ts_generation st" "ts_status st' = ts_status st \<or> ts_status st' = S_Idle" by (auto simp: kept_def)
  ultimately show ?thesis using assms(3-) unfolding promise_ok_def
    by (intro exI [of _ u] exI [of _ st']) (auto split: option.splits)
qed

lemma busy_mono:
  assumes "busy b p w" "kept (w_state w b) (w_state w' b)" "w_verified w' b = w_verified w b" "w_used w \<subseteq> w_used w'"
    and "\<forall>u \<in> w_used w. w_catalog w' b = Some u \<longrightarrow> w_catalog w b = Some u" "w_stopping w' \<or> w_stopping w' = w_stopping w \<and> w_running w' = w_running w"
  shows "busy b p w'"
  unfolding busy_def
proof (intro conjI allI impI)
  show "w_stopping w' \<or> b \<in> w_running w'" using assms(1,6) by (auto simp: busy_def)
  from assms(1) obtain st where "w_state w b = Some st" "ts_status st \<noteq> S_Done" by (auto simp: busy_def)
  with assms(2) show "\<exists>st. w_state w' b = Some st \<and> ts_status st \<noteq> S_Done" by (fastforce simp: kept_def)
next
  fix g n v assume "promise p = Some (b, g, n, v)"
  with assms(1) have "promise_ok w b g n v" by (simp add: busy_def)
  from promise_ok_mono [OF this assms(2-5)] show "promise_ok w' b g n v" .
qed

lemma unowned_step:
  assumes inv: "sched_inv w" and "w_pc w' = w_pc w" "\<And>b. kept (w_state w b) (w_state w' b)" "w_verified w' = w_verified w" "w_used w \<subseteq> w_used w'"
    and "\<And>b u. w_catalog w' b = Some u \<Longrightarrow> w_catalog w b = Some u \<or> u \<notin> w_used w \<and> u \<in> w_used w'"
    "w_stopping w' \<or> w_stopping w' = w_stopping w \<and> w_running w' = w_running w" "\<And>b. quiet b w \<Longrightarrow> quiet b w'"
  shows "sched_inv w'"
  unfolding sched_inv_def
proof (intro conjI allI impI)
  fix b
  have catalog: "\<forall>x \<in> w_used w. w_catalog w' b = Some x \<longrightarrow> w_catalog w b = Some x"
    using assms(6) by blast
  have "busy b p w'" if "busy b p w" for p
    using busy_mono [OF that assms(3) _ assms(5) catalog assms(7)] assms(4) by simp
  moreover have "book_inv b w" using inv by (simp add: sched_inv_def)
  ultimately show "book_inv b w'" using assms(8) unfolding book_inv_def assms(2) by blast
next
  fix b u assume "w_catalog w' b = Some u"
  with assms(5,6) inv show "u \<in> w_used w'" unfolding sched_inv_def by blast
qed

lemma busy_goto: "busy b p (goto i q w) = busy b p w" "quiet b (goto i q w) = quiet b w"
    "busy b p (w\<lparr>w_told := l\<rparr>) = busy b p w" "quiet b (w\<lparr>w_told := l\<rparr>) = quiet b w"
  by (simp_all add: busy_def quiet_def promise_ok_def goto_def cong: option.case_cong)

lemma busy_promise: "busy b p w \<Longrightarrow> promise q = None \<or> promise q = promise p \<Longrightarrow> busy b q w"
  by (auto simp: busy_def)

lemma goto_pc [simp]: "w_pc (goto i p w) i = p"
  by (simp add: goto_def)

lemma busyD:
  assumes "sched_inv w" "live (w_pc w i) = Some b"
  shows "busy b (w_pc w i) w"
  using assms by (simp add: sched_inv_def book_inv_def)

lemma sched_inv_failed:
  assumes inv: "sched_inv w" and i: "live (w_pc w i) = Some b"
  shows "sched_inv (failed i b g n e w)"
proof (rule owned_step [OF inv])
  show "only b i w (failed i b g n e w)"
    by (auto simp: only_def sched_sections Let_def split: option.splits if_splits)
  show "live (w_pc w i) = Some b \<or> live (w_pc w i) = None \<and> (\<forall>j. live (w_pc w j) \<noteq> Some b)" using i by simp
  from busyD [OF inv i] obtain st where "w_state w b = Some st" by (auto simp: busy_def)
  then show "live (w_pc (failed i b g n e w) i) = Some b \<and> busy b (w_pc (failed i b g n e w) i) (failed i b g n e w) \<or>
    live (w_pc (failed i b g n e w) i) = None \<and> quiet b (failed i b g n e w)"
    by (auto simp: busy_def quiet_def sched_sections Let_def)
qed

lemma sched_inv_publish:
  assumes inv: "sched_inv w" and i: "live (w_pc w i) = Some b"
  shows "sched_inv (publish i b t g n v w)"
proof (rule owned_step [OF inv])
  show "only b i w (publish i b t g n v w)"
    by (auto simp: only_def sched_sections Let_def split: option.splits if_splits)
  show "live (w_pc w i) = Some b \<or> live (w_pc w i) = None \<and> (\<forall>j. live (w_pc w j) \<noteq> Some b)" using i by simp
  from busyD [OF inv i] inv show "live (w_pc (publish i b t g n v w) i) = Some b \<and> busy b (w_pc (publish i b t g n v w) i) (publish i b t g n v w) \<or>
    live (w_pc (publish i b t g n v w) i) = None \<and> quiet b (publish i b t g n v w)"
    by (auto simp: busy_def quiet_def sched_sections promise_ok_def sched_inv_def Let_def split: option.splits)
qed

lemma sched_inv_leave:
  assumes inv: "sched_inv w" and i: "w_pc w i = Returned b g n v"
  shows "sched_inv (leave i b g n v w)"
proof (rule owned_step [OF inv])
  show "only b i w (leave i b g n v w)"
    by (auto simp: only_def sched_sections Let_def split: option.splits if_splits)
  show "live (w_pc w i) = Some b \<or> live (w_pc w i) = None \<and> (\<forall>j. live (w_pc w j) \<noteq> Some b)" using i by simp
  from busyD [OF inv, of i b] inv show "live (w_pc (leave i b g n v w) i) = Some b \<and> busy b (w_pc (leave i b g n v w) i) (leave i b g n v w) \<or>
    live (w_pc (leave i b g n v w) i) = None \<and> quiet b (leave i b g n v w)"
    using i
    by (auto simp: busy_def quiet_def sched_sections promise_ok_def sched_inv_def Let_def split: option.splits)
qed

lemma sched_inv_gate:
  assumes inv: "sched_inv w" and i: "w_pc w i = Ingesting b t g n (Some v)"
  shows "sched_inv (gate_blocks i b g n flags w)"
proof (rule owned_step [OF inv])
  show "only b i w (gate_blocks i b g n flags w)"
    by (auto simp: only_def sched_sections Let_def split: option.splits if_splits)
  show "live (w_pc w i) = Some b \<or> live (w_pc w i) = None \<and> (\<forall>j. live (w_pc w j) \<noteq> Some b)" using i by simp
  from busyD [OF inv, of i b] i obtain u st where a: "w_stopping w \<or> b \<in> w_running w" "n = Some u" "u \<in> w_used w"
    "w_state w b = Some st" "ts_status st \<noteq> S_Done"
    "if ts_incarnation st = n then g \<le> ts_generation st else w_catalog w b \<noteq> n"
    by (auto simp: busy_def promise_ok_def split: if_splits)
  have "busy b (Returned b g n None) (gate_blocks i b g n flags w)"
  proof (cases "ts_incarnation st = n \<and> ts_generation st = g")
    case True
    with a show ?thesis by (simp add: busy_def promise_ok_def gate_blocks_def goto_def current_run_def)
  next
    case False
    then have "gate_blocks i b g n flags w = goto i (Returned b g n None) w"
      using a(4) by (auto simp: gate_blocks_def current_run_def)
    with a False show ?thesis by (simp add: busy_goto) (auto simp: busy_def promise_ok_def split: if_splits)
  qed
  then show "live (w_pc (gate_blocks i b g n flags w) i) = Some b \<and> busy b (w_pc (gate_blocks i b g n flags w) i) (gate_blocks i b g n flags w) \<or>
    live (w_pc (gate_blocks i b g n flags w) i) = None \<and> quiet b (gate_blocks i b g n flags w)"
    by (simp add: gate_blocks_def)
qed

lemma sched_inv_move:
  assumes inv: "sched_inv w" and i: "live (w_pc w i) = Some b" and p: "live p = Some b" "promise p = None \<or> promise p = promise (w_pc w i)"
  shows "sched_inv (goto i p w)"
proof (rule owned_step [OF inv])
  show "only b i w (goto i p w)" by (simp add: only_def goto_def)
  show "live (w_pc w i) = Some b \<or> live (w_pc w i) = None \<and> (\<forall>j. live (w_pc w j) \<noteq> Some b)" using i by simp
  have "busy b p (goto i p w)" using busy_promise [OF busyD [OF inv i] p(2)] by (simp only: busy_goto)
  with p show "live (w_pc (goto i p w) i) = Some b \<and> busy b (w_pc (goto i p w) i) (goto i p w) \<or>
    live (w_pc (goto i p w) i) = None \<and> quiet b (goto i p w)" by simp
qed

lemma sched_inv_stopped:
  assumes inv: "sched_inv w" and i: "live (w_pc w i) = Some b"
  shows "sched_inv (stopped i b w)"
proof (rule owned_step [OF inv])
  show "only b i w (stopped i b w)" by (simp add: only_def stopped_def goto_def)
  show "live (w_pc w i) = Some b \<or> live (w_pc w i) = None \<and> (\<forall>j. live (w_pc w j) \<noteq> Some b)" using i by simp
  from busyD [OF inv, of i b] i show "live (w_pc (stopped i b w) i) = Some b \<and> busy b (w_pc (stopped i b w) i) (stopped i b w) \<or>
    live (w_pc (stopped i b w) i) = None \<and> quiet b (stopped i b w)"
    by (auto simp: busy_def stopped_def goto_def quiet_def)
qed

lemma sched_inv_read:
  assumes inv: "sched_inv w" and i: "w_pc w i = Looping b"
  shows "sched_inv (read_target i b w)"
  unfolding read_target_def using i
  by (auto intro!: sched_inv_move [OF inv, where b = b] split: option.splits)

lemma sched_inv_enqueue:
  assumes inv: "sched_inv w" and i: "w_pc w i = Free"
  shows "sched_inv (enqueue i b t w)"
proof (cases "w_stopping w")
  case True
  then show ?thesis using inv by (simp add: enqueue_def)
next
  case False
  define st where "st = raised t (state_for b w)"
  define w1 where "w1 = w\<lparr>w_state := (w_state w)(b \<mapsto> st), w_verified := (w_verified w)(b \<mapsto> (ts_incarnation st, ts_generation st, 0))\<rparr>"
  have st: "ts_status st = S_Running" by (simp add: st_def raised_def)
  have promise: "promise_ok w1 b g n v" if "promise_ok w b g n v" for g n v
    using that by (auto simp: promise_ok_def w1_def st_def raised_def state_for_def new_state_def split: if_splits)
  show ?thesis
  proof (cases "b \<in> w_running w")
    case True
    with False inv obtain k where k: "live (w_pc w k) = Some b"
      unfolding sched_inv_def book_inv_def quiet_def by metis
    have "sched_inv w1"
    proof (rule owned_step [OF inv, where i = k])
      show "only b k w w1" by (auto simp: only_def w1_def)
      show "live (w_pc w k) = Some b \<or> live (w_pc w k) = None \<and> (\<forall>j. live (w_pc w j) \<noteq> Some b)" using k by simp
      from busyD [OF inv k] k True promise st
      show "live (w_pc w1 k) = Some b \<and> busy b (w_pc w1 k) w1 \<or> live (w_pc w1 k) = None \<and> quiet b w1"
        by (auto simp: busy_def) (simp_all add: w1_def)
    qed
    with True False show ?thesis by (simp add: enqueue_def w1_def st_def Let_def)
  next
    case out: False
    have none: "live (w_pc w j) \<noteq> Some b" for j
      using busyD [OF inv, of j b] False out by (auto simp: busy_def)
    have "sched_inv (goto i (Submitting b (ts_generation st) (ts_incarnation st)) (w1\<lparr>w_running := insert b (w_running w)\<rparr>))"
    proof (rule owned_step [OF inv])
      show "only b i w (goto i (Submitting b (ts_generation st) (ts_incarnation st)) (w1\<lparr>w_running := insert b (w_running w)\<rparr>))"
        by (auto simp: only_def w1_def goto_def)
    qed (use none i st in \<open>auto simp: busy_def goto_def w1_def\<close>)
    with False out show ?thesis by (simp add: enqueue_def w1_def st_def Let_def)
  qed
qed

lemma sched_inv_environment:
  assumes inv: "sched_inv w"
  shows "u \<notin> w_used w \<Longrightarrow> sched_inv (w\<lparr>w_catalog := (w_catalog w)(b \<mapsto> u), w_used := insert u (w_used w)\<rparr>)"
    and "sched_inv (w\<lparr>w_catalog := (w_catalog w)(b := None)\<rparr>)" and "sched_inv (w\<lparr>w_stopping := True\<rparr>)"
    and "w_stopping w \<Longrightarrow> sched_inv (clear_running w)"
proof -
  show "sched_inv (w\<lparr>w_catalog := (w_catalog w)(b \<mapsto> u), w_used := insert u (w_used w)\<rparr>)" if "u \<notin> w_used w"
    by (rule unowned_step [OF inv]) (use that in \<open>auto simp: quiet_def split: if_splits\<close>)
  show "sched_inv (w\<lparr>w_catalog := (w_catalog w)(b := None)\<rparr>)"
    by (rule unowned_step [OF inv]) (auto simp: quiet_def split: if_splits)
  show "sched_inv (w\<lparr>w_stopping := True\<rparr>)"
    by (rule unowned_step [OF inv]) (auto simp: quiet_def)
  show "sched_inv (clear_running w)" if "w_stopping w"
    by (rule unowned_step [OF inv]) (use that in \<open>auto simp: quiet_def clear_running_def kept_def\<close>)
qed

lemma sched_inv_idle:
  assumes inv: "sched_inv w" and i: "live (w_pc w i) = None"
  shows "sched_inv (goto i Free (w\<lparr>w_told := l\<rparr>))"
  unfolding sched_inv_def
proof (intro conjI allI)
  fix b
  let ?w = "goto i Free (w\<lparr>w_told := l\<rparr>)"
  have same: "live (w_pc ?w j) = Some b \<longleftrightarrow> live (w_pc w j) = Some b" for j
    using i by (simp add: goto_def)
  have "w_pc ?w j = w_pc w j" if "live (w_pc w j) = Some b" for j
    using that i by (auto simp: goto_def)
  moreover have "book_inv b w" using inv by (simp add: sched_inv_def)
  ultimately show "book_inv b ?w"
    unfolding book_inv_def same busy_goto by metis
qed (use inv in \<open>simp add: sched_inv_def goto_def\<close>)

lemma sched_inv_step:
  assumes "sched_step w w'" "sched_inv w"
  shows "sched_inv w'"
  using assms
proof (induction rule: sched_step.induct)
  case (cancel_future w i b)
  show ?case
  proof (rule owned_step [OF cancel_future.prems, of b i])
    show "only b i w (goto i Free w)" by (simp add: only_def goto_def)
    from busyD [OF cancel_future.prems, of i b] cancel_future.hyps
    show "live (w_pc (goto i Free w) i) = Some b \<and> busy b (w_pc (goto i Free w) i) (goto i Free w) \<or>
        live (w_pc (goto i Free w) i) = None \<and> quiet b (goto i Free w)"
      by (auto simp: goto_def quiet_def busy_def)
  qed (use cancel_future.hyps in simp)
qed (auto intro: sched_inv_environment sched_inv_enqueue sched_inv_failed sched_inv_read sched_inv_publish sched_inv_gate
     sched_inv_leave sched_inv_stopped sched_inv_idle sched_inv_move)

lemma sched_reachable_inv: "sched_reachable w \<Longrightarrow> sched_inv w"
proof (induction rule: sched_reachable.induct)
  case init
  show ?case by (simp add: sched_inv_def book_inv_def sched_start_def quiet_def)
qed (rule sched_inv_step)

section \<open>Properties\<close>

text \<open>
  Property C3: the worker is single-flight: however requests, tasks, failures, deletions and shutdown
  interleave, a book has at most one task that is being submitted, queued or running.\<close>

theorem ingestion_is_single_flight:
  assumes "sched_reachable w" "live (w_pc w i) = Some b" "live (w_pc w j) = Some b"
  shows "i = j"
  using sched_reachable_inv [OF assms(1)] assms(2,3) by (auto simp: sched_inv_def book_inv_def)


text \<open>
  Done means done. When the status of a book is done, the validated frontier the worker
  reports for it reaches the highest target any request of this incarnation has set.\<close>

theorem done_reaches_the_target:
  assumes "sched_reachable w" "status_of b w = S_Done" "w_catalog w b \<noteq> None"
  shows "\<exists>st. w_state w b = Some st \<and> ts_target st \<le> validated_frontier b w"
proof -
  from assms(2) obtain st where st: "w_state w b = Some st" "ts_incarnation st = w_catalog w b" "ts_status st = S_Done"
    by (auto simp: status_of_def split: option.splits if_splits)
  have inv: "book_inv b w" using sched_reachable_inv [OF assms(1)] by (simp add: sched_inv_def)
  then have "quiet b w" using st unfolding book_inv_def busy_def by auto
  with st assms(3) show ?thesis by (auto simp: quiet_def validated_frontier_def)
qed

section \<open>A run\<close>

text \<open>One book, one request for chapter 2, from the request to the exit of its task.\<close>

definition asked :: worker where
  "asked = enqueue 0 ''b'' 2 (sched_start\<lparr>w_catalog := [''b'' \<mapsto> ''u''], w_used := {''u''}\<rparr>)"

definition reading_target :: worker where
  "reading_target = read_target 0 ''b'' (goto 0 (Looping ''b'') (goto 0 (Queued ''b'') asked))"

definition published :: worker where
  "published = publish 0 ''b'' 2 1 (Some ''u'') 2 (publish 0 ''b'' 2 1 (Some ''u'') 0 reading_target)"

definition finished :: worker where
  "finished = leave 0 ''b'' 1 (Some ''u'') (Some 2) (goto 0 (Returned ''b'' 1 (Some ''u'') (Some 2)) published)"

lemma asked_reachable: "sched_reachable asked"
proof -
  have "sched_reachable (sched_start\<lparr>w_catalog := (w_catalog sched_start)(''b'' \<mapsto> ''u''), w_used := insert ''u'' (w_used sched_start)\<rparr>)"
    by (rule sched_reachable.step [OF sched_reachable.init], rule sched_step.import_book) (simp_all add: sched_start_def)
  then have "sched_reachable (sched_start\<lparr>w_catalog := [''b'' \<mapsto> ''u''], w_used := {''u''}\<rparr>)" by (simp add: sched_start_def)
  then show ?thesis
    unfolding asked_def by (rule sched_reachable.step) (rule sched_step.enqueue, simp add: sched_start_def)
qed

lemma finished_reachable: "sched_reachable finished"
proof -
  have "w_pc asked 0 = Submitting ''b'' 1 (Some ''u'')" by code_simp
  from sched_reachable.step [OF asked_reachable sched_step.submitted [OF this]]
  have "sched_reachable (goto 0 (Queued ''b'') asked)" .
  from sched_reachable.step [OF this sched_step.start_task [of _ 0 "''b''"]]
  have "sched_reachable (goto 0 (Looping ''b'') (goto 0 (Queued ''b'') asked))" by simp
  from sched_reachable.step [OF this sched_step.loop_head [of _ 0 "''b''"]]
  have r: "sched_reachable reading_target" by (simp add: reading_target_def)
  have "w_pc reading_target 0 = Ingesting ''b'' 2 1 (Some ''u'') None" by code_simp
  from sched_reachable.step [OF r sched_step.publish_start [OF this]]
  have r: "sched_reachable (publish 0 ''b'' 2 1 (Some ''u'') 0 reading_target)" .
  have "w_pc (publish 0 ''b'' 2 1 (Some ''u'') 0 reading_target) 0 = Ingesting ''b'' 2 1 (Some ''u'') (Some 0)" by code_simp
  from sched_reachable.step [OF r sched_step.publish_chapter [OF this, of 2]]
  have r: "sched_reachable published" by (simp add: published_def)
  have "w_pc published 0 = Ingesting ''b'' 2 1 (Some ''u'') (Some 2)" by code_simp
  from sched_reachable.step [OF r sched_step.ingested [OF this]]
  have "sched_reachable (goto 0 (Returned ''b'' 1 (Some ''u'') (Some 2)) published)" .
  from sched_reachable.step [OF this sched_step.exit_section [of _ 0 "''b''" 1 "Some ''u''" "Some 2"]]
  show ?thesis by (simp add: finished_def)
qed

theorem ingestion_is_single_flight_witness: "{j. live (w_pc asked j) = Some ''b''} = {0}"
proof -
  have "live (w_pc asked 0) = Some ''b''" by code_simp
  with ingestion_is_single_flight [OF asked_reachable, of 0 "''b''"] show ?thesis by auto
qed


theorem done_reaches_the_target_witness: "\<exists>st. w_state finished ''b'' = Some st \<and> ts_target st \<le> validated_frontier ''b'' finished"
  by (rule done_reaches_the_target [OF finished_reachable]) code_simp+

end
