(* ===== verification/Versioning.thy ===== *)
theory Versioning imports MemAdmin begin

text \<open>
  Model identity and the safe-swap policy, \<^verbatim>\<open>backend/app/llm/versioning.py\<close>: when a configured model
  may extend or query the memory of a book. The floating-point cosine of two vectors of the same
  positive length is a parameter.
\<close>

section \<open>Identities\<close>

record model_identity =
  mi_extractor :: "string option"
  mi_synth :: "string option"
  mi_embed :: "string option"
  mi_dim :: "int option"
  mi_canary :: "json option"
  mi_schema :: "int option"

definition pin_of :: "meta_row \<Rightarrow> model_identity" where
  "pin_of r = \<lparr>mi_extractor = mt_extractor r, mi_synth = mt_synth r, mi_embed = mt_embed r, mi_dim = mt_dim r,
     mi_canary = mt_canary r, mi_schema = None\<rparr>"

text \<open>A client: its provider, its cheap and large model, and the full embedding identity.\<close>

record versioned_client =
  vc_provider :: string
  vc_cheap :: string
  vc_large :: string
  vc_embed :: string

definition extractor_version :: "versioned_client \<Rightarrow> string" where
  "extractor_version c = vc_provider c @ '':'' @ vc_cheap c"

definition EMBED_CANARY_TEXT :: string where
  "EMBED_CANARY_TEXT = ''__lit20_embed_canary__''"

definition current_identity :: "versioned_client \<Rightarrow> (string list \<Rightarrow> json list list res) \<Rightarrow> model_identity res" where
  "current_identity c embed_call = (case embed_call [EMBED_CANARY_TEXT] of Inl e \<Rightarrow> Inl e
     | Inr [] \<Rightarrow> Inl (RuntimeError ''IndexError'')
     | Inr (canary # _) \<Rightarrow> Inr \<lparr>mi_extractor = Some (extractor_version c), mi_synth = Some (vc_provider c @ '':'' @ vc_large c),
         mi_embed = Some (vc_embed c), mi_dim = Some (int (length canary)), mi_canary = Some (JList canary), mi_schema = None\<rparr>)"

section \<open>The canary\<close>

definition truthy :: "json option \<Rightarrow> bool" where
  "truthy v = (case v of None \<Rightarrow> False | Some j \<Rightarrow>
     (case j of JNull \<Rightarrow> False | JBool b \<Rightarrow> b | JInt i \<Rightarrow> i \<noteq> 0 | JNum q \<Rightarrow> q \<noteq> 0 | JStr s \<Rightarrow> s \<noteq> [] | JList xs \<Rightarrow> xs \<noteq> []
      | _ \<Rightarrow> True))"

definition cos_of :: "(json list \<Rightarrow> json list \<Rightarrow> rat) \<Rightarrow> json option \<Rightarrow> json option \<Rightarrow> rat" where
  "cos_of cosine a b = (case (a, b) of
     (Some (JList xs), Some (JList ys)) \<Rightarrow> if xs = [] \<or> ys = [] \<or> length xs \<noteq> length ys then 0 else cosine xs ys
   | _ \<Rightarrow> 0)"

definition CANARY_COSINE_MIN :: rat where
  "CANARY_COSINE_MIN = 999 / 1000"

definition canary_uncertain :: "(json list \<Rightarrow> json list \<Rightarrow> rat) \<Rightarrow> json option \<Rightarrow> json option \<Rightarrow> bool" where
  "canary_uncertain cosine pc cc = (\<not> truthy pc \<or> \<not> truthy cc \<or> cos_of cosine pc cc < CANARY_COSINE_MIN)"

section \<open>Decisions\<close>

text \<open>The list of components that force a migration; the code returns \<^verbatim>\<open>[("none", OK)]\<close> for the empty list.\<close>

definition swap_decisions :: "(json list \<Rightarrow> json list \<Rightarrow> rat) \<Rightarrow> model_identity \<Rightarrow> model_identity \<Rightarrow> (string \<times> string) list" where
  "swap_decisions cosine pinned current =
     (if mi_embed current \<noteq> mi_embed pinned \<or> mi_dim current \<noteq> mi_dim pinned \<or>
         canary_uncertain cosine (mi_canary pinned) (mi_canary current)
      then [(''embed_model'', ''FORCE_RE_EMBED'')] else []) @
     (if mi_extractor current \<noteq> mi_extractor pinned then [(''extractor_model'', ''FORCE_RE_EXTRACT'')] else []) @
     (case (mi_schema current, mi_schema pinned) of
        (Some a, Some b) \<Rightarrow> if a \<noteq> b then [(''schema_version'', ''MIGRATE_SCHEMA'')] else []
      | _ \<Rightarrow> [])"

definition safe_swap :: "(json list \<Rightarrow> json list \<Rightarrow> rat) \<Rightarrow> model_identity \<Rightarrow> model_identity \<Rightarrow> (string \<times> string) list" where
  "safe_swap cosine pinned current = (case swap_decisions cosine pinned current of [] \<Rightarrow> [(''none'', ''OK'')] | ds \<Rightarrow> ds)"

definition has_pin :: "model_identity option \<Rightarrow> bool" where
  "has_pin p = (case p of None \<Rightarrow> False
     | Some i \<Rightarrow> mi_extractor i \<noteq> None \<or> mi_embed i \<noteq> None \<or> mi_dim i \<noteq> None \<or> mi_canary i \<noteq> None)"

definition assert_compatible_config :: "model_identity option \<Rightarrow> versioned_client \<Rightarrow> bool \<Rightarrow> unit res" where
  "assert_compatible_config pinned client check_extractor = (case pinned of None \<Rightarrow> Inr () | Some p \<Rightarrow>
     if \<not> has_pin pinned then Inr () else
     (let ds = (if check_extractor \<and> mi_extractor p \<noteq> Some (extractor_version client) then [(''extractor_model'', ''FORCE_RE_EXTRACT'')] else []) @
        (if mi_embed p \<noteq> Some (vc_embed client) then [(''embed_model'', ''FORCE_RE_EMBED'')] else []) in
      if ds \<noteq> [] then Inl (ModelMigrationRequired ds) else Inr ()))"

definition assert_compatible_identity ::
  "(json list \<Rightarrow> json list \<Rightarrow> rat) \<Rightarrow> model_identity option \<Rightarrow> model_identity \<Rightarrow> bool \<Rightarrow> unit res" where
  "assert_compatible_identity cosine pinned current check_extractor = (case pinned of None \<Rightarrow> Inr () | Some p \<Rightarrow>
     if \<not> has_pin pinned then Inr () else
     (let ds = filter (\<lambda>(component, decision). decision \<noteq> ''OK'' \<and> (check_extractor \<or> component = ''embed_model'')) (safe_swap cosine p current) in
      if ds \<noteq> [] then Inl (ModelMigrationRequired ds) else Inr ()))"

section \<open>Properties\<close>

text \<open>What it takes to share a space.\<close>

definition same_space :: "(json list \<Rightarrow> json list \<Rightarrow> rat) \<Rightarrow> model_identity \<Rightarrow> model_identity \<Rightarrow> bool" where
  "same_space cosine p c = (mi_embed c = mi_embed p \<and> mi_dim c = mi_dim p \<and>
     (\<exists>xs ys. mi_canary p = Some (JList xs) \<and> mi_canary c = Some (JList ys) \<and> xs \<noteq> [] \<and> length xs = length ys \<and>
       CANARY_COSINE_MIN \<le> cosine xs ys))"

lemma canary_certain:
  "\<not> canary_uncertain cosine pc cc \<longleftrightarrow>
     (\<exists>xs ys. pc = Some (JList xs) \<and> cc = Some (JList ys) \<and> xs \<noteq> [] \<and> length xs = length ys \<and> CANARY_COSINE_MIN \<le> cosine xs ys)"
  by (auto simp: canary_uncertain_def cos_of_def truthy_def CANARY_COSINE_MIN_def not_less
      split: option.splits json.splits if_splits)

lemma same_space_iff: "same_space cosine p c \<longleftrightarrow> mi_embed c = mi_embed p \<and> mi_dim c = mi_dim p \<and>
    \<not> canary_uncertain cosine (mi_canary p) (mi_canary c)"
  unfolding same_space_def canary_certain by (rule refl)

lemma decisions_empty:
  "swap_decisions cosine p c = [] \<longleftrightarrow> same_space cosine p c \<and> mi_extractor c = mi_extractor p \<and>
     (case (mi_schema c, mi_schema p) of (Some a, Some b) \<Rightarrow> a = b | _ \<Rightarrow> True)"
  unfolding swap_decisions_def same_space_iff by (auto split: option.splits)

text \<open>
  The model fence fails closed. A prepared identity is accepted for a pinned book exactly when
  the embedding name and dimension are the pinned ones, both sides have a canary of the same length whose
  cosine reaches the minimum (a canary missing on either side is a refusal) and, where it is checked, the
  extractor and the schema are the pinned ones.\<close>

theorem model_fence_fails_closed:
  assumes "has_pin (Some p)"
  shows "assert_compatible_identity cosine (Some p) c check = Inr () \<longleftrightarrow> same_space cosine p c \<and>
    (check \<longrightarrow> mi_extractor c = mi_extractor p \<and> (case (mi_schema c, mi_schema p) of (Some a, Some b) \<Rightarrow> a = b | _ \<Rightarrow> True))"
proof -
  let ?ok = "\<lambda>(component, decision). decision \<noteq> ''OK'' \<and> (check \<or> component = ''embed_model'')"
  have "assert_compatible_identity cosine (Some p) c check = Inr () \<longleftrightarrow> filter ?ok (safe_swap cosine p c) = []"
    using assms by (simp add: assert_compatible_identity_def Let_def)
  also have "\<dots> \<longleftrightarrow> filter ?ok (swap_decisions cosine p c) = []"
    by (auto simp: safe_swap_def split: list.splits)
  also have "\<dots> \<longleftrightarrow> (if check then swap_decisions cosine p c = [] else same_space cosine p c)"
    unfolding swap_decisions_def same_space_iff by (auto split: option.splits)
  also have "\<dots> \<longleftrightarrow> same_space cosine p c \<and>
    (check \<longrightarrow> mi_extractor c = mi_extractor p \<and> (case (mi_schema c, mi_schema p) of (Some a, Some b) \<Rightarrow> a = b | _ \<Rightarrow> True))"
    by (auto simp: decisions_empty)
  finally show ?thesis .
qed

definition identity_at :: "string \<Rightarrow> json option \<Rightarrow> model_identity" where
  "identity_at em canary = \<lparr>mi_extractor = Some ''p:x'', mi_synth = None, mi_embed = Some em, mi_dim = Some 2, mi_canary = canary, mi_schema = None\<rparr>"

theorem model_fence_fails_closed_witness:
  "assert_compatible_identity (\<lambda>_ _. 1) (Some (identity_at ''m'' None)) (identity_at ''m'' (Some (JList [JInt 1, JInt 0]))) True \<noteq> Inr ()"
  using model_fence_fails_closed [of "identity_at ''m'' None" "\<lambda>_ _. 1" "identity_at ''m'' (Some (JList [JInt 1, JInt 0]))" True]
  by (simp add: has_pin_def identity_at_def same_space_def)

end
