(* ===== verification/SourceIndex.thy ===== *)
theory SourceIndex imports Versioning Ingestion Passages begin

text \<open>
  The derived retrieval index of a book database, \<^verbatim>\<open>backend/app/memory/source_index.py\<close>, and the
  vectors it accepts, \<^verbatim>\<open>backend/app/memory/vectors.py\<close>: staged batches of paid vectors, and the
  publication of the exact source windows of a chapter in one transaction. Vectors are lists of JSON
  numbers and floats are rationals; the two digests (the chapter hash and the hash of the index source)
  and the clock are parameters.
\<close>

section \<open>Vectors\<close>

definition as_float :: "json \<Rightarrow> rat option" where
  "as_float j = (case j of JInt i \<Rightarrow> Some (of_int i) | JNum q \<Rightarrow> Some q | JBool b \<Rightarrow> Some (if b then 1 else 0) | _ \<Rightarrow> None)"

text \<open>What \<^verbatim>\<open>vectors.normalize\<close> checks: a non-empty list of numbers with a non-zero norm.\<close>

definition normalizes :: "json list \<Rightarrow> unit res" where
  "normalizes v = (if v = [] then Inl (ValueError ''embedding must be a non-empty vector'')
     else if list_ex (\<lambda>j. as_float j = None) v then Inl (ValueError ''embedding values must be numeric'')
     else if list_all (\<lambda>j. as_float j = Some 0) v then Inl (ValueError ''embedding must have a finite non-zero norm'')
     else Inr ())"

section \<open>The source of a chapter\<close>

record index_source =
  so_title :: string
  so_text :: string
  so_hash :: string
  so_passages :: "json list passage list"

definition source_row :: "string \<Rightarrow> string \<Rightarrow> mem \<Rightarrow> (chapter_row \<times> raw_row option) option" where
  "source_row book key m = (case live_chapter_row book key m of None \<Rightarrow> None
     | Some c \<Rightarrow> Some (c, find (\<lambda>r. raw_key r = key \<and> f_book r = book \<and> f_retracted r = None) (raw_chapters m)))"

record digests =
  dg_chapter :: "string \<Rightarrow> string"
  dg_source :: "string list \<Rightarrow> string"

definition row_text :: "raw_row option \<Rightarrow> string" where
  "row_text raw = (case raw of None \<Rightarrow> [] | Some r \<Rightarrow> raw_text r)"

definition index_source_of :: "digests \<Rightarrow> string \<Rightarrow> int \<Rightarrow> bool \<Rightarrow> (mem conn, index_source) act" where
  "index_source_of dg key ordinal require = with_book (\<lambda>book.
     bindA (writer (query [T_chapters, T_raw_chapters] (source_row book key))) (\<lambda>row. case row of
       None \<Rightarrow> raise (ValueError ''source index requires a live chapter at the exact ordinal'')
     | Some (c, raw) \<Rightarrow>
         if f_rev c \<noteq> ordinal then raise (ValueError ''source index requires a live chapter at the exact ordinal'')
         else if ch_hash c \<noteq> dg_chapter dg (row_text raw)
           \<or> (case raw of None \<Rightarrow> False | Some r \<Rightarrow> raw_hash r \<noteq> dg_chapter dg (row_text raw) \<or> f_rev r \<noteq> ordinal)
         then raise (ValueError ''source index requires verified unchanged raw chapter text'')
         else bindA (if require then chapter_completion (dg_chapter dg) key ordinal (dg_chapter dg (row_text raw)) else ret (Some None)) (\<lambda>receipt.
           if receipt = None then raise (ValueError ''source index requires a durable completed chapter'')
           else ret \<lparr>so_title = ch_title c, so_text = row_text raw, so_hash = source_digest (dg_source dg) (ch_title c) (row_text raw),
             so_passages = source_passages (row_text raw)\<rparr>)))"

text \<open>\<^verbatim>\<open>_identity\<close>: the pinned embedding, and the fence without the extractor.\<close>

definition index_pin :: "(json list \<Rightarrow> json list \<Rightarrow> rat) \<Rightarrow> model_identity \<Rightarrow> (mem conn, string \<times> int option) act" where
  "index_pin cosine identity = bindA pinned_identity (\<lambda>pin. case pin_model pin of
     None \<Rightarrow> raise (ModelMigrationRequired [(''embed_model'', ''FORCE_RE_EMBED'')])
   | Some em \<Rightarrow> bindA (liftA (assert_compatible_identity cosine (map_option pin_of pin) identity False)) (\<lambda>_. ret em))"

section \<open>Passages\<close>

definition exact_window :: "json list passage \<Rightarrow> json list passage \<Rightarrow> bool" where
  "exact_window target p = (pg_start p = pg_start target \<and> pg_end p = pg_end target \<and> pg_text p = pg_text target)"

definition vector_of :: "int option \<Rightarrow> json list passage \<Rightarrow> json list res" where
  "vector_of dm p = (case pg_vec p of None \<Rightarrow> Inl (ValueError ''embedding must be a non-empty vector'')
     | Some v \<Rightarrow> (case normalizes v of Inl e \<Rightarrow> Inl e | Inr _ \<Rightarrow>
         if Some (int (length v)) \<noteq> dm then Inl (ValueError ''source index vector dimension does not match the book pin'') else Inr v))"

text \<open>The windows still expected, the starts seen; in partial mode the window is looked up by its start.\<close>

definition target_of :: "bool \<Rightarrow> json list passage list \<Rightarrow> nat \<Rightarrow> json list passage \<Rightarrow> json list passage option" where
  "target_of partial expected i p =
     (if partial then find (\<lambda>t. pg_start t = pg_start p) (rev expected) else if i < length expected then Some (expected ! i) else None)"

fun check_passages :: "bool \<Rightarrow> json list passage list \<Rightarrow> int option \<Rightarrow> nat \<Rightarrow> nat list \<Rightarrow> json list passage list \<Rightarrow> unit res" where
  "check_passages partial expected dm i seen [] = Inr ()"
| "check_passages partial expected dm i seen (p # ps) = (case target_of partial expected i p of
     None \<Rightarrow> Inl (ValueError ''source index passage is not an exact source window'')
   | Some t \<Rightarrow>
       if \<not> exact_window t p \<or> pg_start p \<in> set seen then Inl (ValueError ''source index passage is not an exact source window'')
       else (case vector_of dm p of Inl e \<Rightarrow> Inl e | Inr _ \<Rightarrow> check_passages partial expected dm (Suc i) (pg_start p # seen) ps))"

definition validated_passages :: "bool \<Rightarrow> json list passage list \<Rightarrow> json list passage list \<Rightarrow> int option \<Rightarrow> unit res" where
  "validated_passages partial expected passages dm =
     (if \<not> partial \<and> length passages \<noteq> length expected then Inl (ValueError ''source index passage coverage is incomplete'')
      else check_passages partial expected dm 0 [] passages)"

section \<open>Staging and publication\<close>

definition passages_json :: "json list passage list \<Rightarrow> json" where
  "passages_json ps = JList (map (\<lambda>p. JObj [(''start'', JInt (int (pg_start p))), (''end'', JInt (int (pg_end p))), (''text'', JStr (pg_text p)),
     (''vec'', case pg_vec p of None \<Rightarrow> JNull | Some v \<Rightarrow> JList v)]) ps)"

definition stage_batch ::
  "digests \<Rightarrow> (json list \<Rightarrow> json list \<Rightarrow> rat) \<Rightarrow> string \<Rightarrow> int \<Rightarrow> string \<Rightarrow> string \<Rightarrow> json list passage list \<Rightarrow> model_identity \<Rightarrow> string \<Rightarrow> (mem conn, unit) act" where
  "stage_batch dg cosine key ordinal source_hash batch ps identity now =
     bindA (index_source_of dg key ordinal True) (\<lambda>s.
     if so_hash s \<noteq> source_hash then raise (ValueError ''source changed while preparing the derived index'')
     else bindA (index_pin cosine identity) (\<lambda>(em, dm).
     bindA (liftA (validated_passages True (so_passages s) ps dm)) (\<lambda>_. with_book (\<lambda>book. writer (
       bindA (query [T_retrieval_index_batches] (\<lambda>m. find (\<lambda>r. rb_key r = key \<and> rb_version r = PASSAGE_INDEX_VERSION \<and>
           rb_hash r = source_hash \<and> rb_batch r = batch \<and> f_book r = book) (index_batches m))) (\<lambda>existing. case existing of
         Some r \<Rightarrow> if rb_passages r \<noteq> passages_json ps \<or> rb_model r \<noteq> em \<or> Some (rb_dim r) \<noteq> dm
           then raise (ValueError ''a staged source batch cannot be replaced with different vectors'') else ret ()
       | None \<Rightarrow> (case dm of None \<Rightarrow> raise (IntegrityError ''embed_dim'') | Some d \<Rightarrow>
           exec_dml [] [ordinal, d] (\<lambda>m. ((), m\<lparr>index_batches := index_batches m @
             [\<lparr>f_book = book, f_rev = ordinal, f_invalid = None, f_retracted = None, rb_key = key, rb_version = PASSAGE_INDEX_VERSION,
               rb_hash = source_hash, rb_batch = batch, rb_model = em, rb_dim = d, rb_passages = passages_json ps, rb_recorded = now\<rparr>]\<rparr>)))))))))"

definition add_window :: "string \<Rightarrow> int \<Rightarrow> string \<Rightarrow> json list passage \<Rightarrow> (mem conn, int) act" where
  "add_window key ordinal source_hash p = add_chunk key ordinal (pg_text p) (case pg_vec p of None \<Rightarrow> [] | Some v \<Rightarrow> v) None None
     (Some PASSAGE_INDEX_VERSION) (Some source_hash) (Some (int (pg_start p))) (Some (int (pg_end p)))"

text \<open>The upsert of the marker keeps the book and the ordinal of an existing row.\<close>

definition upsert_index_chapter :: "string \<Rightarrow> string \<Rightarrow> int \<Rightarrow> string \<Rightarrow> string \<Rightarrow> int \<Rightarrow> int \<Rightarrow> string \<Rightarrow> mem \<Rightarrow> mem" where
  "upsert_index_chapter book key ordinal source_hash em d n now m = m\<lparr>index_chapters :=
     (if list_ex (\<lambda>r. ri_key r = key) (index_chapters m)
      then update_where (\<lambda>r. ri_key r = key) (\<lambda>r. r\<lparr>ri_version := PASSAGE_INDEX_VERSION, ri_hash := source_hash, ri_model := em,
        ri_dim := d, ri_count := n, ri_completed := now, f_retracted := None\<rparr>) (index_chapters m)
      else index_chapters m @ [\<lparr>f_book = book, f_rev = ordinal, f_invalid = None, f_retracted = None, ri_key = key,
        ri_version = PASSAGE_INDEX_VERSION, ri_hash = source_hash, ri_model = em, ri_dim = d, ri_count = n, ri_completed = now\<rparr>])\<rparr>"

definition publish_body ::
  "digests \<Rightarrow> (json list \<Rightarrow> json list \<Rightarrow> rat) \<Rightarrow> bool \<Rightarrow> string \<Rightarrow> int \<Rightarrow> string \<Rightarrow> json list passage list \<Rightarrow> model_identity \<Rightarrow> string \<Rightarrow> (mem conn, unit) act" where
  "publish_body dg cosine require key ordinal source_hash ps identity now =
     bindA (index_source_of dg key ordinal require) (\<lambda>s.
     if so_hash s \<noteq> source_hash then raise (ValueError ''source changed while preparing the derived index'')
     else bindA (index_pin cosine identity) (\<lambda>(em, dm).
     bindA (liftA (validated_passages False (so_passages s) ps dm)) (\<lambda>_. with_book (\<lambda>book. writer (
       bindA (retract_chunks key now) (\<lambda>_.
       bindA (for_each (add_window key ordinal source_hash) ps) (\<lambda>_.
       bindA (case dm of None \<Rightarrow> raise (IntegrityError ''embed_dim'') | Some d \<Rightarrow>
         exec_dml [T_retrieval_index_chapters] [ordinal, d] (\<lambda>m. ((), upsert_index_chapter book key ordinal source_hash em d (int (length ps)) now m))) (\<lambda>_.
         exec_dml [T_retrieval_index_batches] [] (\<lambda>m. ((), m\<lparr>index_batches := filter (\<lambda>r. \<not> (f_book r = book \<and> rb_key r = key)) (index_batches m)\<rparr>))))))))))"

definition publish_source_index ::
  "digests \<Rightarrow> (json list \<Rightarrow> json list \<Rightarrow> rat) \<Rightarrow> bool \<Rightarrow> string \<Rightarrow> int \<Rightarrow> string \<Rightarrow> json list passage list \<Rightarrow> model_identity \<Rightarrow> string \<Rightarrow> (mem conn, unit) act" where
  "publish_source_index dg cosine require key ordinal source_hash ps identity now c =
     (if transaction_active c then publish_body dg cosine require key ordinal source_hash ps identity now c
      else transaction (publish_body dg cosine require key ordinal source_hash ps identity now) c)"

end
