(* ===== verification/Pipeline.thy ===== *)
theory Pipeline imports SourceIndex Resolve Budgeted begin

text \<open>
  The commit of one extracted chapter, \<^verbatim>\<open>backend/app/ingest/extraction/pipeline.py\<close>: the roster visible
  before the chapter, the values prepared outside the lock, and the single transaction that writes the
  chapter, its facts, its retrieval windows and, last, the completion marker. The digests that bind the
  prepared values to their source are parameters; one clock reading stands for those of the chapter.
\<close>

section \<open>Chapters and extractions\<close>

record chapter_in =
  ci_ordinal :: int
  ci_key :: string
  ci_href :: "string option"
  ci_title :: string
  ci_part :: string
  ci_text :: string
  ci_hash :: "string option"

record entity_out =
  eo_name :: string
  eo_type :: string
  eo_aliases :: "string list"
  eo_matched :: bool
  eo_state :: "string option"

record relation_out =
  lo_src :: string
  lo_dst :: string
  lo_type :: string
  lo_label :: string

record event_out =
  vo_summary :: string
  vo_participants :: "string list"

record theme_out =
  to_name :: string
  to_desc :: "string option"

type_synonym facts = "(entity_out, relation_out, event_out, theme_out) extraction"

record roster_entry =
  re_id :: int
  re_name :: string
  re_type :: string
  re_aliases :: "string list"

section \<open>The roster\<close>

definition entity_types :: "string list" where
  "entity_types = [''character'', ''place'', ''faction'', ''object'']"

definition with_aliases :: "int \<Rightarrow> int \<times> string \<times> string \<times> int \<Rightarrow> (mem conn, roster_entry) act" where
  "with_aliases b e = (case e of (i, name, ty, _) \<Rightarrow> bindA (aliases_of b i) (\<lambda>surfaces.
     ret \<lparr>re_id = i, re_name = name, re_type = ty, re_aliases = map fst surfaces\<rparr>))"

text \<open>\<^verbatim>\<open>all_entities(mem.view(b))\<close>.\<close>

definition all_entities :: "int \<Rightarrow> (mem conn, roster_entry list) act" where
  "all_entities b = bindA (liftA (view (PyInt b))) (\<lambda>b.
     bindA (for_each (\<lambda>t. bindA (entities_of_type b t) (for_each (with_aliases b))) entity_types) (\<lambda>xs. ret (concat xs)))"

section \<open>Prepared chapters\<close>

text \<open>A clearance names the source and the payload it was given for.\<close>

record clearance =
  kl_source :: string
  kl_payload :: string

record pipeline_digests = digests +
  dg_text :: "string \<Rightarrow> string"
  dg_facts :: "facts \<Rightarrow> string"
  dg_scope :: "string \<times> facts \<times> roster_entry list \<times> (entity_out \<times> decision) list \<Rightarrow> string"

definition clearance_matches :: "pipeline_digests \<Rightarrow> clearance \<Rightarrow> string \<Rightarrow> facts \<Rightarrow> bool" where
  "clearance_matches dg k text x = (kl_source k = dg_text dg text \<and> kl_payload k = dg_facts dg x)"

record prepared =
  pp_key :: string
  pp_ordinal :: int
  pp_hash :: string
  pp_facts :: facts
  pp_identity :: model_identity
  pp_extractor :: string
  pp_roster :: "roster_entry list"
  pp_decisions :: "(entity_out \<times> decision) list"
  pp_passages :: "json list passage list"
  pp_source :: string
  pp_cost :: "receipt_cost option"
  pp_clearance :: "clearance option"
  pp_resolution :: "string option"

section \<open>Names seen so far\<close>

type_synonym names = "string \<Rightarrow> int option"

definition set_default :: "int \<Rightarrow> string \<Rightarrow> names \<Rightarrow> names" where
  "set_default i s m = (if m (normalize_text s) = None then m(normalize_text s \<mapsto> i) else m)"

definition learn_name :: "int \<Rightarrow> string \<Rightarrow> string list \<Rightarrow> names \<Rightarrow> names" where
  "learn_name i name surfaces m = fold (set_default i) surfaces (m(normalize_text name \<mapsto> i))"

definition roster_names :: "roster_entry list \<Rightarrow> names" where
  "roster_names roster = fold (\<lambda>r. learn_name (re_id r) (re_name r) (re_aliases r)) roster Map.empty"

section \<open>Writing a chapter\<close>

definition ensure_pinned :: "(json list \<Rightarrow> json list \<Rightarrow> rat) \<Rightarrow> model_identity \<Rightarrow> (mem conn, unit) act" where
  "ensure_pinned cosine identity = bindA pinned_identity (\<lambda>pin.
     bindA (liftA (assert_compatible_identity cosine (map_option pin_of pin) identity True)) (\<lambda>_.
     if pin_model pin \<noteq> None then ret ()
     else pin_models (mi_extractor identity) (mi_synth identity) (mi_embed identity) (mi_dim identity) (mi_canary identity)))"

text \<open>Names, entities this chapter created by the position of their decision, and the last state note of each entity.\<close>

record progress =
  pr_names :: names
  pr_pending :: "nat \<Rightarrow> int option"
  pr_notes :: "(int \<times> string) list"

definition put_note :: "int \<Rightarrow> string \<Rightarrow> (int \<times> string) list \<Rightarrow> (int \<times> string) list" where
  "put_note i s notes = (if i \<in> fst ` set notes then map (\<lambda>(j, t). (j, if j = i then s else t)) notes else notes @ [(i, s)])"

definition target_entity :: "(nat \<Rightarrow> int option) \<Rightarrow> roster_id \<Rightarrow> int res" where
  "target_entity born t = (case t of Known i \<Rightarrow> Inr i
     | Pending n \<Rightarrow> (case born n of None \<Rightarrow> Inl (KeyError ''pending'') | Some i \<Rightarrow> Inr i))"

definition note_surface :: "names \<Rightarrow> int \<Rightarrow> int \<Rightarrow> string \<Rightarrow> string \<Rightarrow> (mem conn, unit) act" where
  "note_surface m i ordinal now s = (if m (normalize_text s) = None then voidA (add_alias i s ordinal now) else ret ())"

definition write_mention ::
  "int \<Rightarrow> string \<Rightarrow> string \<Rightarrow> nat \<Rightarrow> entity_out \<Rightarrow> decision \<Rightarrow> progress \<Rightarrow> (mem conn, int) act" where
  "write_mention ordinal xv now n e d pr = (case d of
     Merge t how score \<Rightarrow> bindA (liftA (target_entity (pr_pending pr) t)) (\<lambda>i.
       bindA (for_each (note_surface (pr_names pr) i ordinal now) (eo_name e # eo_aliases e)) (\<lambda>_. ret i))
   | Create a u \<Rightarrow> bindA (add_entity (eo_name e) (eo_type e) ordinal xv now) (\<lambda>i.
       bindA (for_each (\<lambda>s. add_alias i s ordinal now) (eo_aliases e)) (\<lambda>_. ret i)))"

definition progressed :: "nat \<Rightarrow> entity_out \<Rightarrow> decision \<Rightarrow> int \<Rightarrow> progress \<Rightarrow> progress" where
  "progressed n e d i pr = \<lparr>pr_names = learn_name i (eo_name e) (eo_aliases e) (pr_names pr),
     pr_pending = (case d of Create _ _ \<Rightarrow> (pr_pending pr)(n \<mapsto> i) | _ \<Rightarrow> pr_pending pr),
     pr_notes = (case eo_state e of None \<Rightarrow> pr_notes pr | Some s \<Rightarrow> if s = [] then pr_notes pr else put_note i s (pr_notes pr))\<rparr>"

fun write_entities ::
  "int \<Rightarrow> string \<Rightarrow> string \<Rightarrow> nat \<Rightarrow> (entity_out \<times> decision) list \<Rightarrow> progress \<Rightarrow> (mem conn, progress \<times> int list) act" where
  "write_entities ordinal xv now n [] pr = ret (pr, [])"
| "write_entities ordinal xv now n ((e, d) # ds) pr = bindA (write_mention ordinal xv now n e d pr) (\<lambda>i.
     bindA (write_entities ordinal xv now (Suc n) ds (progressed n e d i pr)) (\<lambda>(pr', is). ret (pr', i # is)))"

text \<open>One state row per entity and chapter: the last note wins.\<close>

definition write_note :: "int \<Rightarrow> string \<Rightarrow> string \<Rightarrow> int \<times> string \<Rightarrow> (mem conn, unit) act" where
  "write_note ordinal xv now n = (case n of (i, s) \<Rightarrow>
     bindA (liftA (view (PyInt ordinal))) (\<lambda>b. bindA (current_state b i) (\<lambda>cur. case cur of
       None \<Rightarrow> voidA (add_state i ordinal (JObj [(''note'', JStr s)]) None xv now)
     | Some (st, seen, _) \<Rightarrow> if seen < ordinal then voidA (replace_state st ordinal (JObj [(''note'', JStr s)]) xv now) else ret ())))"

definition known_id :: "names \<Rightarrow> string \<Rightarrow> int option" where
  "known_id m s = (case m (normalize_text s) of None \<Rightarrow> None | Some i \<Rightarrow> if i = 0 then None else Some i)"

text \<open>1 for an unresolved reference, 0 for a written edge.\<close>

definition write_relation :: "names \<Rightarrow> int \<Rightarrow> string \<Rightarrow> string \<Rightarrow> relation_out \<Rightarrow> (mem conn, nat) act" where
  "write_relation m ordinal xv now r = (case (known_id m (lo_src r), known_id m (lo_dst r)) of
     (Some s, Some t) \<Rightarrow> bindA (add_edge s t (lo_type r) (Some (lo_label r)) ordinal None xv now) (\<lambda>_. ret 0)
   | _ \<Rightarrow> ret 1)"

definition event_links :: "names \<Rightarrow> string list \<Rightarrow> (int \<times> string option) list" where
  "event_links m ps = map (\<lambda>i. (i, Some ''participant'')) (rev (remdups (rev (List.map_filter (known_id m) ps))))"

definition write_event :: "names \<Rightarrow> int \<Rightarrow> string \<Rightarrow> string \<Rightarrow> int \<times> event_out \<Rightarrow> (mem conn, nat) act" where
  "write_event m ordinal xv now ev = (case ev of (n, e) \<Rightarrow>
     bindA (add_event (vo_summary e) ordinal n ''beat'' None (event_links m (vo_participants e)) xv now) (\<lambda>_.
       ret (length (filter (\<lambda>p. known_id m p = None) (vo_participants e)))))"

definition write_theme :: "int \<Rightarrow> string \<Rightarrow> string \<Rightarrow> theme_out \<Rightarrow> (mem conn, unit) act" where
  "write_theme ordinal xv now t = voidA (add_theme (to_name t) (case to_desc t of None \<Rightarrow> [] | Some d \<Rightarrow> d) ordinal xv now)"

definition after_colon :: "string \<Rightarrow> string" where
  "after_colon key = (if CHR '':'' \<in> set key then drop (length (takeWhile (\<lambda>c. c \<noteq> CHR '':'') key) + 1) key else key)"

definition href_of :: "chapter_in \<Rightarrow> string" where
  "href_of ch = (case ci_href ch of None \<Rightarrow> after_colon (ci_key ch) | Some h \<Rightarrow> if h \<noteq> [] then h else after_colon (ci_key ch))"

text \<open>What the caller is told: the entity of every mention, unresolved relations, dropped participants.\<close>

record written =
  wn_entities :: "int list"
  wn_unresolved :: nat
  wn_dropped :: nat

definition changed_content :: "string \<Rightarrow> exc" where
  "changed_content key = ValueError ''chapter is already present without a matching completion marker''"

definition write_facts :: "int \<Rightarrow> string \<Rightarrow> string \<Rightarrow> facts \<Rightarrow> roster_entry list \<Rightarrow> (entity_out \<times> decision) list \<Rightarrow> (mem conn, written) act" where
  "write_facts ordinal xv now x roster ds =
     bindA (write_entities ordinal xv now 0 ds \<lparr>pr_names = roster_names roster, pr_pending = Map.empty, pr_notes = []\<rparr>) (\<lambda>(pr, is).
     bindA (for_each (write_note ordinal xv now) (pr_notes pr)) (\<lambda>_.
     bindA (for_each (write_relation (pr_names pr) ordinal xv now) (xt_relationships x)) (\<lambda>us.
     bindA (for_each (write_event (pr_names pr) ordinal xv now) (zip [1..int (length (xt_events x))] (xt_events x))) (\<lambda>dropped.
     bindA (for_each (write_theme ordinal xv now) (xt_themes x)) (\<lambda>_.
       ret \<lparr>wn_entities = is, wn_unresolved = sum_list us, wn_dropped = sum_list dropped\<rparr>)))))"

definition write_chapter ::
  "pipeline_digests \<Rightarrow> (json list \<Rightarrow> json list \<Rightarrow> rat) \<Rightarrow> chapter_in \<Rightarrow> prepared \<Rightarrow> string \<Rightarrow> (mem conn, written option) act" where
  "write_chapter dg cosine ch p now =
     (let ordinal = ci_ordinal ch; key = ci_key ch; hash = dg_chapter dg (ci_text ch); xv = pp_extractor p; x = pp_facts p in
     bindA (chapter_is_ingested key hash) (\<lambda>finished. if finished then ret None else
     bindA (chapter_live key) (\<lambda>live. if live then raise (changed_content key) else
     bindA (ensure_pinned cosine (pp_identity p)) (\<lambda>_.
     bindA (add_chapter key ordinal (href_of ch) (ci_title ch) [] (ci_part ch) ''body'' hash xv now) (\<lambda>_.
     bindA (if ci_text ch \<noteq> [] then add_raw key ordinal (ci_text ch) hash now else ret ()) (\<lambda>_.
     bindA (add_summary key ordinal (xt_summary x) ''chapter'' xv now) (\<lambda>_.
     bindA (write_facts ordinal xv now x (pp_roster p) (pp_decisions p)) (\<lambda>w.
     bindA (publish_source_index (digests.truncate dg) cosine False key ordinal (pp_source p) (pp_passages p) (pp_identity p) now) (\<lambda>_.
     bindA (mark_chapter_ingested key hash (pp_cost p) now) (\<lambda>_. ret (Some w)))))))))))"

definition ingest_chapter ::
  "pipeline_digests \<Rightarrow> (json list \<Rightarrow> json list \<Rightarrow> rat) \<Rightarrow> chapter_in \<Rightarrow> prepared \<Rightarrow> string \<Rightarrow> (mem conn, written option) act" where
  "ingest_chapter dg cosine ch p now =
     (let ordinal = ci_ordinal ch; key = ci_key ch; text = ci_text ch; hash = dg_chapter dg text in
     if pp_key p \<noteq> key \<or> pp_ordinal p \<noteq> ordinal \<or> pp_hash p \<noteq> hash \<or> (ci_hash ch \<noteq> None \<and> ci_hash ch \<noteq> Some hash)
     then raise (ValueError ''prepared chapter mismatch'')
     else case pp_clearance p of None \<Rightarrow> raise (RuntimeError ''extraction requires a valid chapter-grounding clearance'')
     | Some k \<Rightarrow>
       if \<not> clearance_matches dg k text (pp_facts p) then raise (RuntimeError ''extraction clearance does not match its source and payload'')
       else bindA (chapter_completion (dg_chapter dg) key ordinal hash) (\<lambda>receipt. if receipt \<noteq> None then ret None else
       bindA (chapter_live key) (\<lambda>live. if live then raise (changed_content key) else
       bindA (all_entities (max (ordinal - 1) 0)) (\<lambda>roster.
         if roster \<noteq> pp_roster p then raise (RuntimeError ''StalePreparedRoster'')
         else if pp_resolution p \<noteq> Some (dg_scope dg (text, pp_facts p, pp_roster p, pp_decisions p))
         then raise (RuntimeError ''identity resolution changed after preparation'')
         else bindA (transaction (write_chapter dg cosine ch p now)) (\<lambda>result.
           bindA (chapter_completion (dg_chapter dg) key ordinal hash) (\<lambda>receipt.
             if receipt = None then raise (RuntimeError ''chapter committed without its completion marker'') else ret result))))))"

section \<open>Closure of the commit under an invariant\<close>

lemma keeps_read: "(\<And>c. snd (m c) = c) \<Longrightarrow> keeps P m"
  by (simp add: keeps_def)

lemma keeps_current_state [keeps_intros]: "keeps P (current_state b i)"
  unfolding current_state_def by (intro keeps_intros keeps_read select_guards)

lemma keeps_all_entities [keeps_intros]: "keeps P (all_entities b)"
proof -
  have "keeps P (entities_of_type b t)" "keeps P (aliases_of b i)" for b t i
    unfolding entities_of_type_def aliases_of_def by (intro keeps_read select_guards)+
  then show ?thesis unfolding all_entities_def with_aliases_def by (intro keeps_intros)
qed

lemma keeps_write_entities:
  assumes "\<And>i s. keeps P (add_alias i s ordinal now)" and "\<And>name ty. keeps P (add_entity name ty ordinal xv now)"
  shows "keeps P (write_entities ordinal xv now n ds pr)"
proof (induction ds arbitrary: n pr)
  case (Cons d ds)
  have "keeps P (write_mention ordinal xv now n e k q)" for e k q
  proof (cases k)
    case (Create a u)
    then show ?thesis unfolding write_mention_def by (simp, intro keeps_intros assms)
  next
    case (Merge t how score)
    have "keeps P (note_surface m i ordinal now s)" for m i s
      unfolding note_surface_def by (intro keeps_intros keeps_voidA assms)
    then show ?thesis unfolding write_mention_def using Merge by (simp only: decision.case) (intro keeps_intros)
  qed
  then show ?case by (cases d) (simp, intro keeps_intros Cons.IH)
qed (simp add: keeps_ret)

lemma keeps_write_facts:
  assumes "\<And>i s. keeps P (add_alias i s ordinal now)" and "\<And>name ty. keeps P (add_entity name ty ordinal xv now)"
    and "\<And>n. keeps P (write_note ordinal xv now n)" and "\<And>s t ty l. keeps P (add_edge s t ty l ordinal None xv now)"
    and "\<And>s n k parts. keeps P (add_event s ordinal n k None parts xv now)" and "\<And>t d. keeps P (add_theme t d ordinal xv now)"
  shows "keeps P (write_facts ordinal xv now x roster ds)"
proof -
  have "keeps P (write_relation m ordinal xv now r)" for m r
    unfolding write_relation_def by (simp split: option.splits) (intro allI impI conjI keeps_intros assms)
  moreover have "keeps P (write_event m ordinal xv now ev)" for m ev
    unfolding write_event_def by (intro keeps_intros assms)
  moreover have "keeps P (write_theme ordinal xv now t)" for t
    unfolding write_theme_def by (intro keeps_voidA assms)
  ultimately show ?thesis
    unfolding write_facts_def by (intro keeps_intros keeps_write_entities assms)
qed

lemma keeps_write_note:
  assumes "\<And>e j. keeps P (add_state e ordinal j None xv now)" and "\<And>st j. keeps P (replace_state st ordinal j xv now)"
  shows "keeps P (write_note ordinal xv now n)"
  unfolding write_note_def by (intro keeps_intros keeps_voidA assms)

text \<open>What a publication does: chunks and index rows, and nothing else.\<close>

lemma keeps_publish_body:
  assumes "keeps P (retract_chunks key now)" and "\<And>p. keeps P (add_window key ordinal h p)"
    and "\<And>book em d n. keeps P (exec_dml [T_retrieval_index_chapters] [ordinal, d] (\<lambda>m. ((), upsert_index_chapter book key ordinal h em d n now m)))"
    and "\<And>f. keeps P (exec_dml [T_retrieval_index_batches] [] (\<lambda>m. ((), m\<lparr>index_batches := f m\<rparr>)))"
    and "\<And>body :: (mem conn, unit) act. keeps P body \<Longrightarrow> keeps P (writer body)"
    and "keeps P (index_source_of dg key ordinal req)" and "keeps P pinned_identity"
  shows "keeps P (publish_body dg cosine req key ordinal h ps identity now)"
  unfolding publish_body_def index_pin_def by (intro keeps_intros assms)

text \<open>The statements of a commit, for the invariants that every statement keeps by its form.\<close>

lemma keeps_index_source [keeps_intros]:
  "keeps (joined K) (index_source_of dg key ordinal require)" "keeps (session_is k) (index_source_of dg key ordinal require)"
  "keeps (holds Q) (index_source_of dg key ordinal require)" "keeps (inside Q) (index_source_of dg key ordinal require)"
  unfolding index_source_of_def chapter_completion_def chapter_completion_opt_def by (intro keeps_intros)+

lemma keeps_pinned [keeps_intros]:
  "keeps (joined K) pinned_identity" "keeps (session_is k) pinned_identity" "keeps (holds Q) pinned_identity" "keeps (inside Q) pinned_identity"
  unfolding pinned_identity_def by (intro keeps_intros)+

lemmas statement_defs = write_defs retract_chunks_def pin_models_def chapter_live_def chapter_is_ingested_def

lemma keeps_statements_joined [keeps_intros]:
  "keeps (joined K) (add_alias a1 a2 a3 a4)" "keeps (joined K) (add_entity b1 b2 b3 b4 b5)" "keeps (joined K) (add_state c1 c2 c3 c4 c5 c6)"
  "keeps (joined K) (replace_state d1 d2 d3 d4 d5)" "keeps (joined K) (add_edge e1 e2 e3 e4 e5 e6 e7 e8)"
  "keeps (joined K) (add_event g1 g2 g3 g4 g5 g6 g7 g8)" "keeps (joined K) (add_theme h1 h2 h3 h4 h5)"
  "keeps (joined K) (add_chunk i1 i2 i3 i4 i5 i6 i7 i8 i9 i10)" "keeps (joined K) (retract_chunks j1 j2)"
  "keeps (joined K) (add_raw k1 k2 k3 k4 k5)" "keeps (joined K) (add_summary l1 l2 l3 l4 l5 l6)"
  "keeps (joined K) (add_chapter m1 m2 m3 m4 m5 m6 m7 m8 m9 m10)" "keeps (joined K) (pin_models n1 n2 n3 n4 n5)"
  "keeps (joined K) (chapter_live o1)" "keeps (joined K) (chapter_is_ingested p1 p2)"
  unfolding statement_defs by (intro keeps_intros)+

lemma keeps_statements_session [keeps_intros]:
  "keeps (session_is k) (add_alias a1 a2 a3 a4)" "keeps (session_is k) (add_entity b1 b2 b3 b4 b5)" "keeps (session_is k) (add_state c1 c2 c3 c4 c5 c6)"
  "keeps (session_is k) (replace_state d1 d2 d3 d4 d5)" "keeps (session_is k) (add_edge e1 e2 e3 e4 e5 e6 e7 e8)"
  "keeps (session_is k) (add_event g1 g2 g3 g4 g5 g6 g7 g8)" "keeps (session_is k) (add_theme h1 h2 h3 h4 h5)"
  "keeps (session_is k) (add_chunk i1 i2 i3 i4 i5 i6 i7 i8 i9 i10)" "keeps (session_is k) (retract_chunks j1 j2)"
  "keeps (session_is k) (add_raw k1 k2 k3 k4 k5)" "keeps (session_is k) (add_summary l1 l2 l3 l4 l5 l6)"
  "keeps (session_is k) (add_chapter m1 m2 m3 m4 m5 m6 m7 m8 m9 m10)" "keeps (session_is k) (pin_models n1 n2 n3 n4 n5)"
  "keeps (session_is k) (chapter_live o1)" "keeps (session_is k) (chapter_is_ingested p1 p2)"
  unfolding statement_defs by (intro keeps_intros)+

lemma keeps_add_window [keeps_intros]:
  assumes "\<And>txt vec version hash start stop. keeps P (add_chunk key ordinal txt vec None None version hash start stop)"
  shows "keeps P (add_window key ordinal h p)"
  unfolding add_window_def by (rule assms)

lemma keeps_publish_body_joined: "keeps (joined K) (publish_body dg cosine req key ordinal h ps identity now)"
  by (intro keeps_publish_body keeps_intros)

lemma keeps_publish_body_session: "keeps (session_is k) (publish_body dg cosine req key ordinal h ps identity now)"
  by (intro keeps_publish_body keeps_intros)

lemma keeps_publish_joined [keeps_intros]: "keeps (joined K) (publish_source_index dg cosine req key ordinal h ps identity now)"
proof (rule keepsI)
  fix c assume "joined K c"
  with keepsD [OF keeps_publish_body_joined this] show "joined K (snd (publish_source_index dg cosine req key ordinal h ps identity now c))"
    by (simp add: publish_source_index_def joined_def)
qed

lemma keeps_publish_session [keeps_intros]: "keeps (session_is k) (publish_source_index dg cosine req key ordinal h ps identity now)"
proof (rule keepsI)
  fix c :: "mem conn" assume c: "session_is k c"
  have "keeps (session_is k) (transaction (publish_body dg cosine req key ordinal h ps identity now))"
    by (intro keeps_intros keeps_publish_body_session)
  from keepsD [OF this c] keepsD [OF keeps_publish_body_session c]
  show "session_is k (snd (publish_source_index dg cosine req key ordinal h ps identity now c))"
    by (simp add: publish_source_index_def)
qed

lemma keeps_facts_joined [keeps_intros]: "keeps (joined K) (write_facts ordinal xv now x roster ds)"
  by (intro keeps_write_facts keeps_write_note keeps_intros)

lemma keeps_facts_session [keeps_intros]: "keeps (session_is k) (write_facts ordinal xv now x roster ds)"
  by (intro keeps_write_facts keeps_write_note keeps_intros)

lemma keeps_write_joined: "keeps (joined K) (write_chapter dg cosine ch p now)"
  unfolding write_chapter_def Let_def ensure_pinned_def by (intro keeps_intros)

lemma keeps_write_session: "keeps (session_is k) (write_chapter dg cosine ch p now)"
  unfolding write_chapter_def Let_def ensure_pinned_def by (intro keeps_intros)


section \<open>What a commit stores\<close>

text \<open>Inside the transaction: the constraints hold and the chapters and their texts are these.\<close>

definition text_is :: "chapter_row list \<Rightarrow> raw_row list \<Rightarrow> mem \<Rightarrow> bool" where
  "text_is chs raws m = (schema_ok m \<and> chapters m = chs \<and> raw_chapters m = raws)"

lemma keeps_exec_text:
  assumes "\<And>m. chapters (snd (f m)) = chapters m \<and> raw_chapters (snd (f m)) = raw_chapters m"
  shows "keeps (inside (text_is chs raws)) (exec_dml reads ints f)"
proof (rule keepsI)
  fix c assume c: "inside (text_is chs raws) c"
  show "inside (text_is chs raws) (snd (exec_dml reads ints f c))"
  proof (cases "exec_dml reads ints f c")
    case (Pair r c')
    show ?thesis
    proof (cases r)
      case (Inl e)
      with Pair have "c' = c" by (auto simp: exec_dml_def stmt_def split: if_splits sum.splits)
      with Pair c show ?thesis by simp
    next
      case (Inr x)
      with Pair have "exec_dml reads ints f c = (Inr x, c')" by simp
      then have "transaction_active c' = transaction_active c" by (auto simp: exec_dml_def stmt_Inr)
      with \<open>exec_dml reads ints f c = (Inr x, c')\<close> exec_dml_Inr [OF \<open>exec_dml reads ints f c = (Inr x, c')\<close>] c assms [of "working c"]
      show ?thesis by (auto simp: inside_def text_is_def)
    qed
  qed
qed

lemma keeps_ins_text:
  assumes "\<And>book m. chapters (snd (f book m)) = chapters m \<and> raw_chapters (snd (f book m)) = raw_chapters m"
  shows "keeps (inside (text_is chs raws)) (ins ints f)"
proof (rule keepsI)
  fix c assume c: "inside (text_is chs raws) c"
  have "keeps (inside (text_is chs raws)) (writer (exec_dml [] ints (f (book_id c))))"
    using assms by (intro keeps_intros keeps_exec_text) blast
  with c show "inside (text_is chs raws) (snd (ins ints f c))" by (simp add: ins_def exec_dml_def keepsD)
qed

lemma keeps_statements_text:
  "keeps (inside (text_is chs raws)) (add_alias a1 a2 a3 a4)" "keeps (inside (text_is chs raws)) (add_entity b1 b2 b3 b4 b5)"
  "keeps (inside (text_is chs raws)) (add_state c1 c2 c3 c4 c5 c6)" "keeps (inside (text_is chs raws)) (replace_state d1 d2 d3 d4 d5)"
  "keeps (inside (text_is chs raws)) (add_edge e1 e2 e3 e4 e5 e6 e7 e8)" "keeps (inside (text_is chs raws)) (add_event g1 g2 g3 g4 g5 g6 g7 g8)"
  "keeps (inside (text_is chs raws)) (add_theme h1 h2 h3 h4 h5)" "keeps (inside (text_is chs raws)) (add_chunk i1 i2 i3 i4 i5 i6 i7 i8 i9 i10)"
  "keeps (inside (text_is chs raws)) (retract_chunks j1 j2)" "keeps (inside (text_is chs raws)) (add_summary l1 l2 l3 l4 l5 l6)"
  "keeps (inside (text_is chs raws)) (pin_models n1 n2 n3 n4 n5)"
  "keeps (inside (text_is chs raws)) (chapter_live o1)" "keeps (inside (text_is chs raws)) (chapter_is_ingested p1 p2)"
  unfolding statement_defs by (intro keeps_intros keeps_ins_text keeps_exec_text; simp add: Let_def)+

lemma keeps_publish_text: "keeps (inside (text_is chs raws)) (publish_source_index dg cosine req key ordinal h ps identity now)"
proof (rule keepsI)
  fix c assume c: "inside (text_is chs raws) c"
  have "keeps (inside (text_is chs raws)) (publish_body dg cosine req key ordinal h ps identity now)"
    by (intro keeps_publish_body keeps_intros keeps_statements_text keeps_exec_text) (simp_all add: upsert_index_chapter_def)
  from keepsD [OF this c] c show "inside (text_is chs raws) (snd (publish_source_index dg cosine req key ordinal h ps identity now c))"
    by (simp add: publish_source_index_def inside_def)
qed

lemma keeps_facts_text: "keeps (inside (text_is chs raws)) (write_facts ordinal xv now x roster ds)"
  by (intro keeps_write_facts keeps_write_note keeps_statements_text)

lemma keeps_ensure_text: "keeps (inside (text_is chs raws)) (ensure_pinned cosine identity)"
  unfolding ensure_pinned_def by (intro keeps_intros keeps_statements_text)

lemma ins_schema: "ins ints f c = (Inr x, c') \<Longrightarrow> schema_ok (working c')"
proof -
  assume "ins ints f c = (Inr x, c')"
  then have "writer (exec_dml [] ints (f (book_id c))) c = (Inr x, c')" by (simp add: ins_def exec_dml_def)
  then show ?thesis by (auto dest!: writer_Inr exec_dml_Inr)
qed

lemma find_snoc_distinct:
  assumes "distinct (map f (xs @ [x]))" "f x = k"
  shows "find (\<lambda>r. f r = k \<and> P r) xs = None" "P x \<Longrightarrow> find (\<lambda>r. f r = k \<and> P r) (xs @ [x]) = Some x"
proof -
  show none: "find (\<lambda>r. f r = k \<and> P r) xs = None" using assms by (auto simp: find_None_iff) (metis imageI)
  then show "P x \<Longrightarrow> find (\<lambda>r. f r = k \<and> P r) (xs @ [x]) = Some x" using assms(2) by (simp add: find_append)
qed

text \<open>The chapter and its text are live under the ordinal and carry the hash.\<close>

definition stored :: "string \<Rightarrow> string \<Rightarrow> int \<Rightarrow> string \<Rightarrow> string \<Rightarrow> chapter_row list \<Rightarrow> raw_row list \<Rightarrow> bool" where
  "stored book key ordinal hash text chs raws =
     ((\<exists>r. find (\<lambda>c. ch_key c = key \<and> f_book c = book \<and> f_retracted c = None) chs = Some r \<and> f_rev r = ordinal \<and> ch_hash r = hash) \<and>
      (case find (\<lambda>r. raw_key r = key \<and> f_book r = book \<and> f_retracted r = None) raws of
         None \<Rightarrow> text = [] | Some w \<Rightarrow> raw_text w = text \<and> f_rev w = ordinal \<and> raw_hash w = hash))"

lemma add_chapter_new:
  assumes "add_chapter key ordinal href title fragment part kind hash xv now c = (Inr k, c')"
    and "live_chapter_row (book_id c) key (working c) = None"
  shows "schema_ok (working c') \<and> raw_chapters (working c') = raw_chapters (working c) \<and>
    (\<exists>r. chapters (working c') = chapters (working c) @ [r] \<and> ch_key r = key \<and> f_book r = book_id c \<and> f_retracted r = None \<and>
      f_rev r = ordinal \<and> ch_hash r = hash)"
proof -
  from assms(1) obtain fin c1 where
    q: "with_book (\<lambda>book. writer (bindA (query [T_chapters] (live_chapter_row book key)) (\<lambda>row.
        case row of None \<Rightarrow> ret False
        | Some c \<Rightarrow> if ch_hash c = hash \<and> f_rev c = ordinal then ret True
            else bindA (exec_dml [T_chapters] [ordinal] (\<lambda>m. ((), m\<lparr>chapters := update_where (\<lambda>c. ch_key c = key \<and> f_book c = book)
                     (\<lambda>c. c\<lparr>f_rev := ordinal, ch_hash := hash, ch_title := title\<rparr>) (chapters m)\<rparr>))) (\<lambda>_. ret True)))) c = (Inr fin, c1)"
    and rest: "(if fin then ret key else bindA (ins [ordinal] (\<lambda>book m. ((), m\<lparr>chapters := chapters m @
            [\<lparr>f_book = book, f_rev = ordinal, f_invalid = None, f_retracted = None, ch_key = key, ch_href = href,
              ch_fragment = fragment, ch_title = title, ch_part = part, ch_kind = kind,
              ch_hash = hash, ch_stamp = stamp_of xv now\<rparr>]\<rparr>))) (\<lambda>_. ret key)) c1 = (Inr k, c')"
    unfolding add_chapter_def bindA_Inr by blast
  have book: "book_id c1 = book_id c"
    by (rule book_kept [rotated], rule q) (intro keeps_intros)
  from q [unfolded with_book_def] have "fin = False \<and> working c1 = working c"
    using assms(2) by (auto dest!: writer_Inr simp: bindA_Inr query_def stmt_Inr ret_def)
  with rest have ins: "ins [ordinal] (\<lambda>book m. ((), m\<lparr>chapters := chapters m @
            [\<lparr>f_book = book, f_rev = ordinal, f_invalid = None, f_retracted = None, ch_key = key, ch_href = href,
              ch_fragment = fragment, ch_title = title, ch_part = part, ch_kind = kind,
              ch_hash = hash, ch_stamp = stamp_of xv now\<rparr>]\<rparr>)) c1 = (Inr (), c')" and same: "working c1 = working c"
    by (auto simp: bindA_Inr ret_def)
  from ins_Inr [OF ins] ins_schema [OF ins] same book show ?thesis by simp
qed


lemma add_text_stored:
  assumes "(if text \<noteq> [] then add_raw key ordinal text hash now else ret ()) c = (Inr (), c')" and "schema_ok (working c)"
    and chs: "chapters (working c) = chs0 @ [r]" "ch_key r = key" "f_book r = book_id c" "f_retracted r = None" "f_rev r = ordinal" "ch_hash r = hash"
    and new: "list_all (\<lambda>w. raw_key w \<noteq> key) (raw_chapters (working c))"
  shows "schema_ok (working c') \<and> chapters (working c') = chapters (working c) \<and>
    stored (book_id c) key ordinal hash text (chapters (working c')) (raw_chapters (working c'))"
proof -
  have "find (\<lambda>c'. ch_key c' = key \<and> f_book c' = book_id c \<and> f_retracted c' = None) (chs0 @ [r]) = Some r"
    by (rule find_snoc_distinct(2)) (use assms(2) chs in \<open>simp_all add: schema_ok_def chapters_ok_def\<close>)
  moreover have "find (\<lambda>w. raw_key w = key \<and> f_book w = book_id c \<and> f_retracted w = None) (raw_chapters (working c)) = None"
    using new by (auto simp: find_None_iff list_all_iff)
  ultimately show ?thesis
  proof (cases "text = []")
    case False
    with assms(1) have "add_raw key ordinal text hash now c = (Inr (), c')" by simp
    from ins_Inr [OF this [unfolded add_raw_def]] ins_schema [OF this [unfolded add_raw_def]]
    show ?thesis using \<open>find _ (chs0 @ [r]) = Some r\<close> \<open>find _ (raw_chapters (working c)) = None\<close> chs
      by (auto simp: stored_def find_append)
  qed (use assms(1,2) chs in \<open>auto simp: stored_def ret_def\<close>)
qed

lemma mark_receipted:
  assumes "mark_chapter_ingested key hash cost now c = (Inr (), c')"
    and "stored (book_id c) key ordinal hash text (chapters (working c)) (raw_chapters (working c))" and "hash = digest text"
  shows "receipted digest (book_id c) (working c') (key, ordinal)"
proof -
  define i where "i = \<lparr>ig_key = key, ig_book = book_id c, ig_hash = hash, ig_pending = (cost \<noteq> None),
    ig_model = (case cost of None \<Rightarrow> None | Some k \<Rightarrow> rc_model k), ig_in = map_option rc_in cost, ig_out = map_option rc_out cost,
    ig_usd = map_option rc_usd cost, ig_completed = now\<rparr>"
  from assms(1) have ins: "ins (case cost of None \<Rightarrow> [] | Some k \<Rightarrow> [rc_in k, rc_out k]) (\<lambda>book m. ((), m\<lparr>ingested := ingested m @
      [\<lparr>ig_key = key, ig_book = book, ig_hash = hash, ig_pending = (cost \<noteq> None),
        ig_model = (case cost of None \<Rightarrow> None | Some k \<Rightarrow> rc_model k), ig_in = map_option rc_in cost, ig_out = map_option rc_out cost,
        ig_usd = map_option rc_usd cost, ig_completed = now\<rparr>]\<rparr>)) c = (Inr (), c')"
    by (simp add: mark_chapter_ingested_def split: if_splits)
  from ins_Inr [OF ins] have w: "working c' = (working c)\<lparr>ingested := ingested (working c) @ [i]\<rparr>" by (simp add: i_def)
  have i: "ig_key i = key" "ig_book i = book_id c" "ig_hash i = hash" by (simp_all add: i_def)
  have rows: "ingested (working c') = ingested (working c) @ [i]" by (simp add: w)
  have "find (\<lambda>j. ig_key j = key \<and> ig_book j = book_id c) (ingested (working c')) = Some i"
    unfolding rows by (rule find_snoc_distinct(2)) (use ins_schema [OF ins] i in \<open>simp_all add: w schema_ok_def ingested_ok_def\<close>)
  with assms(2,3) i show ?thesis
    by (auto simp: receipted_def completion_row_def live_chapter_row_def stored_def w split: option.splits)
qed

lemma no_raw_without_chapter:
  assumes "schema_ok m" and "list_all (\<lambda>c. ch_key c \<noteq> key) (chapters m)"
  shows "list_all (\<lambda>w. raw_key w \<noteq> key) (raw_chapters m)"
  using assms by (auto simp: schema_ok_def raw_ok_def list_all_iff chapter_exists_def list_ex_iff)

lemma write_chapter_stores:
  assumes "write_chapter dg cosine ch p now c = (Inr (Some w), c')" and "transaction_active c" and "schema_ok (working c)"
  shows "receipted (dg_chapter dg) (book_id c) (working c') (ci_key ch, ci_ordinal ch)"
proof -
  let ?key = "ci_key ch" and ?o = "ci_ordinal ch" and ?h = "dg_chapter dg (ci_text ch)" and ?xv = "pp_extractor p"
  define raw where "raw = (if ci_text ch \<noteq> [] then add_raw ?key ?o (ci_text ch) ?h now else ret ())"
  from assms(1) obtain c1 c2 c3 k c4 c5 u c6 c7 c8 where
    s1: "chapter_is_ingested ?key ?h c = (Inr False, c1)" and s2: "chapter_live ?key c1 = (Inr False, c2)"
    and s3: "ensure_pinned cosine (pp_identity p) c2 = (Inr (), c3)"
    and s4: "add_chapter ?key ?o (href_of ch) (ci_title ch) [] (ci_part ch) ''body'' ?h ?xv now c3 = (Inr k, c4)"
    and s5': "raw c4 = (Inr (), c5)"
    and s6: "add_summary ?key ?o (xt_summary (pp_facts p)) ''chapter'' ?xv now c5 = (Inr u, c6)"
    and s7: "write_facts ?o ?xv now (pp_facts p) (pp_roster p) (pp_decisions p) c6 = (Inr w, c7)"
    and s8: "publish_source_index (digests.truncate dg) cosine False ?key ?o (pp_source p) (pp_passages p) (pp_identity p) now c7 = (Inr (), c8)"
    and s9: "mark_chapter_ingested ?key ?h (pp_cost p) now c8 = (Inr (), c')"
    unfolding write_chapter_def Let_def raw_def [symmetric] by (auto simp: bindA_Inr ret_def raise_def split: if_splits)
  note s5 = s5' [unfolded raw_def]
  have in0: "inside (text_is (chapters (working c)) (raw_chapters (working c))) c"
    using assms(2,3) by (simp add: inside_def text_is_def)
  have in1: "inside (text_is (chapters (working c)) (raw_chapters (working c))) c1"
    using keepsD [OF keeps_statements_text(13) in0, of ?key ?h] s1 by simp
  have in2: "inside (text_is (chapters (working c)) (raw_chapters (working c))) c2"
    using keepsD [OF keeps_statements_text(12) in1, of ?key] s2 by simp
  have in3: "inside (text_is (chapters (working c)) (raw_chapters (working c))) c3"
    using keepsD [OF keeps_ensure_text in2, of cosine "pp_identity p"] s3 by simp
  have b1: "book_id c1 = book_id c" by (rule book_kept [rotated], rule s1) (intro keeps_intros)
  have b2: "book_id c2 = book_id c1" by (rule book_kept [rotated], rule s2) (intro keeps_intros)
  have b3: "book_id c3 = book_id c2" by (rule book_kept [rotated], rule s3) (unfold ensure_pinned_def, intro keeps_intros)
  have b4: "book_id c4 = book_id c3" by (rule book_kept [rotated], rule s4) (intro keeps_intros)
  have b5: "book_id c5 = book_id c4" by (rule book_kept [rotated], rule s5) (intro keeps_intros)
  have b6: "book_id c6 = book_id c5" by (rule book_kept [rotated], rule s6) (intro keeps_intros)
  have b7: "book_id c7 = book_id c6" by (rule book_kept [rotated], rule s7) (intro keeps_intros)
  have b8: "book_id c8 = book_id c7" by (rule book_kept [rotated], rule s8) (intro keeps_intros)
  note books = b1 b2 b3 b4 b5 b6 b7 b8
  have live: "live_chapter_row (book_id c3) ?key (working c3) = None"
  proof -
    from s2 have "live_chapter_row (book_id c1) ?key (working c1) = None"
      unfolding chapter_live_def with_book_def by (auto simp: bindA_Inr ret_def dest!: writer_query_Inr)
    with in1 in3 books show ?thesis by (simp add: live_chapter_row_def inside_def text_is_def)
  qed
  from add_chapter_new [OF s4 live] obtain r where r: "schema_ok (working c4)" "raw_chapters (working c4) = raw_chapters (working c3)"
    "chapters (working c4) = chapters (working c3) @ [r]" "ch_key r = ?key" "f_book r = book_id c3" "f_retracted r = None"
    "f_rev r = ?o" "ch_hash r = ?h" by blast
  have "list_all (\<lambda>x. ch_key x \<noteq> ?key) (chapters (working c3))"
  proof -
    have "distinct (map ch_key (chapters (working c3) @ [r]))"
      using r(1) unfolding schema_ok_def chapters_ok_def r(3) by blast
    with r(4) show ?thesis by (auto simp: list_all_iff) (metis imageI)
  qed
  with in3 have new: "list_all (\<lambda>w. raw_key w \<noteq> ?key) (raw_chapters (working c4))"
    unfolding r(2) by (intro no_raw_without_chapter) (simp_all add: inside_def text_is_def)
  from add_text_stored [OF s5 r(1,3,4) _ r(6-8) new] r(5) b4 have
    st: "schema_ok (working c5)" "stored (book_id c) ?key ?o ?h (ci_text ch) (chapters (working c5)) (raw_chapters (working c5))"
    using books by auto
  have act5: "transaction_active c5"
  proof -
    have "joined (committed c3) c3" using in3 by (simp add: joined_def inside_def)
    moreover have "keeps (joined (committed c3)) (add_chapter ?key ?o (href_of ch) (ci_title ch) [] (ci_part ch) ''body'' ?h ?xv now)"
      "keeps (joined (committed c3)) (if ci_text ch \<noteq> [] then add_raw ?key ?o (ci_text ch) ?h now else ret ())" by (intro keeps_intros)+
    ultimately have "joined (committed c3) c5" using s4 s5 by (metis keepsD snd_conv)
    then show ?thesis by (simp add: joined_def)
  qed
  have in5: "inside (text_is (chapters (working c5)) (raw_chapters (working c5))) c5"
    using st(1) act5 by (simp add: inside_def text_is_def)
  from keepsD [OF keeps_statements_text(10) this, of ?key ?o "xt_summary (pp_facts p)" "''chapter''" ?xv now] s6
  have "inside (text_is (chapters (working c5)) (raw_chapters (working c5))) c6" by simp
  from keepsD [OF keeps_facts_text this, of ?o ?xv now "pp_facts p" "pp_roster p" "pp_decisions p"] s7
  have "inside (text_is (chapters (working c5)) (raw_chapters (working c5))) c7" by simp
  from keepsD [OF keeps_publish_text this, of "digests.truncate dg" cosine False ?key ?o "pp_source p" "pp_passages p" "pp_identity p" now] s8
  have "inside (text_is (chapters (working c5)) (raw_chapters (working c5))) c8" by simp
  with st(2) have "stored (book_id c8) ?key ?o ?h (ci_text ch) (chapters (working c8)) (raw_chapters (working c8))"
    using books by (simp add: inside_def text_is_def)
  from mark_receipted [OF s9 this, where digest = "dg_chapter dg"] books show ?thesis by simp
qed


section \<open>Properties of the commit\<close>

interpretation commit: scoped_body "write_chapter dg cosine ch p now"
  by unfold_locales (rule keeps_write_joined)

lemma chapter_completion_Inr:
  assumes "chapter_completion digest key ordinal h c = (Inr x, c')"
  shows "(x \<noteq> None \<longrightarrow> receipted digest (book_id c) (working c) (key, ordinal)) \<and> working c' = working c \<and> book_id c' = book_id c"
proof -
  have "book_id c' = book_id c"
    by (rule book_kept [rotated], rule assms) (unfold chapter_completion_def chapter_completion_opt_def, intro keeps_intros)
  moreover from assms obtain row where
    row: "writer (query [T_ingested_chapters, T_chapters, T_raw_chapters] (completion_row (book_id c) key)) c = (Inr row, c')"
    and x: "x = (case row of None \<Rightarrow> None | Some r \<Rightarrow> receipt_of digest ordinal (Some h) r)"
    unfolding chapter_completion_def chapter_completion_opt_def with_book_def bindA_ret_Inr by blast
  moreover have weaker: "receipt_of digest ordinal (Some h) t \<noteq> None \<Longrightarrow> receipt_of digest ordinal None t \<noteq> None" for t
    by (auto simp: receipt_of_def Let_def split: prod.splits if_splits)
  have "receipted digest (book_id c) (working c) (key, ordinal)" if some: "x \<noteq> None"
  proof -
    from some x obtain i ch raw where t: "row = Some (i, ch, raw)" and "receipt_of digest ordinal (Some h) (i, ch, raw) \<noteq> None"
      by (cases row) auto
    with weaker have "receipt_of digest ordinal None (i, ch, raw) \<noteq> None" by blast
    moreover have "completion_row (book_id c) key (working c) = Some (i, ch, raw)" using writer_query_Inr [OF row] t by auto
    ultimately show ?thesis using receipt_of_iff [of digest ordinal i ch raw] by (auto simp: receipted_def split: option.splits)
  qed
  ultimately show ?thesis using writer_query_Inr [OF row] by auto
qed

lemma keeps_completion [keeps_intros]:
  "keeps (holds Q) (chapter_completion digest key ordinal h)" "keeps (session_is k) (chapter_completion digest key ordinal h)"
  "keeps (holds Q) (chapter_live key)"
  unfolding chapter_completion_def chapter_completion_opt_def chapter_live_def by (intro keeps_intros)+

lemma keeps_raise_any: "keeps P (raise e)"
  by (rule keeps_raise)

text \<open>What the transaction of a commit leaves: the durable content as it was, or the chapter with its receipt.\<close>

definition settled :: "(string \<Rightarrow> string) \<Rightarrow> string \<Rightarrow> string \<times> int \<Rightarrow> mem \<Rightarrow> mem conn \<Rightarrow> bool" where
  "settled digest book k M c = (book_id c = book \<and> working c = committed c \<and> (committed c = M \<or> receipted digest book (committed c) k))"

lemma commit_settles:
  assumes "transaction (write_chapter dg cosine ch p now) c = (r, c')" and "working c = committed c" and "schema_ok (committed c)"
  shows "settled (dg_chapter dg) (book_id c) (ci_key ch, ci_ordinal ch) (committed c) c'"
proof -
  have book: "book_id c' = book_id c"
    by (rule book_kept [rotated], rule assms(1)) (intro keeps_intros keeps_write_session)
  show ?thesis
  proof (cases r)
    case (Inl e)
    with commit.failure_leaves_durable [of dg cosine ch p now c e c'] assms book show ?thesis by (simp add: settled_def)
  next
    case (Inr w)
    with commit.success_is_body [of dg cosine ch p now c w c'] assms(1) obtain c0 c1 where
      c0: "transaction_enter c = (Inr (), c0)" and body: "write_chapter dg cosine ch p now c0 = (Inr w, c1)"
      and fin: "committed c' = working c1" "working c' = working c1" by blast
    note enter = transaction_enter_Inr [OF c0] transaction_enter_book [OF c0]
    show ?thesis
    proof (cases w)
      case None
      with body have "working c1 = working c0"
        unfolding write_chapter_def Let_def
        by (auto simp: bindA_Inr ret_def raise_def chapter_is_ingested_def with_book_def dest!: writer_query_Inr split: if_splits)
      with fin enter assms(2) book show ?thesis by (simp add: settled_def)
    next
      case (Some v)
      from write_chapter_stores [OF body [unfolded Some]] enter assms(2,3) fin book show ?thesis by (simp add: settled_def)
    qed
  qed
qed


text \<open>\<open>m\<close> takes every state of \<open>P\<close> to one of \<open>Q\<close>, whether it returns or raises.\<close>

definition leads :: "('s \<Rightarrow> bool) \<Rightarrow> ('s, 'a) act \<Rightarrow> ('s \<Rightarrow> bool) \<Rightarrow> bool" where
  "leads P m Q = (\<forall>s. P s \<longrightarrow> Q (snd (m s)))"

lemma leads_bindA:
  assumes "keeps P m" and "\<And>x. leads P (f x) Q" and "\<And>s. P s \<Longrightarrow> Q s"
  shows "leads P (bindA m f) Q"
proof (unfold leads_def, intro allI impI)
  fix s assume "P s"
  obtain r s' where m: "m s = (r, s')" by fastforce
  with assms(1) \<open>P s\<close> have "P s'" by (auto dest: keepsD)
  with m assms(2,3) show "Q (snd (bindA m f s))" by (cases r) (auto simp: bindA_def leads_def)
qed

lemma leads_keeps: "keeps P m \<Longrightarrow> (\<And>s. P s \<Longrightarrow> Q s) \<Longrightarrow> leads P m Q"
  by (auto simp: leads_def keeps_def)

lemma leads_if: "leads P x Q \<Longrightarrow> leads P y Q \<Longrightarrow> leads P (if b then x else y) Q"
  by simp

lemma leads_then:
  assumes "leads P m Q" and "\<And>x. keeps Q (f x)"
  shows "leads P (bindA m f) Q"
proof (unfold leads_def, intro allI impI)
  fix s assume "P s"
  obtain r s' where m: "m s = (r, s')" by fastforce
  with assms(1) \<open>P s\<close> have "Q s'" by (auto simp: leads_def dest!: spec [of _ s])
  with m assms(2) show "Q (snd (bindA m f s))" by (cases r) (auto simp: bindA_def keeps_def)
qed

definition at_rest :: "string \<Rightarrow> mem \<Rightarrow> mem conn \<Rightarrow> bool" where
  "at_rest book M c = (book_id c = book \<and> holds (\<lambda>m. m = M) c)"

lemma keeps_at_rest:
  assumes "\<And>Q. keeps (holds Q) m" and "\<And>k. keeps (session_is k) m"
  shows "keeps (at_rest book M) m"
proof (rule keepsI)
  fix c assume c: "at_rest book M c"
  have "book_id (snd (m c)) = book_id c" using keepsD [OF assms(2), of "(book_id c, active_owner c, env_thread c)" c] by (simp add: session_is_def)
  with c keepsD [OF assms(1), of "\<lambda>m. m = M" c] show "at_rest book M (snd (m c))" by (simp add: at_rest_def)
qed

lemma keeps_rest_reads [keeps_intros]:
  "keeps (at_rest book M) (chapter_completion digest key ordinal h)"
  "keeps (at_rest book M) (chapter_live key)" "keeps (at_rest book M) (all_entities b)"
  by (rule keeps_at_rest; (unfold chapter_completion_def chapter_completion_opt_def chapter_live_def)?, intro keeps_intros)+

lemma keeps_settled [keeps_intros]:
  assumes "\<And>N. keeps (at_rest book N) m"
  shows "keeps (settled digest book k M) m"
proof (rule keepsI)
  fix c assume c: "settled digest book k M c"
  then have "at_rest book (committed c) c" by (simp add: settled_def at_rest_def holds_def)
  from keepsD [OF assms this] c show "settled digest book k M (snd (m c))" by (simp add: settled_def at_rest_def holds_def)
qed

lemma ingest_chapter_leads:
  assumes "schema_ok M"
  shows "leads (at_rest book M) (ingest_chapter dg cosine ch p now) (settled (dg_chapter dg) book (ci_key ch, ci_ordinal ch) M)"
proof -
  have rest: "at_rest book M s \<Longrightarrow> settled (dg_chapter dg) book (ci_key ch, ci_ordinal ch) M s" for s
    by (simp add: at_rest_def settled_def holds_def)
  have "leads (at_rest book M) (transaction (write_chapter dg cosine ch p now)) (settled (dg_chapter dg) book (ci_key ch, ci_ordinal ch) M)"
    unfolding leads_def
  proof (intro allI impI)
    fix c assume c: "at_rest book M c"
    show "settled (dg_chapter dg) book (ci_key ch, ci_ordinal ch) M (snd (transaction (write_chapter dg cosine ch p now) c))"
      using commit_settles [of dg cosine ch p now c, OF surjective_pairing] c assms by (simp add: at_rest_def holds_def)
  qed
  note commit = this
  show ?thesis
  proof (cases "pp_clearance p")
    case None
    then show ?thesis by (simp add: ingest_chapter_def Let_def) (intro impI conjI leads_keeps [OF keeps_raise] rest)
  next
    case (Some k)
    show ?thesis
      unfolding ingest_chapter_def Let_def Some option.case
      by (intro leads_if leads_keeps [OF keeps_raise] leads_keeps [OF keeps_ret] leads_bindA rest
          leads_then [OF commit] keeps_rest_reads keeps_settled keeps_bindA keeps_if keeps_ret keeps_raise)
  qed
qed

lemma chapter_completion_here:
  "chapter_completion digest key ordinal h c = (Inr x, c') \<Longrightarrow> x \<noteq> None \<longrightarrow> receipted digest (book_id c') (working c') (key, ordinal)"
  by (drule chapter_completion_Inr) auto

lemma ingest_chapter_Inr:
  assumes "ingest_chapter dg cosine ch p now c = (Inr w, c')"
  shows "receipted (dg_chapter dg) (book_id c') (working c') (ci_key ch, ci_ordinal ch)"
  using assms unfolding ingest_chapter_def Let_def
  by (auto simp: bindA_Inr ret_def raise_def split: if_splits option.splits dest!: chapter_completion_here)

text \<open>
  Property C2: a commit either leaves the durable content of the book as it was, or leaves the
  chapter with a receipt that counts; when it returns, the receipt is there. A crash of any statement,
  a refused commit or a failed rollback never leaves half a chapter behind.
\<close>
theorem chapter_commit_leaves_a_receipt:
  assumes "ingest_chapter dg cosine ch p now c = (r, c')" and "working c = committed c" and "schema_ok (committed c)"
  shows "working c' = committed c' \<and> (committed c' = committed c \<or> receipted (dg_chapter dg) (book_id c) (committed c') (ci_key ch, ci_ordinal ch)) \<and>
    (r = Inr w \<longrightarrow> receipted (dg_chapter dg) (book_id c) (committed c') (ci_key ch, ci_ordinal ch))"
proof -
  have "at_rest (book_id c) (committed c) c" using assms(2) by (simp add: at_rest_def holds_def)
  with ingest_chapter_leads [OF assms(3), of "book_id c" dg cosine ch p now] assms(1)
  have s: "settled (dg_chapter dg) (book_id c) (ci_key ch, ci_ordinal ch) (committed c) c'" by (auto simp: leads_def dest!: spec [of _ c])
  moreover have "receipted (dg_chapter dg) (book_id c) (committed c') (ci_key ch, ci_ordinal ch)" if "r = Inr w"
    using ingest_chapter_Inr [of dg cosine ch p now c w c'] assms(1) that s by (simp add: settled_def)
  ultimately show ?thesis by (auto simp: settled_def)
qed

definition sample_digests :: pipeline_digests where
  "sample_digests = \<lparr>dg_chapter = (\<lambda>s. ''h'' @ s), dg_source = concat, dg_text = (\<lambda>s. ''t'' @ s),
     dg_facts = (\<lambda>x. xt_summary x), dg_scope = (\<lambda>(s, _). s)\<rparr>"

definition sample_chapter :: chapter_in where
  "sample_chapter = \<lparr>ci_ordinal = 3, ci_key = ''b:k3'', ci_href = None, ci_title = ''Three'', ci_part = [], ci_text = ''abc'', ci_hash = None\<rparr>"

definition sample_facts :: facts where
  "sample_facts = \<lparr>xt_summary = ''All of it'', xt_entities = [\<lparr>eo_name = ''Cy'', eo_type = ''character'', eo_aliases = [''C.''], eo_matched = False, eo_state = Some ''sad''\<rparr>],
     xt_relationships = [], xt_events = [\<lparr>vo_summary = ''Cy wept'', vo_participants = [''Cy'', ''Ed'']\<rparr>],
     xt_themes = []\<rparr>"

definition sample_prepared :: "roster_entry list \<Rightarrow> prepared" where
  "sample_prepared roster = \<lparr>pp_key = ''b:k3'', pp_ordinal = 3, pp_hash = ''habc'', pp_facts = sample_facts,
     pp_identity = \<lparr>mi_extractor = Some ''x1'', mi_synth = Some ''s1'', mi_embed = Some ''e1'', mi_dim = Some 2, mi_canary = Some (JList [JInt 1]), mi_schema = None\<rparr>,
     pp_extractor = ''x1'', pp_roster = roster,
     pp_decisions = map (\<lambda>e. (e, Create False False)) (xt_entities sample_facts),
     pp_passages = map (\<lambda>p. p\<lparr>pg_vec := Some [JInt 1, JInt 0]\<rparr>) (source_passages ''abc''),
     pp_source = source_digest concat ''Three'' ''abc'', pp_cost = None,
     pp_clearance = Some \<lparr>kl_source = ''tabc'', kl_payload = ''All of it''\<rparr>, pp_resolution = Some ''abc''\<rparr>"

definition commit_conn :: "mem conn" where
  "commit_conn = conn_on ''b'' 7 (empty_mem\<lparr>meta := [meta_at ''b'' None None ''und'']\<rparr>)"

definition commit_run :: "written option res \<times> mem conn" where
  "commit_run = ingest_chapter sample_digests (\<lambda>_ _. 1) sample_chapter (sample_prepared []) ''now'' commit_conn"

theorem chapter_commit_leaves_a_receipt_witness:
  "fst commit_run = Inr (Some \<lparr>wn_entities = [1], wn_unresolved = 0, wn_dropped = 1\<rparr>) \<and>
   receipted (dg_chapter sample_digests) ''b'' (committed (snd commit_run)) (''b:k3'', 3)"
proof -
  have fine: "fst commit_run = Inr (Some \<lparr>wn_entities = [1], wn_unresolved = 0, wn_dropped = 1\<rparr>)" by code_simp
  have "working commit_conn = committed commit_conn" "book_id commit_conn = ''b''" by (simp_all add: commit_conn_def conn_on_def)
  moreover have "schema_ok (committed commit_conn)" by code_simp
  ultimately show ?thesis
    using chapter_commit_leaves_a_receipt [of sample_digests "\<lambda>_ _. 1" sample_chapter "sample_prepared []" "''now''" commit_conn "fst commit_run" "snd commit_run"] fine
    by (simp add: commit_run_def sample_chapter_def)
qed

section \<open>The commit keeps what earlier bookmarks show\<close>

lemma holds_conj: "holds (\<lambda>m. Q m \<and> R m) c = (holds Q c \<and> holds R c)"
  by (auto simp: holds_def)

lemma keeps_holds_conj:
  assumes "keeps (holds Q) m" and "keeps (holds R) m"
  shows "keeps (holds (\<lambda>m. Q m \<and> R m)) m"
  using assms by (auto simp: holds_conj keeps_def)

lemma keeps_exec_dml_schema: "keeps (holds schema_ok) (exec_dml reads ints g)"
  unfolding exec_dml_def
  by (rule keeps_stmt_holds) (fastforce dest!: bind_ints_Inr simp: constrained_def split: if_splits)

lemma keeps_ins_schema: "keeps (holds schema_ok) (ins ints f)"
proof (rule keepsI)
  fix c assume "holds schema_ok c"
  moreover have "keeps (holds schema_ok) (writer (exec_dml [] ints (f (book_id c))))"
    by (intro keeps_intros keeps_exec_dml_schema)
  ultimately show "holds schema_ok (snd (ins ints f c))" by (simp add: ins_def exec_dml_def keepsD)
qed

lemma keeps_statements_schema [keeps_intros]:
  "keeps (holds schema_ok) (add_alias a1 a2 a3 a4)" "keeps (holds schema_ok) (add_entity b1 b2 b3 b4 b5)"
  "keeps (holds schema_ok) (add_state c1 c2 c3 c4 c5 c6)" "keeps (holds schema_ok) (replace_state d1 d2 d3 d4 d5)"
  "keeps (holds schema_ok) (add_edge e1 e2 e3 e4 e5 e6 e7 e8)" "keeps (holds schema_ok) (add_event g1 g2 g3 g4 g5 g6 g7 g8)"
  "keeps (holds schema_ok) (add_theme h1 h2 h3 h4 h5)" "keeps (holds schema_ok) (add_chunk i1 i2 i3 i4 i5 i6 i7 i8 i9 i10)"
  "keeps (holds schema_ok) (retract_chunks j1 j2)" "keeps (holds schema_ok) (add_raw k1 k2 k3 k4 k5)"
  "keeps (holds schema_ok) (add_summary l1 l2 l3 l4 l5 l6)" "keeps (holds schema_ok) (add_chapter m1 m2 m3 m4 m5 m6 m7 m8 m9 m10)"
  "keeps (holds schema_ok) (pin_models n1 n2 n3 n4 n5)"
  unfolding statement_defs by (intro keeps_intros keeps_ins_schema keeps_exec_dml_schema)+

lemma keeps_mark_schema [keeps_intros]: "keeps (holds schema_ok) (mark_chapter_ingested key hash cost now)"
  by (rule keepsI) (auto simp: mark_chapter_ingested_def intro: keepsD [OF keeps_ins_schema])

text \<open>The contents an earlier bookmark sees are these, and the constraints hold.\<close>

definition seen_as :: "int \<Rightarrow> mem \<Rightarrow> mem conn \<Rightarrow> bool" where
  "seen_as b H = holds (\<lambda>m. horizon b m = H \<and> schema_ok m)"

lemma keeps_seen_as:
  "keeps (holds (\<lambda>m. horizon b m = H)) m \<Longrightarrow> keeps (holds schema_ok) m \<Longrightarrow> keeps (seen_as b H) m"
  unfolding seen_as_def by (rule keeps_holds_conj)

lemma horizon_unseen:
  "horizon b (m\<lparr>meta := x1\<rparr>) = horizon b m" "horizon b (m\<lparr>index_chapters := x2\<rparr>) = horizon b m"
  "horizon b (m\<lparr>index_batches := x3\<rparr>) = horizon b m"
  by (simp_all add: horizon_def)

lemma keeps_seen_exec:
  assumes "\<And>m. horizon b m = H \<Longrightarrow> horizon b (snd (f m)) = horizon b m"
  shows "keeps (seen_as b H) (exec_dml reads ints f)"
  by (intro keeps_seen_as keeps_exec_dml_frame keeps_exec_dml_schema assms)

lemma keeps_seen_writer [keeps_intros]: "keeps (seen_as b H) m \<Longrightarrow> keeps (seen_as b H) (writer m)"
  unfolding seen_as_def by (intro keeps_intros)

lemma keeps_seen_transaction [keeps_intros]: "keeps (seen_as b H) m \<Longrightarrow> keeps (seen_as b H) (transaction m)"
  unfolding seen_as_def by (intro keeps_intros)

lemma keeps_seen_reads [keeps_intros]:
  "keeps (seen_as b H) (chapter_live key)" "keeps (seen_as b H) (chapter_is_ingested key hash)" "keeps (seen_as b H) pinned_identity"
  "keeps (seen_as b H) (index_source_of dg key ordinal require)" "keeps (seen_as b H) (chapter_completion digest key ordinal h)"
  unfolding seen_as_def chapter_is_ingested_def by (intro keeps_intros)+

lemma keeps_seen_pin [keeps_intros]: "keeps (seen_as b H) (pin_models n1 n2 n3 n4 n5)"
  unfolding pin_models_def by (intro keeps_intros keeps_seen_exec) (simp_all add: horizon_unseen)

lemma keeps_seen_retract [keeps_intros]:
  assumes "list_all (\<lambda>k. ck_key k \<noteq> key) (chunks H)"
  shows "keeps (seen_as b H) (retract_chunks key now)"
  unfolding retract_chunks_def
proof (intro keeps_intros keeps_seen_exec)
  fix book m assume m: "horizon b m = H"
  have "cut_at b (retract_rows (\<lambda>k. f_book k = book \<and> ck_key k = key) now (chunks m)) = cut_at b (chunks m)"
  proof (unfold retract_rows_def, rule cut_update_where_mem)
    fix r assume r: "r \<in> set (chunks m)" "f_retracted r = None \<and> f_book r = book \<and> ck_key r = key" "f_rev r \<le> b"
    then have "veil b r \<in> set (chunks H)" using m by (auto simp: horizon_def cut_at_def)
    with assms r(2) have False by (auto simp: list_all_iff)
    then show "veil b (r\<lparr>f_retracted := Some now\<rparr>) = veil b r" ..
  qed simp
  then show "horizon b (snd ((), m\<lparr>chunks := retract_rows (\<lambda>k. f_book k = book \<and> ck_key k = key) now (chunks m)\<rparr>)) = horizon b m"
    by (simp add: horizon_updates)
qed

lemma keeps_bindA_read:
  assumes "keeps P m" and "\<And>x s s'. P s \<Longrightarrow> m s = (Inr x, s') \<Longrightarrow> keeps P (f x)"
  shows "keeps P (bindA m f)"
proof (rule keepsI)
  fix s assume "P s"
  obtain r s' where m: "m s = (r, s')" by fastforce
  with assms(1) \<open>P s\<close> have "P s'" by (auto dest: keepsD)
  with m assms(2) [OF \<open>P s\<close>] show "P (snd (bindA m f s))" by (cases r) (auto simp: bindA_def keeps_def)
qed

text \<open>A current state at the ordinal of the chapter has not ended by an earlier bookmark.\<close>

lemma current_state_unended:
  assumes "current_state ordinal i c = (Inr (Some (st, seen, j)), c')" and "seen_as b H c" and "b < ordinal"
  shows "list_all (\<lambda>s. st_id s \<noteq> st \<or> f_invalid s = None) (states H)"
proof -
  from assms(1) obtain rows where rows: "select T_entity_state states (\<lambda>r. (st_id r, f_rev r, st_status r)) (PyInt ordinal) [i]
        (\<lambda>book m r. st_entity r = i \<and> vis_entity ordinal book m (st_entity r)) (\<lambda>r. (- f_rev r, - st_id r)) c = (Inr rows, c')"
    and row: "Some (st, seen, j) = (case rows of [] \<Rightarrow> None | r # _ \<Rightarrow> Some r)"
    unfolding current_state_def bindA_ret_Inr by blast
  from row have "(st, seen, j) \<in> set rows" by (cases rows) auto
  from tab_states.select_sound [OF rows this] obtain r where r: "r \<in> set (states (working c))" "st = st_id r"
    "spoiler_clause T_entity_state (book_id c) ordinal r" by auto
  have ids: "distinct (map st_id (states (working c)))" and H: "H = horizon b (working c)"
    using assms(2) by (auto simp: seen_as_def holds_def schema_ok_def states_ok_def)
  have "f_invalid (veil b s) = None" if s: "s \<in> set (states (working c))" "st_id s = st" for s
  proof -
    have "s = r" using ids s r(1,2) by (auto simp: distinct_map inj_on_def)
    with r(3) assms(3) show ?thesis by (auto simp: spoiler_clause_def veil_def split: option.splits)
  qed
  then show ?thesis by (auto simp: H horizon_def cut_at_def list_all_iff)
qed

lemma keeps_seen_note:
  assumes "b < ordinal"
  shows "keeps (seen_as b H) (write_note ordinal xv now n)"
proof (cases n)
  case (Pair i s)
  have add: "keeps (seen_as b H) (voidA (add_state i ordinal x y xv now))" for x y
    by (intro keeps_voidA keeps_seen_as frame_inserts keeps_intros assms)
  have "keeps (seen_as b H) (bindA (current_state ordinal i) (\<lambda>cur. case cur of
       None \<Rightarrow> voidA (add_state i ordinal (JObj [(''note'', JStr s)]) None xv now)
     | Some (st, seen, _) \<Rightarrow> if seen < ordinal then voidA (replace_state st ordinal (JObj [(''note'', JStr s)]) xv now) else ret ()))"
  proof (rule keeps_bindA_read, rule keeps_current_state)
    fix x c c' assume c: "seen_as b H c" "current_state ordinal i c = (Inr x, c')"
    show "keeps (seen_as b H) (case x of
       None \<Rightarrow> voidA (add_state i ordinal (JObj [(''note'', JStr s)]) None xv now)
     | Some (st, seen, _) \<Rightarrow> if seen < ordinal then voidA (replace_state st ordinal (JObj [(''note'', JStr s)]) xv now) else ret ())"
    proof (cases x)
      case (Some t)
      obtain st seen j where t: "t = (st, seen, j)" by (cases t)
      note old = current_state_unended [OF c(2) [unfolded Some t] c(1) assms]
      show ?thesis unfolding Some t by simp (intro conjI impI keeps_voidA keeps_seen_as frame_replace_state keeps_intros assms old)
    qed (simp add: add)
  qed
  moreover have "bindA (liftA (view (PyInt ordinal))) f = f ordinal" for f :: "int \<Rightarrow> (mem conn, unit) act"
    by (simp add: bindA_def liftA_def view_def fun_eq_iff)
  ultimately show ?thesis by (simp add: write_note_def Pair)
qed

lemma keeps_seen_publish:
  assumes "b < ordinal" and "list_all (\<lambda>k. ck_key k \<noteq> key) (chunks H)"
  shows "keeps (seen_as b H) (publish_source_index dg cosine req key ordinal h ps identity now)"
proof (rule keepsI)
  fix c assume c: "seen_as b H c"
  have "keeps (seen_as b H) (publish_body dg cosine req key ordinal h ps identity now)"
    by (intro keeps_publish_body keeps_add_window keeps_seen_as [OF frame_add_chunk] keeps_seen_retract keeps_seen_reads
        keeps_statements_schema keeps_seen_exec keeps_seen_writer assms)
      (simp_all add: upsert_index_chapter_def horizon_unseen)
  from keepsD [OF this c] keepsD [OF keeps_seen_transaction [OF this] c]
  show "seen_as b H (snd (publish_source_index dg cosine req key ordinal h ps identity now c))" by (simp add: publish_source_index_def)
qed

lemma keeps_seen_write:
  assumes "b < ci_ordinal ch" and "list_all (\<lambda>c. ch_key c \<noteq> ci_key ch) (chapters H)" and "list_all (\<lambda>k. ck_key k \<noteq> ci_key ch) (chunks H)"
  shows "keeps (seen_as b H) (write_chapter dg cosine ch p now)"
proof -
  note add = frame_add_chapter [OF assms(1,2)] frame_inserts [OF assms(1)] frame_add_event [OF assms(1)] frame_mark
  have facts: "keeps (seen_as b H) (write_facts (ci_ordinal ch) xv now x roster ds)" for xv x roster ds
    by (intro keeps_write_facts keeps_seen_note keeps_seen_as add keeps_intros assms(1))
  show ?thesis
    unfolding write_chapter_def Let_def ensure_pinned_def
    by (intro facts keeps_bindA keeps_if keeps_ret keeps_raise keeps_liftA keeps_seen_reads keeps_seen_pin keeps_seen_publish assms
        keeps_seen_as add keeps_statements_schema keeps_mark_schema)
qed


lemma keeps_seen_ingest:
  assumes "b < ci_ordinal ch" and "list_all (\<lambda>c. ch_key c \<noteq> ci_key ch) (chapters H)" and "list_all (\<lambda>k. ck_key k \<noteq> ci_key ch) (chunks H)"
  shows "keeps (seen_as b H) (ingest_chapter dg cosine ch p now)"
  unfolding ingest_chapter_def Let_def
  by (intro keeps_bindA keeps_if keeps_ret keeps_raise keeps_case_option keeps_seen_reads keeps_all_entities keeps_seen_transaction keeps_seen_write assms)

lemma ingest_chapter_session: "keeps (session_is k) (ingest_chapter dg cosine ch p now)"
  unfolding ingest_chapter_def Let_def
  by (intro keeps_bindA keeps_if keeps_ret keeps_raise keeps_case_option keeps_completion keeps_statements_session keeps_all_entities
      keeps_transaction_session keeps_write_session)

text \<open>
  Property C39: committing a chapter changes nothing that an earlier bookmark shows. Whatever the commit does,
  successfully or not, every structured read at a bookmark before the chapter answers as before, as long
  as the chapter key is not known at that bookmark and no failed rollback poisons the connection.
\<close>
theorem chapter_commit_keeps_earlier_views:
  assumes "working c = committed c" and "schema_ok (committed c)" and "b < ci_ordinal ch"
    and "list_all (\<lambda>r. ch_key r \<noteq> ci_key ch) (chapters (horizon b (committed c)))"
    and "list_all (\<lambda>k. ck_key k \<noteq> ci_key ch) (chunks (horizon b (committed c)))"
    and "poisoned (snd (ingest_chapter dg cosine ch p now c)) = poisoned c"
  shows "fst (view_read (PyInt b) q (snd (ingest_chapter dg cosine ch p now c))) = fst (view_read (PyInt b) q c)"
proof -
  let ?c = "snd (ingest_chapter dg cosine ch p now c)"
  have "seen_as b (horizon b (committed c)) c" using assms(1,2) by (simp add: seen_as_def holds_def)
  from keepsD [OF keeps_seen_ingest [OF assms(3-5)] this] have "horizon b (working ?c) = horizon b (working c)"
    using assms(1) by (simp add: seen_as_def holds_def)
  moreover have "session_is (book_id c, active_owner c, env_thread c) ?c"
    by (rule keepsD [OF ingest_chapter_session]) (simp add: session_is_def)
  ultimately have "low b ?c c" using assms(6) by (simp add: low_def session_is_def)
  moreover have "blind b (view_read (PyInt b) q)" unfolding view_read_PyInt by (rule blind_read_at)
  ultimately show ?thesis by (metis blindD(2))
qed

text \<open>A second chapter of the sample book, whose roster is what the first one left.\<close>

definition told_conn :: "mem conn" where
  "told_conn = conn_on ''b'' 7 (sample_mem\<lparr>meta := [meta_at ''b'' None None ''und'']\<rparr>)"

theorem chapter_commit_keeps_earlier_views_witness:
  "succeeded (fst (ingest_chapter sample_digests (\<lambda>_ _. 1) sample_chapter (sample_prepared (case fst (all_entities 2 told_conn) of Inr r \<Rightarrow> r | Inl _ \<Rightarrow> [])) ''now'' told_conn)) \<and>
   fst (view_read (PyInt 2) Q_characters (snd (ingest_chapter sample_digests (\<lambda>_ _. 1) sample_chapter
     (sample_prepared (case fst (all_entities 2 told_conn) of Inr r \<Rightarrow> r | Inl _ \<Rightarrow> [])) ''now'' told_conn))) =
   fst (view_read (PyInt 2) Q_characters told_conn)"
proof
  show "succeeded (fst (ingest_chapter sample_digests (\<lambda>_ _. 1) sample_chapter (sample_prepared (case fst (all_entities 2 told_conn) of Inr r \<Rightarrow> r | Inl _ \<Rightarrow> [])) ''now'' told_conn))"
    by code_simp
  show "fst (view_read (PyInt 2) Q_characters (snd (ingest_chapter sample_digests (\<lambda>_ _. 1) sample_chapter
     (sample_prepared (case fst (all_entities 2 told_conn) of Inr r \<Rightarrow> r | Inl _ \<Rightarrow> [])) ''now'' told_conn))) =
   fst (view_read (PyInt 2) Q_characters told_conn)"
  proof (rule chapter_commit_keeps_earlier_views)
    show "working told_conn = committed told_conn" by (simp add: told_conn_def conn_on_def)
    show "schema_ok (committed told_conn)" by code_simp
    show "2 < ci_ordinal sample_chapter" by (simp add: sample_chapter_def)
    show "list_all (\<lambda>r. ch_key r \<noteq> ci_key sample_chapter) (chapters (horizon 2 (committed told_conn)))" by code_simp
    show "list_all (\<lambda>k. ck_key k \<noteq> ci_key sample_chapter) (chunks (horizon 2 (committed told_conn)))" by code_simp
    show "poisoned (snd (ingest_chapter sample_digests (\<lambda>_ _. 1) sample_chapter
     (sample_prepared (case fst (all_entities 2 told_conn) of Inr r \<Rightarrow> r | Inl _ \<Rightarrow> [])) ''now'' told_conn)) = poisoned told_conn" by code_simp
  qed
qed

end
