(* ===== verification/Published.thy ===== *)
theory Published imports Pipeline begin

text \<open>
  What \<^verbatim>\<open>publish_source_index\<close> of \<^verbatim>\<open>backend/app/memory/source_index.py\<close> leaves in the book:
  the live windows of the chapter are the windows of its verified text.
\<close>

section \<open>What a publication leaves\<close>

definition live_windows :: "string \<Rightarrow> string \<Rightarrow> chunk_row list \<Rightarrow> chunk_row list" where
  "live_windows book key cs = filter (\<lambda>k. f_book k = book \<and> ck_key k = key \<and> f_retracted k = None) cs"

definition window_of :: "chunk_row \<Rightarrow> int option \<times> int option \<times> string" where
  "window_of k = (ck_start k, ck_end k, ck_text k)"

definition passage_of :: "json list passage \<Rightarrow> int option \<times> int option \<times> string" where
  "passage_of p = (Some (int (pg_start p)), Some (int (pg_end p)), pg_text p)"

lemma live_windows_retracted:
  "live_windows book key (retract_rows (\<lambda>k. f_book k = book \<and> ck_key k = key) now cs) = []"
proof (induction cs)
  case (Cons k cs)
  then show ?case by (simp add: live_windows_def retract_rows_def update_where_def) blast
qed (simp add: live_windows_def retract_rows_def update_where_def)

lemma add_window_Inr:
  assumes "add_window key ordinal h p c = (Inr i, c')"
  shows "\<exists>k. chunks (working c') = chunks (working c) @ [k] \<and> f_book k = book_id c \<and> ck_key k = key \<and> f_retracted k = None \<and>
    window_of k = passage_of p \<and> f_rev k = ordinal \<and> ck_hash k = Some h"
proof -
  from assms obtain pin c1 em ed where
    pin: "pinned_identity c = (Inr pin, c1)" and ins: "ins ([ordinal, ed] @ opt_ints (Some (int (pg_start p))) @ opt_ints (Some (int (pg_end p)))) (\<lambda>book m.
         let i = next_rowid (map ck_id (chunks m)) in (i, m\<lparr>chunks := chunks m @
         [\<lparr>f_book = book, f_rev = ordinal, f_invalid = None, f_retracted = None, ck_id = i, ck_key = key,
           ck_text = pg_text p, ck_vec = JList (case pg_vec p of None \<Rightarrow> [] | Some v \<Rightarrow> v), ck_model = em, ck_dim = ed, ck_version = Some PASSAGE_INDEX_VERSION, ck_hash = Some h,
           ck_start = Some (int (pg_start p)), ck_end = Some (int (pg_end p))\<rparr>]\<rparr>)) c1 = (Inr i, c')"
    unfolding add_window_def add_chunk_def by (auto simp: bindA_Inr raise_def liftA_def split: sum.splits if_splits)
  have "book_id c1 = book_id c" by (rule book_kept [rotated], rule pin) (intro keeps_intros)
  moreover have "working c1 = working c"
    using pin unfolding pinned_identity_def with_book_def by (auto dest!: writer_query_Inr)
  ultimately show ?thesis using ins_Inr [OF ins] by (auto simp: Let_def window_of_def passage_of_def)
qed

lemma add_windows_Inr:
  assumes "for_each (add_window key ordinal h) ps c = (Inr is, c')"
  shows "\<exists>ks. chunks (working c') = chunks (working c) @ ks \<and> map window_of ks = map passage_of ps \<and>
    list_all (\<lambda>k. f_book k = book_id c \<and> ck_key k = key \<and> f_retracted k = None \<and> f_rev k = ordinal \<and> ck_hash k = Some h) ks"
  using assms
proof (induction ps arbitrary: c "is")
  case (Cons p ps)
  then obtain i c1 js where one: "add_window key ordinal h p c = (Inr i, c1)" and rest: "for_each (add_window key ordinal h) ps c1 = (Inr js, c')"
    by (auto simp: bindA_Inr ret_def)
  have "book_id c1 = book_id c"
    by (rule book_kept [rotated], rule one) (unfold add_window_def, intro keeps_intros)
  with add_window_Inr [OF one] Cons.IH [OF rest] show ?case
    by (elim exE conjE) (rule exI [where x = "_ # _"], auto)
qed (simp add: ret_def)

lemma index_source_of_Inr:
  assumes "index_source_of dg key ordinal req c = (Inr s, c')"
  shows "\<exists>ch raw. source_row (book_id c) key (working c) = Some (ch, raw) \<and> f_rev ch = ordinal \<and>
    ch_hash ch = dg_chapter dg (row_text raw) \<and> so_passages s = source_passages (row_text raw) \<and>
    so_hash s = source_digest (dg_source dg) (ch_title ch) (row_text raw) \<and> working c' = working c \<and> book_id c' = book_id c"
proof -
  have book: "book_id c' = book_id c" by (rule book_kept [rotated], rule assms) (intro keeps_intros)
  from assms obtain row c1 where row: "writer (query [T_chapters, T_raw_chapters] (source_row (book_id c) key)) c = (Inr row, c1)"
    and rest: "(case row of
       None \<Rightarrow> raise (ValueError ''source index requires a live chapter at the exact ordinal'')
     | Some (ch, raw) \<Rightarrow>
         if f_rev ch \<noteq> ordinal then raise (ValueError ''source index requires a live chapter at the exact ordinal'')
         else if ch_hash ch \<noteq> dg_chapter dg (row_text raw)
           \<or> (case raw of None \<Rightarrow> False | Some r \<Rightarrow> raw_hash r \<noteq> dg_chapter dg (row_text raw) \<or> f_rev r \<noteq> ordinal)
         then raise (ValueError ''source index requires verified unchanged raw chapter text'')
         else bindA (if req then chapter_completion (dg_chapter dg) key ordinal (dg_chapter dg (row_text raw)) else ret (Some None)) (\<lambda>receipt.
           if receipt = None then raise (ValueError ''source index requires a durable completed chapter'')
           else ret \<lparr>so_title = ch_title ch, so_text = row_text raw, so_hash = source_digest (dg_source dg) (ch_title ch) (row_text raw),
             so_passages = source_passages (row_text raw)\<rparr>)) c1 = (Inr s, c')"
    unfolding index_source_of_def with_book_def bindA_Inr by blast
  from writer_query_Inr [OF row] have found: "row = source_row (book_id c) key (working c)" "working c1 = working c" by blast+
  from rest obtain ch raw where r: "row = Some (ch, raw)" by (cases row) (auto simp: raise_def)
  from rest r obtain receipt where fields: "f_rev ch = ordinal" "ch_hash ch = dg_chapter dg (row_text raw)"
    and receipt: "(if req then chapter_completion (dg_chapter dg) key ordinal (dg_chapter dg (row_text raw)) else ret (Some None)) c1 = (Inr receipt, c')"
    and s: "s = \<lparr>so_title = ch_title ch, so_text = row_text raw, so_hash = source_digest (dg_source dg) (ch_title ch) (row_text raw),
             so_passages = source_passages (row_text raw)\<rparr>"
    by (auto simp: bindA_Inr raise_def ret_def split: if_splits)
  from receipt have "working c' = working c1"
    by (cases req) (auto simp: ret_def dest!: chapter_completion_Inr)
  with found r fields s book show ?thesis by (intro exI [where x = ch] exI [where x = raw]) simp
qed

lemma check_passages_exact:
  assumes "check_passages False expected dm i seen ps = Inr ()" and "length ps = length expected - i"
  shows "map passage_of ps = map passage_of (drop i expected)"
  using assms
proof (induction ps arbitrary: i seen)
  case (Cons p ps)
  then have i: "i < length expected" by (auto simp: target_of_def split: if_splits)
  with Cons.prems(1) have "exact_window (expected ! i) p" "check_passages False expected dm (Suc i) (pg_start p # seen) ps = Inr ()"
    by (auto simp: target_of_def split: if_splits sum.splits)
  with Cons.IH [of "Suc i" "pg_start p # seen"] Cons.prems(2) show ?case
    by (auto simp: Cons_nth_drop_Suc [OF i, symmetric] exact_window_def passage_of_def)
qed simp

interpretation publication: scoped_body "publish_body dg cosine req key ordinal h ps identity now"
  by unfold_locales (rule keeps_publish_body_joined)

text \<open>
  Property C40: a published retrieval index is exact. When \<^verbatim>\<open>publish_source_index\<close> returns, the live
  chunks of the chapter are its windows and nothing else: same offsets and text, in order, of the stored
  raw text whose digest the live chapter carries, all revealed with the chapter; the windows it had before
  are retracted.
\<close>
theorem published_index_is_exact:
  assumes "publish_source_index dg cosine req key ordinal h ps identity now c = (Inr (), c')"
  shows "\<exists>ch raw. source_row (book_id c) key (working c) = Some (ch, raw) \<and> f_rev ch = ordinal \<and>
    ch_hash ch = dg_chapter dg (row_text raw) \<and> h = source_digest (dg_source dg) (ch_title ch) (row_text raw) \<and>
    map window_of (live_windows (book_id c) key (chunks (working c'))) = map (\<lambda>(a, b, p). (Some (int a), Some (int b), p)) (passage_windows (row_text raw)) \<and>
    list_all (\<lambda>k. f_rev k = ordinal \<and> ck_hash k = Some h) (live_windows (book_id c) key (chunks (working c')))"
proof -
  obtain c0 c1 where body: "publish_body dg cosine req key ordinal h ps identity now c0 = (Inr (), c1)"
    and c0: "working c0 = working c" "book_id c0 = book_id c" and c1: "working c' = working c1"
  proof (cases "transaction_active c")
    case True
    with assms that [of c c'] show ?thesis by (simp add: publish_source_index_def)
  next
    case False
    with assms have "transaction (publish_body dg cosine req key ordinal h ps identity now) c = (Inr (), c')"
      by (simp add: publish_source_index_def)
    from publication.success_is_body [OF this] obtain a b where "transaction_enter c = (Inr (), a)"
      "publish_body dg cosine req key ordinal h ps identity now a = (Inr (), b)" "working c' = working b" by blast
    with that [of a b] show ?thesis by (simp add: transaction_enter_Inr transaction_enter_book)
  qed
  from body obtain s c2 em dm c3 where
    s: "index_source_of dg key ordinal req c0 = (Inr s, c2)" and h: "so_hash s = h"
    and pin: "index_pin cosine identity c2 = (Inr (em, dm), c3)"
    and ok: "validated_passages False (so_passages s) ps dm = Inr ()"
    and wr: "writer (
       bindA (retract_chunks key now) (\<lambda>_.
       bindA (for_each (add_window key ordinal h) ps) (\<lambda>_.
       bindA (case dm of None \<Rightarrow> raise (IntegrityError ''embed_dim'') | Some d \<Rightarrow>
         exec_dml [T_retrieval_index_chapters] [ordinal, d] (\<lambda>m. ((), upsert_index_chapter (book_id c3) key ordinal h em d (int (length ps)) now m))) (\<lambda>_.
         exec_dml [T_retrieval_index_batches] [] (\<lambda>m. ((), m\<lparr>index_batches := filter (\<lambda>r. \<not> (f_book r = book_id c3 \<and> rb_key r = key)) (index_batches m)\<rparr>)))))) c3 = (Inr (), c1)"
    unfolding publish_body_def with_book_def by (auto simp: bindA_Inr raise_def liftA_def split: if_splits)
  from writer_Inr [OF wr] obtain c6 c7 c8 "is" d c9 where
    r1: "retract_chunks key now (c3\<lparr>engaged := True\<rparr>) = (Inr (), c6)" and r2: "for_each (add_window key ordinal h) ps c6 = (Inr is, c7)"
    and "exec_dml [T_retrieval_index_chapters] [ordinal, d] (\<lambda>m. ((), upsert_index_chapter (book_id c3) key ordinal h em d (int (length ps)) now m)) c7 = (Inr (), c8)"
    and "exec_dml [T_retrieval_index_batches] [] (\<lambda>m. ((), m\<lparr>index_batches := filter (\<lambda>r. \<not> (f_book r = book_id c3 \<and> rb_key r = key)) (index_batches m)\<rparr>)) c8 = (Inr (), c9)"
    and "working c1 = working c9"
    by (auto simp: bindA_Inr raise_def split: option.splits)
  then have r3: "chunks (working c1) = chunks (working c7)"
    by (auto dest!: exec_dml_Inr simp: upsert_index_chapter_def)
  have "book_id c2 = book_id c0" by (rule book_kept [rotated], rule s) (intro keeps_intros)
  moreover have "book_id c3 = book_id c2" by (rule book_kept [rotated], rule pin) (unfold index_pin_def, intro keeps_intros)
  moreover have "book_id c6 = book_id (c3\<lparr>engaged := True\<rparr>)" by (rule book_kept [rotated], rule r1) (intro keeps_intros)
  ultimately have books: "book_id c3 = book_id c" "book_id c6 = book_id c" using c0 by simp_all
  from r1 have "chunks (working c6) = retract_rows (\<lambda>k. f_book k = book_id c \<and> ck_key k = key) now (chunks (working c3))"
    unfolding retract_chunks_def with_book_def using books by (auto dest!: writer_Inr exec_dml_Inr)
  with add_windows_Inr [OF r2] books obtain ks where
    ks: "chunks (working c7) = retract_rows (\<lambda>k. f_book k = book_id c \<and> ck_key k = key) now (chunks (working c3)) @ ks"
      "map window_of ks = map passage_of ps"
      "list_all (\<lambda>k. f_book k = book_id c \<and> ck_key k = key \<and> f_retracted k = None \<and> f_rev k = ordinal \<and> ck_hash k = Some h) ks" by auto
  have "live_windows (book_id c) key ks = ks"
    unfolding live_windows_def by (rule filter_True) (use ks(3) in \<open>auto simp: list_all_iff\<close>)
  then have live: "live_windows (book_id c) key (chunks (working c')) = ks"
    using live_windows_retracted [of "book_id c" key now "chunks (working c3)"]
    by (simp add: c1 r3 ks(1) live_windows_def)
  from ok have "map passage_of ps = map passage_of (so_passages s)"
    using check_passages_exact [of "so_passages s" dm 0 "[]" ps] by (auto simp: validated_passages_def split: if_splits)
  moreover from index_source_of_Inr [OF s] c0 obtain ch raw where src: "source_row (book_id c) key (working c) = Some (ch, raw)"
    "f_rev ch = ordinal" "ch_hash ch = dg_chapter dg (row_text raw)" "so_passages s = source_passages (row_text raw)"
    "so_hash s = source_digest (dg_source dg) (ch_title ch) (row_text raw)" by auto
  ultimately have "map window_of ks = map (\<lambda>(a, b, p). (Some (int a), Some (int b), p)) (passage_windows (row_text raw))"
    by (simp add: ks(2) source_passages_def passage_of_def case_prod_unfold)
  moreover have "list_all (\<lambda>k. f_rev k = ordinal \<and> ck_hash k = Some h) ks" using ks(3) by (auto simp: list_all_iff)
  ultimately show ?thesis using src h live by auto
qed

definition publish_run :: "unit res \<times> mem conn" where
  "publish_run = publish_source_index (digests.truncate sample_digests) (\<lambda>_ _. 1) True ''b:k3'' 3 (source_digest concat ''Three'' ''abc'')
     (pp_passages (sample_prepared [])) (pp_identity (sample_prepared [])) ''later'' (snd commit_run)"

theorem published_index_is_exact_witness:
  "length (chunks (working (snd publish_run))) = 2 \<and> length (live_windows ''b'' ''b:k3'' (chunks (working (snd publish_run)))) = 1"
proof -
  have "fst publish_run = Inr ()" by code_simp
  moreover have "length (chunks (working (snd publish_run))) = 2" by code_simp
  moreover have "book_id (snd commit_run) = ''b''" by code_simp
  moreover have "map_option (\<lambda>(c, r). row_text r) (source_row ''b'' ''b:k3'' (working (snd commit_run))) = Some ''abc''" by code_simp
  moreover have "length (passage_windows ''abc'') = 1" by code_simp
  moreover have "publish_source_index (digests.truncate sample_digests) (\<lambda>_ _. 1) True ''b:k3'' 3 (source_digest concat ''Three'' ''abc'')
     (pp_passages (sample_prepared [])) (pp_identity (sample_prepared [])) ''later'' (snd commit_run) = (Inr (), snd publish_run)"
    using \<open>fst publish_run = Inr ()\<close> by (simp add: publish_run_def prod_eq_iff)
  from published_index_is_exact [OF this] obtain ch raw where
    "source_row (book_id (snd commit_run)) ''b:k3'' (working (snd commit_run)) = Some (ch, raw)"
    and live: "map window_of (live_windows (book_id (snd commit_run)) ''b:k3'' (chunks (working (snd publish_run)))) =
      map (\<lambda>(a, b, p). (Some (int a), Some (int b), p)) (passage_windows (row_text raw))" by blast
  moreover have "length (live_windows (book_id (snd commit_run)) ''b:k3'' (chunks (working (snd publish_run)))) = length (passage_windows (row_text raw))"
    using arg_cong [OF live, of length] by simp
  ultimately show ?thesis by simp
qed

end
