(* ===== verification/IngestRun.thy ===== *)
theory IngestRun imports Published Reading Scheduler begin

text \<open>
  The chapter loop of the ingestion worker, \<^verbatim>\<open>_ingest_upto\<close> of \<^verbatim>\<open>backend/app/ingest/worker.py\<close>, over the
  book database, the catalog and the worker's own record of the book. Every section of the code that holds
  a lock is one step; before each of them other threads may do anything (\<open>others\<close>), and extraction,
  embedding and identity preparation, which hold no lock, are parameters that act on the whole state.
\<close>

section \<open>State\<close>

text \<open>
  The catalog, the session of the book's store, the worker's task state and validated frontier of the book,
  the stop flag, and what entering \<^verbatim>\<open>store.book\<close> will raise (nothing, once the list is used up).
\<close>

record desk =
  dk_catalog :: catalog
  dk_mem :: "mem conn"
  dk_task :: task_state
  dk_verified :: "(string \<times> int \<times> int) option"
  dk_stopping :: bool
  dk_opens :: "unit res list"

definition on_cat :: "(catalog, 'a) act \<Rightarrow> (desk, 'a) act" where
  "on_cat m s = (case m (dk_catalog s) of (r, k) \<Rightarrow> (r, s\<lparr>dk_catalog := k\<rparr>))"

definition on_book :: "(mem conn, 'a) act \<Rightarrow> (desk, 'a) act" where
  "on_book m s = (case m (dk_mem s) of (r, c) \<Rightarrow> (r, s\<lparr>dk_mem := c\<rparr>))"

definition in_book :: "(desk, 'a) act \<Rightarrow> (desk, 'a) act" where
  "in_book m s = (case dk_opens s of
     Inl e # os \<Rightarrow> (Inl e, s\<lparr>dk_opens := os\<rparr>)
   | os \<Rightarrow> m (s\<lparr>dk_opens := tl os\<rparr>))"

record run =
  rn_desk :: desk
  rn_others :: "(desk \<Rightarrow> desk) list"

text \<open>One uninterrupted section, after whatever other threads did since the last one.\<close>

definition here :: "(desk, 'a) act \<Rightarrow> (run, 'a) act" where
  "here m r = (let d = (case rn_others r of [] \<Rightarrow> rn_desk r | f # _ \<Rightarrow> f (rn_desk r)) in
     case m d of (x, d') \<Rightarrow> (x, r\<lparr>rn_desk := d', rn_others := tl (rn_others r)\<rparr>))"

section \<open>Fences\<close>

definition check_stopping :: "(run, unit) act" where
  "check_stopping = here (bindA (asks dk_stopping) (\<lambda>b. checkA (\<not> b) (RuntimeError ''_IngestStopping'')))"

definition row_incarnation :: "string \<Rightarrow> string \<Rightarrow> (desk, unit) act" where
  "row_incarnation book n = bindA (on_cat (asks (get_book book))) (\<lambda>row.
     checkA (map_option bk_incarnation row = Some n) (RuntimeError ''stale catalog incarnation''))"

definition worker_incarnation :: "string \<Rightarrow> (desk, unit) act" where
  "worker_incarnation n = bindA (asks dk_task) (\<lambda>t. checkA (ts_incarnation t = Some n) (RuntimeError ''stale worker incarnation''))"

definition require_incarnation :: "string \<Rightarrow> string \<Rightarrow> (run, unit) act" where
  "require_incarnation book n = bindA (here (row_incarnation book n)) (\<lambda>_. here (worker_incarnation n))"

definition set_verified :: "string \<Rightarrow> int \<Rightarrow> int \<Rightarrow> (desk, unit) act" where
  "set_verified n g v = bindA (asks dk_task) (\<lambda>t.
     if ts_incarnation t \<noteq> Some n \<or> ts_generation t \<noteq> g then raise (RuntimeError ''stale worker generation'')
     else modify (\<lambda>s. s\<lparr>dk_verified := Some (n, g, v)\<rparr>))"

definition publish_validated :: "string \<Rightarrow> string \<Rightarrow> int \<Rightarrow> int \<Rightarrow> (run, unit) act" where
  "publish_validated book n g v = bindA (require_incarnation book n) (\<lambda>_. here (set_verified n g v))"

section \<open>The gate\<close>

record segmentation =
  sn_flags :: "string list"
  sn_language :: string
  sn_chapters :: "chapter_in list"

definition GATING :: "string list" where
  "GATING = [''coverage gap'', ''anchor resolution'']"

definition gate_of :: "(string \<Rightarrow> string) \<Rightarrow> string \<Rightarrow> raw_manifest option \<Rightarrow> segmentation \<Rightarrow> string list option res" where
  "gate_of digest book content sn =
     (let hits = filter (\<lambda>f. list_ex (\<lambda>g. contains g (lower f)) GATING) (sn_flags sn) in
      if hits \<noteq> [] then Inr (Some hits)
      else case load_manifest digest book content of Inl e \<Rightarrow> Inl e | Inr m \<Rightarrow>
        if sn_language sn \<noteq> mf_language m \<and> mf_recorded m then Inr (Some [''ATOM-SET MISMATCH: content language''])
        else if map (\<lambda>c. (ci_ordinal c, ci_key c, int (length (ci_text c)))) (sn_chapters sn) \<noteq>
                map (\<lambda>a. (ma_ordinal a, ma_key a, ma_len a)) (mf_atoms m)
        then Inr (Some [''ATOM-SET MISMATCH: segments differently'']) else Inr None)"

section \<open>One chapter\<close>

text \<open>What \<^verbatim>\<open>_complete_extraction\<close> returns.\<close>

record extracted_chapter =
  ex_facts :: facts
  ex_in :: int
  ex_out :: int
  ex_usd :: rat
  ex_reservations :: "string list"
  ex_clearance :: clearance

record helpers =
  hp_identify :: "int \<Rightarrow> (desk, model_identity) act"
  hp_extract :: "chapter_in \<Rightarrow> roster_entry list \<Rightarrow> string \<Rightarrow> string \<Rightarrow> (desk, extracted_chapter) act"
  hp_prepare :: "chapter_in \<Rightarrow> extracted_chapter \<Rightarrow> roster_entry list \<Rightarrow> model_identity \<Rightarrow> (desk, prepared) act"

record setting =
  sx_book :: string
  sx_incarnation :: string
  sx_generation :: int
  sx_digests :: pipeline_digests
  sx_cosine :: "json list \<Rightarrow> json list \<Rightarrow> rat"
  sx_client :: versioned_client
  sx_helpers :: helpers
  sx_now :: string

definition cost_dict :: "receipt_cost \<Rightarrow> (string \<times> pyval) list" where
  "cost_dict k = [(''model'', case rc_model k of None \<Rightarrow> PyNone | Some m \<Rightarrow> PyStr m), (''input_tokens'', PyInt (rc_in k)),
     (''output_tokens'', PyInt (rc_out k)), (''usd'', PyFloat (rc_usd k))]"

text \<open>The inputs read in one session of the book.\<close>

definition inputs :: "pipeline_digests \<Rightarrow> chapter_in \<Rightarrow> (mem conn, receipt_cost option option \<times> meta_row option \<times> string \<times> string \<times> roster_entry list) act" where
  "inputs dg ch =
     bindA (chapter_completion (dg_chapter dg) (ci_key ch) (ci_ordinal ch) (dg_chapter dg (ci_text ch))) (\<lambda>receipt.
     bindA pinned_identity (\<lambda>pin.
     bindA book_profile (\<lambda>profile.
     bindA content_language (\<lambda>language.
     bindA (if receipt = None then all_entities (max (ci_ordinal ch - 1) 0) else ret []) (\<lambda>roster.
       ret (receipt, pin, bp_type profile, language, roster))))))"

definition settle_chapter :: "setting \<Rightarrow> int \<Rightarrow> receipt_cost option \<Rightarrow> (run, unit) act" where
  "settle_chapter sx ordinal cost = bindA (here (on_cat (finalize_ingest (sx_book sx) (PyInt ordinal) (map_option cost_dict cost)
       (Some (sx_incarnation sx)) (sx_now sx)))) (\<lambda>_.
     publish_validated (sx_book sx) (sx_incarnation sx) (sx_generation sx) ordinal)"

text \<open>The paid reservations are settled when the rest of the chapter fails; each settlement is a call of its own.\<close>

definition settling :: "setting \<Rightarrow> string list \<Rightarrow> string \<Rightarrow> (run, 'a) act \<Rightarrow> (run, 'a) act" where
  "settling sx rids phase m = on_error (bindA (for_each (\<lambda>rid. here (on_cat (settle_cost (sx_book sx) rid (Some phase) (sx_now sx)))) rids)
     (\<lambda>_. ret ())) m"

text \<open>One attempt to commit: the receipt's cost, or the roster the next preparation has to use.\<close>

definition commit_in_book :: "setting \<Rightarrow> bool \<Rightarrow> chapter_in \<Rightarrow> prepared \<Rightarrow> (mem conn, roster_entry list + receipt_cost option) act" where
  "commit_in_book sx final ch p c = (case ingest_chapter (sx_digests sx) (sx_cosine sx) ch p (sx_now sx) c of
         (Inl e, c') \<Rightarrow>
           if e = RuntimeError ''StalePreparedRoster'' \<and> \<not> final
           then bindA (all_entities (max (ci_ordinal ch - 1) 0)) (\<lambda>roster. ret (Inl roster)) c'
           else (Inl e, c')
       | (Inr _, c') \<Rightarrow>
           bindA (chapter_completion (dg_chapter (sx_digests sx)) (ci_key ch) (ci_ordinal ch) (dg_chapter (sx_digests sx) (ci_text ch))) (\<lambda>receipt. case receipt of
             None \<Rightarrow> raise (RuntimeError ''chapter committed without its completion marker'')
           | Some cost \<Rightarrow> ret (Inr cost)) c')"

definition commit_once :: "setting \<Rightarrow> bool \<Rightarrow> chapter_in \<Rightarrow> prepared \<Rightarrow> (desk, roster_entry list + receipt_cost option) act" where
  "commit_once sx final ch p = bindA (row_incarnation (sx_book sx) (sx_incarnation sx)) (\<lambda>_.
     bindA (worker_incarnation (sx_incarnation sx)) (\<lambda>_.
     in_book (bindA (worker_incarnation (sx_incarnation sx)) (\<lambda>_. on_book (commit_in_book sx final ch p)))))"

fun commit_attempts :: "setting \<Rightarrow> nat \<Rightarrow> chapter_in \<Rightarrow> extracted_chapter \<Rightarrow> model_identity \<Rightarrow> prepared \<Rightarrow> (run, receipt_cost option) act" where
  "commit_attempts sx 0 ch x identity p = bindA (here (commit_once sx True ch p)) (\<lambda>r. case r of
     Inr cost \<Rightarrow> ret cost | Inl roster \<Rightarrow> raise (RuntimeError ''StalePreparedRoster''))"
| "commit_attempts sx (Suc j) ch x identity p = bindA (here (commit_once sx False ch p)) (\<lambda>r. case r of
     Inr cost \<Rightarrow> ret cost
   | Inl roster \<Rightarrow> bindA (here (hp_prepare (sx_helpers sx) ch x roster identity)) (\<lambda>p'. commit_attempts sx j ch x identity p'))"

record progress_state =
  ps_identity :: "model_identity option"
  ps_done :: int
  ps_validated :: int

definition ingest_missing :: "setting \<Rightarrow> chapter_in \<Rightarrow> meta_row option \<Rightarrow> string \<Rightarrow> string \<Rightarrow> roster_entry list \<Rightarrow> progress_state \<Rightarrow> (run, progress_state) act" where
  "ingest_missing sx ch pin book_type language roster ps =
     (let ordinal = ci_ordinal ch in
     bindA (here (on_cat (asks (cost_reservation_ids (sx_book sx) (Some ''extraction'') (Some ordinal))))) (\<lambda>open_ids.
     if open_ids \<noteq> [] then raise (RuntimeError ''outstanding extraction cost reservations'')
     else if ordinal \<le> ps_done ps then raise (RuntimeError ''no matching completion marker'')
     else bindA (liftA (assert_compatible_config (map_option pin_of pin) (sx_client sx) True)) (\<lambda>_.
     bindA (case ps_identity ps of Some i \<Rightarrow> ret i | None \<Rightarrow> here (hp_identify (sx_helpers sx) ordinal)) (\<lambda>identity.
     bindA (liftA (assert_compatible_identity (sx_cosine sx) (map_option pin_of pin) identity True)) (\<lambda>_.
     bindA (here (hp_extract (sx_helpers sx) ch roster book_type language)) (\<lambda>x.
     bindA (settling sx (ex_reservations x) ''extraction-preparation-failed''
       (bindA check_stopping (\<lambda>_. here (hp_prepare (sx_helpers sx) ch x roster identity)))) (\<lambda>p.
     bindA (settling sx (ex_reservations x) ''extraction-commit-aborted'' (commit_attempts sx 2 ch x identity p)) (\<lambda>cost.
     bindA (require_incarnation (sx_book sx) (sx_incarnation sx)) (\<lambda>_.
     bindA (settle_chapter sx ordinal cost) (\<lambda>_.
       ret \<lparr>ps_identity = Some identity, ps_done = ordinal, ps_validated = ordinal\<rparr>))))))))))"

definition one_chapter :: "setting \<Rightarrow> chapter_in \<Rightarrow> progress_state \<Rightarrow> (run, progress_state) act" where
  "one_chapter sx ch ps =
     (let hash = dg_chapter (sx_digests sx) (ci_text ch) in
     bindA (require_incarnation (sx_book sx) (sx_incarnation sx)) (\<lambda>_.
     if ci_hash ch \<noteq> None \<and> ci_hash ch \<noteq> Some hash then raise (ValueError ''content_hash does not match its text'')
     else bindA (here (in_book (on_book (inputs (sx_digests sx) ch)))) (\<lambda>(receipt, pin, book_type, language, roster). case receipt of
       Some cost \<Rightarrow> bindA (settle_chapter sx (ci_ordinal ch) cost) (\<lambda>_.
         ret (ps\<lparr>ps_done := max (ps_done ps) (ci_ordinal ch), ps_validated := ci_ordinal ch\<rparr>))
     | None \<Rightarrow> ingest_missing sx ch pin book_type language roster ps)))"

fun ingest_loop :: "setting \<Rightarrow> int \<Rightarrow> chapter_in list \<Rightarrow> progress_state \<Rightarrow> (run, int) act" where
  "ingest_loop sx target [] ps = bindA (require_incarnation (sx_book sx) (sx_incarnation sx)) (\<lambda>_. ret (ps_validated ps))"
| "ingest_loop sx target (ch # chs) ps = bindA check_stopping (\<lambda>_.
     if target < ci_ordinal ch then ingest_loop sx target chs ps
     else bindA (one_chapter sx ch ps) (\<lambda>ps'. ingest_loop sx target chs ps'))"

section \<open>The run\<close>

definition set_blocked :: "string \<Rightarrow> int \<Rightarrow> string list \<Rightarrow> (desk, unit) act" where
  "set_blocked n g why = modify (\<lambda>s. if ts_incarnation (dk_task s) = Some n \<and> ts_generation (dk_task s) = g
     then s\<lparr>dk_task := (dk_task s)\<lparr>ts_status := S_Blocked, ts_flags := why\<rparr>\<rparr> else s)"

definition ingest_upto :: "setting \<Rightarrow> segmentation res \<Rightarrow> raw_manifest option \<Rightarrow> int \<Rightarrow> (run, int option) act" where
  "ingest_upto sx segmented content target =
     (let book = sx_book sx; n = sx_incarnation sx; g = sx_generation sx in
     bindA (require_incarnation book n) (\<lambda>_.
     bindA (publish_validated book n g 0) (\<lambda>_.
     bindA (liftA segmented) (\<lambda>sn.
     bindA (liftA (gate_of (dg_chapter (sx_digests sx)) book content sn)) (\<lambda>blocked.
     bindA (require_incarnation book n) (\<lambda>_.
     if foldr max (map ci_ordinal (sn_chapters sn)) 0 < target then raise (ValueError ''ingest target exceeds final chapter ordinal'')
     else (case blocked of
       Some why \<Rightarrow> bindA (here (set_blocked n g why)) (\<lambda>_. ret None)
     | None \<Rightarrow>
         bindA (here (on_cat (state_after book))) (\<lambda>st.
         bindA (ingest_loop sx target (sn_chapters sn) \<lparr>ps_identity = None, ps_done = rs_progress st, ps_validated = 0\<rparr>) (\<lambda>v.
           ret (Some v))))))))))"

section \<open>Earlier receipts survive a commit\<close>

definition keeps_receipt :: "(string \<Rightarrow> string) \<Rightarrow> string \<Rightarrow> string \<times> int \<Rightarrow> mem conn \<Rightarrow> bool" where
  "keeps_receipt digest book k c = (book_id c = book \<and> holds (\<lambda>m. receipted digest book m k) c)"

lemma keeps_in_book_id:
  assumes "\<And>k. keeps (session_is k) m" and "keeps (holds Q) m"
  shows "keeps (\<lambda>c. book_id c = book \<and> holds Q c) m"
proof (rule keepsI)
  fix c assume c: "book_id c = book \<and> holds Q c"
  have "book_id (snd (m c)) = book_id c" by (rule book_kept [OF assms(1) surjective_pairing])
  with c keepsD [OF assms(2)] show "book_id (snd (m c)) = book \<and> holds Q (snd (m c))" by blast
qed

text \<open>The rows a receipt is read from.\<close>

definition receipt_rows :: "string \<Rightarrow> string \<Rightarrow> mem \<Rightarrow> ingested_row option \<times> chapter_row option \<times> raw_row option" where
  "receipt_rows book key m = (find (\<lambda>i. ig_key i = key \<and> ig_book i = book) (ingested m),
     find (\<lambda>c. ch_key c = key \<and> f_book c = book \<and> f_retracted c = None) (chapters m),
     find (\<lambda>r. raw_key r = key \<and> f_book r = book \<and> f_retracted r = None) (raw_chapters m))"

lemma receipted_rows:
  assumes "receipt_rows book (fst k) m' = receipt_rows book (fst k) m"
  shows "receipted digest book m' k = receipted digest book m k"
proof -
  from assms have "completion_row book (fst k) m' = completion_row book (fst k) m"
    by (simp add: receipt_rows_def completion_row_def live_chapter_row_def cong: option.case_cong)
  then show ?thesis by (cases k) (simp add: receipted_def)
qed

lemma receipted_same:
  assumes "chapters m' = chapters m \<and> raw_chapters m' = raw_chapters m \<and> ingested m' = ingested m"
  shows "receipted digest book m' k = receipted digest book m k"
  by (rule receipted_rows) (simp add: receipt_rows_def assms)

lemma keeps_exec_receipt:
  assumes "\<And>m. chapters (snd (f m)) = chapters m \<and> raw_chapters (snd (f m)) = raw_chapters m \<and> ingested (snd (f m)) = ingested m"
  shows "keeps (holds (\<lambda>m. receipted digest book m k)) (exec_dml reads ints f)"
  by (rule keeps_exec_dml) (use assms receipted_same in blast)

lemma keeps_ins_receipt:
  assumes "\<And>b m. chapters (snd (f b m)) = chapters m \<and> raw_chapters (snd (f b m)) = raw_chapters m \<and> ingested (snd (f b m)) = ingested m"
  shows "keeps (holds (\<lambda>m. receipted digest book m k)) (ins ints f)"
  by (rule keeps_ins) (use assms receipted_same in blast)

lemma keeps_statements_receipt:
  "keeps (holds (\<lambda>m. receipted d b m k)) (add_alias a1 a2 a3 a4)" "keeps (holds (\<lambda>m. receipted d b m k)) (add_entity b1 b2 b3 b4 b5)"
  "keeps (holds (\<lambda>m. receipted d b m k)) (add_state c1 c2 c3 c4 c5 c6)" "keeps (holds (\<lambda>m. receipted d b m k)) (replace_state d1 d2 d3 d4 d5)"
  "keeps (holds (\<lambda>m. receipted d b m k)) (add_edge e1 e2 e3 e4 e5 e6 e7 e8)" "keeps (holds (\<lambda>m. receipted d b m k)) (add_event g1 g2 g3 g4 g5 g6 g7 g8)"
  "keeps (holds (\<lambda>m. receipted d b m k)) (add_theme h1 h2 h3 h4 h5)" "keeps (holds (\<lambda>m. receipted d b m k)) (add_chunk i1 i2 i3 i4 i5 i6 i7 i8 i9 i10)"
  "keeps (holds (\<lambda>m. receipted d b m k)) (retract_chunks j1 j2)" "keeps (holds (\<lambda>m. receipted d b m k)) (add_summary l1 l2 l3 l4 l5 l6)"
  "keeps (holds (\<lambda>m. receipted d b m k)) (pin_models n1 n2 n3 n4 n5)"
  unfolding statement_defs by (intro keeps_intros keeps_ins_receipt keeps_exec_receipt; simp add: Let_def)+

lemma find_append_None: "find P ys = None \<Longrightarrow> find P (xs @ ys) = find P xs"
  by (simp add: find_append split: option.splits)

lemma find_update_other:
  assumes "\<And>r. P r \<Longrightarrow> \<not> R r" and "\<And>r. P r \<Longrightarrow> \<not> R (f r)"
  shows "find R (update_where P f rows) = find R rows"
  using assms by (induction rows) (auto simp: update_where_def)

lemma keeps_rows_exec:
  assumes "\<And>m. receipt_rows book (fst k) (snd (f m)) = receipt_rows book (fst k) m"
  shows "keeps (holds (\<lambda>m. receipted digest book m k)) (exec_dml reads ints f)"
  by (rule keeps_exec_dml) (use assms receipted_rows in blast)

lemma keeps_rows_ins:
  assumes "\<And>b m. receipt_rows book (fst k) (snd (f b m)) = receipt_rows book (fst k) m"
  shows "keeps (holds (\<lambda>m. receipted digest book m k)) (ins ints f)"
  by (rule keeps_ins) (use assms receipted_rows in blast)

lemma keeps_add_chapter_receipt:
  assumes "fst k \<noteq> key"
  shows "keeps (holds (\<lambda>m. receipted digest book m k)) (add_chapter key revealed href title fragment part kind hash xv now)"
  unfolding add_chapter_def
proof (intro keeps_intros keeps_rows_ins keeps_rows_exec, goal_cases)
  case (1 b x y m)
  show ?case using assms by (simp add: receipt_rows_def) (rule find_update_other; simp)
next
  case (2 x b m)
  then show ?case using assms by (simp add: receipt_rows_def find_append_None)
qed

lemma keeps_add_raw_receipt:
  assumes "fst k \<noteq> key"
  shows "keeps (holds (\<lambda>m. receipted digest book m k)) (add_raw key revealed txt hash now)"
  unfolding add_raw_def by (rule keeps_rows_ins) (use assms in \<open>simp add: receipt_rows_def find_append_None\<close>)

lemma keeps_mark_receipt:
  assumes "fst k \<noteq> key"
  shows "keeps (holds (\<lambda>m. receipted digest book m k)) (mark_chapter_ingested key hash cost now)"
proof (rule keepsI)
  fix c assume c: "holds (\<lambda>m. receipted digest book m k) c"
  have "keeps (holds (\<lambda>m. receipted digest book m k)) (ins ints (\<lambda>b m. ((), m\<lparr>ingested := ingested m @ [g b]\<rparr>)))"
    if "\<And>b. ig_key (g b) = key" for ints g
    by (rule keeps_rows_ins) (use assms that in \<open>simp add: receipt_rows_def find_append_None\<close>)
  from keepsD [OF this c] c show "holds (\<lambda>m. receipted digest book m k) (snd (mark_chapter_ingested key hash cost now c))"
    by (simp add: mark_chapter_ingested_def)
qed

lemma keeps_publish_receipt:
  "keeps (holds (\<lambda>m. receipted d b m k)) (publish_source_index dg cosine req key ordinal h ps identity now)"
proof (rule keepsI)
  fix c assume c: "holds (\<lambda>m. receipted d b m k) c"
  have "keeps (holds (\<lambda>m. receipted d b m k)) (publish_body dg cosine req key ordinal h ps identity now)"
    by (intro keeps_publish_body keeps_add_window keeps_statements_receipt keeps_exec_receipt keeps_writer_holds keeps_index_source keeps_pinned)
      (simp_all add: upsert_index_chapter_def)
  from keepsD [OF this c] keepsD [OF keeps_transaction_holds [OF this] c]
  show "holds (\<lambda>m. receipted d b m k) (snd (publish_source_index dg cosine req key ordinal h ps identity now c))" by (simp add: publish_source_index_def)
qed

lemma chapter_live_Inr:
  assumes "chapter_live key c = (Inr b, c')"
  shows "b = (live_chapter_row (book_id c) key (working c) \<noteq> None)"
  using assms unfolding chapter_live_def with_book_def by (auto simp: bindA_Inr dest!: writer_query_Inr)

lemma keeps_receipt_write:
  "keeps (\<lambda>c. book_id c = book \<and> holds (\<lambda>m. receipted digest book m k) c) (write_chapter dg cosine ch p now)"
proof -
  let ?Q = "\<lambda>m. receipted digest book m k"
  let ?rest = "\<lambda>h. bindA (ensure_pinned cosine (pp_identity p)) (\<lambda>_.
     bindA (add_chapter (ci_key ch) (ci_ordinal ch) (href_of ch) (ci_title ch) [] (ci_part ch) ''body'' h (pp_extractor p) now) (\<lambda>_.
     bindA (if ci_text ch \<noteq> [] then add_raw (ci_key ch) (ci_ordinal ch) (ci_text ch) h now else ret ()) (\<lambda>_.
     bindA (add_summary (ci_key ch) (ci_ordinal ch) (xt_summary (pp_facts p)) ''chapter'' (pp_extractor p) now) (\<lambda>_.
     bindA (write_facts (ci_ordinal ch) (pp_extractor p) now (pp_facts p) (pp_roster p) (pp_decisions p)) (\<lambda>w.
     bindA (publish_source_index (digests.truncate dg) cosine False (ci_key ch) (ci_ordinal ch) (pp_source p) (pp_passages p) (pp_identity p) now) (\<lambda>_.
     bindA (mark_chapter_ingested (ci_key ch) h (pp_cost p) now) (\<lambda>_. ret (Some w))))))))"
  note reads = keeps_in_book_id [where Q = ?Q]
  have facts: "keeps (holds ?Q) (write_facts (ci_ordinal ch) xv now x roster ds)" for xv x roster ds
    by (intro keeps_write_facts keeps_write_note keeps_statements_receipt)
  have rest: "keeps (holds ?Q) (?rest h)" if "fst k \<noteq> ci_key ch" for h
    unfolding ensure_pinned_def
    by (intro facts keeps_bindA keeps_if keeps_ret keeps_liftA keeps_pinned keeps_publish_receipt keeps_statements_receipt
        keeps_add_chapter_receipt keeps_add_raw_receipt keeps_mark_receipt that)
  have session: "keeps (session_is s) (?rest h)" for h s
    unfolding ensure_pinned_def by (intro keeps_intros)
  have fence: "keeps (\<lambda>c. book_id c = book \<and> holds ?Q c) (chapter_is_ingested key h)"
    "keeps (\<lambda>c. book_id c = book \<and> holds ?Q c) (chapter_live key)" for key h
    by (rule reads, (unfold chapter_is_ingested_def chapter_live_def)?, intro keeps_intros, intro keeps_intros)+
  have written: "keeps (\<lambda>c. book_id c = book \<and> holds ?Q c)
    (bindA (chapter_live (ci_key ch)) (\<lambda>live. if live then raise (changed_content (ci_key ch)) else ?rest h))" for h
  proof (rule keeps_bindA_read, rule fence)
    fix live c c' assume c: "book_id c = book \<and> holds ?Q c" "chapter_live (ci_key ch) c = (Inr live, c')"
    show "keeps (\<lambda>c. book_id c = book \<and> holds ?Q c) (if live then raise (changed_content (ci_key ch)) else ?rest h)"
    proof (cases live)
      case False
      with chapter_live_Inr [OF c(2)] have "live_chapter_row book (ci_key ch) (working c) = None" using c(1) by simp
      with c(1) have "fst k \<noteq> ci_key ch"
        by (cases k) (auto simp: holds_def receipted_def completion_row_def split: option.splits)
      with False show ?thesis using reads [OF session rest] by simp
    qed (simp add: keeps_raise)
  qed
  show ?thesis
    unfolding write_chapter_def Let_def by (rule keeps_bindA, rule fence, rule keeps_if, rule keeps_ret, rule written)
qed

end
