(* ===== verification/IngestSafe.thy ===== *)
theory IngestSafe imports IngestRun begin

text \<open>
  What a run of the chapter loop keeps, whatever other threads do between its sections: the catalog's
  ingestion progress and the frontier the worker publishes never run ahead of the durable receipts, and
  a run that returns has a receipt for every chapter up to its target.
\<close>

section \<open>A commit, for the loop\<close>

lemma keeps_schema_ingest: "keeps (holds schema_ok) (ingest_chapter dg cosine ch p now)"
proof -
  have "keeps (holds schema_ok) (chapter_live key)" "keeps (holds schema_ok) (chapter_is_ingested key h)" "keeps (holds schema_ok) pinned_identity" for key h
    unfolding chapter_is_ingested_def by (intro keeps_intros)+
  note reads = this
  have body: "keeps (holds schema_ok) (publish_body (digests.truncate dg) cosine req key ordinal h ps identity now)" for req key ordinal h ps identity
    by (intro keeps_publish_body keeps_add_window keeps_statements_schema keeps_exec_dml_schema keeps_writer_holds keeps_index_source reads)
  have publish: "keeps (holds schema_ok) (publish_source_index (digests.truncate dg) cosine req key ordinal h ps identity now)" for req key ordinal h ps identity
  proof (rule keepsI)
    fix c assume c: "holds schema_ok c"
    from keepsD [OF body c] keepsD [OF keeps_transaction_holds [OF body] c]
    show "holds schema_ok (snd (publish_source_index (digests.truncate dg) cosine req key ordinal h ps identity now c))" by (simp add: publish_source_index_def)
  qed
  have facts: "keeps (holds schema_ok) (write_facts ordinal xv now x roster ds)" for ordinal xv x roster ds
    by (intro keeps_write_facts keeps_write_note keeps_statements_schema)
  show ?thesis
    unfolding ingest_chapter_def write_chapter_def ensure_pinned_def Let_def
    by (intro keeps_bindA keeps_if keeps_ret keeps_raise keeps_liftA keeps_case_option keeps_completion keeps_all_entities keeps_transaction_holds reads
        publish facts keeps_statements_schema keeps_mark_schema)
qed

lemma keeps_receipt_ingest:
  "keeps (\<lambda>c. book_id c = book \<and> holds (\<lambda>m. receipted digest book m k) c) (ingest_chapter dg cosine ch p now)"
proof -
  let ?Q = "\<lambda>m. receipted digest book m k"
  have reads: "keeps (\<lambda>c. book_id c = book \<and> holds ?Q c) (chapter_completion d key ordinal h)"
    "keeps (\<lambda>c. book_id c = book \<and> holds ?Q c) (chapter_live key)" for d key ordinal h
    by (rule keeps_in_book_id, (unfold chapter_live_def chapter_completion_def chapter_completion_opt_def)?, intro keeps_intros, intro keeps_intros)+
  have wr: "keeps (\<lambda>c. book_id c = book \<and> holds ?Q c) (transaction (write_chapter dg cosine ch p now))"
    unfolding transaction_def
  proof (rule keeps_bindA)
    show "keeps (\<lambda>c. book_id c = book \<and> holds ?Q c) transaction_enter"
    proof (rule keepsI)
      fix c :: "mem conn" assume c: "book_id c = book \<and> holds ?Q c"
      then have "book_id (snd (transaction_enter c)) = book"
        by (auto simp: transaction_enter_def bindA_def assert_in_session_def split: prod.splits bool.splits dest!: outcome_fields)
      with c holds_transaction_enter [of ?Q c] show "book_id (snd (transaction_enter c)) = book \<and> holds ?Q (snd (transaction_enter c))" by blast
    qed
    fix x :: unit
    show "keeps (\<lambda>c. book_id c = book \<and> holds ?Q c) (\<lambda>c. case write_chapter dg cosine ch p now c of (r, c1) \<Rightarrow> transaction_exit r c1)"
    proof (rule keepsI)
      fix c assume c: "book_id c = book \<and> holds ?Q c"
      obtain r c1 where c1: "write_chapter dg cosine ch p now c = (r, c1)" by fastforce
      from keepsD [OF keeps_receipt_write c, of dg cosine ch p now] c1 have one: "book_id c1 = book" "holds ?Q c1" by simp_all
      have "book_id (snd (transaction_exit r c1)) = book_id c1"
        using session_is_transaction_exit [of "(book_id c1, active_owner c1, env_thread c1)" r c1] by (simp add: session_is_def)
      with one holds_transaction_exit [of ?Q c1 r] c1
      show "book_id (snd (case write_chapter dg cosine ch p now c of (r, c1) \<Rightarrow> transaction_exit r c1)) = book \<and>
        holds ?Q (snd (case write_chapter dg cosine ch p now c of (r, c1) \<Rightarrow> transaction_exit r c1))" by simp
    qed
  qed
  show ?thesis
    unfolding ingest_chapter_def Let_def
    by (intro keeps_bindA keeps_if keeps_ret keeps_raise keeps_case_option reads keeps_all_entities wr)
qed


text \<open>The session of the book is at rest: nothing pending, constraints hold.\<close>

definition book_rest :: "string \<Rightarrow> mem conn \<Rightarrow> bool" where
  "book_rest book c = (book_id c = book \<and> working c = committed c \<and> schema_ok (committed c))"

definition has_receipt :: "pipeline_digests \<Rightarrow> string \<Rightarrow> string \<times> int \<Rightarrow> mem conn \<Rightarrow> bool" where
  "has_receipt dg book k c = receipted (dg_chapter dg) book (committed c) k"

lemma ingest_book_rest:
  assumes "book_rest book c" and "ingest_chapter dg cosine ch p now c = (r, c')"
  shows "book_rest book c'" and "has_receipt dg book k c \<Longrightarrow> has_receipt dg book k c'"
    and "r = Inr w \<Longrightarrow> has_receipt dg book (ci_key ch, ci_ordinal ch) c'"
proof -
  from assms(1) have c: "at_rest book (committed c) c" "schema_ok (committed c)" "book_id c = book" "working c = committed c"
    by (simp_all add: book_rest_def at_rest_def holds_def)
  from ingest_chapter_leads [OF c(2), of book dg cosine ch p now] c(1) assms(2)
  have s: "book_id c' = book" "working c' = committed c'" by (auto simp: leads_def settled_def dest!: spec [of _ c])
  moreover have "schema_ok (committed c')"
    using keepsD [OF keeps_schema_ingest, of c dg cosine ch p now] assms(2) c by (simp add: holds_def)
  ultimately show "book_rest book c'" by (simp add: book_rest_def)
  show "has_receipt dg book k c'" if "has_receipt dg book k c"
    using keepsD [OF keeps_receipt_ingest, of c book "dg_chapter dg" k dg cosine ch p now] assms(2) that c by (simp add: holds_def has_receipt_def)
  show "has_receipt dg book (ci_key ch, ci_ordinal ch) c'" if "r = Inr w"
    using ingest_chapter_Inr [of dg cosine ch p now c w c'] assms(2) that s by (simp add: has_receipt_def)
qed

text \<open>Reads keep the session at rest and every receipt.\<close>

definition same_rest :: "string \<Rightarrow> mem conn \<Rightarrow> mem conn \<Rightarrow> bool" where
  "same_rest book c c' = (book_rest book c \<longrightarrow> book_rest book c' \<and> committed c' = committed c)"

lemma reads_rest:
  assumes "\<And>Q. keeps (holds Q) m" and "\<And>k. keeps (session_is k) m"
  shows "same_rest book c (snd (m c))"
proof -
  have "book_id (snd (m c)) = book_id c" by (rule book_kept [OF assms(2) surjective_pairing])
  with keepsD [OF assms(1), of "\<lambda>x. x = committed c" c] show ?thesis
    by (auto simp: same_rest_def book_rest_def holds_def)
qed

lemma inputs_rest: "same_rest book c (snd (inputs dg ch c))"
  by (rule reads_rest; unfold inputs_def chapter_completion_def chapter_completion_opt_def pinned_identity_def book_profile_def content_language_def Let_def,
      intro keeps_intros)

lemma inputs_Inr:
  assumes "inputs dg ch c = (Inr (Some x, y), c')" and "book_rest book c"
  shows "has_receipt dg book (ci_key ch, ci_ordinal ch) c'"
proof -
  from assms(1) obtain c1 where "chapter_completion (dg_chapter dg) (ci_key ch) (ci_ordinal ch) (dg_chapter dg (ci_text ch)) c = (Inr (Some x), c1)"
    unfolding inputs_def by (auto simp: bindA_Inr)
  from chapter_completion_Inr [OF this] assms(2) have "has_receipt dg book (ci_key ch, ci_ordinal ch) c"
    by (simp add: has_receipt_def book_rest_def)
  with inputs_rest [of book c dg ch] assms show ?thesis by (simp add: same_rest_def has_receipt_def)
qed


section \<open>The contract of a run\<close>

text \<open>The chapters of the book, key and ordinal, as the verified manifest lists them.\<close>

definition atoms_of :: "manifest \<Rightarrow> (string \<times> int) set" where
  "atoms_of m = set (map (\<lambda>a. (ma_key a, ma_ordinal a)) (mf_atoms m))"

definition carries :: "string \<Rightarrow> string \<Rightarrow> desk \<Rightarrow> bool" where
  "carries book n d = current_incarnation book (Some n) (dk_catalog d)"

definition receipt_on :: "pipeline_digests \<Rightarrow> string \<Rightarrow> desk \<Rightarrow> string \<times> int \<Rightarrow> bool" where
  "receipt_on dg book d k = has_receipt dg book k (dk_mem d)"

text \<open>Catalog progress is backed: every chapter up to it has a durable receipt in the book's database.\<close>

definition backed :: "pipeline_digests \<Rightarrow> string \<Rightarrow> (string \<times> int) set \<Rightarrow> desk \<Rightarrow> bool" where
  "backed dg book atoms d = (\<forall>(key, ordinal) \<in> atoms. \<forall>r. get_state book (dk_catalog d) = Some r \<longrightarrow> ordinal \<le> rs_progress r \<longrightarrow>
     receipt_on dg book d (key, ordinal))"

text \<open>So is the frontier the worker publishes for the incarnation the catalog carries.\<close>

definition vouched :: "pipeline_digests \<Rightarrow> string \<Rightarrow> (string \<times> int) set \<Rightarrow> desk \<Rightarrow> bool" where
  "vouched dg book atoms d = (\<forall>n g v. dk_verified d = Some (n, g, v) \<longrightarrow> carries book n d \<longrightarrow>
     (\<forall>(key, ordinal) \<in> atoms. ordinal \<le> v \<longrightarrow> receipt_on dg book d (key, ordinal)))"

definition system_ok :: "pipeline_digests \<Rightarrow> string \<Rightarrow> (string \<times> int) set \<Rightarrow> desk \<Rightarrow> bool" where
  "system_ok dg book atoms d = (book_rest book (dk_mem d) \<and> backed dg book atoms d \<and> vouched dg book atoms d)"

text \<open>
  What every other thread, and every step outside a lock, is relied on for: it keeps the system sound, it
  never brings back an incarnation the catalog no longer carries, and while the incarnation lasts no
  receipt is withdrawn.
\<close>

definition polite :: "pipeline_digests \<Rightarrow> string \<Rightarrow> (string \<times> int) set \<Rightarrow> string \<Rightarrow> desk \<Rightarrow> desk \<Rightarrow> bool" where
  "polite dg book atoms n d d' = (system_ok dg book atoms d \<longrightarrow> system_ok dg book atoms d' \<and>
     (carries book n d' \<longrightarrow> carries book n d \<and> (\<forall>k. receipt_on dg book d k \<longrightarrow> receipt_on dg book d' k)))"

definition polite_act :: "pipeline_digests \<Rightarrow> string \<Rightarrow> (string \<times> int) set \<Rightarrow> string \<Rightarrow> (desk, 'a) act \<Rightarrow> bool" where
  "polite_act dg book atoms n m = (\<forall>d. polite dg book atoms n d (snd (m d)))"

definition polite_helpers :: "pipeline_digests \<Rightarrow> string \<Rightarrow> (string \<times> int) set \<Rightarrow> string \<Rightarrow> helpers \<Rightarrow> bool" where
  "polite_helpers dg book atoms n h = ((\<forall>o'. polite_act dg book atoms n (hp_identify h o')) \<and>
     (\<forall>ch roster ty l. polite_act dg book atoms n (hp_extract h ch roster ty l)) \<and>
     (\<forall>ch x roster i. polite_act dg book atoms n (hp_prepare h ch x roster i)))"

definition assured :: "pipeline_digests \<Rightarrow> string \<Rightarrow> (string \<times> int) set \<Rightarrow> string \<Rightarrow> (string \<times> int) set \<Rightarrow> desk \<Rightarrow> bool" where
  "assured dg book atoms n passed d = (system_ok dg book atoms d \<and> (carries book n d \<longrightarrow> (\<forall>k \<in> passed. receipt_on dg book d k)))"

lemma assured_polite: "polite dg book atoms n d d' \<Longrightarrow> assured dg book atoms n A d \<Longrightarrow> assured dg book atoms n A d'"
  by (auto simp: polite_def assured_def)

lemma keeps_assured_act: "polite_act dg book atoms n m \<Longrightarrow> keeps (assured dg book atoms n A) m"
  by (rule keepsI) (auto simp: polite_act_def intro: assured_polite)

text \<open>A step that leaves the books, the reading marks, the receipts and the published frontier alone.\<close>

lemma assured_same:
  assumes "assured dg book atoms n A d" and "books (dk_catalog d') = books (dk_catalog d)" and "reading (dk_catalog d') = reading (dk_catalog d)"
    and "same_rest book (dk_mem d) (dk_mem d')" and "dk_verified d' = dk_verified d"
  shows "assured dg book atoms n A d'"
proof -
  have c: "carries book m d' = carries book m d" for m using assms(2) by (simp add: carries_def current_incarnation_def)
  have g: "get_state book (dk_catalog d') = get_state book (dk_catalog d)" using assms(3) by (simp add: get_state_def)
  from assms(1,4) have m: "book_rest book (dk_mem d')" "committed (dk_mem d') = committed (dk_mem d)"
    by (auto simp: assured_def system_ok_def same_rest_def)
  then have r: "receipt_on dg book d' k = receipt_on dg book d k" for k by (simp add: receipt_on_def has_receipt_def)
  show ?thesis using assms(1,5) m(1) by (simp add: assured_def system_ok_def backed_def vouched_def c g r)
qed

lemma same_rest_refl [simp]: "same_rest book c c"
  by (simp add: same_rest_def)

lemma keeps_assured_on_cat:
  assumes "\<And>k. books (snd (m k)) = books k \<and> reading (snd (m k)) = reading k"
  shows "keeps (assured dg book atoms n A) (on_cat m)"
proof (rule keepsI)
  fix d assume d: "assured dg book atoms n A d"
  obtain r k where k: "m (dk_catalog d) = (r, k)" by fastforce
  with assms [of "dk_catalog d"] have "books k = books (dk_catalog d)" "reading k = reading (dk_catalog d)" by simp_all
  with d k show "assured dg book atoms n A (snd (on_cat m d))" by (auto simp: on_cat_def elim!: assured_same)
qed

lemma settle_cost_kept: "books (snd (settle_cost b rid ph now k)) = books k \<and> reading (snd (settle_cost b rid ph now k)) = reading k"
  by (auto simp: settle_cost_def atomically_def bindA_def asks_def raise_def insert_ledger_def modify_def split: prod.splits sum.splits option.splits if_splits)

lemma finalize_ingest_Inr:
  assumes "finalize_ingest b (PyInt i) cost (Some n) now k = (Inr u, k')"
  shows "current_incarnation b (Some n) k \<and> books k' = books k \<and>
    get_state b k' = map_option (\<lambda>r. r\<lparr>rs_progress := max (rs_progress r) i, rs_updated := Some now\<rparr>) (get_state b k)"
proof -
  have i: "check_int (PyInt i) = Inr j \<Longrightarrow> j = i" for j by (simp add: check_int_def split: if_splits)
  have same: "books (drop_extraction_reservations b i k0) = books k0" "books (upsert_extraction b i x y z u now k0) = books k0" for x y z u k0
    by (simp_all add: drop_extraction_reservations_def upsert_extraction_def)
  from assms have "\<exists>k1. k' = advance b i now k1 \<and> books k1 = books k \<and> reading k1 = reading k \<and> current_incarnation b (Some n) k"
    by (auto simp: finalize_ingest_def bindA_Inr atomically_Inr same dest!: i split: if_splits option.splits prod.splits)
  then obtain k1 where k1: "books k1 = books k" "reading k1 = reading k" "k' = advance b i now k1" "current_incarnation b (Some n) k" by blast
  have up: "get_state b (advance b i now k1) = map_option (\<lambda>r. if rs_book r = b then r\<lparr>rs_progress := max (rs_progress r) i, rs_updated := Some now\<rparr> else r) (get_state b k1)"
    unfolding advance_def by (rule get_state_update) simp
  have own: "get_state b k = Some r \<Longrightarrow> rs_book r = b" for r by (auto simp: get_state_def find_Some_iff)
  have "get_state b k1 = get_state b k" using k1(2) by (simp add: get_state_def)
  with up own have "get_state b k' = map_option (\<lambda>r. r\<lparr>rs_progress := max (rs_progress r) i, rs_updated := Some now\<rparr>) (get_state b k)"
    using k1(3) by (cases "get_state b k") simp_all
  moreover have "books k' = books k" using k1(1,3) by (simp add: advance_def)
  ultimately show ?thesis using k1(4) by blast
qed

lemma assured_finalize:
  assumes "assured dg book atoms n A d" and "\<forall>(key, o') \<in> atoms. o' \<le> i \<longrightarrow> (key, o') \<in> A"
  shows "assured dg book atoms n A (snd (on_cat (finalize_ingest book (PyInt i) cost (Some n) now) d))"
proof (cases "finalize_ingest book (PyInt i) cost (Some n) now (dk_catalog d)")
  case (Pair r k')
  show ?thesis
  proof (cases r)
    case (Inl e)
    with Pair aon_methods(7) have "k' = dk_catalog d" by (auto simp: all_or_nothing_def)
    with Pair assms(1) show ?thesis by (simp add: on_cat_def)
  next
    case (Inr u)
    note f = finalize_ingest_Inr [OF Pair [unfolded Inr]]
    let ?d = "d\<lparr>dk_catalog := k'\<rparr>"
    have c: "carries book m ?d = carries book m d" for m using f by (simp add: carries_def current_incarnation_def)
    have r: "receipt_on dg book ?d k = receipt_on dg book d k" for k by (simp add: receipt_on_def)
    have mine: "\<forall>k \<in> A. receipt_on dg book d k" using f assms(1) by (simp add: assured_def carries_def)
    have "backed dg book atoms ?d"
      unfolding backed_def r
    proof (intro ballI, clarify)
      fix key o' row assume a: "(key, o') \<in> atoms" "get_state book (dk_catalog ?d) = Some row" "o' \<le> rs_progress row"
      with f obtain old where "get_state book (dk_catalog d) = Some old" "rs_progress row = max (rs_progress old) i" by auto
      with a assms mine show "receipt_on dg book d (key, o')" by (auto simp: assured_def system_ok_def backed_def le_max_iff_disj)
    qed
    with assms(1) Pair show ?thesis by (simp add: on_cat_def assured_def system_ok_def vouched_def c r)
  qed
qed


section \<open>Triples with an exceptional postcondition\<close>

definition yields :: "('s \<Rightarrow> bool) \<Rightarrow> ('s, 'a) act \<Rightarrow> ('a \<Rightarrow> 's \<Rightarrow> bool) \<Rightarrow> ('s \<Rightarrow> bool) \<Rightarrow> bool" where
  "yields P m Q E = (\<forall>s. P s \<longrightarrow> (case m s of (Inl _, s') \<Rightarrow> E s' | (Inr x, s') \<Rightarrow> Q x s'))"

lemma yieldsI:
  assumes "\<And>s e s'. P s \<Longrightarrow> m s = (Inl e, s') \<Longrightarrow> E s'" and "\<And>s x s'. P s \<Longrightarrow> m s = (Inr x, s') \<Longrightarrow> Q x s'"
  shows "yields P m Q E"
  using assms by (auto simp: yields_def split: prod.splits sum.splits)

lemma yieldsD:
  assumes "yields P m Q E" and "P s"
  shows "m s = (Inl e, s') \<Longrightarrow> E s'" and "m s = (Inr x, s') \<Longrightarrow> Q x s'"
  using assms by (auto simp: yields_def dest!: spec [of _ s])

lemma yields_bindA:
  assumes "yields P m Q E" and "\<And>x. yields (Q x) (f x) R E"
  shows "yields P (bindA m f) R E"
proof (rule yieldsI)
  fix s assume s: "P s"
  obtain r s0 where m: "m s = (r, s0)" by fastforce
  { fix e s' assume e: "bindA m f s = (Inl e, s')"
    show "E s'"
    proof (cases r)
      case (Inl a)
      with m e yieldsD(1) [OF assms(1) s] show ?thesis by (simp add: bindA_def)
    next
      case (Inr x)
      with m e yieldsD(1) [OF assms(2) yieldsD(2) [OF assms(1) s]] show ?thesis by (simp add: bindA_def)
    qed }
  { fix y s' assume e: "bindA m f s = (Inr y, s')"
    show "R y s'"
    proof (cases r)
      case (Inl a)
      with m e show ?thesis by (simp add: bindA_def)
    next
      case (Inr x)
      with m e yieldsD(2) [OF assms(2) yieldsD(2) [OF assms(1) s]] show ?thesis by (simp add: bindA_def)
    qed }
qed

lemma yields_keeps: "keeps P m \<Longrightarrow> (\<And>s. P s \<Longrightarrow> E s) \<Longrightarrow> yields P m (\<lambda>_. P) E"
  by (rule yieldsI) (auto simp: keeps_def dest!: spec)

lemma yields_kept: "keeps P m \<Longrightarrow> yields P m (\<lambda>_. P) P"
  by (rule yields_keeps)

lemma keeps_yielded: "yields P m (\<lambda>_. P) P \<Longrightarrow> keeps P m"
proof (rule keepsI)
  fix s assume "yields P m (\<lambda>_. P) P" "P s"
  from yieldsD [OF this] show "P (snd (m s))" by (cases "m s"; cases "fst (m s)") auto
qed

lemma yields_weaken:
  assumes "yields P m Q E" and "\<And>x s. Q x s \<Longrightarrow> Q' x s" and "\<And>s. E s \<Longrightarrow> E' s"
  shows "yields P m Q' E'"
  using assms(2,3) yieldsD [OF assms(1)] by (intro yieldsI) blast+

lemma yields_pre: "yields P m Q E \<Longrightarrow> (\<And>s. P' s \<Longrightarrow> P s) \<Longrightarrow> yields P' m Q E"
  by (auto simp: yields_def)

lemma yields_ret: "(\<And>s. P s \<Longrightarrow> Q x s) \<Longrightarrow> yields P (ret x) Q E"
  by (auto simp: yields_def ret_def)

lemma yields_raise: "(\<And>s. P s \<Longrightarrow> E s) \<Longrightarrow> yields P (raise e) Q E"
  by (auto simp: yields_def raise_def)

lemma yields_if: "(b \<Longrightarrow> yields P m Q E) \<Longrightarrow> (\<not> b \<Longrightarrow> yields P n Q E) \<Longrightarrow> yields P (if b then m else n) Q E"
  by simp

lemma yields_bind_lift: "(\<And>x. r = Inr x \<Longrightarrow> yields P (f x) Q P) \<Longrightarrow> yields P (bindA (liftA r) f) Q P"
  by (cases r) (auto simp: yields_def bindA_def liftA_def)

lemma yields_on_error: "yields P m Q E \<Longrightarrow> keeps E h \<Longrightarrow> yields P (on_error h m) Q E"
  by (rule yieldsI) (auto simp: on_error_def bindA_def raise_def keeps_def split: prod.splits sum.splits dest: yieldsD)

section \<open>The run keeps the contract\<close>

definition run_ok :: "pipeline_digests \<Rightarrow> string \<Rightarrow> (string \<times> int) set \<Rightarrow> string \<Rightarrow> (string \<times> int) set \<Rightarrow> run \<Rightarrow> bool" where
  "run_ok dg book atoms n A r = (list_all (\<lambda>f. \<forall>d. polite dg book atoms n d (f d)) (rn_others r) \<and> assured dg book atoms n A (rn_desk r))"

lemma yields_here:
  assumes "yields (assured dg book atoms n A) m (\<lambda>x. assured dg book atoms n (B x)) (assured dg book atoms n A)"
  shows "yields (run_ok dg book atoms n A) (here m) (\<lambda>x. run_ok dg book atoms n (B x)) (run_ok dg book atoms n A)"
proof (rule yieldsI)
  fix r assume r: "run_ok dg book atoms n A r"
  define d where "d = (case rn_others r of [] \<Rightarrow> rn_desk r | f # _ \<Rightarrow> f (rn_desk r))"
  have d: "assured dg book atoms n A d" and rest: "list_all (\<lambda>f. \<forall>d. polite dg book atoms n d (f d)) (tl (rn_others r))"
    using r by (cases "rn_others r"; auto simp: run_ok_def d_def intro: assured_polite)+
  obtain x d' where m: "m d = (x, d')" by fastforce
  have h: "here m r = (x, r\<lparr>rn_desk := d', rn_others := tl (rn_others r)\<rparr>)" using m by (simp add: here_def d_def [symmetric] Let_def)
  { fix e r' assume "here m r = (Inl e, r')"
    with h m rest yieldsD(1) [OF assms d] show "run_ok dg book atoms n A r'" by (auto simp: run_ok_def) }
  { fix y r' assume "here m r = (Inr y, r')"
    with h m rest yieldsD(2) [OF assms d] show "run_ok dg book atoms n (B y) r'" by (auto simp: run_ok_def) }
qed

lemma keeps_here: "keeps (assured dg book atoms n A) m \<Longrightarrow> keeps (run_ok dg book atoms n A) (here m)"
  by (rule keeps_yielded, rule yields_here, rule yields_kept)

lemma assured_only_desk:
  assumes "assured dg book atoms n A d" and "dk_catalog d' = dk_catalog d" and "dk_mem d' = dk_mem d" and "dk_verified d' = dk_verified d"
  shows "assured dg book atoms n A d'"
  by (rule assured_same [OF assms(1)]) (simp_all add: assms)

lemma keeps_assured_asks: "keeps P (asks f)"
  by (simp add: keeps_def asks_def)

lemma keeps_fences:
  "keeps (run_ok dg book atoms n A) check_stopping" "keeps (run_ok dg book atoms n A) (require_incarnation b n')"
proof -
  have "keeps (assured dg book atoms n A) (on_cat (asks f))" for f :: "catalog \<Rightarrow> 'x"
    by (rule keeps_assured_on_cat) (simp add: asks_def)
  then show "keeps (run_ok dg book atoms n A) check_stopping" "keeps (run_ok dg book atoms n A) (require_incarnation b n')"
    unfolding check_stopping_def require_incarnation_def row_incarnation_def worker_incarnation_def
    by (intro keeps_intros keeps_here keeps_assured_asks; assumption)+
qed

lemma keeps_publish:
  assumes "\<forall>(key, o') \<in> atoms. o' \<le> v \<longrightarrow> (key, o') \<in> A"
  shows "keeps (run_ok dg book atoms n A) (publish_validated book n g v)"
proof -
  have "keeps (assured dg book atoms n A) (set_verified n g v)"
  proof (rule keepsI)
    fix d assume d: "assured dg book atoms n A d"
    let ?d = "d\<lparr>dk_verified := Some (n, g, v)\<rparr>"
    have "vouched dg book atoms ?d"
      using d assms by (fastforce simp: vouched_def assured_def carries_def receipt_on_def)
    then have "assured dg book atoms n A ?d"
      using d by (simp add: assured_def system_ok_def backed_def carries_def receipt_on_def)
    with d show "assured dg book atoms n A (snd (set_verified n g v d))"
      by (simp add: set_verified_def bindA_def asks_def modify_def raise_def)
  qed
  then show ?thesis unfolding publish_validated_def by (intro keeps_bindA keeps_fences keeps_here)
qed

lemma keeps_finish:
  assumes "\<forall>(key, o') \<in> atoms. o' \<le> i \<longrightarrow> (key, o') \<in> A"
  shows "keeps (run_ok dg (sx_book sx) atoms (sx_incarnation sx) A) (settle_chapter sx i cost)"
  unfolding settle_chapter_def by (intro keeps_bindA keeps_publish keeps_here keepsI assured_finalize assms)

lemma yields_settling:
  assumes "yields P m Q (run_ok dg (sx_book sx) atoms n A)"
  shows "yields P (settling sx rids phase m) Q (run_ok dg (sx_book sx) atoms n A)"
  unfolding settling_def
  by (intro yields_on_error assms keeps_bindA keeps_for_each keeps_here keeps_assured_on_cat settle_cost_kept keeps_ret)


text \<open>A method of the book's session: what it leaves at rest, the receipts it keeps and those it finds or adds.\<close>

definition gains :: "pipeline_digests \<Rightarrow> string \<Rightarrow> (mem conn, 'a) act \<Rightarrow> ('a \<Rightarrow> (string \<times> int) set) \<Rightarrow> bool" where
  "gains dg book m N = (\<forall>c. book_rest book c \<longrightarrow> (case m c of (x, c') \<Rightarrow> book_rest book c' \<and>
     (\<forall>k. has_receipt dg book k c \<longrightarrow> has_receipt dg book k c') \<and> (\<forall>y. x = Inr y \<longrightarrow> (\<forall>k \<in> N y. has_receipt dg book k c'))))"

lemma gainsI:
  assumes "\<And>c x c'. book_rest book c \<Longrightarrow> m c = (x, c') \<Longrightarrow> book_rest book c' \<and> (\<forall>k. has_receipt dg book k c \<longrightarrow> has_receipt dg book k c')"
    and "\<And>c y c' k. book_rest book c \<Longrightarrow> m c = (Inr y, c') \<Longrightarrow> k \<in> N y \<Longrightarrow> has_receipt dg book k c'"
  shows "gains dg book m N"
  using assms by (auto simp: gains_def split: prod.splits)

lemma yields_on_book:
  assumes "gains dg book m N"
  shows "yields (assured dg book atoms n A) (on_book m) (\<lambda>y. assured dg book atoms n (A \<union> N y)) (assured dg book atoms n A)"
proof (rule yieldsI)
  fix d assume d: "assured dg book atoms n A d"
  obtain x c' where m: "m (dk_mem d) = (x, c')" by fastforce
  from assms d m have g: "book_rest book c'" "\<And>k. receipt_on dg book d k \<Longrightarrow> receipt_on dg book (d\<lparr>dk_mem := c'\<rparr>) k"
    "\<And>y k. x = Inr y \<Longrightarrow> k \<in> N y \<Longrightarrow> receipt_on dg book (d\<lparr>dk_mem := c'\<rparr>) k"
    by (auto simp: gains_def assured_def system_ok_def receipt_on_def dest!: spec [of _ "dk_mem d"])
  have d': "assured dg book atoms n A (d\<lparr>dk_mem := c'\<rparr>)"
    using d g(1,2) by (fastforce simp: assured_def system_ok_def backed_def vouched_def carries_def)
  { fix e d1 assume "on_book m d = (Inl e, d1)"
    with m d' show "assured dg book atoms n A d1" by (simp add: on_book_def) }
  { fix y d1 assume "on_book m d = (Inr y, d1)"
    with m d' g(3) show "assured dg book atoms n (A \<union> N y) d1" by (auto simp: on_book_def assured_def) }
qed

lemma yields_in_book:
  assumes "yields (assured dg book atoms n A) m Q (assured dg book atoms n A)"
  shows "yields (assured dg book atoms n A) (in_book m) Q (assured dg book atoms n A)"
proof (rule yieldsI)
  fix d assume d: "assured dg book atoms n A d"
  have o1: "assured dg book atoms n A (d\<lparr>dk_opens := os\<rparr>)" for os by (rule assured_only_desk [OF d]) simp_all
  { fix e d1 assume "in_book m d = (Inl e, d1)"
    with o1 yieldsD(1) [OF assms o1] show "assured dg book atoms n A d1" by (auto simp: in_book_def split: list.splits sum.splits) }
  { fix y d1 assume "in_book m d = (Inr y, d1)"
    with yieldsD(2) [OF assms o1] show "Q y d1" by (auto simp: in_book_def split: list.splits sum.splits) }
qed

definition found :: "chapter_in \<Rightarrow> receipt_cost option option \<times> 'a \<Rightarrow> (string \<times> int) set" where
  "found ch y = (if fst y = None then {} else {(ci_key ch, ci_ordinal ch)})"

lemma gains_inputs: "gains dg book (inputs dg ch) (found ch)"
proof (rule gainsI)
  fix c x c' assume c: "book_rest book c" "inputs dg ch c = (x, c')"
  with inputs_rest [of book c dg ch] show "book_rest book c' \<and> (\<forall>k. has_receipt dg book k c \<longrightarrow> has_receipt dg book k c')"
    by (simp add: same_rest_def has_receipt_def)
next
  fix c y c' k assume c: "book_rest book c" "inputs dg ch c = (Inr y, c')" "k \<in> found ch y"
  then obtain x z where "y = (Some x, z)" "k = (ci_key ch, ci_ordinal ch)" by (cases y) (auto simp: found_def split: if_splits)
  with inputs_Inr c show "has_receipt dg book k c'" by blast
qed

definition made :: "chapter_in \<Rightarrow> 'a + 'b \<Rightarrow> (string \<times> int) set" where
  "made ch r = (case r of Inl _ \<Rightarrow> {} | Inr _ \<Rightarrow> {(ci_key ch, ci_ordinal ch)})"

lemma gains_commit: "gains (sx_digests sx) book (commit_in_book sx final ch p) (made ch)"
proof -
  have tail: "same_rest book c1 c'" if i: "ingest_chapter (sx_digests sx) (sx_cosine sx) ch p (sx_now sx) c = (r, c1)"
    and x: "commit_in_book sx final ch p c = (x, c')" for c c1 c' r x
  proof (cases r)
    case (Inl e)
    have "same_rest book c1 (snd (bindA (all_entities (max (ci_ordinal ch - 1) 0)) (\<lambda>roster. ret (Inl roster :: roster_entry list + receipt_cost option)) c1))"
      by (rule reads_rest; intro keeps_intros)
    with Inl x i show ?thesis by (auto simp: commit_in_book_def split: if_splits)
  next
    case (Inr w)
    have "same_rest book c1 (snd (bindA (chapter_completion (dg_chapter (sx_digests sx)) (ci_key ch) (ci_ordinal ch) (dg_chapter (sx_digests sx) (ci_text ch)))
       (\<lambda>receipt. case receipt of None \<Rightarrow> raise (RuntimeError ''chapter committed without its completion marker'') | Some cost \<Rightarrow> ret (Inr cost :: roster_entry list + receipt_cost option)) c1))"
      by (rule reads_rest; intro keeps_intros)
    with Inr x i show ?thesis by (simp add: commit_in_book_def)
  qed
  show ?thesis
  proof (rule gainsI)
    fix c x c' assume c: "book_rest book c" "commit_in_book sx final ch p c = (x, c')"
    obtain r c1 where i: "ingest_chapter (sx_digests sx) (sx_cosine sx) ch p (sx_now sx) c = (r, c1)" by fastforce
    from ingest_book_rest [OF c(1) i] tail [OF i c(2)]
    show "book_rest book c' \<and> (\<forall>k. has_receipt (sx_digests sx) book k c \<longrightarrow> has_receipt (sx_digests sx) book k c')"
      by (simp add: same_rest_def has_receipt_def)
  next
    fix c y c' k assume c: "book_rest book c" "commit_in_book sx final ch p c = (Inr y, c')" "k \<in> made ch y"
    obtain r c1 where i: "ingest_chapter (sx_digests sx) (sx_cosine sx) ch p (sx_now sx) c = (r, c1)" by fastforce
    from c(3) obtain cost where y: "y = Inr cost" "k = (ci_key ch, ci_ordinal ch)" by (cases y) (auto simp: made_def)
    have "\<exists>w. r = Inr w"
      using c(2) i y by (cases r) (auto simp: commit_in_book_def bindA_Inr split: if_splits)
    with ingest_book_rest [OF c(1) i] tail [OF i c(2)] y show "has_receipt (sx_digests sx) book k c'"
      by (auto simp: same_rest_def has_receipt_def)
  qed
qed

lemma keeps_incarnation_desk:
  "keeps (assured dg book atoms n A) (row_incarnation b n')" "keeps (assured dg book atoms n A) (worker_incarnation n')"
proof -
  have "keeps (assured dg book atoms n A) (on_cat (asks f))" for f :: "catalog \<Rightarrow> 'x"
    by (rule keeps_assured_on_cat) (simp add: asks_def)
  then show "keeps (assured dg book atoms n A) (row_incarnation b n')" "keeps (assured dg book atoms n A) (worker_incarnation n')"
    unfolding row_incarnation_def worker_incarnation_def by (intro keeps_intros keeps_assured_asks; assumption)+
qed

lemma yields_commit_once:
  "yields (assured (sx_digests sx) book atoms n A) (commit_once sx final ch p) (\<lambda>r. assured (sx_digests sx) book atoms n (A \<union> made ch r)) (assured (sx_digests sx) book atoms n A)"
  unfolding commit_once_def
  by (rule yields_bindA, rule yields_kept, rule keeps_incarnation_desk, rule yields_bindA, rule yields_kept, rule keeps_incarnation_desk,
      rule yields_in_book, rule yields_bindA, rule yields_kept, rule keeps_incarnation_desk, rule yields_on_book, rule gains_commit)

lemma yields_commit_attempts:
  assumes "polite_helpers (sx_digests sx) book atoms n (sx_helpers sx)"
  shows "yields (run_ok (sx_digests sx) book atoms n A) (commit_attempts sx k ch x identity p)
    (\<lambda>_. run_ok (sx_digests sx) book atoms n (insert (ci_key ch, ci_ordinal ch) A)) (run_ok (sx_digests sx) book atoms n A)"
proof (induction k arbitrary: p)
  case 0
  have "yields (run_ok (sx_digests sx) book atoms n (A \<union> made ch r)) (case r of Inr cost \<Rightarrow> ret cost | Inl roster \<Rightarrow> raise (RuntimeError ''StalePreparedRoster''))
      (\<lambda>_. run_ok (sx_digests sx) book atoms n (insert (ci_key ch, ci_ordinal ch) A)) (run_ok (sx_digests sx) book atoms n A)"
    for r :: "roster_entry list + receipt_cost option"
    by (cases r) (auto simp: made_def intro!: yields_raise yields_ret)
  then show ?case unfolding commit_attempts.simps by (intro yields_bindA [OF yields_here [OF yields_commit_once]])
next
  case (Suc k)
  have prep: "keeps (run_ok (sx_digests sx) book atoms n A) (here (hp_prepare (sx_helpers sx) ch x roster identity))" for roster
    by (rule keeps_here, rule keeps_assured_act) (use assms in \<open>simp add: polite_helpers_def\<close>)
  have "yields (run_ok (sx_digests sx) book atoms n (A \<union> made ch r)) (case r of Inr cost \<Rightarrow> ret cost
      | Inl roster \<Rightarrow> bindA (here (hp_prepare (sx_helpers sx) ch x roster identity)) (\<lambda>p'. commit_attempts sx k ch x identity p'))
      (\<lambda>_. run_ok (sx_digests sx) book atoms n (insert (ci_key ch, ci_ordinal ch) A)) (run_ok (sx_digests sx) book atoms n A)"
    for r :: "roster_entry list + receipt_cost option"
  proof (cases r)
    case (Inl roster)
    show ?thesis unfolding Inl by (simp add: made_def) (rule yields_bindA, rule yields_kept, rule prep, rule Suc.IH)
  qed (auto simp: made_def intro!: yields_ret)
  then show ?case unfolding commit_attempts.simps by (intro yields_bindA [OF yields_here [OF yields_commit_once]])
qed


lemma run_ok_mono: "run_ok dg book atoms n B r \<Longrightarrow> A \<subseteq> B \<Longrightarrow> run_ok dg book atoms n A r"
  by (auto simp: run_ok_def assured_def)

definition atom_key :: "chapter_in \<Rightarrow> string \<times> int" where
  "atom_key ch = (ci_key ch, ci_ordinal ch)"

text \<open>After a chapter: its receipt is there and the validated ordinal is its own.\<close>

definition passed_to :: "pipeline_digests \<Rightarrow> string \<Rightarrow> (string \<times> int) set \<Rightarrow> string \<Rightarrow> (string \<times> int) set \<Rightarrow> int \<Rightarrow> progress_state \<Rightarrow> run \<Rightarrow> bool" where
  "passed_to dg book atoms n A v ps r = (run_ok dg book atoms n A r \<and> ps_validated ps = v)"

lemma yields_finish:
  assumes "\<forall>(key, o') \<in> atoms. o' \<le> i \<longrightarrow> (key, o') \<in> B" and "A \<subseteq> B" and "ps_validated ps = i"
  shows "yields (run_ok dg (sx_book sx) atoms (sx_incarnation sx) B) (bindA (settle_chapter sx i cost) (\<lambda>_. ret ps))
    (passed_to dg (sx_book sx) atoms (sx_incarnation sx) B i) (run_ok dg (sx_book sx) atoms (sx_incarnation sx) A)"
  by (rule yields_bindA, rule yields_keeps, rule keeps_finish, rule assms(1), erule run_ok_mono, rule assms(2), rule yields_ret)
    (simp add: passed_to_def assms(3))

lemma keeps_here_asks: "keeps (run_ok dg book atoms n A) (here (on_cat (asks f)))"
  by (rule keeps_here, rule keeps_assured_on_cat) (simp add: asks_def)

lemma yields_missing:
  assumes h: "polite_helpers (sx_digests sx) (sx_book sx) atoms (sx_incarnation sx) (sx_helpers sx)"
    and up: "\<forall>(key, o') \<in> atoms. o' \<le> ci_ordinal ch \<longrightarrow> (key, o') \<in> insert (atom_key ch) A"
  shows "yields (run_ok (sx_digests sx) (sx_book sx) atoms (sx_incarnation sx) A) (ingest_missing sx ch pin ty language roster ps)
    (passed_to (sx_digests sx) (sx_book sx) atoms (sx_incarnation sx) (insert (atom_key ch) A) (ci_ordinal ch))
    (run_ok (sx_digests sx) (sx_book sx) atoms (sx_incarnation sx) A)"
proof -
  let ?ok = "run_ok (sx_digests sx) (sx_book sx) atoms (sx_incarnation sx)"
  have helpers: "keeps (?ok A) (here (hp_identify (sx_helpers sx) o'))" "keeps (?ok A) (here (hp_extract (sx_helpers sx) ch r t l))"
    "keeps (?ok A) (here (hp_prepare (sx_helpers sx) ch x r i))" for o' r t l x i
    by (rule keeps_here, rule keeps_assured_act, use h in \<open>simp add: polite_helpers_def\<close>)+
  have identify: "keeps (?ok A) (case ps_identity ps of Some i \<Rightarrow> ret i | None \<Rightarrow> here (hp_identify (sx_helpers sx) (ci_ordinal ch)))"
    by (intro keeps_case_option keeps_ret helpers)
  have prepare: "yields (?ok A) (settling sx (ex_reservations x) phase (bindA check_stopping (\<lambda>_. here (hp_prepare (sx_helpers sx) ch x roster identity))))
    (\<lambda>_. ?ok A) (?ok A)" for x identity phase
    by (rule yields_settling, rule yields_kept, intro keeps_bindA keeps_fences helpers)
  have commit: "yields (?ok A) (settling sx (ex_reservations x) phase (commit_attempts sx 2 ch x identity p))
    (\<lambda>_. ?ok (insert (atom_key ch) A)) (?ok A)" for x identity phase p
    unfolding atom_key_def by (rule yields_settling, rule yields_commit_attempts, rule h)
  have fence: "yields (?ok (insert (atom_key ch) A)) (require_incarnation (sx_book sx) (sx_incarnation sx)) (\<lambda>_. ?ok (insert (atom_key ch) A)) (?ok A)"
    by (rule yields_keeps, rule keeps_fences) (auto elim: run_ok_mono)
  have settle: "yields (?ok (insert (atom_key ch) A)) (bindA (settle_chapter sx (ci_ordinal ch) cost) (\<lambda>_. ret \<lparr>ps_identity = Some identity, ps_done = ci_ordinal ch, ps_validated = ci_ordinal ch\<rparr>))
    (passed_to (sx_digests sx) (sx_book sx) atoms (sx_incarnation sx) (insert (atom_key ch) A) (ci_ordinal ch)) (?ok A)" for cost identity
    by (rule yields_finish [OF up]) auto
  show ?thesis
    unfolding ingest_missing_def Let_def
    by (intro yields_if yields_raise yields_bindA [OF yields_kept [OF keeps_here_asks]] yields_bindA [OF yields_kept [OF keeps_liftA]]
        yields_bindA [OF yields_kept [OF identify]] yields_bindA [OF yields_kept [OF helpers(2)]] yields_bindA [OF prepare]
        yields_bindA [OF commit] yields_bindA [OF fence] settle)
qed

lemma yields_chapter:
  assumes h: "polite_helpers (sx_digests sx) (sx_book sx) atoms (sx_incarnation sx) (sx_helpers sx)"
    and up: "\<forall>(key, o') \<in> atoms. o' \<le> ci_ordinal ch \<longrightarrow> (key, o') \<in> insert (atom_key ch) A"
  shows "yields (run_ok (sx_digests sx) (sx_book sx) atoms (sx_incarnation sx) A) (one_chapter sx ch ps)
    (passed_to (sx_digests sx) (sx_book sx) atoms (sx_incarnation sx) (insert (atom_key ch) A) (ci_ordinal ch))
    (run_ok (sx_digests sx) (sx_book sx) atoms (sx_incarnation sx) A)"
proof -
  let ?ok = "run_ok (sx_digests sx) (sx_book sx) atoms (sx_incarnation sx)"
  have read: "yields (?ok A) (here (in_book (on_book (inputs (sx_digests sx) ch)))) (\<lambda>y. ?ok (A \<union> found ch y)) (?ok A)"
    by (rule yields_here, rule yields_in_book, rule yields_on_book, rule gains_inputs)
  have rest: "yields (?ok (A \<union> found ch y)) (case y of (receipt, pin, book_type, language, roster) \<Rightarrow> (case receipt of
       Some cost \<Rightarrow> bindA (settle_chapter sx (ci_ordinal ch) cost) (\<lambda>_.
         ret (ps\<lparr>ps_done := max (ps_done ps) (ci_ordinal ch), ps_validated := ci_ordinal ch\<rparr>))
     | None \<Rightarrow> ingest_missing sx ch pin book_type language roster ps))
    (passed_to (sx_digests sx) (sx_book sx) atoms (sx_incarnation sx) (insert (atom_key ch) A) (ci_ordinal ch)) (?ok A)" for y
  proof -
    obtain receipt pin ty language roster where y: "y = (receipt, pin, ty, language, roster)" by (cases y) auto
    show ?thesis
    proof (cases receipt)
      case None
      then show ?thesis using yields_missing [OF h up] by (simp add: y found_def)
    next
      case (Some cost)
      then show ?thesis unfolding y found_def atom_key_def [symmetric]
        by (simp add: atom_key_def [symmetric]) (rule yields_finish [OF up], auto)
    qed
  qed
  show ?thesis
    unfolding one_chapter_def Let_def
    by (intro yields_bindA [OF yields_kept [OF keeps_fences(2)]] yields_if yields_raise yields_bindA [OF read] rest)
qed

text \<open>The chapters up to the target, in order.\<close>

definition due :: "int \<Rightarrow> chapter_in list \<Rightarrow> chapter_in list" where
  "due target chs = filter (\<lambda>c. ci_ordinal c \<le> target) chs"

lemma yields_loop:
  assumes h: "polite_helpers (sx_digests sx) (sx_book sx) atoms (sx_incarnation sx) (sx_helpers sx)"
    and "atoms = set (map atom_key (pre @ chs))" and "sorted_wrt (<) (map ci_ordinal (pre @ chs))"
  shows "yields (run_ok (sx_digests sx) (sx_book sx) atoms (sx_incarnation sx) (set (map atom_key (due target pre)))) (ingest_loop sx target chs ps)
    (\<lambda>v r. run_ok (sx_digests sx) (sx_book sx) atoms (sx_incarnation sx) (set (map atom_key (due target (pre @ chs)))) r \<and>
       v = last (ps_validated ps # map ci_ordinal (due target chs)))
    (run_ok (sx_digests sx) (sx_book sx) atoms (sx_incarnation sx) {})"
  using assms(2,3)
proof (induction chs arbitrary: pre ps)
  case Nil
  show ?case
    by (auto simp: due_def intro!: yields_bindA [OF yields_keeps [OF keeps_fences(2)]] yields_ret elim: run_ok_mono)
next
  case (Cons ch chs)
  let ?ok = "run_ok (sx_digests sx) (sx_book sx) atoms (sx_incarnation sx)"
  have stop: "yields (?ok (set (map atom_key (due target pre)))) check_stopping (\<lambda>_. ?ok (set (map atom_key (due target pre)))) (?ok {})"
    by (rule yields_keeps, rule keeps_fences) (auto elim: run_ok_mono)
  show ?case
  proof (cases "target < ci_ordinal ch")
    case True
    then have skip: "due target (pre @ [ch]) = due target pre" "due target (ch # chs) = due target chs"
      "due target (pre @ ch # chs) = due target ((pre @ [ch]) @ chs)" by (simp_all add: due_def)
    have ih: "yields (?ok (set (map atom_key (due target (pre @ [ch]))))) (ingest_loop sx target chs ps)
      (\<lambda>v r. ?ok (set (map atom_key (due target ((pre @ [ch]) @ chs)))) r \<and> v = last (ps_validated ps # map ci_ordinal (due target chs))) (?ok {})"
      by (rule Cons.IH) (use Cons.prems in simp_all)
    show ?thesis unfolding ingest_loop.simps if_P [OF True] skip(2,3)
      by (rule yields_bindA [OF stop]) (rule ih [unfolded skip(1)])
  next
    case False
    have all: "due target pre = pre"
      unfolding due_def by (rule filter_True) (use Cons.prems(2) False in \<open>force simp: sorted_wrt_append\<close>)
    have up: "\<forall>(key, o') \<in> atoms. o' \<le> ci_ordinal ch \<longrightarrow> (key, o') \<in> insert (atom_key ch) (set (map atom_key (due target pre)))"
      using Cons.prems by (auto simp: all atom_key_def sorted_wrt_append)
    have next': "insert (atom_key ch) (set (map atom_key (due target pre))) = set (map atom_key (due target (pre @ [ch])))"
      using False by (auto simp: due_def)
    have one: "yields (?ok (set (map atom_key (due target pre)))) (one_chapter sx ch ps)
      (passed_to (sx_digests sx) (sx_book sx) atoms (sx_incarnation sx) (set (map atom_key (due target (pre @ [ch])))) (ci_ordinal ch)) (?ok {})"
      by (rule yields_weaken [OF yields_chapter [OF h up, unfolded next']]) (auto elim: run_ok_mono)
    have rest: "yields (passed_to (sx_digests sx) (sx_book sx) atoms (sx_incarnation sx) (set (map atom_key (due target (pre @ [ch])))) (ci_ordinal ch) ps')
      (ingest_loop sx target chs ps') (\<lambda>v r. ?ok (set (map atom_key (due target (pre @ ch # chs)))) r \<and>
        v = last (ps_validated ps # map ci_ordinal (due target (ch # chs)))) (?ok {})" for ps'
    proof (rule yieldsI)
      fix r e r' assume r: "passed_to (sx_digests sx) (sx_book sx) atoms (sx_incarnation sx) (set (map atom_key (due target (pre @ [ch])))) (ci_ordinal ch) ps' r"
        and "ingest_loop sx target chs ps' r = (Inl e, r')"
      with Cons.IH [of "pre @ [ch]" ps'] Cons.prems show "?ok {} r'" by (auto simp: passed_to_def dest: yieldsD(1))
    next
      fix r v r' assume r: "passed_to (sx_digests sx) (sx_book sx) atoms (sx_incarnation sx) (set (map atom_key (due target (pre @ [ch])))) (ci_ordinal ch) ps' r"
        and l: "ingest_loop sx target chs ps' r = (Inr v, r')"
      have "yields (?ok (set (map atom_key (due target (pre @ [ch]))))) (ingest_loop sx target chs ps')
        (\<lambda>v r. ?ok (set (map atom_key (due target ((pre @ [ch]) @ chs)))) r \<and> v = last (ps_validated ps' # map ci_ordinal (due target chs))) (?ok {})"
        using Cons.IH [of "pre @ [ch]" ps'] Cons.prems by simp
      from yieldsD(2) [OF this _ l] r False
      show "?ok (set (map atom_key (due target (pre @ ch # chs)))) r' \<and> v = last (ps_validated ps # map ci_ordinal (due target (ch # chs)))"
        by (auto simp: passed_to_def due_def)
    qed
    show ?thesis unfolding ingest_loop.simps if_not_P [OF False]
      by (rule yields_bindA [OF stop], rule yields_bindA [OF one], rule rest)
  qed
qed


lemma filter_upto: "filter (\<lambda>i. i \<le> t) [a..b] = [a..min b t]" for a b t :: int
proof (induction a b rule: upto.induct)
  case (1 a b)
  show ?case
  proof (cases "a \<le> b")
    case True
    show ?thesis
    proof (cases "a \<le> t")
      case True
      with \<open>a \<le> b\<close> 1 show ?thesis by (simp add: upto_rec1 [of a b] upto_rec1 [of a "min b t"])
    next
      case False
      then have "filter (\<lambda>i. i \<le> t) [a..b] = []" by (auto simp: filter_empty_conv)
      with False show ?thesis by simp
    qed
  qed simp
qed

lemma foldr_max_le: "(\<And>x. x \<in> set xs \<Longrightarrow> x \<le> N) \<Longrightarrow> 0 \<le> N \<Longrightarrow> foldr max xs 0 \<le> N" for N :: int
  by (induction xs) auto

lemma last_due: "t \<le> N \<Longrightarrow> last (0 # filter (\<lambda>i. i \<le> t) [1..N]) = max 0 t" for t N :: int
  by (cases "1 \<le> t") (simp_all add: filter_upto min_def upto_rec2)

lemma load_manifest_ordinals:
  assumes "load_manifest digest book content = Inr m"
  shows "map ma_ordinal (mf_atoms m) = [1..int (length (mf_atoms m))]"
  using assms by (auto simp: load_manifest_def Let_def split: if_splits option.splits)

lemma gate_of_passes:
  assumes "gate_of digest book content sn = Inr None" and "load_manifest digest book content = Inr m"
  shows "atoms_of m = set (map atom_key (sn_chapters sn))" and "map ci_ordinal (sn_chapters sn) = [1..int (length (mf_atoms m))]"
proof -
  from assms have e: "map (\<lambda>c. (ci_ordinal c, ci_key c, int (length (ci_text c)))) (sn_chapters sn) = map (\<lambda>a. (ma_ordinal a, ma_key a, ma_len a)) (mf_atoms m)"
    by (auto simp: gate_of_def Let_def split: if_splits)
  from arg_cong [OF e, of "map (\<lambda>(i, k, _). (k, i))"] show "atoms_of m = set (map atom_key (sn_chapters sn))"
    by (simp add: atoms_of_def o_def atom_key_def [abs_def])
  from arg_cong [OF e, of "map fst"] load_manifest_ordinals [OF assms(2)]
  show "map ci_ordinal (sn_chapters sn) = [1..int (length (mf_atoms m))]" by (simp add: o_def)
qed

text \<open>What a returned frontier means.\<close>

definition reached :: "pipeline_digests \<Rightarrow> string \<Rightarrow> (string \<times> int) set \<Rightarrow> string \<Rightarrow> int \<Rightarrow> int option \<Rightarrow> run \<Rightarrow> bool" where
  "reached dg book atoms n target v r = (case v of None \<Rightarrow> run_ok dg book atoms n {} r
     | Some i \<Rightarrow> i = max 0 target \<and> run_ok dg book atoms n {k \<in> atoms. snd k \<le> target} r)"

lemma yields_upto:
  assumes m: "load_manifest (dg_chapter (sx_digests sx)) (sx_book sx) content = Inr m"
    and h: "polite_helpers (sx_digests sx) (sx_book sx) (atoms_of m) (sx_incarnation sx) (sx_helpers sx)"
  shows "yields (run_ok (sx_digests sx) (sx_book sx) (atoms_of m) (sx_incarnation sx) {}) (ingest_upto sx segmented content target)
    (reached (sx_digests sx) (sx_book sx) (atoms_of m) (sx_incarnation sx) target) (run_ok (sx_digests sx) (sx_book sx) (atoms_of m) (sx_incarnation sx) {})"
proof -
  let ?ok = "run_ok (sx_digests sx) (sx_book sx) (atoms_of m) (sx_incarnation sx) {}"
  have "set (map ma_ordinal (mf_atoms m)) = {1..int (length (mf_atoms m))}"
    unfolding load_manifest_ordinals [OF m] by simp
  then have pos: "\<forall>(key, o') \<in> atoms_of m. o' \<le> 0 \<longrightarrow> (key, o') \<in> {}"
    by (auto simp: atoms_of_def) (metis atLeastAtMost_iff image_eqI not_one_le_zero order_trans)
  have blocked: "keeps ?ok (here (set_blocked n g why))" for n g why
    by (rule keeps_here, rule keepsI) (auto simp: set_blocked_def modify_def elim: assured_only_desk)
  have state: "keeps ?ok (here (on_cat (state_after b)))" for b
    by (rule keeps_here, rule keeps_assured_on_cat) (auto simp: state_after_def bindA_def asks_def raise_def ret_def split: option.splits)
  have loop: "yields ?ok (bindA (ingest_loop sx target (sn_chapters sn) \<lparr>ps_identity = None, ps_done = i, ps_validated = 0\<rparr>) (\<lambda>v. ret (Some v)))
      (reached (sx_digests sx) (sx_book sx) (atoms_of m) (sx_incarnation sx) target) ?ok"
    if g: "gate_of (dg_chapter (sx_digests sx)) (sx_book sx) content sn = Inr None" and t: "\<not> foldr max (map ci_ordinal (sn_chapters sn)) 0 < target" for sn i
  proof -
    note p = gate_of_passes [OF g m]
    have "sorted_wrt (<) [1..k]" for k :: int by (simp add: strict_sorted_iff)
    with p(2) have sorted: "sorted_wrt (<) (map ci_ordinal ([] @ sn_chapters sn))" by simp
    have "foldr max (map ci_ordinal (sn_chapters sn)) 0 \<le> int (length (mf_atoms m))" unfolding p(2) by (rule foldr_max_le) auto
    with t have "target \<le> int (length (mf_atoms m))" by linarith
    moreover have "map ci_ordinal (due target (sn_chapters sn)) = filter (\<lambda>i. i \<le> target) [1..int (length (mf_atoms m))]"
      unfolding p(2) [symmetric] by (simp add: due_def filter_map o_def)
    ultimately have v: "last (0 # map ci_ordinal (due target (sn_chapters sn))) = max 0 target" using last_due by presburger
    have A: "set (map atom_key (due target (sn_chapters sn))) = {k \<in> atoms_of m. snd k \<le> target}"
      by (auto simp: p(1) due_def atom_key_def)
    have "yields (run_ok (sx_digests sx) (sx_book sx) (atoms_of m) (sx_incarnation sx) (set (map atom_key (due target [])))) (ingest_loop sx target (sn_chapters sn) \<lparr>ps_identity = None, ps_done = i, ps_validated = 0\<rparr>)
      (\<lambda>v r. run_ok (sx_digests sx) (sx_book sx) (atoms_of m) (sx_incarnation sx) (set (map atom_key (due target ([] @ sn_chapters sn)))) r \<and>
         v = last (ps_validated \<lparr>ps_identity = None, ps_done = i, ps_validated = 0\<rparr> # map ci_ordinal (due target (sn_chapters sn)))) ?ok"
      by (rule yields_loop [OF h]) (use p(1) sorted in simp_all)
    then have l: "yields ?ok (ingest_loop sx target (sn_chapters sn) \<lparr>ps_identity = None, ps_done = i, ps_validated = 0\<rparr>)
      (\<lambda>v r. run_ok (sx_digests sx) (sx_book sx) (atoms_of m) (sx_incarnation sx) {k \<in> atoms_of m. snd k \<le> target} r \<and> v = max 0 target) ?ok"
      using A v by (simp add: due_def [of _ "[]"])
    show ?thesis by (rule yields_bindA [OF l]) (rule yields_ret, simp add: reached_def)
  qed
  have gated: "yields ?ok (case blocked of Some why \<Rightarrow> bindA (here (set_blocked n g why)) (\<lambda>_. ret None)
     | None \<Rightarrow> bindA (here (on_cat (state_after b))) (\<lambda>st.
         bindA (ingest_loop sx target (sn_chapters sn) \<lparr>ps_identity = None, ps_done = rs_progress st, ps_validated = 0\<rparr>) (\<lambda>v. ret (Some v))))
      (reached (sx_digests sx) (sx_book sx) (atoms_of m) (sx_incarnation sx) target) ?ok"
    if "gate_of (dg_chapter (sx_digests sx)) (sx_book sx) content sn = Inr blocked" "\<not> foldr max (map ci_ordinal (sn_chapters sn)) 0 < target" for blocked sn n g b
  proof (cases blocked)
    case None
    with that loop show ?thesis by (simp, intro yields_bindA [OF yields_kept [OF state]])
  next
    case (Some why)
    then show ?thesis by (simp, intro yields_bindA [OF yields_kept [OF blocked]] yields_ret) (simp add: reached_def)
  qed
  show ?thesis
    unfolding ingest_upto_def Let_def
    by (intro yields_bindA [OF yields_kept [OF keeps_fences(2)]] yields_bindA [OF yields_kept [OF keeps_publish [OF pos]]] yields_bind_lift
        yields_if yields_raise gated)
qed

section \<open>Properties\<close>


text \<open>
  Property C38: a run that returns a frontier has done its work: the frontier is the requested target, and as
  long as the catalog still carries the incarnation the run was for, every chapter of the manifest up to the
  target has a durable receipt that matches its stored text.
\<close>
theorem ingestion_reaches_its_target:
  assumes "load_manifest (dg_chapter (sx_digests sx)) (sx_book sx) content = Inr m"
    and "polite_helpers (sx_digests sx) (sx_book sx) (atoms_of m) (sx_incarnation sx) (sx_helpers sx)"
    and "\<forall>f \<in> set (rn_others r). \<forall>d. polite (sx_digests sx) (sx_book sx) (atoms_of m) (sx_incarnation sx) d (f d)"
    and "system_ok (sx_digests sx) (sx_book sx) (atoms_of m) (rn_desk r)"
    and "ingest_upto sx segmented content target r = (Inr (Some v), r')"
  shows "v = max 0 target \<and> (carries (sx_book sx) (sx_incarnation sx) (rn_desk r') \<longrightarrow>
    (\<forall>(key, ordinal) \<in> atoms_of m. ordinal \<le> target \<longrightarrow> receipt_on (sx_digests sx) (sx_book sx) (rn_desk r') (key, ordinal)))"
proof -
  have "run_ok (sx_digests sx) (sx_book sx) (atoms_of m) (sx_incarnation sx) {} r"
    using assms(3,4) by (simp add: run_ok_def assured_def list_all_iff)
  from yieldsD(2) [OF yields_upto [OF assms(1,2)] this assms(5)] show ?thesis
    by (auto simp: reached_def run_ok_def assured_def)
qed

section \<open>A run over a sample book\<close>

definition loop_digests :: pipeline_digests where
  "loop_digests = \<lparr>dg_chapter = id, dg_source = concat, dg_text = id, dg_facts = xt_summary, dg_scope = fst\<rparr>"

definition loop_identity :: model_identity where
  "loop_identity = \<lparr>mi_extractor = Some ''p:x'', mi_synth = Some ''p:s'', mi_embed = Some ''e'', mi_dim = Some 2, mi_canary = Some (JList [JInt 1]), mi_schema = None\<rparr>"

definition loop_facts :: facts where
  "loop_facts = \<lparr>xt_summary = ''So'', xt_entities = [], xt_relationships = [], xt_events = [], xt_themes = []\<rparr>"

definition loop_helpers :: helpers where
  "loop_helpers = \<lparr>hp_identify = (\<lambda>_. ret loop_identity),
     hp_extract = (\<lambda>ch roster ty l. ret \<lparr>ex_facts = loop_facts, ex_in = 3, ex_out = 4, ex_usd = 0, ex_reservations = [],
       ex_clearance = \<lparr>kl_source = ci_text ch, kl_payload = ''So''\<rparr>\<rparr>),
     hp_prepare = (\<lambda>ch x roster i. ret \<lparr>pp_key = ci_key ch, pp_ordinal = ci_ordinal ch, pp_hash = ci_text ch, pp_facts = ex_facts x,
       pp_identity = i, pp_extractor = ''p:x'', pp_roster = roster, pp_decisions = [],
       pp_passages = map (\<lambda>p. p\<lparr>pg_vec := Some [JInt 1, JInt 0]\<rparr>) (source_passages (ci_text ch)),
       pp_source = source_digest concat (ci_title ch) (ci_text ch), pp_cost = Some \<lparr>rc_model = Some ''p:x'', rc_in = 3, rc_out = 4, rc_usd = 0\<rparr>,
       pp_clearance = Some (ex_clearance x), pp_resolution = Some (ci_text ch)\<rparr>)\<rparr>"

definition loop_setting :: setting where
  "loop_setting = \<lparr>sx_book = ''bk1'', sx_incarnation = ''i1'', sx_generation = 1, sx_digests = loop_digests, sx_cosine = (\<lambda>_ _. 1),
     sx_client = \<lparr>vc_provider = ''p'', vc_cheap = ''x'', vc_large = ''s'', vc_embed = ''e''\<rparr>, sx_helpers = loop_helpers, sx_now = ''now''\<rparr>"

definition loop_chapters :: "chapter_in list" where
  "loop_chapters = map (\<lambda>s. \<lparr>ci_ordinal = sg_ordinal s, ci_key = sg_key s, ci_href = None, ci_title = sg_title s, ci_part = [], ci_text = sg_text s, ci_hash = None\<rparr>) sample_parts"

definition loop_desk :: desk where
  "loop_desk = \<lparr>dk_catalog = sample_catalog, dk_mem = conn_on ''bk1'' 7 (empty_mem\<lparr>meta := [meta_at ''bk1'' None None ''und'']\<rparr>),
     dk_task = \<lparr>ts_status = S_Running, ts_error = None, ts_flags = [], ts_target = 2, ts_generation = 1, ts_incarnation = Some ''i1''\<rparr>,
     dk_verified = None, dk_stopping = False, dk_opens = []\<rparr>"

definition loop_run :: "(desk \<Rightarrow> desk) list \<Rightarrow> int \<Rightarrow> int option res \<times> run" where
  "loop_run others target = ingest_upto loop_setting (Inr \<lparr>sn_flags = [], sn_language = ''und'', sn_chapters = loop_chapters\<rparr>) sample_file target
     \<lparr>rn_desk = loop_desk, rn_others = others\<rparr>"

text \<open>Another thread that deletes the book.\<close>

definition delete_row :: "desk \<Rightarrow> desk" where
  "delete_row d = d\<lparr>dk_catalog := snd (remove_book ''bk1'' (dk_catalog d))\<rparr>"

lemma polite_delete: "polite dg ''bk1'' atoms n d (delete_row d)"
proof -
  have "find (\<lambda>r. rs_book r = ''bk1'') (filter (\<lambda>r. rs_book r \<noteq> ''bk1'') xs) = None" for xs :: "reading_row list"
    by (auto simp: find_None_iff)
  moreover have "\<not> list_ex (\<lambda>r. bk_id r = ''bk1'' \<and> bk_incarnation r = i) (filter (\<lambda>r. bk_id r \<noteq> ''bk1'') xs)" for xs :: "book_row list" and i
    by (auto simp: list_ex_iff)
  ultimately show ?thesis
    by (simp add: polite_def system_ok_def backed_def vouched_def carries_def current_incarnation_def get_state_def delete_row_def remove_book_def modify_def)
qed

lemma loop_ready:
  assumes "load_manifest id ''bk1'' sample_file = Inr m"
  shows "polite_helpers loop_digests ''bk1'' (atoms_of m) n loop_helpers" and "system_ok loop_digests ''bk1'' (atoms_of m) loop_desk"
proof -
  show "polite_helpers loop_digests ''bk1'' (atoms_of m) n loop_helpers"
    by (simp add: polite_helpers_def polite_act_def loop_helpers_def ret_def polite_def)
  have "schema_ok (committed (dk_mem loop_desk))" by code_simp
  moreover have "get_state ''bk1'' (dk_catalog loop_desk) = Some \<lparr>rs_book = ''bk1'', rs_bookmark = 0, rs_cfi = None,
      rs_progress = 0, rs_epoch = 0, rs_updated = None\<rparr>" by (simp add: loop_desk_def sample_state)
  moreover have "set (map ma_ordinal (mf_atoms m)) = {1..int (length (mf_atoms m))}"
    unfolding load_manifest_ordinals [OF assms] by simp
  then have "(key, i) \<in> atoms_of m \<Longrightarrow> 1 \<le> i" for key i by (auto simp: atoms_of_def)
  ultimately show "system_ok loop_digests ''bk1'' (atoms_of m) loop_desk"
    by (force simp: system_ok_def backed_def vouched_def book_rest_def loop_desk_def conn_on_def)
qed


theorem ingestion_reaches_its_target_witness:
  "receipt_on loop_digests ''bk1'' (rn_desk (snd (loop_run [] 2))) (''bk1:b'', 2)"
proof -
  have "map_sum (\<lambda>_. ()) (\<lambda>m. map (\<lambda>a. (ma_key a, ma_ordinal a)) (mf_atoms m)) (load_manifest id ''bk1'' sample_file) =
    Inr [(''bk1:a'', 1), (''bk1:b'', 2)]" by code_simp
  then obtain m where m: "load_manifest id ''bk1'' sample_file = Inr m" "map (\<lambda>a. (ma_key a, ma_ordinal a)) (mf_atoms m) = [(''bk1:a'', 1), (''bk1:b'', 2)]"
    by (cases "load_manifest id ''bk1'' sample_file") auto
  have "fst (loop_run [] 2) = Inr (Some 2)" by code_simp
  then have "ingest_upto loop_setting (Inr \<lparr>sn_flags = [], sn_language = ''und'', sn_chapters = loop_chapters\<rparr>) sample_file 2
     \<lparr>rn_desk = loop_desk, rn_others = []\<rparr> = (Inr (Some 2), snd (loop_run [] 2))" by (simp add: loop_run_def prod_eq_iff)
  moreover have "carries ''bk1'' ''i1'' (rn_desk (snd (loop_run [] 2)))" by code_simp
  ultimately show ?thesis
    using ingestion_reaches_its_target [of loop_setting sample_file m "\<lparr>rn_desk = loop_desk, rn_others = []\<rparr>"
      "Inr \<lparr>sn_flags = [], sn_language = ''und'', sn_chapters = loop_chapters\<rparr>" 2 2 "snd (loop_run [] 2)"] m loop_ready [OF m(1)]
    by (simp add: loop_setting_def loop_digests_def atoms_of_def)
qed

end
