(* ===== verification/Views.thy ===== *)
theory Views imports Reading Corrections Resolve begin

text \<open>
  The structured view routes of \<^verbatim>\<open>backend/app/api/views.py\<close>: graph, timeline, notes, character card,
  correction history and the publication of a correction. Every route computes the effective bookmark
  once, from the requested bookmark, the high-water mark and the durable completion frontier, and then
  reads one view at it. Between the prologue's session and the one of the body other requests may run:
  \<open>others\<close> is what they do to the application.
\<close>

section \<open>The clamp\<close>

definition effective_bookmark :: "int \<Rightarrow> int \<Rightarrow> int option \<Rightarrow> int" where
  "effective_bookmark bookmark durable requested = (let high_water = min bookmark durable in
     case requested of None \<Rightarrow> high_water | Some r \<Rightarrow> min r high_water)"

definition effective ::
  "(string \<Rightarrow> string) \<Rightarrow> string \<Rightarrow> raw_manifest option \<Rightarrow> unit res \<Rightarrow> int option \<Rightarrow> (app, int \<times> reading_row \<times> manifest) act" where
  "effective digest book content opened requested =
     bindA (on_catalog (asks (get_state book))) (\<lambda>st. case st of
       None \<Rightarrow> raise (HTTPException 404 ''unknown book'')
     | Some row \<Rightarrow>
         bindA (fail_closed (
           bindA (liftA (load_manifest digest book content)) (\<lambda>m.
           bindA (liftA opened) (\<lambda>_.
           bindA (on_mem (assert_matches_store m)) (\<lambda>_.
           bindA (on_mem (completion_frontier digest (map (\<lambda>a. (ma_key a, ma_ordinal a)) (mf_atoms m)))) (\<lambda>durable.
             ret (m, durable))))))) (\<lambda>(m, durable).
         ret (effective_bookmark (rs_bookmark row) durable requested, row, m)))"

text \<open>A second session of the book: entering it may raise.\<close>

definition session_after :: "(app \<Rightarrow> app) \<Rightarrow> unit res \<Rightarrow> (mem conn, 'a) act \<Rightarrow> (app, 'a) act" where
  "session_after others reopened body = bindA (modify others) (\<lambda>_. bindA (liftA reopened) (\<lambda>_. on_mem body))"

section \<open>Graph\<close>

record person =
  pn_id :: int
  pn_name :: string
  pn_type :: string
  pn_seen :: int
  pn_aliases :: "string list"

record tie_row =
  tr_id :: int
  tr_src :: int
  tr_dst :: int
  tr_rel :: string
  tr_label :: "string option"
  tr_seen :: int
  tr_end :: "int option"

definition IDENTITY_HONORIFICS :: "string list" where
  "IDENTITY_HONORIFICS = [''father'', ''elder'', ''abbot'', ''brother'', ''mother'', ''sister'']"

definition rstrip_dots :: "string \<Rightarrow> string" where
  "rstrip_dots s = rev (dropWhile (\<lambda>c. c = CHR ''.'') (rev s))"

definition single_named :: "string \<Rightarrow> person \<Rightarrow> bool" where
  "single_named token p = (length (split_words (strip (pn_name p))) = 1 \<and> casefold (strip (pn_name p)) = casefold token)"

text \<open>The character a two-token honorific name is folded into, if exactly one bears the bare name.\<close>

definition fold_target :: "person list \<Rightarrow> person \<Rightarrow> int option" where
  "fold_target cs p = (case split_words (strip (pn_name p)) of
     [h, t] \<Rightarrow> if rstrip_dots (casefold h) \<notin> set IDENTITY_HONORIFICS then None
       else (case filter (single_named t) cs of [k] \<Rightarrow> if pn_id k \<noteq> pn_id p then Some (pn_id k) else None | _ \<Rightarrow> None)
   | _ \<Rightarrow> None)"

definition remap_of :: "person list \<Rightarrow> int \<Rightarrow> int option" where
  "remap_of cs = foldl (\<lambda>m p. case fold_target cs p of None \<Rightarrow> m | Some k \<Rightarrow> m(pn_id p \<mapsto> k)) Map.empty cs"

text \<open>\<^verbatim>\<open>list(dict.fromkeys(xs))\<close>: the first occurrences, in order.\<close>

fun from_keys :: "'a list \<Rightarrow> 'a list" where
  "from_keys [] = []"
| "from_keys (x # xs) = x # from_keys (filter (\<lambda>y. y \<noteq> x) xs)"

definition folded_into :: "person list \<Rightarrow> int \<Rightarrow> person list" where
  "folded_into cs i = filter (\<lambda>p. fold_target cs p = Some i) cs"

definition absorb :: "person list \<Rightarrow> person \<Rightarrow> person" where
  "absorb cs p = (let vs = folded_into cs (pn_id p) in
     p\<lparr>pn_seen := foldl (\<lambda>s v. min s (pn_seen v)) (pn_seen p) vs,
       pn_aliases := from_keys (filter (\<lambda>a. a \<noteq> pn_name p) (pn_aliases p @ concat (map (\<lambda>v. pn_name v # pn_aliases v) vs)))\<rparr>)"

definition moved :: "(int \<Rightarrow> int option) \<Rightarrow> int \<Rightarrow> int" where
  "moved m i = (case m i of None \<Rightarrow> i | Some k \<Rightarrow> k)"

definition tie_key :: "tie_row \<Rightarrow> int \<times> int \<times> string \<times> string option \<times> int \<times> int option" where
  "tie_key r = (tr_src r, tr_dst r, tr_rel r, tr_label r, tr_seen r, tr_end r)"

fun merge_ties :: "(int \<Rightarrow> int option) \<Rightarrow> (int \<times> int \<times> string \<times> string option \<times> int \<times> int option) list \<Rightarrow> tie_row list \<Rightarrow> tie_row list" where
  "merge_ties m seen [] = []"
| "merge_ties m seen (r # rs) = (let r' = r\<lparr>tr_src := moved m (tr_src r), tr_dst := moved m (tr_dst r)\<rparr> in
     if tr_src r' = tr_dst r' then merge_ties m seen rs
     else if tie_key r' \<in> set seen then merge_ties m seen rs
     else r' # merge_ties m (tie_key r' # seen) rs)"

definition coalesce_people :: "person list \<Rightarrow> tie_row list \<Rightarrow> person list \<times> tie_row list" where
  "coalesce_people cs rs = (if list_all (\<lambda>p. fold_target cs p = None) cs then (cs, rs)
     else (map (absorb cs) (filter (\<lambda>p. remap_of cs (pn_id p) = None) cs), merge_ties (remap_of cs) [] rs))"

definition with_surfaces :: "int \<Rightarrow> int \<times> string \<times> string \<times> int \<Rightarrow> (mem conn, person) act" where
  "with_surfaces b e = (case e of (i, name, ty, seen) \<Rightarrow> bindA (aliases_of b i) (\<lambda>al.
     ret \<lparr>pn_id = i, pn_name = name, pn_type = ty, pn_seen = seen, pn_aliases = map fst al\<rparr>))"

definition tie_of :: "int \<times> int \<times> int \<times> string \<times> string option \<times> int \<times> int option \<Rightarrow> tie_row" where
  "tie_of e = (case e of (i, s, t, rel, label, seen, stop) \<Rightarrow>
     \<lparr>tr_id = i, tr_src = s, tr_dst = t, tr_rel = rel, tr_label = label, tr_seen = seen, tr_end = stop\<rparr>)"

definition graph_at :: "int \<Rightarrow> (mem conn, person list \<times> tie_row list) act" where
  "graph_at b = bindA (characters b) (\<lambda>es. bindA (for_each (with_surfaces b) es) (\<lambda>cs.
     bindA (relationships b) (\<lambda>rs. case coalesce_people cs (map tie_of rs) of (cs', rs') \<Rightarrow>
       ret (cs', filter (\<lambda>r. tr_src r \<in> pn_id ` set cs' \<and> tr_dst r \<in> pn_id ` set cs') rs'))))"

section \<open>Timeline, notes, cast and card\<close>

definition event_row_at :: "int \<Rightarrow> int \<times> int \<times> int \<times> string \<times> string \<Rightarrow> (mem conn, (int \<times> int \<times> int \<times> string \<times> string) \<times> string list) act" where
  "event_row_at b ev = bindA (participants_of b (fst ev)) (\<lambda>ps. ret (ev, map (\<lambda>(i, name, ty). name) ps))"

definition timeline_at :: "int \<Rightarrow> (mem conn, ((int \<times> int \<times> int \<times> string \<times> string) \<times> string list) list) act" where
  "timeline_at b = bindA (timeline b) (for_each (event_row_at b))"

definition cast_names :: "int \<Rightarrow> int \<times> string \<times> string \<times> int \<Rightarrow> (mem conn, (string \<times> int) list) act" where
  "cast_names b e = (case e of (i, name, ty, seen) \<Rightarrow> bindA (aliases_of b i) (\<lambda>al.
     ret (map (\<lambda>s. (s, i)) (name # map fst al))))"

fun first_names :: "string list \<Rightarrow> (string \<times> int) list \<Rightarrow> (string \<times> int) list" where
  "first_names seen [] = []"
| "first_names seen ((s, i) # ns) = (if s \<in> set seen then first_names seen ns else (s, i) # first_names (s # seen) ns)"

definition visible_cast :: "int \<Rightarrow> (mem conn, (string \<times> int) list) act" where
  "visible_cast b = bindA (characters b) (\<lambda>es. bindA (for_each (cast_names b) es) (\<lambda>nss. ret (first_names [] (concat nss))))"

record chapter_notes =
  cn_key :: string
  cn_at :: int
  cn_title :: string
  cn_summary :: string
  cn_new :: "(int \<times> string) list"
  cn_events :: "string list"

definition title_in :: "(string \<times> int \<times> string \<times> string) list \<Rightarrow> string \<Rightarrow> string" where
  "title_in rows key = (case find (\<lambda>(k, o1, t, p). k = key) (rev rows) of None \<Rightarrow> [] | Some (k, o1, t, p) \<Rightarrow> t)"

definition notes_at :: "int \<Rightarrow> (mem conn, (string \<times> int) list \<times> chapter_notes list) act" where
  "notes_at b = bindA (chapters_of b) (\<lambda>rows. bindA (characters b) (\<lambda>es. bindA (timeline b) (\<lambda>evs.
     bindA (chapter_summaries b) (\<lambda>ss. bindA (visible_cast b) (\<lambda>cast.
       ret (cast, map (\<lambda>(key, at1, txt). \<lparr>cn_key = key, cn_at = at1, cn_title = title_in rows key, cn_summary = txt,
           cn_new = map (\<lambda>(i, name, ty, seen). (i, name)) (filter (\<lambda>(i, name, ty, seen). seen = at1) es),
           cn_events = map (\<lambda>(i, seen, ord, summary, kind). summary) (filter (\<lambda>(i, seen, ord, summary, kind). seen = at1) evs)\<rparr>) ss))))))"

record tie =
  ti_id :: int
  ti_name :: string
  ti_rel :: string
  ti_label :: "string option"
  ti_out :: bool

record name_card =
  cd_name :: string
  cd_type :: string
  cd_aliases :: "string list"
  cd_first_seen :: int
  cd_status :: "json option"
  cd_ties :: "tie list"

definition name_of :: "(int \<times> string) list \<Rightarrow> int \<Rightarrow> string option" where
  "name_of names i = map_of (rev names) i"

definition other_end :: "int \<Rightarrow> (int \<times> string) list \<Rightarrow> tie_row \<Rightarrow> tie option" where
  "other_end i names r =
     (case (if tr_src r = i then name_of names (tr_dst r) else None) of
        Some n \<Rightarrow> Some \<lparr>ti_id = tr_dst r, ti_name = n, ti_rel = tr_rel r, ti_label = tr_label r, ti_out = True\<rparr>
      | None \<Rightarrow> (case (if tr_dst r = i then name_of names (tr_src r) else None) of
          Some n \<Rightarrow> Some \<lparr>ti_id = tr_src r, ti_name = n, ti_rel = tr_rel r, ti_label = tr_label r, ti_out = False\<rparr>
        | None \<Rightarrow> None))"

text \<open>One line per related person, the earliest tie.\<close>

fun first_ties :: "int list \<Rightarrow> tie list \<Rightarrow> tie list" where
  "first_ties seen [] = []"
| "first_ties seen (t # ts) = (if ti_id t \<in> set seen then first_ties seen ts else t # first_ties (ti_id t # seen) ts)"

definition character_card :: "int \<Rightarrow> int \<Rightarrow> (mem conn, name_card option) act" where
  "character_card b i = bindA (bio b i) (\<lambda>found. case found of
     None \<Rightarrow> ret None
   | Some p \<Rightarrow>
       bindA (for_each (entities_of_type b) [''character'', ''place'', ''faction'', ''object'']) (\<lambda>ess.
       bindA (relationships b) (\<lambda>rs.
         ret (Some \<lparr>cd_name = bio_name p, cd_type = bio_type p, cd_aliases = bio_aliases p,
           cd_first_seen = bio_first_seen p, cd_status = bio_state p,
           cd_ties = first_ties [] (List.map_filter (other_end i (map (\<lambda>(j, name, ty, seen). (j, name)) (concat ess))) (map tie_of rs))\<rparr>))))"

section \<open>The routes\<close>

datatype page = Graph | Timeline | Notes | Card int

datatype shown =
    S_graph "person list" "tie_row list"
  | S_timeline "((int \<times> int \<times> int \<times> string \<times> string) \<times> string list) list"
  | S_notes "(string \<times> int) list" "chapter_notes list"
  | S_card name_card

fun page_at :: "int \<Rightarrow> page \<Rightarrow> (mem conn, shown) act" where
  "page_at b Graph = bindA (graph_at b) (\<lambda>(cs, rs). ret (S_graph cs rs))"
| "page_at b Timeline = bindA (timeline_at b) (\<lambda>evs. ret (S_timeline evs))"
| "page_at b Notes = bindA (notes_at b) (\<lambda>(cast, ns). ret (S_notes cast ns))"
| "page_at b (Card i) = bindA (character_card b i) (\<lambda>found. case found of
     None \<Rightarrow> raise (HTTPException 404 ''unknown character'') | Some k \<Rightarrow> ret (S_card k))"

text \<open>The query parameter: an integer of at least 0, or 422.\<close>

definition bookmark_query :: "int option \<Rightarrow> unit res" where
  "bookmark_query requested = (case requested of None \<Rightarrow> Inr ()
     | Some r \<Rightarrow> if 0 \<le> r then Inr () else Inl (HTTPException 422 ''bookmark''))"

definition view_route ::
  "(string \<Rightarrow> string) \<Rightarrow> string \<Rightarrow> raw_manifest option \<Rightarrow> unit res \<Rightarrow> (app \<Rightarrow> app) \<Rightarrow> unit res \<Rightarrow> int option \<Rightarrow> page \<Rightarrow> (app, int \<times> shown) act" where
  "view_route digest book content opened others reopened requested p =
     bindA (liftA (bookmark_query requested)) (\<lambda>_.
     bindA (effective digest book content opened requested) (\<lambda>(eff, st, m).
     bindA (session_after others reopened (page_at eff p)) (\<lambda>x. ret (eff, x))))"

definition corrections_route ::
  "(string \<Rightarrow> string) \<Rightarrow> string \<Rightarrow> raw_manifest option \<Rightarrow> unit res \<Rightarrow> (app \<Rightarrow> app) \<Rightarrow> unit res \<Rightarrow> int option \<Rightarrow> (app, int \<times> history_row list) act" where
  "corrections_route digest book content opened others reopened requested =
     bindA (liftA (bookmark_query requested)) (\<lambda>_.
     bindA (effective digest book content opened requested) (\<lambda>(eff, st, m).
     if eff < 1 then ret (eff, [])
     else bindA (session_after others reopened (correction_history (PyInt eff))) (\<lambda>items. ret (eff, items))))"

text \<open>The body of a correction, as pydantic lets it through: trimmed and not blank.\<close>

record correction_in =
  cq_source :: int
  cq_name :: string
  cq_reason :: string
  cq_bookmark :: int

definition trimmed :: "nat \<Rightarrow> pyval \<Rightarrow> string option" where
  "trimmed hi v = (case v of PyStr s \<Rightarrow> if 1 \<le> length s \<and> length s \<le> hi \<and> strip s \<noteq> [] then Some (strip s) else None | _ \<Rightarrow> None)"

definition strict_pos :: "pyval \<Rightarrow> int option" where
  "strict_pos v = (case v of PyInt i \<Rightarrow> if 1 \<le> i then Some i else None | _ \<Rightarrow> None)"

definition correction_body :: "pyval \<Rightarrow> pyval \<Rightarrow> pyval \<Rightarrow> pyval \<Rightarrow> correction_in res" where
  "correction_body source name reason bookmark =
     (case (strict_pos source, trimmed 200 name, trimmed 1000 reason, strict_pos bookmark) of
       (Some i, Some n, Some r, Some b) \<Rightarrow> Inr \<lparr>cq_source = i, cq_name = n, cq_reason = r, cq_bookmark = b\<rparr>
     | _ \<Rightarrow> Inl (HTTPException 422 ''body''))"

definition conflict :: "('s, 'a) act \<Rightarrow> ('s, 'a) act" where
  "conflict m s = (case m s of (Inl (ValueError e), s') \<Rightarrow> (Inl (HTTPException 409 e), s') | r \<Rightarrow> r)"

definition correct_memory ::
  "(string \<Rightarrow> string) \<Rightarrow> string \<Rightarrow> raw_manifest option \<Rightarrow> unit res \<Rightarrow> (app \<Rightarrow> app) \<Rightarrow> unit res \<Rightarrow> bool \<Rightarrow> correction_in \<Rightarrow> string \<Rightarrow>
   (app, int \<times> (int \<times> int) \<times> history_row list) act" where
  "correct_memory digest book content opened others reopened warmer body now =
     bindA (effective digest book content opened (Some (cq_bookmark body))) (\<lambda>(eff, st, m).
     if eff \<noteq> cq_bookmark body \<or> rs_bookmark st \<noteq> cq_bookmark body
     then raise (HTTPException 409 ''reading progress changed; reopen the codex and try again'')
     else bindA (conflict (session_after others reopened (
         bindA (replace_entity (PyInt (cq_source body)) (PyInt eff) (PyStr (cq_name body)) (PyStr (cq_reason body)) now) (\<lambda>result.
         bindA (correction_history (PyInt eff)) (\<lambda>items. ret (result, items)))))) (\<lambda>(result, items).
       bindA (notify_warmer warmer book) (\<lambda>_. ret (eff, result, items))))"

section \<open>A page is a function of the cut memory\<close>

lemma blind_case_option [blind_intros]:
  "blind b m \<Longrightarrow> (\<And>y. blind b (f y)) \<Longrightarrow> blind b (case x of None \<Rightarrow> m | Some y \<Rightarrow> f y)"
  by (cases x) auto

lemma blind_for_each [blind_intros]:
  assumes "\<And>x. blind b (f x)"
  shows "blind b (for_each f xs)"
  using assms by (induction xs) (auto intro!: blind_intros)

lemma blind_helpers [blind_intros]:
  "blind b (with_surfaces b e)" "blind b (event_row_at b ev)" "blind b (cast_names b e)"
  unfolding with_surfaces_def event_row_at_def cast_names_def by (intro blind_intros)+

lemma blind_pages [blind_intros]:
  "blind b (graph_at b)" "blind b (timeline_at b)" "blind b (visible_cast b)" "blind b (character_card b i)"
  unfolding graph_at_def timeline_at_def visible_cast_def character_card_def by (intro blind_intros)+

lemma blind_notes [blind_intros]: "blind b (notes_at b)"
  unfolding notes_at_def by (intro blind_intros)

lemma blind_page: "blind b (page_at b p)"
  by (cases p) (simp_all, (intro blind_intros)+)

section \<open>What the prologue establishes\<close>

lemma prefix_of_ordinals:
  assumes "map snd as = [1..int (length as)]" and "a \<in> set as" and "snd a \<le> last (0 # map snd (takeWhile P as))"
  shows "P a"
proof -
  from assms(2) obtain i where i: "i < length as" "a = as ! i" by (auto simp: in_set_conv_nth)
  have nth: "snd (as ! j) = int j + 1" if "j < length as" for j
    using arg_cong [OF assms(1), of "\<lambda>xs. xs ! j"] that by simp
  let ?w = "takeWhile P as"
  have le: "length ?w \<le> length as" by (rule length_takeWhile_le)
  have "last (0 # map snd ?w) = int (length ?w)"
  proof (cases "length ?w")
    case (Suc n)
    then have "last (0 # map snd ?w) = snd (?w ! n)" by (cases ?w) (auto simp: last_conv_nth)
    also have "?w ! n = as ! n" using Suc by (intro takeWhile_nth) simp
    finally show ?thesis using nth [of n] Suc le by simp
  qed simp
  with assms(3) i nth have "i < length ?w" by simp
  then have "P (?w ! i)" using nth_mem [of i ?w] by (metis set_takeWhileD)
  with i \<open>i < length ?w\<close> show ?thesis by (simp add: takeWhile_nth)
qed

lemma chapters_of_kept: "snd (chapters_of b c) = c"
  unfolding chapters_of_def by (rule select_guards)

lemma assert_matches_store_kept:
  assumes "assert_matches_store m c = (Inr x, c')"
  shows "working c' = working c \<and> book_id c' = book_id c"
proof -
  from assms obtain language c1 rows where l: "content_language c = (Inr language, c1)"
    and rows: "chapters_of (int (card (ma_ordinal ` set (mf_atoms m)))) c1 = (Inr rows, c')"
    by (auto simp: assert_matches_store_def bindA_Inr split: if_splits)
  then have "c' = c1" using chapters_of_kept by (metis snd_conv)
  with content_language_Inr [OF l] show ?thesis by simp
qed

text \<open>The chapters up to an ordinal all have a receipt that counts.\<close>

definition receipted_upto :: "(string \<Rightarrow> string) \<Rightarrow> manifest \<Rightarrow> int \<Rightarrow> mem conn \<Rightarrow> bool" where
  "receipted_upto digest m n c = (\<forall>a \<in> set (mf_atoms m). ma_ordinal a \<le> n \<longrightarrow>
     receipted digest (book_id c) (working c) (ma_key a, ma_ordinal a))"

lemma effective_Inr:
  assumes "effective digest book content opened requested s = (Inr (eff, row, m), s')"
  shows "get_state book (ap_catalog s) = Some row \<and> load_manifest digest book content = Inr m \<and>
    eff \<le> rs_bookmark row \<and> (\<forall>r. requested = Some r \<longrightarrow> eff \<le> r) \<and> receipted_upto digest m eff (ap_mem s)"
proof -
  from assms obtain durable c1 c2 where st: "get_state book (ap_catalog s) = Some row" and m: "load_manifest digest book content = Inr m"
    and ms: "assert_matches_store m (ap_mem s) = (Inr (), c1)"
    and f: "completion_frontier digest (map (\<lambda>a. (ma_key a, ma_ordinal a)) (mf_atoms m)) c1 = (Inr durable, c2)"
    and eff: "eff = effective_bookmark (rs_bookmark row) durable requested"
    by (auto simp: effective_def bindA_Inr on_mem_Inr on_catalog_Inr split: option.splits)
  have le: "eff \<le> rs_bookmark row" "eff \<le> durable" "\<And>r. requested = Some r \<Longrightarrow> eff \<le> r"
    by (auto simp: eff effective_bookmark_def Let_def split: option.splits)
  let ?as = "map (\<lambda>a. (ma_key a, ma_ordinal a)) (mf_atoms m)"
  have "map ma_ordinal (mf_atoms m) = [1..int (length (mf_atoms m))]" using m by (elim load_manifest_Inr) simp
  then have ords: "map snd ?as = [1..int (length ?as)]" by (simp add: comp_def)
  have n: "durable = last (0 # map snd (takeWhile (receipted digest (book_id c1) (working c1)) ?as))"
    using f completion_frontier_from_Inr unfolding completion_frontier_def by blast
  have "receipted_upto digest m eff (ap_mem s)"
    unfolding receipted_upto_def
  proof (intro ballI impI)
    fix a assume "a \<in> set (mf_atoms m)" "ma_ordinal a \<le> eff"
    then have "(ma_key a, ma_ordinal a) \<in> set ?as" and "snd (ma_key a, ma_ordinal a) \<le> durable" using le(2) by auto
    from prefix_of_ordinals [OF ords this(1), of "receipted digest (book_id c1) (working c1)"] this(2)
    have "receipted digest (book_id c1) (working c1) (ma_key a, ma_ordinal a)" unfolding n by simp
    then show "receipted digest (book_id (ap_mem s)) (working (ap_mem s)) (ma_key a, ma_ordinal a)"
      using assert_matches_store_kept [OF ms] by simp
  qed
  with st m le show ?thesis by blast
qed

lemma session_after_Inr:
  "(session_after others reopened body s = (Inr x, s')) =
     (reopened = Inr () \<and> (\<exists>c. body (ap_mem (others s)) = (Inr x, c) \<and> s' = (others s)\<lparr>ap_mem := c\<rparr>))"
  by (auto simp: session_after_def bindA_Inr on_mem_Inr)

section \<open>Properties\<close>

text \<open>
  Property C8: a page is served at a bookmark that is at most the reader's, at most the requested one, and
  covers only chapters with a durable receipt; and it is the same for every book database that agrees with
  this one up to that bookmark, so nothing of a later chapter can show in it.
\<close>
theorem pages_stay_behind_the_bookmark:
  assumes "view_route digest book content opened others reopened requested p s = (Inr (eff, x), s')"
  shows "\<exists>row m s1. effective digest book content opened requested s = (Inr (eff, row, m), s1) \<and>
    get_state book (ap_catalog s) = Some row \<and> eff \<le> rs_bookmark row \<and>
    (\<forall>r. requested = Some r \<longrightarrow> eff \<le> r) \<and> load_manifest digest book content = Inr m \<and> receipted_upto digest m eff (ap_mem s) \<and>
    (\<forall>c. low eff (ap_mem (others s1)) c \<longrightarrow> fst (page_at eff p c) = Inr x)"
proof -
  from assms obtain row m s1 where e: "effective digest book content opened requested s = (Inr (eff, row, m), s1)"
    and p: "session_after others reopened (page_at eff p) s1 = (Inr x, s')"
    by (auto simp: view_route_def bindA_Inr)
  from p obtain c0 where "page_at eff p (ap_mem (others s1)) = (Inr x, c0)" by (auto simp: session_after_Inr)
  then have "fst (page_at eff p c) = Inr x" if "low eff (ap_mem (others s1)) c" for c
    using blindD(2) [OF blind_page that, of p] by simp
  with effective_Inr [OF e] e show ?thesis by (intro exI [of _ row] exI [of _ m] exI [of _ s1]) simp
qed

section \<open>The people graph\<close>

lemma map_filter_iff: "(y \<in> set (List.map_filter f xs)) = (\<exists>x \<in> set xs. f x = Some y)"
  by (induction xs) (auto split: option.splits)

lemma from_keys_set [simp]: "set (from_keys xs) = set xs"
  by (induction xs rule: from_keys.induct) auto

lemma remap_from:
  assumes "distinct (map pn_id ps)"
  shows "foldl (\<lambda>m p. case fold_target cs p of None \<Rightarrow> m | Some k \<Rightarrow> m(pn_id p \<mapsto> k)) m0 ps i =
    (case find (\<lambda>p. pn_id p = i \<and> fold_target cs p \<noteq> None) ps of None \<Rightarrow> m0 i | Some p \<Rightarrow> fold_target cs p)"
  using assms
proof (induction ps arbitrary: m0)
  case (Cons p ps)
  have none: "find (\<lambda>q. pn_id q = pn_id p \<and> fold_target cs q \<noteq> None) ps = None"
    using Cons.prems by (auto simp: find_None_iff) (metis imageI)
  show ?case
    using Cons.IH [of "case fold_target cs p of None \<Rightarrow> m0 | Some k \<Rightarrow> m0(pn_id p \<mapsto> k)"] Cons.prems none
    by (auto split: option.splits)
qed simp

lemma remap_of_at:
  assumes "distinct (map pn_id cs)" and "p \<in> set cs"
  shows "remap_of cs (pn_id p) = fold_target cs p"
proof -
  have same: "q = p" if "q \<in> set cs" "pn_id q = pn_id p" for q
    using assms that by (meson distinct_map inj_onD)
  let ?f = "find (\<lambda>q. pn_id q = pn_id p \<and> fold_target cs q \<noteq> None) cs"
  have at: "remap_of cs (pn_id p) = (case ?f of None \<Rightarrow> None | Some q \<Rightarrow> fold_target cs q)"
    unfolding remap_of_def by (rule remap_from [OF assms(1)])
  show ?thesis
  proof (cases ?f)
    case None
    then have "fold_target cs p = None" using assms(2) by (auto simp: find_None_iff)
    with None show ?thesis by (simp only: at option.case)
  next
    case (Some q)
    then have "q \<in> set cs" "pn_id q = pn_id p" by (auto simp: find_Some_iff)
    then have "q = p" by (rule same)
    with Some show ?thesis by (simp only: at option.case)
  qed
qed

lemma fold_target_Some:
  assumes "fold_target cs p = Some i"
  obtains k where "k \<in> set cs" "pn_id k = i" "fold_target cs k = None"
proof -
  from assms obtain h t k where "split_words (strip (pn_name p)) = [h, t]" "filter (single_named t) cs = [k]" "pn_id k = i"
    by (auto simp: fold_target_def split: list.splits if_splits)
  then have "k \<in> set cs" "single_named t k" by (auto simp: filter_eq_Cons_iff)
  moreover from this have "fold_target cs k = None"
    by (auto simp: fold_target_def single_named_def split: list.splits)
  ultimately show ?thesis using that \<open>pn_id k = i\<close> by blast
qed

lemma absorb_fields [simp]: "pn_id (absorb cs p) = pn_id p" "pn_name (absorb cs p) = pn_name p"
  by (simp_all add: absorb_def Let_def)

text \<open>Folding identities loses no name.\<close>

definition goes_by :: "person \<Rightarrow> string \<Rightarrow> bool" where
  "goes_by p n = (n = pn_name p \<or> n \<in> set (pn_aliases p))"

lemma coalesce_keeps_names:
  assumes "distinct (map pn_id cs)" and "p \<in> set cs"
  shows "\<exists>q \<in> set (fst (coalesce_people cs rs)). goes_by q (pn_name p)"
proof (cases "list_all (\<lambda>p. fold_target cs p = None) cs")
  case True
  with assms(2) show ?thesis by (auto simp: coalesce_people_def goes_by_def)
next
  case False
  then have out: "fst (coalesce_people cs rs) = map (absorb cs) (filter (\<lambda>p. fold_target cs p = None) cs)"
    using remap_of_at [OF assms(1)] by (simp add: coalesce_people_def cong: filter_cong)
  show ?thesis
  proof (cases "fold_target cs p")
    case None
    with assms(2) show ?thesis unfolding out by (intro bexI [of _ "absorb cs p"]) (auto simp: goes_by_def)
  next
    case (Some i)
    then obtain k where k: "k \<in> set cs" "pn_id k = i" "fold_target cs k = None" by (rule fold_target_Some)
    from Some assms(2) k(2) have "p \<in> set (folded_into cs (pn_id k))" by (simp add: folded_into_def)
    then have "goes_by (absorb cs k) (pn_name p)" by (auto simp: goes_by_def absorb_def Let_def)
    with k show ?thesis unfolding out by (intro bexI [of _ "absorb cs k"]) auto
  qed
qed

lemma coalesce_distinct:
  assumes "distinct (map pn_id cs)"
  shows "distinct (map pn_id (fst (coalesce_people cs rs)))"
proof -
  have "pn_id \<circ> absorb cs = pn_id" by (simp add: fun_eq_iff)
  with assms show ?thesis by (auto simp: coalesce_people_def distinct_map_filter)
qed

lemma merge_ties_seen: "r \<in> set (merge_ties m seen rs) \<Longrightarrow> \<exists>r0 \<in> set rs. tr_seen r = tr_seen r0 \<and> tr_end r = tr_end r0"
  by (induction m seen rs rule: merge_ties.induct) (auto simp: Let_def split: if_splits)

lemma coalesce_seen:
  "r \<in> set (snd (coalesce_people cs rs)) \<Longrightarrow> \<exists>r0 \<in> set rs. tr_seen r = tr_seen r0 \<and> tr_end r = tr_end r0"
  by (auto simp: coalesce_people_def dest: merge_ties_seen split: if_splits)

lemma surfaces_listed:
  assumes "for_each (with_surfaces b) es c = (Inr cs, c')"
  shows "map (\<lambda>p. (pn_id p, pn_name p)) cs = map (\<lambda>(i, name, ty, seen). (i, name)) es"
  using assms
proof (induction es arbitrary: cs c)
  case (Cons e es)
  then show ?case by (auto simp: bindA_Inr with_surfaces_def split: prod.splits)
qed auto

lemma characters_returns:
  "(characters b c = (Inr xs, c')) =
     (c' = c \<and> fst (assert_in_session c) = Inr () \<and> int64 b \<and>
      xs = map (\<lambda>r. (en_id r, en_name r, en_type r, f_rev r)) (sort_key (\<lambda>r. (f_rev r, en_id r))
             (filter (\<lambda>r. spoiler_clause T_entities (book_id c) b r \<and> en_type r = ''character'') (entities (working c)))))"
  unfolding characters_def by (auto simp: tab_entities.select_returns)

lemma distinct_sorted_ids:
  assumes "distinct (map f xs)"
  shows "distinct (map f (sort_key g (filter P xs)))"
  using assms by (simp add: distinct_map inj_on_def)

text \<open>
  Property C24: the people graph is closed and complete at its bookmark: every edge joins two returned
  characters, was revealed by then and shows no ending; no character is listed twice; and every visible
  character is there under its name, also when an honorific form is folded into the bare one.
\<close>
theorem people_graph_is_closed:
  assumes "graph_at b c = (Inr (cs, rs), c')" and "schema_ok (working c)"
  shows "(\<forall>r \<in> set rs. tr_src r \<in> pn_id ` set cs \<and> tr_dst r \<in> pn_id ` set cs \<and> tr_seen r \<le> b \<and> tr_end r = None) \<and>
    distinct (map pn_id cs) \<and>
    (\<forall>e \<in> set (entities (working c)). spoiler_clause T_entities (book_id c) b e \<and> en_type e = ''character'' \<longrightarrow>
      (\<exists>p \<in> set cs. goes_by p (en_name e)))"
proof -
  from assms(1) obtain es cs0 rows c1 c2 c3 where es: "characters b c = (Inr es, c1)"
    and cs0: "for_each (with_surfaces b) es c1 = (Inr cs0, c2)" and rows: "relationships b c2 = (Inr rows, c3)"
    and out: "cs = fst (coalesce_people cs0 (map tie_of rows))"
      "rs = filter (\<lambda>r. tr_src r \<in> pn_id ` set cs \<and> tr_dst r \<in> pn_id ` set cs) (snd (coalesce_people cs0 (map tie_of rows)))"
    by (auto simp: graph_at_def bindA_Inr case_prod_beta)
  let ?vis = "\<lambda>r. spoiler_clause T_entities (book_id c) b r \<and> en_type r = ''character''"
  from es have es': "es = map (\<lambda>r. (en_id r, en_name r, en_type r, f_rev r)) (sort_key (\<lambda>r. (f_rev r, en_id r)) (filter ?vis (entities (working c))))"
    unfolding characters_returns by blast
  note listed = surfaces_listed [OF cs0]
  have "map pn_id cs0 = map en_id (sort_key (\<lambda>r. (f_rev r, en_id r)) (filter ?vis (entities (working c))))"
    using arg_cong [OF listed, of "map fst"] by (simp add: es' comp_def)
  moreover have "distinct (map en_id (entities (working c)))" using assms(2) by (simp add: schema_ok_def entities_ok_def)
  ultimately have d: "distinct (map pn_id cs0)" by (simp only: distinct_sorted_ids)
  have names: "\<exists>p \<in> set cs. goes_by p (en_name e)" if e: "e \<in> set (entities (working c))" "?vis e" for e
  proof -
    have "(en_id e, en_name e) \<in> set (map (\<lambda>(i, name, ty, seen). (i, name)) es)" using e by (force simp: es')
    then obtain p where "p \<in> set cs0" "pn_name p = en_name e" unfolding listed [symmetric] by auto
    then show ?thesis using coalesce_keeps_names [OF d, of p "map tie_of rows"] out(1) by simp
  qed
  have "tr_seen r \<le> b \<and> tr_end r = None" if "r \<in> set rs" for r
  proof -
    from that out(2) have "r \<in> set (snd (coalesce_people cs0 (map tie_of rows)))" by simp
    then obtain x where x: "x \<in> set rows" "tr_seen r = tr_seen (tie_of x)" "tr_end r = tr_end (tie_of x)" by (auto dest!: coalesce_seen)
    from tab_edges.select_sound [OF rows [unfolded relationships_def] x(1)] x(2,3) show ?thesis
      by (auto simp: tie_of_def spoiler_clause_def)
  qed
  with names out(2) coalesce_distinct [OF d] out(1) show ?thesis by auto
qed

text \<open>A book of two chapters: Zosima and his honorific form are folded; Bo is met later.\<close>

definition graph_mem :: mem where
  "graph_mem = empty_mem\<lparr>entities := [entity_at ''b'' 1 ''Zosima'' 2, entity_at ''b'' 2 ''Elder Zosima'' 1,
       entity_at ''b'' 3 ''Ann'' 1, entity_at ''b'' 4 ''Bo'' 9],
     edges := [edge_at ''b'' 1 2 3 1 (Some 8), edge_at ''b'' 2 3 4 9 None]\<rparr>"

definition graph_conn :: "mem conn" where
  "graph_conn = conn_on ''b'' 7 graph_mem"

definition graph_shown :: "person list \<times> tie_row list" where
  "graph_shown = ([\<lparr>pn_id = 3, pn_name = ''Ann'', pn_type = ''character'', pn_seen = 1, pn_aliases = []\<rparr>,
      \<lparr>pn_id = 1, pn_name = ''Zosima'', pn_type = ''character'', pn_seen = 1, pn_aliases = [''Elder Zosima'']\<rparr>],
     [\<lparr>tr_id = 1, tr_src = 1, tr_dst = 3, tr_rel = ''knows'', tr_label = None, tr_seen = 1, tr_end = None\<rparr>])"

lemma graph_shown: "graph_at 2 graph_conn = (Inr graph_shown, graph_conn)"
  by code_simp

theorem people_graph_is_closed_witness:
  "distinct (map pn_id (fst graph_shown)) \<and> (\<exists>p \<in> set (fst graph_shown). goes_by p ''Elder Zosima'')"
proof -
  have "schema_ok (working graph_conn)" by code_simp
  moreover have "graph_at 2 graph_conn = (Inr (fst graph_shown, snd graph_shown), graph_conn)" by (simp add: graph_shown)
  moreover have "entity_at ''b'' 2 ''Elder Zosima'' 1 \<in> set (entities (working graph_conn))"
    by (simp add: graph_conn_def conn_on_def graph_mem_def)
  moreover have "spoiler_clause T_entities (book_id graph_conn) 2 (entity_at ''b'' 2 ''Elder Zosima'' 1)"
    "en_type (entity_at ''b'' 2 ''Elder Zosima'' 1) = ''character''" "en_name (entity_at ''b'' 2 ''Elder Zosima'' 1) = ''Elder Zosima''"
    by (simp_all add: graph_conn_def conn_on_def entity_at_def spoiler_clause_def)
  ultimately show ?thesis using people_graph_is_closed [of 2 graph_conn "fst graph_shown" "snd graph_shown" graph_conn] by metis
qed

definition view_app :: app where
  "view_app = sample_app\<lparr>ap_catalog := snd (set_position ''bk1'' None (PyInt 1) (PyInt 0) ''t'' sample_catalog),
     ap_mem := conn_on ''bk1'' 7 (empty_mem\<lparr>meta := [meta_at ''bk1'' None None ''und''],
       chapters := [chapter_at ''bk1'' ''bk1:a'' 1 ''one''], raw_chapters := [raw_at ''bk1'' ''bk1:a'' 1 ''one'' ''one''],
       ingested := [marker_at ''bk1'' ''bk1:a'' ''one''],
       entities := [entity_at ''bk1'' 1 ''Ann'' 1, entity_at ''bk1'' 2 ''Bo'' 2]\<rparr>)\<rparr>"

lemma view_shown: "fst (view_route id ''bk1'' sample_file (Inr ()) id (Inr ()) None Graph view_app) =
    Inr (1, S_graph [\<lparr>pn_id = 1, pn_name = ''Ann'', pn_type = ''character'', pn_seen = 1, pn_aliases = []\<rparr>] [])"
  by code_simp

theorem pages_stay_behind_the_bookmark_witness:
  "\<exists>row m. get_state ''bk1'' (ap_catalog view_app) = Some row \<and> 1 \<le> rs_bookmark row \<and> receipted_upto id m 1 (ap_mem view_app)"
proof -
  have "view_route id ''bk1'' sample_file (Inr ()) id (Inr ()) None Graph view_app =
    (Inr (1, S_graph [\<lparr>pn_id = 1, pn_name = ''Ann'', pn_type = ''character'', pn_seen = 1, pn_aliases = []\<rparr>] []),
     snd (view_route id ''bk1'' sample_file (Inr ()) id (Inr ()) None Graph view_app))"
    by (simp add: prod_eq_iff view_shown)
  from pages_stay_behind_the_bookmark [OF this] show ?thesis by blast
qed

end
