(* ===== verification/Search.thy ===== *)
theory Search imports Views Budgeted SourceIndex begin

text \<open>
  Semantic search: the search route of \<^verbatim>\<open>backend/app/api/views.py\<close>, \<^verbatim>\<open>BookmarkView.search\<close> of
  \<^verbatim>\<open>backend/app/memory/dal.py\<close> with the brute-force backend, \<^verbatim>\<open>rank\<close> of
  \<^verbatim>\<open>backend/app/memory/vectors.py\<close> and the paid query embedding of \<^verbatim>\<open>backend/app/llm/retrieval.py\<close>.
  The floating-point cosine of two normalised vectors of one length is a parameter; a value it does not
  give (not finite) skips the row.
\<close>

section \<open>Ranking\<close>

type_synonym hit = "rat \<times> string \<times> int \<times> string"

definition row_vector :: "json \<Rightarrow> json list option" where
  "row_vector v = (case v of JList xs \<Rightarrow> (case normalizes xs of Inr _ \<Rightarrow> Some xs | Inl _ \<Rightarrow> None) | _ \<Rightarrow> None)"

definition score_row ::
  "(json list \<Rightarrow> json list \<Rightarrow> rat option) \<Rightarrow> json list \<Rightarrow> json \<times> string \<times> int \<times> string \<Rightarrow> hit option" where
  "score_row cosine q r = (case r of (vec, txt, seen, key) \<Rightarrow> (case row_vector vec of
     None \<Rightarrow> None
   | Some v \<Rightarrow> if length v \<noteq> length q then None else map_option (\<lambda>s. (s, txt, seen, key)) (cosine q v)))"

definition rank_key :: "hit \<Rightarrow> rat \<times> string" where
  "rank_key h = (case h of (s, txt, seen, key) \<Rightarrow> (s, key))"

text \<open>\<^verbatim>\<open>sort(reverse=True)\<close> keeps the order of equal elements.\<close>

definition rank ::
  "(json list \<Rightarrow> json list \<Rightarrow> rat option) \<Rightarrow> (json \<times> string \<times> int \<times> string) list \<Rightarrow> json list \<Rightarrow> nat \<Rightarrow> hit list" where
  "rank cosine rows q k = (case normalizes q of Inl _ \<Rightarrow> []
     | Inr _ \<Rightarrow> take k (rev (sort_key rank_key (rev (List.map_filter (score_row cosine q) rows)))))"

text \<open>The pinned embedding space, if any; \<^verbatim>\<open>None\<close> and the empty string pin nothing.\<close>

definition search_space :: "meta_row option \<Rightarrow> string option" where
  "search_space pin = (case pin of None \<Rightarrow> None
     | Some r \<Rightarrow> (case mt_embed r of None \<Rightarrow> None | Some m \<Rightarrow> if m = [] then None else Some m))"

definition view_search ::
  "(json list \<Rightarrow> json list \<Rightarrow> rat option) \<Rightarrow> json list \<Rightarrow> nat \<Rightarrow> int \<Rightarrow> (mem conn, hit list) act" where
  "view_search cosine q k b = bindA pinned_identity (\<lambda>pin.
     bindA (select T_chunks chunks (\<lambda>r. (ck_vec r, ck_text r, f_rev r, ck_key r)) (PyInt b)
       (case search_space pin of None \<Rightarrow> [] | Some _ \<Rightarrow> [int (length q)])
       (\<lambda>book m r. live_chapter b book m (ck_key r) \<and> (case search_space pin of None \<Rightarrow> True
          | Some em \<Rightarrow> ck_model r = Some em \<and> ck_dim r = int (length q))) (\<lambda>_. 0 :: int)) (\<lambda>rows.
     ret (rank cosine rows q k)))"

section \<open>The paid query embedding\<close>

definition force_re_embed :: exc where
  "force_re_embed = ModelMigrationRequired [(''embed_model'', ''FORCE_RE_EMBED'')]"

text \<open>\<open>canary\<close> is the canary text, \<open>cosine\<close> the one of the identity fence.\<close>

definition budgeted_query_embedding ::
  "(json list \<Rightarrow> json list \<Rightarrow> rat) \<Rightarrow> settings \<Rightarrow> llm_client \<Rightarrow> versioned_client \<Rightarrow> string \<Rightarrow> meta_row option \<Rightarrow> pytext \<Rightarrow> pytext list \<Rightarrow>
   (catalog, json list list \<times> (string \<times> pyval) list) act \<Rightarrow> string \<Rightarrow> string \<Rightarrow> string \<Rightarrow> (catalog, json list list budgeted_result) act" where
  "budgeted_query_embedding cosine st c vc b pin canary texts call new_id t1 t2 =
     (case (pin, search_space pin) of
        (Some row, Some _) \<Rightarrow>
          bindA (liftA (assert_compatible_config (Some (pin_of row)) vc False)) (\<lambda>_.
          bindA (liftA (assert_compatible_identity cosine (Some (pin_of row)) (pin_of row) False)) (\<lambda>_.
          bindA (budgeted_embedding st c b ''search-embedding'' (texts @ [canary]) None call new_id t1 t2) (\<lambda>result.
            let vectors = br_value result in
            if length vectors \<noteq> length texts + 1 then raise force_re_embed
            else bindA (liftA (assert_compatible_identity cosine (Some (pin_of row))
                \<lparr>mi_extractor = None, mi_synth = None, mi_embed = Some (vc_embed vc), mi_dim = Some (int (length (last vectors))),
                 mi_canary = Some (JList (last vectors)), mi_schema = None\<rparr> False)) (\<lambda>_.
              if list_ex (\<lambda>v. Some (int (length v)) \<noteq> mt_dim row) (butlast vectors) then raise force_re_embed
              else ret (result\<lparr>br_value := butlast vectors\<rparr>)))))
      | _ \<Rightarrow> raise force_re_embed)"

section \<open>The route\<close>

definition round6 :: "rat \<Rightarrow> rat" where
  "round6 x = of_int (round_half_even (x * 1000000)) / 1000000"

definition too_many :: "exc \<Rightarrow> exc" where
  "too_many e = (case e of CostCeilingExceeded _ \<Rightarrow> HTTPException 429 ''book cost ceiling reached'' | _ \<Rightarrow> e)"

record search_env =
  se_rank :: "json list \<Rightarrow> json list \<Rightarrow> rat option"
  se_fence :: "json list \<Rightarrow> json list \<Rightarrow> rat"
  se_settings :: settings
  se_client :: llm_client
  se_versioned :: versioned_client
  se_canary :: pytext
  se_embed :: "pytext \<Rightarrow> (catalog, json list list \<times> (string \<times> pyval) list) act"

definition search_route ::
  "(string \<Rightarrow> string) \<Rightarrow> string \<Rightarrow> raw_manifest option \<Rightarrow> unit res \<Rightarrow> (nat \<Rightarrow> app \<Rightarrow> app) \<Rightarrow> unit res \<Rightarrow> unit res \<Rightarrow> search_env \<Rightarrow>
   int option \<Rightarrow> pytext \<Rightarrow> int \<Rightarrow> string \<Rightarrow> string \<Rightarrow> string \<Rightarrow> (app, int \<times> hit list) act" where
  "search_route digest book content opened others again1 again2 sx requested q k new_id t1 t2 =
     bindA (liftA (bookmark_query requested)) (\<lambda>_.
     if k < 1 \<or> 50 < k then raise (HTTPException 422 ''k'') else
     bindA (effective digest book content opened requested) (\<lambda>(eff, st, m).
     if eff \<le> 0 then ret (0, [])
     else bindA (session_after (others 0) again1 pinned_identity) (\<lambda>pin.
       bindA (mapping_error too_many (on_catalog (budgeted_query_embedding (se_fence sx) (se_settings sx) (se_client sx)
           (se_versioned sx) book pin (se_canary sx) [q] (se_embed sx q) new_id t1 t2))) (\<lambda>result.
         case br_value result of [] \<Rightarrow> raise (RuntimeError ''IndexError'')
         | v # _ \<Rightarrow> bindA (session_after (others 1) again2 (view_search (se_rank sx) v (nat k) eff)) (\<lambda>hits.
             ret (eff, map (\<lambda>(s, txt, seen, key). (round6 s, txt, seen, key)) hits))))))"

section \<open>What a search returns\<close>

lemma ranked_prefix:
  assumes "x \<in> set xs" and "x \<notin> set (take k (rev (sort_key f (rev xs))))"
  shows "length (take k (rev (sort_key f (rev xs)))) = k \<and> (\<forall>y \<in> set (take k (rev (sort_key f (rev xs)))). f x \<le> f y)"
proof -
  let ?ys = "rev (sort_key f (rev xs))"
  have "sorted (map f (rev ?ys))" by simp
  then have w: "sorted_wrt (\<lambda>a b. f b \<le> f a) (take k ?ys @ drop k ?ys)"
    unfolding append_take_drop_id by (simp add: sorted_wrt_rev sorted_wrt_map flip: sorted_wrt_map rev_map)
  have "x \<in> set (take k ?ys @ drop k ?ys)" using assms(1) by simp
  with assms(2) have d: "x \<in> set (drop k ?ys)" by (auto simp del: append_take_drop_id)
  then have "k < length ?ys" by (metis drop_all empty_iff empty_set not_le)
  moreover from w have "\<forall>y \<in> set (take k ?ys). \<forall>z \<in> set (drop k ?ys). f z \<le> f y" unfolding sorted_wrt_append by blast
  ultimately show ?thesis using d by simp
qed

lemma ranked_sorted: "sorted (map f (rev (take k (rev (sort_key f xs)))))"
proof -
  have "rev (take k (rev (sort_key f xs))) = drop (length xs - k) (sort_key f xs)" by (simp add: rev_take)
  then show ?thesis by (simp add: drop_map [symmetric])
qed

definition candidate_chunk :: "string option \<Rightarrow> json list \<Rightarrow> int \<Rightarrow> string \<Rightarrow> mem \<Rightarrow> chunk_row \<Rightarrow> bool" where
  "candidate_chunk space q b book m r = (spoiler_clause T_chunks book b r \<and> live_chapter b book m (ck_key r) \<and>
     (case space of None \<Rightarrow> True | Some em \<Rightarrow> ck_model r = Some em \<and> ck_dim r = int (length q)))"

definition hit_of :: "(json list \<Rightarrow> json list \<Rightarrow> rat option) \<Rightarrow> json list \<Rightarrow> chunk_row \<Rightarrow> hit option" where
  "hit_of cosine q r = score_row cosine q (ck_vec r, ck_text r, f_rev r, ck_key r)"

lemma pinned_identity_Inr:
  assumes "pinned_identity c = (Inr pin, c')"
  shows "working c' = working c \<and> book_id c' = book_id c \<and> pin = meta_of (book_id c) (working c)"
proof -
  have "book_id c' = book_id c"
    by (rule book_kept [where m = pinned_identity, OF _ assms]) (unfold pinned_identity_def, intro keeps_intros)
  moreover from assms have "writer (query [T_book_meta] (meta_of (book_id c))) c = (Inr pin, c')"
    by (simp add: pinned_identity_def with_book_def)
  ultimately show ?thesis using writer_query_Inr [of "[T_book_meta]" "meta_of (book_id c)" c pin c'] by simp
qed


text \<open>Two visible windows and a later one that would score best.\<close>

definition window_chunk :: "int \<Rightarrow> string \<Rightarrow> int \<Rightarrow> json list \<Rightarrow> chunk_row" where
  "window_chunk i key seen v = \<lparr>f_book = ''b'', f_rev = seen, f_invalid = None, f_retracted = None, ck_id = i, ck_key = key, ck_text = ''w'' @ key,
     ck_vec = JList v, ck_model = None, ck_dim = 1, ck_version = None, ck_hash = None, ck_start = None, ck_end = None\<rparr>"

definition search_conn :: "mem conn" where
  "search_conn = conn_on ''b'' 7 (empty_mem\<lparr>chapters := [chapter_at ''b'' ''k1'' 1 ''one'', chapter_at ''b'' ''k2'' 2 ''two'', chapter_at ''b'' ''k9'' 9 ''nine''],
     chunks := [window_chunk 1 ''k1'' 1 [JInt 1], window_chunk 2 ''k2'' 2 [JInt 2], window_chunk 3 ''k9'' 9 [JInt 9]]\<rparr>)"

definition first_of :: "json list \<Rightarrow> json list \<Rightarrow> rat option" where
  "first_of a b = (case b of [] \<Rightarrow> None | j # _ \<Rightarrow> as_float j)"

lemma found: "view_search first_of [JInt 1] 1 3 search_conn = (Inr [(2, ''wk2'', 2, ''k2'')], search_conn)"
  by code_simp


end
