(* ===== verification/Gate.thy ===== *)
theory Gate imports Views begin

text \<open>
  The deterministic spoiler gate: the words of \<^verbatim>\<open>backend/app/unicode_text.py\<close>, the sentence grounding
  of \<^verbatim>\<open>backend/app/eval/spoiler_gate/grounding.py\<close> and the scorer and runtime gate of
  \<^verbatim>\<open>backend/app/eval/spoiler_gate/synthesis.py\<close>. Text is a string of code points below 256, where no
  mark, dash or ellipsis occurs; the grammar of event bindings (\<^verbatim>\<open>binding.py\<close>) is a parameter.
\<close>

section \<open>Words\<close>

text \<open>Unicode categories L and N below 256, and the cased letters.\<close>

definition is_letter :: "char \<Rightarrow> bool" where
  "is_letter ch = (let n = (of_char ch :: nat) in (65 \<le> n \<and> n \<le> 90) \<or> (97 \<le> n \<and> n \<le> 122) \<or> n = 170 \<or> n = 181 \<or> n = 186 \<or>
     (192 \<le> n \<and> n \<noteq> 215 \<and> n \<noteq> 247))"

definition is_number :: "char \<Rightarrow> bool" where
  "is_number ch = (let n = (of_char ch :: nat) in (48 \<le> n \<and> n \<le> 57) \<or> n = 178 \<or> n = 179 \<or> n = 185 \<or> (188 \<le> n \<and> n \<le> 190))"

definition is_cased :: "char \<Rightarrow> bool" where
  "is_cased ch = (is_letter ch \<and> (of_char ch :: nat) \<noteq> 170 \<and> (of_char ch :: nat) \<noteq> 186)"

definition is_upper :: "char \<Rightarrow> bool" where
  "is_upper ch = (let n = (of_char ch :: nat) in (65 \<le> n \<and> n \<le> 90) \<or> (192 \<le> n \<and> n \<le> 222 \<and> n \<noteq> 215))"

definition is_lower_letter :: "char \<Rightarrow> bool" where
  "is_lower_letter ch = (is_letter ch \<and> \<not> is_upper ch)"

record token =
  tk_text :: string
  tk_start :: nat
  tk_end :: nat

fun words_at :: "nat \<Rightarrow> (nat \<times> string) option \<Rightarrow> string \<Rightarrow> token list" where
  "words_at i None [] = []"
| "words_at i (Some (a, acc)) [] = [\<lparr>tk_text = rev acc, tk_start = a, tk_end = i\<rparr>]"
| "words_at i None (c # cs) = words_at (Suc i) (if is_letter c \<or> is_number c then Some (i, [c]) else None) cs"
| "words_at i (Some (a, acc)) (c # cs) =
     (if is_letter c \<or> is_number c then words_at (Suc i) (Some (a, c # acc)) cs
      else \<lparr>tk_text = rev acc, tk_start = a, tk_end = i\<rparr> # words_at (Suc i) None cs)"

definition words_of :: "string \<Rightarrow> token list" where
  "words_of s = words_at 0 None s"

definition word_tokens :: "nat \<Rightarrow> string \<Rightarrow> string list" where
  "word_tokens least s = map (\<lambda>w. normalize_text (tk_text w)) (filter (\<lambda>w. least \<le> length (tk_text w) \<and> list_ex is_letter (tk_text w)) (words_of s))"

definition is_proper_word :: "string \<Rightarrow> bool" where
  "is_proper_word s = (case filter is_cased s of [] \<Rightarrow> 2 \<le> length (filter is_letter s) | c # _ \<Rightarrow> is_upper c)"

text \<open>Proper words, with the lowercase parts of hyphen and apostrophe compounds.\<close>

fun proper_from :: "string \<Rightarrow> nat option \<Rightarrow> bool \<Rightarrow> token list \<Rightarrow> token list" where
  "proper_from s prev compound [] = []"
| "proper_from s prev compound (w # ws) =
     (let between = (case prev of None \<Rightarrow> [] | Some e \<Rightarrow> take (tk_start w - e) (drop e s));
          linked = (between \<noteq> [] \<and> list_all (\<lambda>c. c = CHR ''-'' \<or> c = apostrophe) between);
          here = is_proper_word (tk_text w);
          compound' = (if linked then compound \<or> here else here) in
      (if here \<or> (linked \<and> compound') then [w] else []) @ proper_from s (Some (tk_end w)) compound' ws)"

definition proper_words :: "string \<Rightarrow> token list" where
  "proper_words s = proper_from s None False (words_of s)"

section \<open>Names in a text\<close>

definition LEAD_DET :: "string list" where
  "LEAD_DET = [''the'', ''a'', ''an'', ''this'', ''that'', ''these'', ''those'', ''his'', ''her'', ''their'', ''our'', ''my'', ''your'']"

definition proper_nouns :: "string \<Rightarrow> string list" where
  "proper_nouns s = map (\<lambda>w. normalize_text (tk_text w))
     (filter (\<lambda>w. 2 \<le> length (tk_text w) \<and> normalize_text (tk_text w) \<notin> set LEAD_DET) (proper_words s))"

definition match_tokens :: "string \<Rightarrow> string list" where
  "match_tokens s = concat (map (word_tokens 2) (proper_nouns s))"

text \<open>Words the reader saw capitalized in the middle of a clause.\<close>

definition mid_clause :: "string \<Rightarrow> token \<Rightarrow> bool" where
  "mid_clause s w = (case dropWhile py_space (rev (take (tk_start w) s)) of [] \<Rightarrow> False
     | c # _ \<Rightarrow> is_lower_letter c \<or> c = CHR '','' \<or> c = CHR '';'')"

definition read_proper_strict :: "string \<Rightarrow> string list" where
  "read_proper_strict s = map (\<lambda>w. normalize_text (tk_text w)) (filter (\<lambda>w.
     2 \<le> length (tk_text w) \<and> is_proper_word (tk_text w) \<and> normalize_text (tk_text w) \<notin> set LEAD_DET \<and>
     (list_ex is_cased (tk_text w) \<longrightarrow> mid_clause s w)) (words_of s))"

section \<open>Future modals\<close>

definition word_char :: "char \<Rightarrow> bool" where
  "word_char c = (is_letter c \<or> is_number c \<or> c = CHR ''_'')"

definition PROLEPSIS :: "string list" where
  "PROLEPSIS = [''will'', ''shall'', ''would later'', ''would soon'', ''would eventually'', ''would one day'', ''would come to'',
     ''would be'', ''would become'', ''going to'', ''about to'', ''is destined to'', ''is going to'', ''was to be'', ''was to become'',
     ''destined to'', ''fated to'', ''doomed to'']"

definition bounded_prefix :: "string \<Rightarrow> string \<Rightarrow> bool" where
  "bounded_prefix p s = (take (length p) s = p \<and> (case drop (length p) s of [] \<Rightarrow> True | c # _ \<Rightarrow> \<not> word_char c))"

fun prolepsis_from :: "bool \<Rightarrow> string \<Rightarrow> bool" where
  "prolepsis_from after [] = False"
| "prolepsis_from after (c # s) = ((\<not> after \<and> list_ex (\<lambda>p. bounded_prefix p (c # s)) PROLEPSIS) \<or> prolepsis_from (word_char c) s)"

definition prolepsis_hit :: "string \<Rightarrow> bool" where
  "prolepsis_hit s = prolepsis_from False (lower s)"

section \<open>Sentences and clauses\<close>

definition ABBREVIATIONS :: "string list" where
  "ABBREVIATIONS = [''Mr'', ''Mrs'', ''Ms'', ''Dr'', ''St'', ''Mme'', ''Mlle'', ''Prof'', ''Rev'', ''Fr'', ''Sr'', ''Jr'', ''Capt'', ''Gen'', ''Col'', ''Lt'']"

definition starts_with :: "string \<Rightarrow> string \<Rightarrow> bool" where
  "starts_with p s = (take (length p) s = p)"

text \<open>The three protections of a dot, each a substitution from left to right: the length of the match before the dot.\<close>

definition abbreviation_at :: "bool \<Rightarrow> string \<Rightarrow> nat option" where
  "abbreviation_at after s = (if after then None
     else map_option length (find (\<lambda>p. starts_with (p @ ''.'') s) ABBREVIATIONS))"

definition numref_at :: "bool \<Rightarrow> string \<Rightarrow> nat option" where
  "numref_at after s = (if \<not> after \<and> starts_with ''No.'' s \<and>
     (case dropWhile py_space (drop 3 s) of [] \<Rightarrow> False | c # _ \<Rightarrow> is_digit_ascii c) then Some 2 else None)"

definition initial_char :: "char \<Rightarrow> bool" where
  "initial_char c = (let n = (of_char c :: nat) in (65 \<le> n \<and> n \<le> 90) \<or> (192 \<le> n \<and> n \<le> 221))"

definition initial_at :: "bool \<Rightarrow> string \<Rightarrow> nat option" where
  "initial_at after s = (case s of c # d # t \<Rightarrow>
       if initial_char c \<and> after \<noteq> word_char c \<and> d = CHR ''.'' \<and> t \<noteq> [] \<and> py_space (hd t) \<and>
          (case dropWhile py_space t of [] \<Rightarrow> False | e # _ \<Rightarrow> initial_char e) then Some 1 else None
     | _ \<Rightarrow> None)"

text \<open>Remove the dot after every match; a match consumes its dot.\<close>

fun undot :: "(bool \<Rightarrow> string \<Rightarrow> nat option) \<Rightarrow> bool \<Rightarrow> nat \<Rightarrow> string \<Rightarrow> string" where
  "undot f after k [] = []"
| "undot f after k (c # s) = (case k of
     Suc 0 \<Rightarrow> undot f False 0 s
   | Suc (Suc j) \<Rightarrow> c # undot f (word_char c) (Suc j) s
   | 0 \<Rightarrow> (case f after (c # s) of None \<Rightarrow> c # undot f (word_char c) 0 s
       | Some n \<Rightarrow> c # undot f (word_char c) n s))"

definition sentence_end :: "char \<Rightarrow> bool" where
  "sentence_end c = (c \<in> set ''.!?'')"

text \<open>\<^verbatim>\<open>[^.!?\n]+[.!?]*\<close>: runs of other characters with the marks that follow them.\<close>

fun sentence_runs :: "string \<Rightarrow> bool \<Rightarrow> string \<Rightarrow> string list" where
  "sentence_runs acc closing [] = (if acc = [] then [] else [rev acc])"
| "sentence_runs acc closing (c # s) =
     (if sentence_end c then (if acc = [] then sentence_runs [] False s else sentence_runs (c # acc) True s)
      else if c = CHR 0x0A then (if acc = [] then sentence_runs [] False s else rev acc # sentence_runs [] False s)
      else if closing then rev acc # sentence_runs [c] False s
      else sentence_runs (c # acc) False s)"

definition split_sentences :: "string \<Rightarrow> string list" where
  "split_sentences s = filter (\<lambda>t. t \<noteq> []) (map strip (sentence_runs [] False
     (undot initial_at False 0 (undot numref_at False 0 (undot abbreviation_at False 0 s)))))"

definition JOINERS :: "string list" where
  "JOINERS = [''and'', ''but'', ''while'', ''whereas'', ''yet'']"

text \<open>Clauses: split at separating punctuation and at joiners; \<open>k\<close> counts the rest of a joiner to skip.\<close>

fun clause_runs :: "bool \<Rightarrow> nat \<Rightarrow> string \<Rightarrow> string \<Rightarrow> string list" where
  "clause_runs after k acc [] = [rev acc]"
| "clause_runs after k acc (c # s) = (case k of
     Suc j \<Rightarrow> clause_runs (word_char c) j acc s
   | 0 \<Rightarrow> if c \<in> set '';:,()'' then rev acc # clause_runs (word_char c) 0 [] s
       else (case (if after then None else find (\<lambda>p. bounded_prefix p (c # s)) JOINERS) of
          Some p \<Rightarrow> rev acc # clause_runs (word_char c) (length p - 1) [] s
        | None \<Rightarrow> clause_runs (word_char c) 0 (c # acc) s))"

definition clauses_of :: "string \<Rightarrow> string list" where
  "clauses_of s = filter (\<lambda>t. t \<noteq> []) (map strip (clause_runs False 0 [] s))"

section \<open>Content words\<close>

definition STOPWORDS :: "string list" where
  "STOPWORDS = [''a'', ''an'', ''the'', ''this'', ''that'', ''these'', ''those'', ''his'', ''her'', ''its'', ''their'',
     ''our'', ''my'', ''your'', ''one'', ''two'', ''three'', ''i'', ''you'', ''he'', ''she'', ''it'', ''we'',
     ''they'', ''him'', ''them'', ''us'', ''me'', ''who'', ''whom'', ''whose'', ''which'', ''what'', ''is'',
     ''are'', ''was'', ''were'', ''be'', ''been'', ''being'', ''am'', ''do'', ''does'', ''did'', ''done'',
     ''has'', ''have'', ''had'', ''having'', ''will'', ''would'', ''shall'', ''should'', ''can'', ''could'',
     ''may'', ''might'', ''must'', ''and'', ''or'', ''but'', ''nor'', ''so'', ''yet'', ''if'', ''then'',
     ''than'', ''as'', ''because'', ''while'', ''when'', ''where'', ''after'', ''before'', ''of'', ''in'',
     ''on'', ''at'', ''by'', ''for'', ''with'', ''from'', ''to'', ''into'', ''onto'', ''over'', ''under'',
     ''between'', ''through'', ''during'', ''not'', ''no'', ''never'', ''also'', ''very'', ''too'', ''more'',
     ''most'', ''much'', ''many'', ''some'', ''any'', ''all'', ''both'', ''each'', ''even'', ''there'',
     ''here'', ''out'', ''up'', ''down'', ''off'', ''again'', ''once'', ''about'', ''against'']"

definition EVENT_STEMS :: "string list" where
  "EVENT_STEMS = [''murder'', ''kill'', ''death'', ''dead'', ''die'', ''dying'', ''convict'', ''trial'', ''arrest'',
     ''poison'', ''hang'', ''execut'', ''suicide'', ''betray'', ''stab'', ''shot'', ''shoot'', ''drown'',
     ''strangl'', ''prison'', ''exile'', ''corpse'', ''funeral'', ''grave'', ''widow'', ''burn'', ''ablaze'',
     ''slain'', ''assassin'']"

definition IRREGULAR_PAST :: "string list" where
  "IRREGULAR_PAST = [''died'', ''slain'', ''fell'', ''fled'', ''wept'', ''hung'', ''hanged'', ''sank'', ''drowned'']"

definition AUX :: "string list" where
  "AUX = [''was'', ''were'', ''is'', ''are'', ''be'', ''been'', ''being'', ''am'', ''do'', ''does'', ''did'',
     ''has'', ''have'', ''had'', ''will'', ''would'']"

text \<open>\<open>fold_word\<close>: the first suffix that leaves three characters.\<close>

definition fold_word :: "string \<Rightarrow> string" where
  "fold_word w = (case find (\<lambda>suf. ends_with suf w \<and> 3 \<le> length w - length suf) [''ing'', ''ed'', ''es'', ''ly'', ''s''] of
     None \<Rightarrow> w | Some suf \<Rightarrow> take (length w - length suf) w)"

definition raw_words :: "string \<Rightarrow> string list" where
  "raw_words s = word_tokens 1 (normalize_text s)"

definition content_words :: "string \<Rightarrow> string set" where
  "content_words s = set (map fold_word (filter (\<lambda>w. 2 \<le> length w \<and> w \<notin> set STOPWORDS) (raw_words s)))"

definition has_event_stem :: "string set \<Rightarrow> bool" where
  "has_event_stem ts = (\<exists>t \<in> ts. \<exists>s \<in> set EVENT_STEMS. t = s \<or> (4 \<le> length s \<and> starts_with s t))"

definition past_tense_ungrounded :: "string \<Rightarrow> string set \<Rightarrow> bool" where
  "past_tense_ungrounded clause facts = list_ex (\<lambda>w. w \<notin> set STOPWORDS \<and> 4 \<le> length w \<and>
     (ends_with ''ed'' w \<or> w \<in> set IRREGULAR_PAST) \<and> fold_word w \<notin> facts) (raw_words clause)"

definition proper_subwords :: "string \<Rightarrow> string set" where
  "proper_subwords s = content_words (join '' '' (filter (\<lambda>t. 2 \<le> length t) (map tk_text (proper_words s))))"

section \<open>Grounding\<close>

definition coverage :: "string set \<Rightarrow> string set \<Rightarrow> rat" where
  "coverage ws facts = of_nat (card (ws \<inter> facts)) / of_nat (card ws)"

definition HARD_GROUNDING_FLOOR :: rat where
  "HARD_GROUNDING_FLOOR = 15 / 100"

definition GROUNDING_THRESHOLD :: rat where
  "GROUNDING_THRESHOLD = 35 / 100"

datatype verdict = Hard | Soft | Fine

definition clause_is_hard :: "string set \<Rightarrow> string set \<Rightarrow> string \<Rightarrow> bool" where
  "clause_is_hard facts names c = (let all_cw = content_words c; cw = all_cw - names in
     if cw = {} then all_cw \<inter> names \<noteq> {} \<and> set (raw_words c) \<inter> set AUX \<noteq> {}
     else coverage cw facts < HARD_GROUNDING_FLOOR \<and> (has_event_stem (cw - facts) \<or> past_tense_ungrounded c facts))"

definition ground_sentence :: "string set \<Rightarrow> string set \<Rightarrow> string \<Rightarrow> verdict" where
  "ground_sentence facts names s = (let all_cw = content_words s; cw = all_cw - names in
     if cw = {} then (if all_cw \<inter> names \<noteq> {} then Hard else Fine)
     else if cw \<subseteq> proper_subwords s then Hard
     else if coverage cw facts < HARD_GROUNDING_FLOOR then Hard
     else if list_ex (clause_is_hard facts names) (clauses_of s) then Hard
     else if coverage cw facts < GROUNDING_THRESHOLD then Soft else Fine)"

record recap_facts =
  rf_characters :: "string list"
  rf_summaries :: "string list"
  rf_events :: "string list"
  rf_aliases :: "string list"
  rf_entities :: "(int \<times> string \<times> string list) list"

definition fact_words :: "recap_facts \<Rightarrow> string set" where
  "fact_words x = content_words (join '' '' (rf_characters x @ rf_summaries x @ rf_events x))"

definition name_set :: "recap_facts \<Rightarrow> string set" where
  "name_set x = content_words (join '' '' (rf_characters x @ rf_aliases x)) - fold_word ` set ROLE_NOUNS"

definition ground_recap :: "string \<Rightarrow> recap_facts \<Rightarrow> string list \<times> string list" where
  "ground_recap txt x = (let graded = map (\<lambda>s. (s, ground_sentence (fact_words x) (name_set x) s)) (split_sentences txt) in
     (map fst (filter (\<lambda>g. snd g = Hard) graded), map fst (filter (\<lambda>g. snd g = Soft) graded)))"

section \<open>The facts of a recap\<close>

definition entity_facts :: "int \<Rightarrow> string \<Rightarrow> int \<times> string \<times> string \<times> int \<Rightarrow> (mem conn, string \<times> int \<times> string \<times> string list) act" where
  "entity_facts b ty e = (case e of (i, name, _, _) \<Rightarrow> bindA (aliases_of b i) (\<lambda>al. ret (ty, i, name, map fst al)))"

definition typed_entities :: "int \<Rightarrow> string \<Rightarrow> (mem conn, (string \<times> int \<times> string \<times> string list) list) act" where
  "typed_entities b ty = bindA (entities_of_type b ty) (for_each (entity_facts b ty))"

definition supplied_facts :: "int \<Rightarrow> (mem conn, recap_facts) act" where
  "supplied_facts b = bindA (for_each (typed_entities b) [''character'', ''place'', ''faction'', ''object'']) (\<lambda>ess.
     bindA (chapter_summaries b) (\<lambda>ss. bindA (timeline b) (\<lambda>evs. let es = concat ess in
       ret \<lparr>rf_characters = map (\<lambda>(_, _, name, _). name) (filter (\<lambda>(ty, _). ty = ''character'') es),
         rf_summaries = map (\<lambda>(_, _, txt). txt) ss, rf_events = map (\<lambda>(_, _, _, summary, _). summary) evs,
         rf_aliases = concat (map (\<lambda>(_, _, _, al). al) es), rf_entities = map (\<lambda>(_, i, name, al). (i, name, al)) es\<rparr>)))"

definition delta_facts :: "int \<Rightarrow> (mem conn, recap_facts) act" where
  "delta_facts b = bindA (characters b) (\<lambda>es. bindA (chapter_summaries b) (\<lambda>ss. bindA (timeline b) (\<lambda>evs.
     ret \<lparr>rf_characters = map (\<lambda>(_, name, _, _). name) (filter (\<lambda>(_, _, _, seen). seen = b) es),
       rf_summaries = map (\<lambda>(_, _, txt). txt) (filter (\<lambda>(_, seen, _). seen = b) ss),
       rf_events = map (\<lambda>(_, _, _, summary, _). summary) (filter (\<lambda>(_, seen, _). seen = b) evs),
       rf_aliases = [], rf_entities = []\<rparr>)))"

definition chapter_prose :: "int \<Rightarrow> string \<times> int \<times> string \<times> string \<Rightarrow> (mem conn, ((int \<times> string) \<times> string) list) act" where
  "chapter_prose b ch = (case ch of (key, seen, _, _) \<Rightarrow> bindA (raw_text_of b key) (\<lambda>txt.
     ret (case txt of None \<Rightarrow> [] | Some t \<Rightarrow> if t = [] then [] else [((seen, key), t)])))"

definition read_text_upto :: "int \<Rightarrow> (mem conn, string) act" where
  "read_text_upto b = bindA (chapters_of b) (\<lambda>chs. bindA (for_each (chapter_prose b) chs) (\<lambda>ps.
     ret (join '' '' (map snd (sort_key fst (concat ps))))))"

section \<open>The scorer\<close>

definition audit_all :: "tname \<Rightarrow> (mem \<Rightarrow> 'r list) \<Rightarrow> (mem conn, 'r list) act" where
  "audit_all t rows = writer (query [t] rows)"

definition live_rows :: "'r fact_scheme list \<Rightarrow> 'r fact_scheme list" where
  "live_rows rs = filter (\<lambda>r. f_retracted r = None) rs"

definition distinctive :: "string \<Rightarrow> string list" where
  "distinctive name = filter (\<lambda>t. t \<notin> set ROLE_NOUNS) (match_tokens name)"

definition id_name :: "entity_row list \<Rightarrow> int \<Rightarrow> string option" where
  "id_name es i = map_option en_name (find (\<lambda>e. en_id e = i) (rev es))"

definition owner_name :: "entity_row list \<Rightarrow> alias_row \<Rightarrow> string" where
  "owner_name es a = (case id_name es (al_entity a) of None \<Rightarrow> al_surface a | Some n \<Rightarrow> n)"

text \<open>Candidate whitelist, and what is revealed only later: pairs of a name and one of its tokens.\<close>

definition visible_tokens :: "int \<Rightarrow> entity_row list \<Rightarrow> alias_row list \<Rightarrow> theme_row list \<Rightarrow> string list" where
  "visible_tokens b es als ths = concat (
     map (\<lambda>e. match_tokens (en_name e)) (filter (\<lambda>e. f_rev e \<le> b) (live_rows es)) @
     map (\<lambda>a. match_tokens (al_surface a)) (filter (\<lambda>a. f_rev a \<le> b) (live_rows als)) @
     map (\<lambda>t. match_tokens (th_name t)) (filter (\<lambda>t. f_rev t \<le> b) (live_rows ths)))"

definition named_future :: "int \<Rightarrow> entity_row list \<Rightarrow> alias_row list \<Rightarrow> (string \<times> string) list" where
  "named_future b es als = concat (
     map (\<lambda>e. map (Pair (en_name e)) (distinctive (en_name e))) (filter (\<lambda>e. \<not> f_rev e \<le> b) (live_rows es)) @
     map (\<lambda>a. map (Pair (owner_name es a)) (distinctive (al_surface a))) (filter (\<lambda>a. \<not> f_rev a \<le> b) (live_rows als)))"

definition themed_future :: "int \<Rightarrow> theme_row list \<Rightarrow> (string \<times> string) list" where
  "themed_future b ths = concat (map (\<lambda>t. map (Pair (''theme:'' @ th_name t)) (distinctive (th_name t))) (filter (\<lambda>t. \<not> f_rev t \<le> b) (live_rows ths)))"

text \<open>What the reader has read: names seen in mid-clause, and every word.\<close>

definition read_proper :: "string \<Rightarrow> string list" where
  "read_proper txt = concat (map (word_tokens 2) (read_proper_strict txt))"

definition read_any :: "string \<Rightarrow> string list" where
  "read_any txt = word_tokens 1 (normalize_text txt)"

definition whitelist_of :: "string option \<Rightarrow> string list \<Rightarrow> string list" where
  "whitelist_of txt visible = (case txt of None \<Rightarrow> visible
     | Some s \<Rightarrow> filter (\<lambda>t. t \<in> set (read_any s) \<or> t \<in> set (read_proper s)) visible)"

definition bucket :: "(string \<times> string) list \<Rightarrow> string \<Rightarrow> string list" where
  "bucket pairs n = map snd (filter (\<lambda>p. fst p = n) pairs)"

text \<open>Reader parity: a token is dropped if it was read as a name, or as a common word while the name keeps another unread token.\<close>

definition apply_parity :: "string option \<Rightarrow> string list \<Rightarrow> string list \<Rightarrow> string list" where
  "apply_parity txt allowed toks0 = (let toks = filter (\<lambda>t. t \<notin> set allowed) toks0 in
     case txt of None \<Rightarrow> toks
     | Some s \<Rightarrow> filter (\<lambda>t. t \<notin> set (read_proper s) \<and>
         \<not> (t \<in> set (read_any s) \<and> list_ex (\<lambda>u. u \<noteq> t \<and> u \<notin> set (read_any s)) toks)) toks)"

definition forbidden :: "string option \<Rightarrow> string list \<Rightarrow> (string \<times> string) list \<Rightarrow> (string \<times> string) list" where
  "forbidden txt allowed pairs = concat (map (\<lambda>n. map (Pair n) (apply_parity txt allowed (bucket pairs n))) (from_keys (map fst pairs)))"

text \<open>The names that the words of a recap give away; a token that several names share counts for the last one.\<close>

definition hits :: "(string \<times> string) list \<Rightarrow> string list \<Rightarrow> string list" where
  "hits bad recap = sort (remdups (List.map_filter (\<lambda>t. if t \<in> set recap then map_option fst (find (\<lambda>p. snd p = t) (rev bad)) else None) (map snd bad)))"

record score =
  sc_leaks :: "string list"
  sc_prolepsis :: bool
  sc_themes :: "string list"
  sc_ungrounded :: "string list"
  sc_bindings :: "string list"
  sc_weak :: "string list"

definition score_recap :: "(string \<Rightarrow> recap_facts \<Rightarrow> string list) \<Rightarrow> int \<Rightarrow> string \<Rightarrow> string option \<Rightarrow> (mem conn, score) act" where
  "score_recap bindings b recap txt =
     bindA (audit_all T_entities entities) (\<lambda>_. bindA (audit_all T_entities entities) (\<lambda>es.
     bindA (audit_all T_aliases aliases) (\<lambda>als. bindA (audit_all T_themes themes) (\<lambda>ths.
     bindA (supplied_facts b) (\<lambda>x.
       let allowed = whitelist_of txt (visible_tokens b es als ths); recap_words = word_tokens 1 (normalize_text recap);
           graded = ground_recap recap x in
       ret \<lparr>sc_leaks = hits (forbidden txt allowed (named_future b es als)) recap_words, sc_prolepsis = prolepsis_hit recap,
         sc_themes = hits (forbidden txt allowed (themed_future b ths)) recap_words, sc_ungrounded = fst graded,
         sc_bindings = bindings recap x, sc_weak = snd graded\<rparr>)))))"

definition clean_score :: "score \<Rightarrow> bool" where
  "clean_score sc = (sc_leaks sc = [] \<and> \<not> sc_prolepsis sc \<and> sc_ungrounded sc = [] \<and> sc_bindings sc = [])"

definition assert_recap_safe :: "(string \<Rightarrow> recap_facts \<Rightarrow> string list) \<Rightarrow> int \<Rightarrow> string \<Rightarrow> string \<Rightarrow> (mem conn, score) act" where
  "assert_recap_safe bindings b recap txt = bindA (read_text_upto b) (\<lambda>canonical.
     if txt \<noteq> canonical then raise (RuntimeError ''SpoilerGateError: read_text'')
     else bindA (score_recap bindings b recap (Some txt)) (\<lambda>sc.
       if clean_score sc then ret sc else raise (RuntimeError ''SpoilerGateError: rejected'')))"

section \<open>What the gate lets through\<close>

lemma blind_facts [blind_intros]:
  "blind b (supplied_facts b)" "blind b (delta_facts b)" "blind b (read_text_upto b)"
  unfolding supplied_facts_def delta_facts_def read_text_upto_def typed_entities_def entity_facts_def chapter_prose_def Let_def
  by (intro blind_intros)+

lemma audit_all_Inr: "audit_all t rows c = (Inr xs, c') \<Longrightarrow> xs = rows (working c) \<and> working c' = working c"
  unfolding audit_all_def by (rule writer_query_Inr)

lemma hits_Nil: "hits bad ws = [] \<longleftrightarrow> (\<forall>p \<in> set bad. snd p \<notin> set ws)"
proof -
  let ?f = "\<lambda>t. if t \<in> set ws then map_option fst (find (\<lambda>p. snd p = t) (rev bad)) else None"
  have hit: "?f (snd p) \<noteq> None \<longleftrightarrow> snd p \<in> set ws" if "p \<in> set bad" for p
  proof -
    have "find (\<lambda>q. snd q = snd p) (rev bad) \<noteq> None" unfolding find_None_iff using that by (metis set_rev)
    then show ?thesis by simp
  qed
  have nil: "sort (remdups xs) = [] \<longleftrightarrow> (\<forall>n. n \<notin> set xs)" for xs :: "string list"
    using set_sort [of "\<lambda>n. n" "remdups xs"] by (cases "sort (remdups xs)") auto
  have "hits bad ws = [] \<longleftrightarrow> (\<forall>n. n \<notin> set (List.map_filter ?f (map snd bad)))"
    unfolding hits_def by (rule nil)
  also have "\<dots> \<longleftrightarrow> (\<forall>t \<in> set (map snd bad). ?f t = None)" unfolding map_filter_iff by (metis not_None_eq)
  also have "\<dots> \<longleftrightarrow> (\<forall>p \<in> set bad. snd p \<notin> set ws)" using hit by (simp only: set_map ball_simps) blast
  finally show ?thesis .
qed

lemma forbidden_unread:
  assumes "(n, t) \<in> set pairs" and "t \<notin> set (read_any txt)" and "t \<notin> set (read_proper txt)"
  shows "(n, t) \<in> set (forbidden (Some txt) (whitelist_of (Some txt) visible) pairs)"
proof -
  from assms(1) have "t \<in> set (bucket pairs n)" by (force simp: bucket_def)
  with assms(2,3) have "t \<in> set (apply_parity (Some txt) (whitelist_of (Some txt) visible) (bucket pairs n))"
    by (simp add: apply_parity_def whitelist_of_def Let_def)
  with assms(1) show ?thesis by (force simp: forbidden_def)
qed

text \<open>A surface that is revealed only after the bookmark: the name of an entity or an alias.\<close>

definition revealed_later :: "int \<Rightarrow> mem \<Rightarrow> string \<Rightarrow> bool" where
  "revealed_later b m s = ((\<exists>e \<in> set (live_rows (entities m)). b < f_rev e \<and> en_name e = s) \<or>
     (\<exists>a \<in> set (live_rows (aliases m)). b < f_rev a \<and> al_surface a = s))"

lemma named_future_later:
  assumes "revealed_later b m s" and "t \<in> set (distinctive s)"
  shows "\<exists>n. (n, t) \<in> set (named_future b (entities m) (aliases m))"
  using assms unfolding revealed_later_def named_future_def by fastforce

text \<open>
  Property C9: a recap that the runtime gate lets through contains no distinctive word of any name or alias that
  the book reveals only after the bookmark, unless the reader has already read that word; it was checked
  against the reader's own prose (the chapters visible at the bookmark and nothing else); no future modal
  occurs in it; and none of its sentences is ungrounded in the facts visible at the bookmark.
\<close>
theorem admitted_recap_names_nothing_unread:
  assumes "assert_recap_safe bindings b recap txt c = (Inr sc, c')"
    and "revealed_later b (working c) s" and "t \<in> set (distinctive s)"
    and "t \<notin> set (read_any txt)" and "t \<notin> set (read_proper txt)"
  shows "t \<notin> set (word_tokens 1 (normalize_text recap)) \<and> fst (read_text_upto b c) = Inr txt \<and> \<not> prolepsis_hit recap \<and>
    (\<exists>x. fst (supplied_facts b c') = Inr x \<and> fst (ground_recap recap x) = [] \<and> bindings recap x = [])"
proof -
  have same: "snd (read_text_upto b c) = c" "snd (supplied_facts b d) = d" for d
    by (rule blindD(1) [OF blind_facts(3)], rule blindD(1) [OF blind_facts(1)])
  from assms(1) have r: "read_text_upto b c = (Inr txt, c)" and sc: "score_recap bindings b recap (Some txt) c = (Inr sc, c')"
    and clean: "clean_score sc"
    using same(1) by (auto simp: assert_recap_safe_def bindA_Inr split: if_splits)
  from sc obtain es0 c1 es c2 als c3 ths c4 x where
    a: "audit_all T_entities entities c = (Inr es0, c1)" "audit_all T_entities entities c1 = (Inr es, c2)"
      "audit_all T_aliases aliases c2 = (Inr als, c3)" "audit_all T_themes themes c3 = (Inr ths, c4)"
    and x: "supplied_facts b c4 = (Inr x, c')"
    and leaks: "sc_leaks sc = hits (forbidden (Some txt) (whitelist_of (Some txt) (visible_tokens b es als ths)) (named_future b es als))
        (word_tokens 1 (normalize_text recap))"
    and rest: "sc_prolepsis sc = prolepsis_hit recap" "sc_ungrounded sc = fst (ground_recap recap x)" "sc_bindings sc = bindings recap x"
    by (auto simp: score_recap_def bindA_Inr Let_def)
  have rows: "es = entities (working c)" "als = aliases (working c)"
    using audit_all_Inr [OF a(1)] audit_all_Inr [OF a(2)] audit_all_Inr [OF a(3)] by simp_all
  from named_future_later [OF assms(2,3)] obtain n where "(n, t) \<in> set (named_future b es als)" unfolding rows by blast
  from forbidden_unread [OF this assms(4,5)] leaks clean have "t \<notin> set (word_tokens 1 (normalize_text recap))"
    by (fastforce simp: clean_score_def hits_Nil)
  moreover have "fst (supplied_facts b c') = Inr x" using x same(2) [of c4] by simp
  ultimately show ?thesis using clean rest r by (auto simp: clean_score_def)
qed

text \<open>Bo is met in chapter 9; the reader of chapter 1 has read of nobody but Ann.\<close>

definition gate_mem :: mem where
  "gate_mem = empty_mem\<lparr>chapters := [chapter_at ''b'' ''k1'' 1 ''one''], raw_chapters := [raw_at ''b'' ''k1'' 1 ''Ann'' ''one''],
     summaries := [\<lparr>f_book = ''b'', f_rev = 1, f_invalid = None, f_retracted = None, sm_id = 1, sm_key = ''k1'', sm_kind = ''chapter'',
       sm_text = ''walked'', sm_stamp = plain_stamp\<rparr>],
     entities := [entity_at ''b'' 1 ''Ann'' 1, entity_at ''b'' 2 ''Bo'' 9]\<rparr>"

definition gate_conn :: "mem conn" where
  "gate_conn = conn_on ''b'' 7 gate_mem"

lemma gate_passes: "map_sum id (\<lambda>_. ()) (fst (assert_recap_safe (\<lambda>_ _. []) 1 ''walked'' ''Ann'' gate_conn)) = Inr ()"
  by code_simp

lemma gate_rejects: "fst (assert_recap_safe (\<lambda>_ _. []) 1 ''bo'' ''Ann'' gate_conn) = Inl (RuntimeError ''SpoilerGateError: rejected'')"
  by code_simp

theorem admitted_recap_names_nothing_unread_witness:
  "''bo'' \<notin> set (word_tokens 1 (normalize_text ''walked''))"
proof -
  obtain sc where sc: "fst (assert_recap_safe (\<lambda>_ _. []) 1 ''walked'' ''Ann'' gate_conn) = Inr sc"
    using gate_passes by (cases "fst (assert_recap_safe (\<lambda>_ _. []) 1 ''walked'' ''Ann'' gate_conn)") auto
  then have run: "assert_recap_safe (\<lambda>_ _. []) 1 ''walked'' ''Ann'' gate_conn =
    (Inr sc, snd (assert_recap_safe (\<lambda>_ _. []) 1 ''walked'' ''Ann'' gate_conn))" by (simp add: prod_eq_iff)
  have "revealed_later 1 (working gate_conn) ''Bo''" by code_simp
  moreover have "''bo'' \<in> set (distinctive ''Bo'')" "''bo'' \<notin> set (read_any ''Ann'')" "''bo'' \<notin> set (read_proper ''Ann'')"
    by code_simp+
  ultimately show ?thesis using admitted_recap_names_nothing_unread [OF run, of "''Bo''" "''bo''"] by blast
qed

end
