(* ===== verification/Recaps.thy ===== *)
theory Recaps imports Gate Pipeline begin

text \<open>
  Cached recaps: the validity snapshot and cache key of \<^verbatim>\<open>backend/app/eval/spoiler_gate/cache.py\<close>, and the
  registry of \<^verbatim>\<open>backend/app/lifecycle_cache.py\<close> with its bounded maps and single-flight locks. The
  checkpoint file is not modelled; the digest is a parameter.
\<close>

section \<open>The validity snapshot\<close>

definition live_at :: "int \<Rightarrow> bool \<Rightarrow> 'r fact_scheme \<Rightarrow> bool" where
  "live_at b timed r = (f_rev r \<le> b \<and> f_retracted r = None \<and>
     (timed \<longrightarrow> (case f_invalid r of None \<Rightarrow> True | Some i \<Rightarrow> b < i)))"

text \<open>One part per live row: table, key, \<^verbatim>\<open>None\<close>, fingerprint, extra columns.\<close>

definition part :: "string \<Rightarrow> string \<Rightarrow> string \<Rightarrow> string \<Rightarrow> string" where
  "part table key fp extra = join '':'' [table, key, ''None'', fp, extra]"

definition parts_of :: "int \<Rightarrow> bool \<Rightarrow> string \<Rightarrow> ('r fact_scheme \<Rightarrow> string) \<Rightarrow> ('r fact_scheme \<Rightarrow> string) \<Rightarrow> ('r fact_scheme \<Rightarrow> string) \<Rightarrow>
   'r fact_scheme list \<Rightarrow> string list" where
  "parts_of b timed table key fp extra rs = map (\<lambda>r. part table (key r) (fp r) (extra r)) (filter (live_at b timed) rs)"

definition no_column :: "'r \<Rightarrow> string" where
  "no_column r = []"

definition link_parts :: "int \<Rightarrow> mem \<Rightarrow> string list" where
  "link_parts b m = map (\<lambda>p. ''event_participants:'' @ show_int (pt_event p) @ ''-'' @ show_int (pt_entity p))
     (filter (\<lambda>p. pt_event p \<in> ev_id ` set (filter (live_at b True) (events m)) \<and>
        pt_entity p \<in> en_id ` set (filter (live_at b True) (entities m)) \<and> pt_rev p \<le> b) (participants m))"

definition snapshot_parts :: "int \<Rightarrow> mem \<Rightarrow> string list" where
  "snapshot_parts b m =
     parts_of b True ''entities'' (\<lambda>r. show_int (en_id r)) (\<lambda>r. s_recorded (en_stamp r)) no_column (entities m) @
     parts_of b False ''aliases'' (\<lambda>r. show_int (al_id r)) al_recorded no_column (aliases m) @
     parts_of b True ''edges'' (\<lambda>r. show_int (ed_id r)) (\<lambda>r. s_recorded (ed_stamp r)) no_column (edges m) @
     parts_of b True ''events'' (\<lambda>r. show_int (ev_id r)) (\<lambda>r. s_recorded (ev_stamp r)) (\<lambda>r. show_int (ev_order r)) (events m) @
     parts_of b True ''entity_state'' (\<lambda>r. show_int (st_id r)) (\<lambda>r. s_recorded (st_stamp r)) no_column (states m) @
     parts_of b True ''themes'' (\<lambda>r. show_int (th_id r)) (\<lambda>r. s_recorded (th_stamp r)) no_column (themes m) @
     parts_of b False ''chapter_summaries'' (\<lambda>r. show_int (sm_id r)) (\<lambda>r. s_recorded (sm_stamp r)) no_column (summaries m) @
     parts_of b False ''raw_chapters'' raw_key raw_recorded no_column (raw_chapters m) @
     parts_of b False ''chunks'' (\<lambda>r. show_int (ck_id r)) no_column no_column (chunks m) @
     parts_of b False ''chapters'' ch_key (\<lambda>r. s_recorded (ch_stamp r)) (\<lambda>r. join '':'' [show_int (f_rev r), ch_hash r, ch_title r]) (chapters m) @
     link_parts b m"

definition cache_tables :: "tname list" where
  "cache_tables = [T_entities, T_aliases, T_edges, T_events, T_entity_state, T_themes, T_chapter_summaries, T_raw_chapters, T_chunks, T_chapters]"

text \<open>Eleven audit reads under one lock, each in a writer scope of its own.\<close>

definition validity_snapshot :: "(string \<Rightarrow> string) \<Rightarrow> pyval \<Rightarrow> (mem conn, string) act" where
  "validity_snapshot digest bm = (case bm of
     PyInt b \<Rightarrow> bindA (for_each (\<lambda>t. writer (query [t] (\<lambda>_. ()))) cache_tables) (\<lambda>_.
       bindA (writer (query [T_event_participants] (\<lambda>m. m))) (\<lambda>m.
         ret (take 16 (digest (join ''|'' (sort (snapshot_parts b m)))))))
   | _ \<Rightarrow> raise (ValueError ''bookmark must be an int chapter ordinal''))"

definition cache_key :: "string \<Rightarrow> pyval \<Rightarrow> string \<Rightarrow> string \<Rightarrow> string \<Rightarrow> string \<Rightarrow> string res" where
  "cache_key book bm snapshot synth prompt atoms = (case bm of
     PyInt b \<Rightarrow> Inr (join '':'' [book, show_int b, snapshot, synth, prompt, atoms])
   | _ \<Rightarrow> Inl (ValueError ''bookmark must be an int chapter ordinal''))"

section \<open>The snapshot sees only the cut memory\<close>

lemma invalid_veil: "f_invalid (veil b r) = (case f_invalid r of None \<Rightarrow> None | Some i \<Rightarrow> if b < i then None else Some i)"
  by (simp add: veil_def)

lemma live_at_veil [simp]: "live_at b timed (veil b r) = live_at b timed r"
  by (simp add: live_at_def invalid_veil split: option.splits)

lemma filter_live_cut: "filter (live_at b timed) (cut_at b rs) = map (veil b) (filter (live_at b timed) rs)"
  by (rule filter_cut_eq) (simp add: live_at_def, simp)

lemma parts_of_cut:
  assumes "\<And>r. key (veil b r) = key r" "\<And>r. fp (veil b r) = fp r" "\<And>r. extra (veil b r) = extra r"
  shows "parts_of b timed table key fp extra (cut_at b rs) = parts_of b timed table key fp extra rs"
  by (simp add: parts_of_def filter_live_cut assms comp_def)

lemma live_ids_cut:
  "ev_id ` set (filter (live_at b timed) (cut_at b es)) = ev_id ` set (filter (live_at b timed) es)"
  "en_id ` set (filter (live_at b timed) (cut_at b ns)) = en_id ` set (filter (live_at b timed) ns)"
  unfolding filter_live_cut by (simp_all add: image_image)

lemma filter_cut_links: "filter (\<lambda>p. P p \<and> Q p \<and> pt_rev p \<le> b) (cut_links b ps) = filter (\<lambda>p. P p \<and> Q p \<and> pt_rev p \<le> b) ps"
  unfolding cut_links_def filter_filter by (intro filter_cong) auto

lemma link_parts_cut: "link_parts b (horizon b m) = link_parts b m"
proof -
  have "events (horizon b m) = cut_at b (events m)" "entities (horizon b m) = cut_at b (entities m)"
    "participants (horizon b m) = cut_links b (participants m)" by (simp_all add: horizon_def)
  then show ?thesis by (simp only: link_parts_def live_ids_cut filter_cut_links)
qed

lemma stamps_veil [simp]:
  "en_stamp (veil b r1) = en_stamp r1" "ed_stamp (veil b r2) = ed_stamp r2" "ev_stamp (veil b r3) = ev_stamp r3"
  "st_stamp (veil b r4) = st_stamp r4" "th_stamp (veil b r5) = th_stamp r5" "sm_stamp (veil b r6) = sm_stamp r6"
  "ch_stamp (veil b r7) = ch_stamp r7" "ch_hash (veil b r7) = ch_hash r7" "al_recorded (veil b r8) = al_recorded r8"
  "raw_recorded (veil b r9) = raw_recorded r9"
  by (simp_all add: veil_def)

lemma snapshot_parts_cut: "snapshot_parts b (horizon b m) = snapshot_parts b m"
  unfolding snapshot_parts_def link_parts_cut by (simp add: horizon_def parts_of_cut no_column_def)

lemma reads_Inr:
  "for_each (\<lambda>t. writer (query (ts t) (\<lambda>_. ()))) xs c = (Inr ys, c') \<Longrightarrow> working c' = working c"
  by (induction xs arbitrary: c ys) (auto simp: ret_def bindA_Inr dest!: writer_query_Inr)

lemma validity_snapshot_Inr:
  assumes "validity_snapshot digest (PyInt b) c = (Inr x, c')"
  shows "x = take 16 (digest (join ''|'' (sort (snapshot_parts b (working c)))))"
proof -
  from assms obtain ys c1 m where reads: "for_each (\<lambda>t. writer (query [t] (\<lambda>_. ()))) cache_tables c = (Inr ys, c1)"
    and links: "writer (query [T_event_participants] (\<lambda>m. m)) c1 = (Inr m, c')"
    and x: "x = take 16 (digest (join ''|'' (sort (snapshot_parts b m))))"
    by (auto simp: validity_snapshot_def bindA_Inr ret_def)
  with reads_Inr [OF reads] writer_query_Inr [OF links] show ?thesis by simp
qed

text \<open>
  Property C14: a recap cached for a bookmark outlives every chapter the reader has not reached. When the
  validity snapshot for a bookmark is taken before and after the commit of a later chapter, the two
  fingerprints are equal, so the cache key a recap is filed under does not change: importing ahead of the
  reader never makes the gate synthesise the recap again.
\<close>
theorem cached_recap_survives_later_chapters:
  assumes "working c = committed c" and "schema_ok (committed c)" and "b < ci_ordinal ch"
    and "list_all (\<lambda>r. ch_key r \<noteq> ci_key ch) (chapters (horizon b (committed c)))"
    and "list_all (\<lambda>k. ck_key k \<noteq> ci_key ch) (chunks (horizon b (committed c)))"
    and "fst (validity_snapshot digest (PyInt b) c) = Inr x"
    and "fst (validity_snapshot digest (PyInt b) (snd (ingest_chapter dg cosine ch p now c))) = Inr y"
  shows "x = y"
proof -
  let ?c = "snd (ingest_chapter dg cosine ch p now c)"
  have "seen_as b (horizon b (committed c)) c" using assms(1,2) by (simp add: seen_as_def holds_def)
  from keepsD [OF keeps_seen_ingest [OF assms(3-5)] this] have "horizon b (working ?c) = horizon b (working c)"
    using assms(1) by (simp add: seen_as_def holds_def)
  then have "snapshot_parts b (working ?c) = snapshot_parts b (working c)" by (metis snapshot_parts_cut)
  moreover have "x = take 16 (digest (join ''|'' (sort (snapshot_parts b (working c)))))"
    "y = take 16 (digest (join ''|'' (sort (snapshot_parts b (working ?c)))))"
    using assms(6,7) by (metis validity_snapshot_Inr prod.collapse)+
  ultimately show ?thesis by simp
qed

text \<open>The sample commit, between two snapshots at the reader's second chapter.\<close>

definition told_after :: "mem conn" where
  "told_after = snd (ingest_chapter sample_digests (\<lambda>_ _. 1) sample_chapter
     (sample_prepared (case fst (all_entities 2 told_conn) of Inr r \<Rightarrow> r | Inl _ \<Rightarrow> [])) ''now'' told_conn)"

definition told_snapshot :: "mem conn \<Rightarrow> string" where
  "told_snapshot c = (case fst (validity_snapshot (\<lambda>s. s) (PyInt 2) c) of Inr x \<Rightarrow> x | Inl _ \<Rightarrow> [])"

theorem cached_recap_survives_later_chapters_witness: "told_snapshot told_conn = told_snapshot told_after"
proof (rule cached_recap_survives_later_chapters)
  show "working told_conn = committed told_conn" by (simp add: told_conn_def conn_on_def)
  show "schema_ok (committed told_conn)" by code_simp
  show "2 < ci_ordinal sample_chapter" by (simp add: sample_chapter_def)
  show "list_all (\<lambda>r. ch_key r \<noteq> ci_key sample_chapter) (chapters (horizon 2 (committed told_conn)))" by code_simp
  show "list_all (\<lambda>k. ck_key k \<noteq> ci_key sample_chapter) (chunks (horizon 2 (committed told_conn)))" by code_simp
  show "fst (validity_snapshot (\<lambda>s. s) (PyInt 2) told_conn) = Inr (told_snapshot told_conn)" by code_simp
  show "fst (validity_snapshot (\<lambda>s. s) (PyInt 2) (snd (ingest_chapter sample_digests (\<lambda>_ _. 1) sample_chapter
     (sample_prepared (case fst (all_entities 2 told_conn) of Inr r \<Rightarrow> r | Inl _ \<Rightarrow> [])) ''now'' told_conn))) =
     Inr (told_snapshot told_after)" by code_simp
qed

end
