(* ===== verification/Registry.thy ===== *)
theory Registry imports PyText Prelude "HOL-Library.AList" begin

text \<open>
  The recap registry, \<^verbatim>\<open>backend/app/lifecycle_cache.py\<close>: the two bounded maps of completed recaps and recent
  failures (an \<^verbatim>\<open>OrderedDict\<close> is an association list, least recently used first), and the single-flight
  protocol, a step relation in which any number of threads interleave at the points where they take or
  release the gate, a slot of the semaphore or the lock of an entry. The checkpoint file is not modelled.
\<close>

section \<open>The bounded maps\<close>

type_synonym recap_key = "string \<times> string \<times> string"

record 'v recap_registry =
  rg_max_entries :: int
  rg_max_failures :: int
  rg_max_flights :: int
  rg_cache :: "(recap_key \<times> 'v) list"
  rg_failed :: "(recap_key \<times> int) list"

definition positive_int :: "pyval \<Rightarrow> int option" where
  "positive_int v = (case v of PyInt i \<Rightarrow> if i < 1 then None else Some i | _ \<Rightarrow> None)"

definition new_registry :: "pyval \<Rightarrow> pyval \<Rightarrow> pyval \<Rightarrow> 'v recap_registry res" where
  "new_registry entries failures flights =
     (case positive_int entries of None \<Rightarrow> Inl (ValueError ''max_entries must be a positive integer'')
      | Some e \<Rightarrow> (case positive_int failures of None \<Rightarrow> Inl (ValueError ''max_failures must be a positive integer'')
      | Some f \<Rightarrow> (case positive_int flights of None \<Rightarrow> Inl (ValueError ''max_flights must be a positive integer'')
      | Some n \<Rightarrow> Inr \<lparr>rg_max_entries = e, rg_max_failures = f, rg_max_flights = n, rg_cache = [], rg_failed = []\<rparr>)))"

text \<open>\<^verbatim>\<open>move_to_end\<close> and assignment; \<^verbatim>\<open>popitem(last=False)\<close> drops the head.\<close>

definition put_last :: "'k \<Rightarrow> 'v \<Rightarrow> ('k \<times> 'v) list \<Rightarrow> ('k \<times> 'v) list" where
  "put_last k v xs = AList.delete k xs @ [(k, v)]"

definition trim_to :: "int \<Rightarrow> 'x list \<Rightarrow> 'x list" where
  "trim_to limit xs = drop (length xs - nat limit) xs"

definition recap_get :: "recap_key \<Rightarrow> 'v recap_registry \<Rightarrow> 'v option \<times> 'v recap_registry" where
  "recap_get k g = (case map_of (rg_cache g) k of
     None \<Rightarrow> (None, g)
   | Some v \<Rightarrow> (Some v, g\<lparr>rg_cache := put_last k v (rg_cache g)\<rparr>))"

definition recap_set :: "recap_key \<Rightarrow> 'v \<Rightarrow> 'v recap_registry \<Rightarrow> 'v recap_registry" where
  "recap_set k v g = g\<lparr>rg_cache := trim_to (rg_max_entries g) (put_last k v (rg_cache g))\<rparr>"

definition failure_recent :: "recap_key \<Rightarrow> int \<Rightarrow> int \<Rightarrow> 'v recap_registry \<Rightarrow> bool \<times> 'v recap_registry" where
  "failure_recent k ttl now g = (case map_of (rg_failed g) k of
     None \<Rightarrow> (False, g)
   | Some t \<Rightarrow> if ttl \<le> now - t then (False, g\<lparr>rg_failed := AList.delete k (rg_failed g)\<rparr>)
       else (True, g\<lparr>rg_failed := put_last k t (rg_failed g)\<rparr>))"

definition mark_failed :: "recap_key \<Rightarrow> int \<Rightarrow> 'v recap_registry \<Rightarrow> 'v recap_registry" where
  "mark_failed k t g = g\<lparr>rg_failed := trim_to (rg_max_failures g) (put_last k t (rg_failed g))\<rparr>"

definition clear_failed :: "recap_key \<Rightarrow> 'v recap_registry \<Rightarrow> 'v recap_registry" where
  "clear_failed k g = g\<lparr>rg_failed := AList.delete k (rg_failed g)\<rparr>"

definition invalidate_book :: "string \<Rightarrow> 'v recap_registry \<Rightarrow> 'v recap_registry" where
  "invalidate_book book g = g\<lparr>rg_cache := filter (\<lambda>(k, _). fst k \<noteq> book) (rg_cache g),
     rg_failed := filter (\<lambda>(k, _). fst k \<noteq> book) (rg_failed g)\<rparr>"

section \<open>Single flight\<close>

datatype 'k phase =
    Idle
  | Looking 'k
  | Acquiring 'k
  | Reserved 'k
  | Surplus 'k nat
  | Waiting 'k nat
  | Inside 'k nat
  | Leaving 'k nat
  | Freeing
  | Overreleased

text \<open>Entries, by their identity: the references of each, and the thread that holds its lock.\<close>

record 'k flight_state =
  fl_entries :: "('k \<times> nat) list"
  fl_refs :: "int list"
  fl_holder :: "nat option list"
  fl_free :: int
  fl_phase :: "'k phase list"

definition go :: "nat \<Rightarrow> 'k phase \<Rightarrow> 'k flight_state \<Rightarrow> 'k flight_state" where
  "go t p s = s\<lparr>fl_phase := (fl_phase s)[t := p]\<rparr>"

definition refer :: "nat \<Rightarrow> int \<Rightarrow> 'k flight_state \<Rightarrow> 'k flight_state" where
  "refer e d s = s\<lparr>fl_refs := (fl_refs s)[e := fl_refs s ! e + d]\<rparr>"

text \<open>\<^verbatim>\<open>BoundedSemaphore.release\<close> raises when it would exceed its initial value.\<close>

definition release_slot :: "int \<Rightarrow> nat \<Rightarrow> 'k phase \<Rightarrow> 'k flight_state \<Rightarrow> 'k flight_state" where
  "release_slot limit t p s = (if limit \<le> fl_free s then go t Overreleased s else go t p (s\<lparr>fl_free := fl_free s + 1\<rparr>))"

definition new_entry :: "'k \<Rightarrow> 'k flight_state \<Rightarrow> 'k flight_state" where
  "new_entry k s = s\<lparr>fl_entries := (k, length (fl_refs s)) # fl_entries s, fl_refs := fl_refs s @ [1], fl_holder := fl_holder s @ [None]\<rparr>"

definition hold :: "nat \<Rightarrow> nat option \<Rightarrow> 'k flight_state \<Rightarrow> 'k flight_state" where
  "hold e h s = s\<lparr>fl_holder := (fl_holder s)[e := h]\<rparr>"

text \<open>The next atomic region of thread \<open>t\<close>; \<open>None\<close> when it is not in the method or is blocked.\<close>

definition flight_move :: "int \<Rightarrow> nat \<Rightarrow> 'k flight_state \<Rightarrow> 'k flight_state option" where
  "flight_move limit t s = (case fl_phase s ! t of
     Idle \<Rightarrow> None
   | Looking k \<Rightarrow> Some (case map_of (fl_entries s) k of
         Some e \<Rightarrow> go t (Waiting k e) (refer e 1 s)
       | None \<Rightarrow> go t (Acquiring k) s)
   | Acquiring k \<Rightarrow> if fl_free s \<le> 0 then None else Some (go t (Reserved k) (s\<lparr>fl_free := fl_free s - 1\<rparr>))
   | Reserved k \<Rightarrow> Some (case map_of (fl_entries s) k of
         None \<Rightarrow> go t (Waiting k (length (fl_refs s))) (new_entry k s)
       | Some e \<Rightarrow> go t (Surplus k e) (refer e 1 s))
   | Surplus k e \<Rightarrow> Some (release_slot limit t (Waiting k e) s)
   | Waiting k e \<Rightarrow> if fl_holder s ! e = None then Some (go t (Inside k e) (hold e (Some t) s)) else None
   | Inside k e \<Rightarrow> Some (go t (Leaving k e) (hold e None s))
   | Leaving k e \<Rightarrow> Some (let s' = refer e (- 1) s in
       if fl_refs s' ! e = 0 \<and> map_of (fl_entries s') k = Some e
       then go t Freeing (s'\<lparr>fl_entries := AList.delete k (fl_entries s')\<rparr>)
       else go t Idle s')
   | Freeing \<Rightarrow> Some (release_slot limit t Idle s)
   | Overreleased \<Rightarrow> None)"

inductive flight_step :: "int \<Rightarrow> 'k flight_state \<Rightarrow> 'k flight_state \<Rightarrow> bool" for limit where
  enter: "t < length (fl_phase s) \<Longrightarrow> fl_phase s ! t = Idle \<Longrightarrow> flight_step limit s (go t (Looking k) s)"
| move: "t < length (fl_phase s) \<Longrightarrow> flight_move limit t s = Some s' \<Longrightarrow> flight_step limit s s'"

definition no_flights :: "int \<Rightarrow> nat \<Rightarrow> 'k flight_state" where
  "no_flights limit n = \<lparr>fl_entries = [], fl_refs = [], fl_holder = [], fl_free = limit, fl_phase = replicate n Idle\<rparr>"

inductive flights_reach :: "int \<Rightarrow> nat \<Rightarrow> 'k flight_state \<Rightarrow> bool" for limit n where
  start: "flights_reach limit n (no_flights limit n)"
| onward: "flights_reach limit n s \<Longrightarrow> flight_step limit s s' \<Longrightarrow> flights_reach limit n s'"

section \<open>One flight at a time\<close>

definition tally :: "('x \<Rightarrow> bool) \<Rightarrow> 'x list \<Rightarrow> int" where
  "tally P xs = int (length (filter P xs))"

lemma tally_update: "t < length xs \<Longrightarrow> tally P (xs[t := y]) = tally P xs - of_bool (P (xs ! t)) + of_bool (P y)"
proof (induction xs arbitrary: t)
  case (Cons x xs)
  then show ?case by (cases t) (auto simp: tally_def)
qed simp

lemma tally_nonneg: "0 \<le> tally P xs"
  by (simp add: tally_def)

lemma tally_pos: "t < length xs \<Longrightarrow> P (xs ! t) \<Longrightarrow> 0 < tally P xs"
  by (simp add: tally_def) (metis filter_empty_conv nth_mem)

lemma tally_pos_ex: "0 < tally P xs \<Longrightarrow> \<exists>t < length xs. P (xs ! t)"
  by (auto simp: tally_def filter_empty_conv in_set_conv_nth)

fun uses :: "'k \<Rightarrow> nat \<Rightarrow> 'k phase \<Rightarrow> bool" where
  "uses k e (Surplus k' e') = (k' = k \<and> e' = e)"
| "uses k e (Waiting k' e') = (k' = k \<and> e' = e)"
| "uses k e (Inside k' e') = (k' = k \<and> e' = e)"
| "uses k e (Leaving k' e') = (k' = k \<and> e' = e)"
| "uses k e _ = False"

fun has_slot :: "'k phase \<Rightarrow> bool" where
  "has_slot (Reserved _) = True"
| "has_slot (Surplus _ _) = True"
| "has_slot Freeing = True"
| "has_slot _ = False"

definition keyed :: "'k flight_state \<Rightarrow> bool" where
  "keyed s = (distinct (map fst (fl_entries s)) \<and> distinct (map snd (fl_entries s)) \<and> length (fl_holder s) = length (fl_refs s) \<and>
     (\<forall>x \<in> set (fl_entries s). snd x < length (fl_refs s)))"

definition exact :: "'k flight_state \<Rightarrow> bool" where
  "exact s = (\<forall>(k, e) \<in> set (fl_entries s). tally (uses k e) (fl_phase s) = fl_refs s ! e \<and> 0 < fl_refs s ! e)"

definition linked :: "'k flight_state \<Rightarrow> bool" where
  "linked s = (\<forall>t < length (fl_phase s). \<forall>k e. uses k e (fl_phase s ! t) \<longrightarrow> (k, e) \<in> set (fl_entries s))"

definition locked :: "'k flight_state \<Rightarrow> bool" where
  "locked s = ((\<forall>t < length (fl_phase s). \<forall>k e. fl_phase s ! t = Inside k e \<longrightarrow> e < length (fl_holder s) \<and> fl_holder s ! e = Some t) \<and>
     (\<forall>e < length (fl_holder s). \<forall>t. fl_holder s ! e = Some t \<longrightarrow> t < length (fl_phase s) \<and> (\<exists>k. fl_phase s ! t = Inside k e)))"

definition slotted :: "int \<Rightarrow> 'k flight_state \<Rightarrow> bool" where
  "slotted limit s = (0 \<le> fl_free s \<and> Overreleased \<notin> set (fl_phase s) \<and>
     fl_free s + int (length (fl_entries s)) + tally has_slot (fl_phase s) = limit)"

lemmas flight_updates = go_def refer_def release_slot_def new_entry_def hold_def

lemma entry_of: "keyed s \<Longrightarrow> (map_of (fl_entries s) k = Some e) = ((k, e) \<in> set (fl_entries s))"
  by (simp add: keyed_def)

lemma entry_unique: "keyed s \<Longrightarrow> (k, e) \<in> set (fl_entries s) \<Longrightarrow> (k', e) \<in> set (fl_entries s) \<Longrightarrow> k' = k"
  unfolding keyed_def distinct_map inj_on_def by (metis fst_conv snd_conv)

lemma entry_same: "keyed s \<Longrightarrow> (k, e) \<in> set (fl_entries s) \<Longrightarrow> (k, e') \<in> set (fl_entries s) \<Longrightarrow> e' = e"
  unfolding keyed_def distinct_map inj_on_def by (metis fst_conv snd_conv)

lemma exactD: "exact s \<Longrightarrow> (k, e) \<in> set (fl_entries s) \<Longrightarrow> tally (uses k e) (fl_phase s) = fl_refs s ! e \<and> 0 < fl_refs s ! e"
  by (auto simp: exact_def)

lemma linkedD: "linked s \<Longrightarrow> t < length (fl_phase s) \<Longrightarrow> uses k e (fl_phase s ! t) \<Longrightarrow> (k, e) \<in> set (fl_entries s)"
  by (auto simp: linked_def)

lemma go_fields [simp]:
  "fl_entries (go t p s) = fl_entries s" "fl_refs (go t p s) = fl_refs s" "fl_holder (go t p s) = fl_holder s"
  "fl_free (go t p s) = fl_free s" "fl_phase (go t p s) = (fl_phase s)[t := p]"
  by (simp_all add: go_def)

lemma refer_fields [simp]:
  "fl_entries (refer e d s) = fl_entries s" "fl_refs (refer e d s) = (fl_refs s)[e := fl_refs s ! e + d]"
  "fl_holder (refer e d s) = fl_holder s" "fl_free (refer e d s) = fl_free s" "fl_phase (refer e d s) = fl_phase s"
  by (simp_all add: refer_def)

lemma hold_fields [simp]:
  "fl_entries (hold e h s) = fl_entries s" "fl_refs (hold e h s) = fl_refs s" "fl_holder (hold e h s) = (fl_holder s)[e := h]"
  "fl_free (hold e h s) = fl_free s" "fl_phase (hold e h s) = fl_phase s"
  by (simp_all add: hold_def)

lemma new_entry_fields [simp]:
  "fl_entries (new_entry k s) = (k, length (fl_refs s)) # fl_entries s" "fl_refs (new_entry k s) = fl_refs s @ [1]"
  "fl_holder (new_entry k s) = fl_holder s @ [None]" "fl_free (new_entry k s) = fl_free s" "fl_phase (new_entry k s) = fl_phase s"
  by (simp_all add: new_entry_def)

text \<open>A phase change of thread \<open>t\<close>, by what happens to its reference.\<close>

lemma linked_go:
  assumes "linked s" "t < length (fl_phase s)" "\<And>k e. uses k e p \<Longrightarrow> (k, e) \<in> set (fl_entries s)"
  shows "linked (go t p s)"
  using assms by (simp add: linked_def nth_list_update)

lemma exact_go:
  assumes "exact s" "t < length (fl_phase s)" "\<And>k e. uses k e p = uses k e (fl_phase s ! t)"
  shows "exact (go t p s)"
  using assms by (simp add: exact_def tally_update)

lemma exact_join:
  assumes "exact s" "keyed s" "t < length (fl_phase s)" "(k, e) \<in> set (fl_entries s)" "\<And>k' e'. \<not> uses k' e' (fl_phase s ! t)"
    and "\<And>k' e'. uses k' e' p = (k' = k \<and> e' = e)"
  shows "exact (go t p (refer e 1 s))"
  unfolding exact_def
proof clarsimp
  fix k' e' assume x: "(k', e') \<in> set (fl_entries s)"
  have "e' = e \<longleftrightarrow> k' = k" using x entry_unique entry_same assms(2,4) by metis
  moreover have "e' < length (fl_refs s)" using x assms(2) by (auto simp: keyed_def)
  ultimately show "tally (uses k' e') ((fl_phase s)[t := p]) = (fl_refs s)[e := fl_refs s ! e + 1] ! e' \<and>
      0 < (fl_refs s)[e := fl_refs s ! e + 1] ! e'"
    using exactD [OF assms(1) x] assms(3,5,6) by (auto simp: tally_update nth_list_update)
qed

lemma exact_leave:
  assumes "exact s" "keyed s" "t < length (fl_phase s)" "(k, e) \<in> set (fl_entries s)"
    and "\<And>k' e'. uses k' e' (fl_phase s ! t) = (k' = k \<and> e' = e)" and "\<And>k' e'. \<not> uses k' e' p"
    and "set es \<subseteq> set (fl_entries s)" and "fl_refs s ! e = 1 \<Longrightarrow> k \<notin> fst ` set es"
  shows "exact (go t p (refer e (- 1) s\<lparr>fl_entries := es\<rparr>))"
  unfolding exact_def
proof clarsimp
  fix k' e' assume es: "(k', e') \<in> set es"
  then have x: "(k', e') \<in> set (fl_entries s)" using assms(7) by blast
  have "e' = e \<longleftrightarrow> k' = k" using x entry_unique entry_same assms(2,4) by metis
  moreover have "e' < length (fl_refs s)" using x assms(2) by (auto simp: keyed_def)
  moreover have "fl_refs s ! e \<noteq> 1" if "k' = k" using assms(8) es that by force
  ultimately show "tally (uses k' e') ((fl_phase s)[t := p]) = (fl_refs s)[e := fl_refs s ! e - 1] ! e' \<and>
      0 < (fl_refs s)[e := fl_refs s ! e - 1] ! e'"
    using exactD [OF assms(1) x] assms(3,5,6) by (auto simp: tally_update nth_list_update)
qed

lemma sole_user:
  assumes "exact s" "linked s" "t < length (fl_phase s)" "uses k e (fl_phase s ! t)" "fl_refs s ! e = 1"
    and "u < length (fl_phase s)" "uses k e (fl_phase s ! u)"
  shows "u = t"
proof (rule ccontr)
  assume "u \<noteq> t"
  with assms(6,7) have "0 < tally (uses k e) ((fl_phase s)[t := Idle])" by (intro tally_pos [of u]) simp_all
  with exactD [OF assms(1) linkedD [OF assms(2-4)]] assms(3-5) show False by (simp add: tally_update)
qed

text \<open>The lock of an entry, and the slots.\<close>

lemma lockedD:
  "locked s \<Longrightarrow> u < length (fl_phase s) \<Longrightarrow> fl_phase s ! u = Inside k e \<Longrightarrow> e < length (fl_holder s) \<and> fl_holder s ! e = Some u"
  "locked s \<Longrightarrow> e < length (fl_holder s) \<Longrightarrow> fl_holder s ! e = Some u \<Longrightarrow> u < length (fl_phase s) \<and> (\<exists>k. fl_phase s ! u = Inside k e)"
  unfolding locked_def by blast+

lemma lockedI:
  assumes "\<And>u k e. u < length (fl_phase s) \<Longrightarrow> fl_phase s ! u = Inside k e \<Longrightarrow> e < length (fl_holder s) \<and> fl_holder s ! e = Some u"
    and "\<And>u e. e < length (fl_holder s) \<Longrightarrow> fl_holder s ! e = Some u \<Longrightarrow> u < length (fl_phase s) \<and> (\<exists>k. fl_phase s ! u = Inside k e)"
  shows "locked s"
  unfolding locked_def using assms by blast

lemma locked_go:
  assumes "locked s" "t < length (fl_phase s)" "\<And>k e. fl_phase s ! t \<noteq> Inside k e" "\<And>k e. p \<noteq> Inside k e"
    and "fl_phase s' = (fl_phase s)[t := p]" and "fl_holder s' = fl_holder s @ replicate n None"
  shows "locked s'"
proof (rule lockedI)
  fix u k e assume u: "u < length (fl_phase s')" "fl_phase s' ! u = Inside k e"
  with assms(2,4,5) have "u \<noteq> t" by auto
  with u have "u < length (fl_phase s)" "fl_phase s ! u = Inside k e" by (simp_all add: assms(5))
  from lockedD(1) [OF assms(1) this] show "e < length (fl_holder s') \<and> fl_holder s' ! e = Some u" by (simp add: assms(6) nth_append)
next
  fix e u assume "e < length (fl_holder s')" "fl_holder s' ! e = Some u"
  with assms(6) have "e < length (fl_holder s)" "fl_holder s ! e = Some u" by (auto simp: nth_append split: if_splits)
  from lockedD(2) [OF assms(1) this] obtain k where k: "u < length (fl_phase s)" "fl_phase s ! u = Inside k e" by blast
  with assms(3) have "u \<noteq> t" by auto
  with k show "u < length (fl_phase s') \<and> (\<exists>k. fl_phase s' ! u = Inside k e)" by (simp add: assms(5))
qed

lemma locked_take:
  assumes "locked s" "t < length (fl_phase s)" "fl_phase s ! t = Waiting k e" "e < length (fl_holder s)" "fl_holder s ! e = None"
  shows "locked (go t (Inside k e) (hold e (Some t) s))"
proof (rule lockedI; simp)
  fix u k' e' assume u: "u < length (fl_phase s)" "(fl_phase s)[t := Inside k e] ! u = Inside k' e'"
  show "e' < length (fl_holder s) \<and> (fl_holder s)[e := Some t] ! e' = Some u"
  proof (cases "u = t")
    case False
    with u have "fl_phase s ! u = Inside k' e'" by simp
    from lockedD(1) [OF assms(1) u(1) this] assms(5) show ?thesis by (cases "e' = e") simp_all
  qed (use u assms in auto)
next
  fix e' u assume e: "e' < length (fl_holder s)" "(fl_holder s)[e := Some t] ! e' = Some u"
  show "u < length (fl_phase s) \<and> (\<exists>k'. (fl_phase s)[t := Inside k e] ! u = Inside k' e')"
  proof (cases "e' = e")
    case False
    with e have "fl_holder s ! e' = Some u" by simp
    from lockedD(2) [OF assms(1) e(1) this] assms(3) show ?thesis by (cases "u = t") auto
  qed (use e assms in auto)
qed

lemma locked_give:
  assumes "locked s" "t < length (fl_phase s)" "fl_phase s ! t = Inside k e"
  shows "locked (go t (Leaving k e) (hold e None s))"
proof (rule lockedI; simp)
  fix u k' e' assume u: "u < length (fl_phase s)" "(fl_phase s)[t := Leaving k e] ! u = Inside k' e'"
  with assms(2) have t: "u \<noteq> t" by auto
  with u have "fl_phase s ! u = Inside k' e'" by simp
  from lockedD(1) [OF assms(1) u(1) this] lockedD(1) [OF assms] t
  show "e' < length (fl_holder s) \<and> (fl_holder s)[e := None] ! e' = Some u" by (cases "e' = e") auto
next
  fix e' u assume e: "e' < length (fl_holder s)" "(fl_holder s)[e := None] ! e' = Some u"
  then have ne: "e' \<noteq> e" by auto
  with e have "fl_holder s ! e' = Some u" by simp
  from lockedD(2) [OF assms(1) e(1) this] lockedD(1) [OF assms] assms(3) ne
  show "u < length (fl_phase s) \<and> (\<exists>k'. (fl_phase s)[t := Leaving k e] ! u = Inside k' e')" by (cases "u = t") auto
qed

lemma slotted_step:
  assumes "slotted limit s" "t < length (fl_phase s)" "fl_phase s' = (fl_phase s)[t := p]" "0 \<le> fl_free s'" "p \<noteq> Overreleased"
    and "fl_free s' + int (length (fl_entries s')) + of_bool (has_slot p) =
         fl_free s + int (length (fl_entries s)) + of_bool (has_slot (fl_phase s ! t))"
  shows "slotted limit s'"
  using assms set_update_subset_insert [of "fl_phase s" t p] by (auto simp: slotted_def tally_update)

definition flights_sound :: "int \<Rightarrow> 'k flight_state \<Rightarrow> bool" where
  "flights_sound limit s = (keyed s \<and> exact s \<and> linked s \<and> locked s \<and> slotted limit s)"

text \<open>Every step keeps the five parts.\<close>

lemma soundD:
  assumes "flights_sound limit s"
  shows "keyed s" "exact s" "linked s" "locked s" "slotted limit s"
  using assms unfolding flights_sound_def by blast+

lemma keyed_same: "keyed s \<Longrightarrow> fl_entries s' = fl_entries s \<Longrightarrow> length (fl_refs s') = length (fl_refs s) \<Longrightarrow>
    length (fl_holder s') = length (fl_holder s) \<Longrightarrow> keyed s'"
  by (simp add: keyed_def)

lemma slot_free: "slotted limit s \<Longrightarrow> 0 \<le> fl_free s"
  by (simp add: slotted_def)

lemma sound_go:
  assumes "flights_sound limit s" "t < length (fl_phase s)" "\<And>k e. uses k e p = uses k e (fl_phase s ! t)"
    and "has_slot p = has_slot (fl_phase s ! t)" "p \<noteq> Overreleased"
    and "\<And>k e. fl_phase s ! t \<noteq> Inside k e" "\<And>k e. p \<noteq> Inside k e"
  shows "flights_sound limit (go t p s)"
  unfolding flights_sound_def
proof (intro conjI)
  note S = soundD [OF assms(1)]
  show "keyed (go t p s)" using S(1) by (rule keyed_same) simp_all
  show "exact (go t p s)" using S(2) assms(2,3) by (rule exact_go)
  show "linked (go t p s)" using S(3) assms(2,3) by (blast intro: linked_go linkedD)
  show "locked (go t p s)" using S(4) assms(2,6,7) by (rule locked_go [where n = 0]) simp_all
  show "slotted limit (go t p s)" by (rule slotted_step [OF S(5) assms(2) _ _ assms(5)]) (simp_all add: assms(4) slot_free [OF S(5)])
qed

lemma sound_join:
  assumes "flights_sound limit s" "t < length (fl_phase s)" "map_of (fl_entries s) k = Some e"
    and "\<And>k' e'. \<not> uses k' e' (fl_phase s ! t)" "\<And>k' e'. uses k' e' p = (k' = k \<and> e' = e)"
    and "has_slot p = has_slot (fl_phase s ! t)" "p \<noteq> Overreleased"
    and "\<And>k e. fl_phase s ! t \<noteq> Inside k e" "\<And>k e. p \<noteq> Inside k e"
  shows "flights_sound limit (go t p (refer e 1 s))"
  unfolding flights_sound_def
proof (intro conjI)
  note S = soundD [OF assms(1)]
  have e: "(k, e) \<in> set (fl_entries s)" using assms(3) by (rule map_of_SomeD)
  show "keyed (go t p (refer e 1 s))" using S(1) by (rule keyed_same) simp_all
  show "exact (go t p (refer e 1 s))" using S(2,1) assms(2) e assms(4,5) by (rule exact_join)
  have "linked (refer e 1 s)" using S(3) by (simp add: linked_def)
  then show "linked (go t p (refer e 1 s))" using assms(2,5) e by (intro linked_go) simp_all
  show "locked (go t p (refer e 1 s))" using S(4) assms(2,8,9) by (rule locked_go [where n = 0]) simp_all
  show "slotted limit (go t p (refer e 1 s))"
    by (rule slotted_step [OF S(5) assms(2) _ _ assms(7)]) (simp_all add: assms(6) slot_free [OF S(5)])
qed

lemma sound_create:
  assumes "flights_sound limit s" "t < length (fl_phase s)" "fl_phase s ! t = Reserved k" "map_of (fl_entries s) k = None"
  shows "flights_sound limit (go t (Waiting k (length (fl_refs s))) (new_entry k s))" (is "flights_sound limit ?s")
  unfolding flights_sound_def
proof (intro conjI)
  note S = soundD [OF assms(1)]
  have k: "k \<notin> fst ` set (fl_entries s)" using assms(4) by (simp add: map_of_eq_None_iff)
  have old: "e < length (fl_refs s)" if "(k', e) \<in> set (fl_entries s)" for k' e using that S(1) by (auto simp: keyed_def)
  show "keyed ?s" using S(1) k by (auto simp: keyed_def)
  have none: "\<not> uses k' (length (fl_refs s)) (fl_phase s ! u)" if "u < length (fl_phase s)" for k' u
    using linkedD [OF S(3) that] old by blast
  show "linked ?s" using S(3) assms(2) by (simp add: linked_def nth_list_update)
  have "tally (uses k (length (fl_refs s))) (fl_phase s) = 0"
    using tally_pos_ex tally_nonneg none by (metis order_less_le)
  moreover have "tally (uses k' e) (fl_phase s) = fl_refs s ! e \<and> 0 < fl_refs s ! e \<and> e < length (fl_refs s)"
    if "(k', e) \<in> set (fl_entries s)" for k' e using exactD [OF S(2) that] old [OF that] by simp
  ultimately show "exact ?s" using assms(2,3) by (auto simp: exact_def tally_update nth_append)
  show "locked ?s" by (rule locked_go [OF S(4) assms(2), where n = 1]) (simp_all add: assms(3))
  show "slotted limit ?s"
    by (rule slotted_step [OF S(5) assms(2), where p = "Waiting k (length (fl_refs s))"]) (simp_all add: assms(3) slot_free [OF S(5)])
qed

lemma sound_release:
  assumes "flights_sound limit s" "t < length (fl_phase s)" "has_slot (fl_phase s ! t)" "\<not> has_slot p"
    and "\<And>k e. uses k e p = uses k e (fl_phase s ! t)" "p \<noteq> Overreleased" "\<And>k e. p \<noteq> Inside k e"
  shows "flights_sound limit (release_slot limit t p s)"
proof -
  note S = soundD [OF assms(1)]
  have "0 < tally has_slot (fl_phase s)" using assms(2,3) by (rule tally_pos)
  with S(5) have free: "fl_free s < limit" by (simp add: slotted_def)
  have out: "fl_phase s ! t \<noteq> Inside k e" for k e using assms(3) by (cases "fl_phase s ! t") simp_all
  let ?s = "go t p (s\<lparr>fl_free := fl_free s + 1\<rparr>)"
  have "keyed ?s" using S(1) by (rule keyed_same) simp_all
  moreover have "exact ?s" using S(2) assms(2,5) by (simp add: exact_def tally_update)
  moreover have "linked (s\<lparr>fl_free := fl_free s + 1\<rparr>)" using S(3) by (simp add: linked_def)
  then have "linked ?s" using assms(2,5) S(3) by (intro linked_go) (auto dest: linkedD)
  moreover have "locked ?s" by (rule locked_go [OF S(4) assms(2) out assms(7), where n = 0]) simp_all
  moreover have "slotted limit ?s"
    by (rule slotted_step [OF S(5) assms(2) _ _ assms(6)]) (use assms(3,4) slot_free [OF S(5)] in simp_all)
  ultimately show ?thesis using free by (simp add: release_slot_def flights_sound_def)
qed

lemma sound_acquire:
  assumes "flights_sound limit s" "t < length (fl_phase s)" "fl_phase s ! t = Acquiring k" "0 < fl_free s"
  shows "flights_sound limit (go t (Reserved k) (s\<lparr>fl_free := fl_free s - 1\<rparr>))" (is "flights_sound limit ?s")
  unfolding flights_sound_def
proof (intro conjI)
  note S = soundD [OF assms(1)]
  show "keyed ?s" using S(1) by (rule keyed_same) simp_all
  show "exact ?s" using S(2) assms(2,3) by (simp add: exact_def tally_update)
  show "linked ?s" using S(3) assms(2) by (simp add: linked_def nth_list_update)
  show "locked ?s" by (rule locked_go [OF S(4) assms(2), where n = 0 and p = "Reserved k"]) (simp_all add: assms(3))
  show "slotted limit ?s" by (rule slotted_step [OF S(5) assms(2), where p = "Reserved k"]) (use assms(3,4) in simp_all)
qed

lemma sound_take:
  assumes "flights_sound limit s" "t < length (fl_phase s)" "fl_phase s ! t = Waiting k e" "fl_holder s ! e = None"
  shows "flights_sound limit (go t (Inside k e) (hold e (Some t) s))" (is "flights_sound limit ?s")
  unfolding flights_sound_def
proof (intro conjI)
  note S = soundD [OF assms(1)]
  have e: "(k, e) \<in> set (fl_entries s)" using linkedD [OF S(3) assms(2)] assms(3) by simp
  then have len: "e < length (fl_holder s)" using S(1) by (auto simp: keyed_def)
  show "keyed ?s" using S(1) by (rule keyed_same) simp_all
  show "exact ?s" using S(2) assms(2,3) by (simp add: exact_def tally_update)
  show "linked ?s" using S(3) assms(2) e by (simp add: linked_def nth_list_update)
  show "locked ?s" by (rule locked_take [OF S(4) assms(2,3) len assms(4)])
  show "slotted limit ?s" by (rule slotted_step [OF S(5) assms(2), where p = "Inside k e"]) (use assms(3) slot_free [OF S(5)] in simp_all)
qed

lemma sound_give:
  assumes "flights_sound limit s" "t < length (fl_phase s)" "fl_phase s ! t = Inside k e"
  shows "flights_sound limit (go t (Leaving k e) (hold e None s))" (is "flights_sound limit ?s")
  unfolding flights_sound_def
proof (intro conjI)
  note S = soundD [OF assms(1)]
  have e: "(k, e) \<in> set (fl_entries s)" using linkedD [OF S(3) assms(2)] assms(3) by simp
  show "keyed ?s" using S(1) by (rule keyed_same) simp_all
  show "exact ?s" using S(2) assms(2,3) by (simp add: exact_def tally_update)
  show "linked ?s" using S(3) assms(2) e by (simp add: linked_def nth_list_update)
  show "locked ?s" by (rule locked_give [OF S(4) assms(2,3)])
  show "slotted limit ?s" by (rule slotted_step [OF S(5) assms(2), where p = "Leaving k e"]) (use assms(3) slot_free [OF S(5)] in simp_all)
qed

lemma length_delete: "distinct (map fst xs) \<Longrightarrow> (k, v) \<in> set xs \<Longrightarrow> length xs = Suc (length (AList.delete k xs))"
proof (induction xs)
  case (Cons x xs)
  show ?case
  proof (cases "fst x = k")
    case True
    with Cons.prems have "k \<notin> fst ` set xs" by auto
    then have "AList.delete k xs = xs" by (rule delete_id)
    moreover have "AList.delete k (x # xs) = AList.delete k xs" using True by (simp add: AList.delete_eq case_prod_beta)
    ultimately show ?thesis by simp
  next
    case False
    then have "AList.delete k (x # xs) = x # AList.delete k xs" "(k, v) \<in> set xs" using Cons.prems by (auto simp: AList.delete_eq case_prod_beta)
    with Cons show ?thesis by simp
  qed
qed simp

lemma sound_leave:
  assumes "flights_sound limit s" "t < length (fl_phase s)" "fl_phase s ! t = Leaving k e"
  shows "fl_refs s ! e \<noteq> 1 \<Longrightarrow> flights_sound limit (go t Idle (refer e (- 1) s))"
    and "fl_refs s ! e = 1 \<Longrightarrow> flights_sound limit (go t Freeing (refer e (- 1) s\<lparr>fl_entries := AList.delete k (fl_entries s)\<rparr>))"
proof -
  note S = soundD [OF assms(1)]
  have e: "(k, e) \<in> set (fl_entries s)" using linkedD [OF S(3) assms(2)] assms(3) by simp
  note locked' = locked_go [OF S(4) assms(2), where n = 0]
  show "flights_sound limit (go t Idle (refer e (- 1) s))" (is "flights_sound limit ?s") if "fl_refs s ! e \<noteq> 1"
    unfolding flights_sound_def
  proof (intro conjI)
    show "keyed ?s" using S(1) by (rule keyed_same) simp_all
    have "exact (go t Idle (refer e (- 1) s\<lparr>fl_entries := fl_entries s\<rparr>))"
      by (rule exact_leave [OF S(2,1) assms(2) e]) (use assms(3) that in auto)
    then show "exact ?s" by (simp add: exact_def)
    show "linked ?s" using S(3) assms(2) by (simp add: linked_def nth_list_update)
    show "locked ?s" by (rule locked' [where p = Idle]) (simp_all add: assms(3))
    show "slotted limit ?s" by (rule slotted_step [OF S(5) assms(2), where p = Idle]) (use assms(3) slot_free [OF S(5)] in simp_all)
  qed
  show "flights_sound limit (go t Freeing (refer e (- 1) s\<lparr>fl_entries := AList.delete k (fl_entries s)\<rparr>))" (is "flights_sound limit ?s")
    if one: "fl_refs s ! e = 1"
    unfolding flights_sound_def
  proof (intro conjI)
    have del: "set (AList.delete k (fl_entries s)) = {x \<in> set (fl_entries s). fst x \<noteq> k}" by (auto simp: AList.delete_eq)
    show "keyed ?s" using S(1) by (auto simp: keyed_def del AList.delete_eq distinct_map intro: inj_on_subset)
    show "exact ?s" by (rule exact_leave [OF S(2,1) assms(2) e]) (use assms(3) del in auto)
    show "linked ?s" unfolding linked_def
    proof (intro allI impI)
      fix u k' e' assume u: "u < length (fl_phase ?s)" "uses k' e' (fl_phase ?s ! u)"
      with assms(2) have "u \<noteq> t" by auto
      with u have x: "u < length (fl_phase s)" "uses k' e' (fl_phase s ! u)" by simp_all
      from linkedD [OF S(3) this] have mem: "(k', e') \<in> set (fl_entries s)" .
      have "k' \<noteq> k"
      proof
        assume "k' = k"
        with entry_same [OF S(1) e] mem have "e' = e" by blast
        with \<open>k' = k\<close> x \<open>u \<noteq> t\<close> sole_user [OF S(2,3) assms(2) _ one x(1), of k] assms(3) show False by simp
      qed
      with mem show "(k', e') \<in> set (fl_entries ?s)" by (simp add: del)
    qed
    show "locked ?s" by (rule locked' [where p = Freeing]) (simp_all add: assms(3))
    have "length (fl_entries s) = Suc (length (AList.delete k (fl_entries s)))" using S(1) e by (intro length_delete) (simp_all add: keyed_def)
    then show "slotted limit ?s"
      by (intro slotted_step [OF S(5) assms(2), where p = Freeing]) (use assms(3) slot_free [OF S(5)] in simp_all)
  qed
qed

lemma sound_advance:
  assumes "flights_sound limit s" "t < length (fl_phase s)" "flight_move limit t s = Some s'"
  shows "flights_sound limit s'"
proof (cases "fl_phase s ! t")
  case (Looking k)
  show ?thesis
  proof (cases "map_of (fl_entries s) k")
    case None
    with Looking assms(3) have s': "s' = go t (Acquiring k) s" by (simp add: flight_move_def)
    show ?thesis unfolding s' by (rule sound_go [OF assms(1,2)]) (simp_all add: Looking)
  next
    case (Some e)
    with Looking assms(3) have s': "s' = go t (Waiting k e) (refer e 1 s)" by (simp add: flight_move_def)
    show ?thesis unfolding s' by (rule sound_join [OF assms(1,2) Some]) (auto simp: Looking)
  qed
next
  case (Acquiring k)
  with assms show ?thesis by (auto simp: flight_move_def split: if_splits intro: sound_acquire)
next
  case (Reserved k)
  show ?thesis
  proof (cases "map_of (fl_entries s) k")
    case None
    with Reserved assms show ?thesis by (auto simp: flight_move_def intro: sound_create)
  next
    case (Some e)
    with Reserved assms(3) have s': "s' = go t (Surplus k e) (refer e 1 s)" by (simp add: flight_move_def)
    show ?thesis unfolding s' by (rule sound_join [OF assms(1,2) Some]) (auto simp: Reserved)
  qed
next
  case (Surplus k e)
  with assms(3) have s': "s' = release_slot limit t (Waiting k e) s" by (simp add: flight_move_def)
  show ?thesis unfolding s' by (rule sound_release [OF assms(1,2)]) (simp_all add: Surplus)
next
  case (Waiting k e)
  with assms show ?thesis by (auto simp: flight_move_def split: if_splits intro: sound_take)
next
  case (Inside k e)
  with assms show ?thesis by (auto simp: flight_move_def intro: sound_give)
next
  case (Leaving k e)
  note S = soundD [OF assms(1)]
  have e: "(k, e) \<in> set (fl_entries s)" using linkedD [OF S(3) assms(2)] Leaving by simp
  then have "e < length (fl_refs s)" "map_of (fl_entries s) k = Some e" using S(1) by (auto simp: keyed_def)
  then have "s' = (if fl_refs s ! e = 1 then go t Freeing (refer e (- 1) s\<lparr>fl_entries := AList.delete k (fl_entries s)\<rparr>)
      else go t Idle (refer e (- 1) s))" using Leaving assms(3) by (auto simp: flight_move_def Let_def)
  then show ?thesis using sound_leave [OF assms(1,2) Leaving] by simp
next
  case Freeing
  with assms(3) have s': "s' = release_slot limit t Idle s" by (simp add: flight_move_def)
  show ?thesis unfolding s' by (rule sound_release [OF assms(1,2)]) (simp_all add: Freeing)
qed (use assms(3) in \<open>simp_all add: flight_move_def\<close>)

lemma advance_length: "flight_move limit t s = Some s' \<Longrightarrow> length (fl_phase s') = length (fl_phase s)"
  by (auto simp: flight_move_def release_slot_def Let_def split: phase.splits option.splits if_splits)

lemma flights_reach_sound:
  assumes "flights_reach limit n s" "0 \<le> limit"
  shows "flights_sound limit s \<and> length (fl_phase s) = n"
  using assms
proof (induction rule: flights_reach.induct)
  case start
  have "tally has_slot (replicate n Idle) = 0" by (simp add: tally_def)
  with start show ?case
    by (auto simp: no_flights_def flights_sound_def keyed_def exact_def linked_def locked_def slotted_def)
next
  case (onward s s')
  from onward(2) show ?case
  proof cases
    case (enter t k)
    with onward show ?thesis by (auto intro!: sound_go)
  next
    case (move t)
    with onward show ?thesis using sound_advance advance_length by metis
  qed
qed

text \<open>A schedule: the threads that move, each with the key it enters with when it is idle.\<close>

fun scheduled :: "int \<Rightarrow> (nat \<times> 'k) list \<Rightarrow> 'k flight_state \<Rightarrow> 'k flight_state" where
  "scheduled limit [] s = s"
| "scheduled limit ((t, k) # ms) s = scheduled limit ms
     (if \<not> t < length (fl_phase s) then s
      else if fl_phase s ! t = Idle then go t (Looking k) s
      else case flight_move limit t s of None \<Rightarrow> s | Some s' \<Rightarrow> s')"

lemma scheduled_reach: "flights_reach limit n s \<Longrightarrow> flights_reach limit n (scheduled limit ms s)"
proof (induction limit ms s rule: scheduled.induct)
  case (2 limit t k ms s)
  let ?s = "if \<not> t < length (fl_phase s) then s else if fl_phase s ! t = Idle then go t (Looking k) s
      else case flight_move limit t s of None \<Rightarrow> s | Some s' \<Rightarrow> s'"
  have "flights_reach limit n ?s"
    using 2(2) onward [OF 2(2) enter] onward [OF 2(2) move] by (simp split: option.splits)
  with 2(1) show ?case by simp
qed simp

text \<open>Two threads want one key, with one slot: the first is inside, the second waits for it.\<close>

definition two_callers :: "string flight_state" where
  "two_callers = scheduled 1 (map (\<lambda>t. (t, ''a'')) [0, 1, 0, 0, 1, 0, 0, 1]) (no_flights 1 2)"

lemma two_callers_reach: "flights_reach 1 2 two_callers"
  unfolding two_callers_def by (rule scheduled_reach) (rule start)

text \<open>
  Property C15: single flight. However the threads of the registry interleave, at most one thread at a time is
  inside the flight of a key, so a recap is synthesised once and not in parallel; the keys in flight never
  outnumber \<^verbatim>\<open>max_flights\<close>; the bounded semaphore is never released too often; and when every thread has
  left, no entry is kept and every slot is free again.
\<close>
theorem one_flight_per_key:
  assumes "flights_reach limit n s" and "0 \<le> limit"
  shows "(\<forall>t u k e e'. t < n \<longrightarrow> u < n \<longrightarrow> fl_phase s ! t = Inside k e \<longrightarrow> fl_phase s ! u = Inside k e' \<longrightarrow> t = u) \<and>
    int (length (fl_entries s)) \<le> limit \<and> Overreleased \<notin> set (fl_phase s) \<and>
    (list_all (\<lambda>p. p = Idle) (fl_phase s) \<longrightarrow> fl_entries s = [] \<and> fl_free s = limit)"
proof -
  from flights_reach_sound [OF assms] have S: "flights_sound limit s" and n: "length (fl_phase s) = n" by simp_all
  note P = soundD [OF S]
  have "t = u" if "t < n" "u < n" "fl_phase s ! t = Inside k e" "fl_phase s ! u = Inside k e'" for t u k e e'
  proof -
    have "e' = e" using linkedD [OF P(3)] entry_same [OF P(1)] that n by (metis uses.simps(3))
    then show ?thesis using lockedD(1) [OF P(4)] that n by (metis option.inject)
  qed
  moreover have "int (length (fl_entries s)) \<le> limit" "Overreleased \<notin> set (fl_phase s)"
    using P(5) tally_nonneg [of has_slot "fl_phase s"] by (auto simp: slotted_def)
  moreover have "fl_entries s = [] \<and> fl_free s = limit" if "list_all (\<lambda>p. p = Idle) (fl_phase s)"
  proof -
    have idle: "tally Q (fl_phase s) = 0" if "\<not> Q Idle" for Q
      using that \<open>list_all _ _\<close> by (auto simp: tally_def list_all_iff filter_empty_conv)
    have "fl_entries s = []"
    proof (rule ccontr)
      assume "fl_entries s \<noteq> []"
      then obtain k e where "(k, e) \<in> set (fl_entries s)" by (cases "fl_entries s") auto
      from exactD [OF P(2) this] idle [of "uses k e"] show False by auto
    qed
    then show ?thesis using P(5) idle [of has_slot] by (simp add: slotted_def)
  qed
  ultimately show ?thesis by blast
qed

theorem one_flight_per_key_witness:
  "fl_phase two_callers = [Inside ''a'' 0, Acquiring ''a''] \<and> int (length (fl_entries two_callers)) \<le> 1 \<and> Overreleased \<notin> set (fl_phase two_callers)"
proof
  show "fl_phase two_callers = [Inside ''a'' 0, Acquiring ''a'']" by code_simp
  from one_flight_per_key [OF two_callers_reach]
  show "int (length (fl_entries two_callers)) \<le> 1 \<and> Overreleased \<notin> set (fl_phase two_callers)" by linarith
qed

text \<open>
  Property C23: single flight never deadlocks. With at least one slot, whenever some thread is in the flight of
  some key, some thread can take its next step: it is not possible that all of them wait for a slot or a lock.
\<close>
theorem flights_never_deadlock:
  assumes "flights_reach limit n s" and "1 \<le> limit" and "list_ex (\<lambda>p. p \<noteq> Idle) (fl_phase s)"
  shows "\<exists>t < n. \<exists>s'. flight_move limit t s = Some s'"
proof (rule ccontr)
  assume stuck: "\<not> ?thesis"
  from flights_reach_sound [OF assms(1)] assms(2) have S: "flights_sound limit s" and n: "length (fl_phase s) = n" by simp_all
  note P = soundD [OF S]
  have none: "flight_move limit t s = None" if "t < n" for t using stuck that by auto
  have acq: "fl_phase s ! t = Idle \<or> (\<exists>k. fl_phase s ! t = Acquiring k)" if t: "t < n" for t
  proof (cases "fl_phase s ! t")
    case (Waiting k e)
    with none [OF t] have "fl_holder s ! e \<noteq> None" by (simp add: flight_move_def split: if_splits)
    moreover have "e < length (fl_holder s)" using linkedD [OF P(3), of t k e] Waiting P(1) t n by (auto simp: keyed_def)
    ultimately obtain u k' where "u < n" "fl_phase s ! u = Inside k' e" using lockedD(2) [OF P(4)] n by blast
    with none [of u] show ?thesis by (simp add: flight_move_def)
  next
    case Overreleased
    with P(5) t n show ?thesis by (metis nth_mem slotted_def)
  qed (use none [OF t] in \<open>simp_all add: flight_move_def Let_def\<close>)
  from assms(3) obtain t where "t < n" "fl_phase s ! t \<noteq> Idle" using n by (auto simp: list_ex_iff in_set_conv_nth)
  with acq [of t] obtain k where t: "t < n" "fl_phase s ! t = Acquiring k" by auto
  with none [OF t(1)] have "fl_free s \<le> 0" by (simp add: flight_move_def split: if_splits)
  moreover have "\<not> 0 < tally has_slot (fl_phase s)" using tally_pos_ex [of has_slot "fl_phase s"] acq n by fastforce
  ultimately have "fl_entries s \<noteq> []" using P(5) assms(2) by (auto simp: slotted_def)
  then obtain k' e where "(k', e) \<in> set (fl_entries s)" by (cases "fl_entries s") auto
  with exactD [OF P(2)] tally_pos_ex obtain u where "u < n" "uses k' e (fl_phase s ! u)" using n by metis
  with acq show False by fastforce
qed

theorem flights_never_deadlock_witness: "\<exists>t < 2. \<exists>s'. flight_move 1 t two_callers = Some s'"
proof (rule flights_never_deadlock [OF two_callers_reach])
  show "list_ex (\<lambda>p. p \<noteq> Idle) (fl_phase two_callers)" by code_simp
qed simp

section \<open>The maps stay bounded and current\<close>

definition registry_ok :: "'v recap_registry \<Rightarrow> bool" where
  "registry_ok g = (1 \<le> rg_max_entries g \<and> 1 \<le> rg_max_failures g \<and>
     int (length (rg_cache g)) \<le> rg_max_entries g \<and> int (length (rg_failed g)) \<le> rg_max_failures g \<and>
     distinct (map fst (rg_cache g)) \<and> distinct (map fst (rg_failed g)))"

lemma put_last_distinct: "distinct (map fst xs) \<Longrightarrow> distinct (map fst (put_last k v xs))"
  by (simp add: put_last_def delete_keys distinct_removeAll)

lemma map_of_put_last: "map_of (put_last k v xs) k' = (if k' = k then Some v else map_of xs k')"
  by (simp add: put_last_def map_add_def delete_conv' split: option.splits)

lemma length_put_last_known: "distinct (map fst xs) \<Longrightarrow> map_of xs k = Some w \<Longrightarrow> length (put_last k v xs) = length xs"
  using length_delete [OF _ map_of_SomeD, of xs k w] unfolding put_last_def by simp

lemma trim_to_le: "1 \<le> limit \<Longrightarrow> int (length (trim_to limit xs)) \<le> limit"
  by (simp add: trim_to_def)

lemma trim_to_distinct: "distinct (map fst xs) \<Longrightarrow> distinct (map fst (trim_to limit xs))"
  by (simp add: trim_to_def drop_map [symmetric])

lemma map_of_trim_put: "distinct (map fst xs) \<Longrightarrow> 1 \<le> limit \<Longrightarrow> map_of (trim_to limit (put_last k v xs)) k = Some v"
proof -
  assume xs: "distinct (map fst xs)" and limit: "1 \<le> limit"
  have "length (put_last k v xs) - nat limit \<le> length (AList.delete k xs)" using limit by (simp add: put_last_def)
  then have "(k, v) \<in> set (trim_to limit (put_last k v xs))" by (simp add: trim_to_def put_last_def)
  with trim_to_distinct [OF put_last_distinct [OF xs]] show ?thesis by (meson map_of_is_SomeI)
qed

lemma map_of_trim: "distinct (map fst xs) \<Longrightarrow> map_of (trim_to n xs) k = Some v \<Longrightarrow> map_of xs k = Some v"
  unfolding trim_to_def by (metis map_of_SomeD in_set_dropD map_of_eq_Some_iff)

lemma length_delete_le: "length (AList.delete k xs) \<le> length xs"
  by (simp add: AList.delete_eq)

datatype 'v registry_op =
    O_get recap_key
  | O_set recap_key 'v
  | O_recent recap_key int int
  | O_mark recap_key int
  | O_clear recap_key
  | O_invalidate string

fun apply_op :: "'v registry_op \<Rightarrow> 'v recap_registry \<Rightarrow> 'v recap_registry" where
  "apply_op (O_get k) g = snd (recap_get k g)"
| "apply_op (O_set k v) g = recap_set k v g"
| "apply_op (O_recent k ttl now) g = snd (failure_recent k ttl now g)"
| "apply_op (O_mark k t) g = mark_failed k t g"
| "apply_op (O_clear k) g = clear_failed k g"
| "apply_op (O_invalidate book) g = invalidate_book book g"

text \<open>The unbounded store the registry is a bounded part of.\<close>

fun stored :: "'v registry_op \<Rightarrow> (recap_key \<Rightarrow> 'v option) \<Rightarrow> recap_key \<Rightarrow> 'v option" where
  "stored (O_set k v) m = m(k \<mapsto> v)"
| "stored (O_invalidate book) m = (\<lambda>k. if fst k = book then None else m k)"
| "stored _ m = m"

lemma map_of_filter_book: "map_of (filter (\<lambda>(k, _). fst k \<noteq> book) xs) k = (if fst k = book then None else map_of xs k)"
  by (induction xs) auto

lemma apply_op_ok: "registry_ok g \<Longrightarrow> registry_ok (apply_op x g)"
proof (cases x)
  case (O_get k)
  assume "registry_ok g"
  with O_get show ?thesis
    by (auto simp: recap_get_def registry_ok_def put_last_distinct length_put_last_known split: option.splits)
next
  case (O_recent k ttl now)
  assume "registry_ok g"
  with O_recent length_delete_le [of k "rg_failed g"] show ?thesis
    by (auto simp: failure_recent_def registry_ok_def put_last_distinct length_put_last_known distinct_delete split: option.splits)
next
  case (O_clear k)
  assume "registry_ok g"
  with O_clear length_delete_le [of k "rg_failed g"] show ?thesis by (auto simp: clear_failed_def registry_ok_def distinct_delete)
next
  case (O_invalidate book)
  have *: "distinct (map fst ys) \<Longrightarrow> distinct (map fst (filter P ys))" for P and ys :: "(recap_key \<times> 'z) list"
    by (induction ys) auto
  assume "registry_ok g"
  then show ?thesis unfolding O_invalidate registry_ok_def
    by (simp add: invalidate_book_def *) (meson length_filter_le of_nat_mono order_trans)
qed (simp_all add: recap_set_def mark_failed_def registry_ok_def trim_to_le trim_to_distinct put_last_distinct)

lemma apply_op_stored:
  assumes "registry_ok g" "map_of (rg_cache g) \<subseteq>\<^sub>m m"
  shows "map_of (rg_cache (apply_op x g)) \<subseteq>\<^sub>m stored x m"
proof (cases x)
  case (O_get k)
  with assms show ?thesis
    by (auto simp: recap_get_def map_le_def map_of_put_last dom_def split: option.splits)
next
  case (O_set k v)
  have d: "distinct (map fst (put_last k v (rg_cache g)))" using assms(1) by (simp add: registry_ok_def put_last_distinct)
  show ?thesis unfolding O_set map_le_def
  proof
    fix k' assume "k' \<in> dom (map_of (rg_cache (apply_op (O_set k v) g)))"
    then obtain w where w: "map_of (trim_to (rg_max_entries g) (put_last k v (rg_cache g))) k' = Some w" by (auto simp: recap_set_def)
    have keep: "map_of (rg_cache g) k' = Some w \<Longrightarrow> m k' = Some w" using assms(2) by (metis domI map_le_def)
    from map_of_trim [OF d w] keep have "stored (O_set k v) m k' = Some w" by (simp add: map_of_put_last split: if_splits)
    with w show "map_of (rg_cache (apply_op (O_set k v) g)) k' = stored (O_set k v) m k'" by (simp add: recap_set_def)
  qed
next
  case (O_invalidate book)
  with assms(2) show ?thesis by (auto simp: invalidate_book_def map_le_def map_of_filter_book dom_def split: if_splits)
qed (use assms(2) in \<open>auto simp: failure_recent_def mark_failed_def clear_failed_def split: option.splits\<close>)

text \<open>
  Property C29: the registry is a bounded part of the store. After any sequence of operations both maps are
  within their limits; a recap the registry answers is the last one stored under its key, and no recap of
  an invalidated book is answered; and storing a recap makes it the answer for its key.
\<close>
theorem registry_is_a_bounded_store:
  assumes "new_registry (PyInt e) (PyInt f) (PyInt n) = Inr g0"
  shows "(let g = fold apply_op ops g0 in registry_ok g \<and> map_of (rg_cache g) \<subseteq>\<^sub>m fold stored ops Map.empty \<and>
      fst (recap_get k (recap_set k v g)) = Some v)"
proof -
  have "registry_ok g0" "map_of (rg_cache g0) \<subseteq>\<^sub>m Map.empty"
    using assms by (auto simp: new_registry_def positive_int_def registry_ok_def split: if_splits)
  then have "registry_ok (fold apply_op ops g0) \<and> map_of (rg_cache (fold apply_op ops g0)) \<subseteq>\<^sub>m fold stored ops Map.empty"
    by (induction ops rule: rev_induct) (simp_all add: apply_op_ok apply_op_stored)
  moreover from this have "fst (recap_get k (recap_set k v (fold apply_op ops g0))) = Some v"
    by (auto simp: recap_get_def recap_set_def registry_ok_def map_of_trim_put)
  ultimately show ?thesis by (simp add: Let_def)
qed

theorem registry_is_a_bounded_store_witness:
  "(let k = (''b'', ''i'', ''d''); g = fold apply_op [O_set k (1::int), O_mark k 5, O_get k, O_invalidate ''c''] \<lparr>rg_max_entries = 2, rg_max_failures = 2,
      rg_max_flights = 1, rg_cache = [], rg_failed = []\<rparr> in
    registry_ok g \<and> map_of (rg_cache g) \<subseteq>\<^sub>m fold stored [O_set k (1::int), O_mark k 5, O_get k, O_invalidate ''c''] Map.empty \<and>
      fst (recap_get k (recap_set k 7 g)) = Some 7)"
  unfolding Let_def
  by (rule registry_is_a_bounded_store [unfolded Let_def, of 2 2 1]) (simp add: new_registry_def positive_int_def)

end
