(* ===== verification/AskSources.thy ===== *)
theory AskSources imports Gate Passages begin

text \<open>
  Choosing the evidence of an answer: \<^verbatim>\<open>backend/app/ask_selection.py\<close>, which lets a model choose among
  numbered candidate passages, and \<^verbatim>\<open>backend/app/ask_context.py\<close>, which completes the choice with context
  passages. A candidate is a JSON object; the pools are lists. The completion call and \<^verbatim>\<open>json.dumps\<close> are
  parameters.
\<close>

section \<open>Selection\<close>

definition MAX_SOURCE_CANDIDATES :: int where "MAX_SOURCE_CANDIDATES = 24"
definition MAX_SELECTED_SOURCES :: nat where "MAX_SELECTED_SOURCES = 6"

definition selection_error :: "string \<Rightarrow> exc" where
  "selection_error msg = RuntimeError (''SourceSelectionError: '' @ msg)"

text \<open>\<^verbatim>\<open>source.get(key)\<close> on a dict.\<close>

definition field :: "string \<Rightarrow> json \<Rightarrow> json option" where
  "field k j = (case j of JObj kvs \<Rightarrow> map_of kvs k | _ \<Rightarrow> None)"

definition candidate_id :: "json \<Rightarrow> int option" where
  "candidate_id j = (case (field ''id'' j, field ''ordinal'' j, field ''title'' j, field ''text'' j) of
     (Some (JInt i), Some (JInt n), Some (JStr _), Some (JStr s)) \<Rightarrow>
       if 1 \<le> i \<and> i \<le> MAX_SOURCE_CANDIDATES \<and> 1 \<le> n \<and> strip s \<noteq> [] \<and> length s \<le> PASSAGE_CHARS then Some i else None
   | _ \<Rightarrow> None)"

fun add_candidates :: "(int \<times> json) list \<Rightarrow> json list \<Rightarrow> (int \<times> json) list option" where
  "add_candidates seen [] = Some seen"
| "add_candidates seen (j # js) = (case candidate_id j of
     None \<Rightarrow> None
   | Some i \<Rightarrow> if i \<in> fst ` set seen then None else add_candidates (seen @ [(i, j)]) js)"

definition candidate_map :: "json list \<Rightarrow> (int \<times> json) list res" where
  "candidate_map js = (if MAX_SOURCE_CANDIDATES < int (length js) then Inl (selection_error ''source candidate pool was invalid'')
     else case add_candidates [] js of
       None \<Rightarrow> Inl (selection_error ''source candidate pool was invalid'')
     | Some pool \<Rightarrow> Inr pool)"

definition question_ok :: "string \<Rightarrow> bool" where
  "question_ok q = (2 \<le> length q \<and> length q \<le> 500 \<and> strip q \<noteq> [])"

definition shown_candidate :: "json \<Rightarrow> json" where
  "shown_candidate j = JObj (map (\<lambda>k. (k, case field k j of Some v \<Rightarrow> v | None \<Rightarrow> JNull)) [''id'', ''ordinal'', ''title'', ''text''])"

definition selection_prompt :: "(json \<Rightarrow> string) \<Rightarrow> string \<Rightarrow> json list \<Rightarrow> int option \<Rightarrow> string res" where
  "selection_prompt dumps q js frontier = (case candidate_map js of
     Inl e \<Rightarrow> Inl e
   | Inr _ \<Rightarrow> if \<not> question_ok q then Inl (selection_error ''source selection question was invalid'')
     else Inr (''Choose source_ids using only the following question and candidate evidence.'' @ [CHR 0x0A] @
       ''QUESTION AND CANDIDATES (untrusted JSON data):'' @ [CHR 0x0A] @
       dumps (JObj ([(''question'', JStr q), (''candidates'', JList (map shown_candidate js))] @
         (case frontier of None \<Rightarrow> [] | Some n \<Rightarrow> [(''latest_completed_chapter'', JInt n)])))))"

text \<open>\<^verbatim>\<open>SourceSelection.model_validate(value, strict=True)\<close>.\<close>

definition source_id_of :: "json \<Rightarrow> int option" where
  "source_id_of j = (case j of JInt i \<Rightarrow> if 1 \<le> i \<and> i \<le> MAX_SOURCE_CANDIDATES then Some i else None | _ \<Rightarrow> None)"

definition source_selection :: "json \<Rightarrow> int list option" where
  "source_selection v = (case v of
     JObj [(k, JList xs)] \<Rightarrow> if k \<noteq> ''source_ids'' then None else (case those (map source_id_of xs) of
         None \<Rightarrow> None
       | Some ids \<Rightarrow> if length ids \<le> MAX_SELECTED_SOURCES \<and> distinct ids then Some ids else None)
   | _ \<Rightarrow> None)"

definition validate_selection :: "json \<Rightarrow> json list \<Rightarrow> json list res" where
  "validate_selection v js = (case candidate_map js of
     Inl e \<Rightarrow> Inl e
   | Inr pool \<Rightarrow> (case source_selection v of
       None \<Rightarrow> Inl (selection_error ''source selection was invalid'')
     | Some ids \<Rightarrow> (case those (map (map_of pool) ids) of
         None \<Rightarrow> Inl (selection_error ''source selection cited an unavailable candidate'')
       | Some chosen \<Rightarrow> Inr chosen)))"

definition select_sources ::
  "(json \<Rightarrow> string) \<Rightarrow> string \<Rightarrow> json list \<Rightarrow> (string \<Rightarrow> ('s, json \<times> (string \<times> int) list) act) \<Rightarrow> ('s, json list \<times> (string \<times> int) list) act" where
  "select_sources dumps q js ask = bindA (liftA (selection_prompt dumps q js None)) (\<lambda>prompt.
     if js = [] then ret ([], [(''in'', 0), (''out'', 0)])
     else bindA (ask prompt) (\<lambda>(v, usage). bindA (liftA (validate_selection v js)) (\<lambda>chosen. ret (chosen, usage))))"

section \<open>The pool of a completion\<close>

definition context_error :: exc where
  "context_error = selection_error ''source context could not be completed''"

definition json_string :: "json option \<Rightarrow> string" where
  "json_string v = (case v of Some (JStr s) \<Rightarrow> s | _ \<Rightarrow> [])"

definition json_int :: "json option \<Rightarrow> int" where
  "json_int v = (case v of Some (JInt i) \<Rightarrow> i | _ \<Rightarrow> 0)"

definition json_list :: "json option \<Rightarrow> json list" where
  "json_list v = (case v of Some (JList xs) \<Rightarrow> xs | _ \<Rightarrow> [])"

definition id_of :: "json \<Rightarrow> int" where "id_of j = json_int (field ''id'' j)"
definition ordinal_of :: "json \<Rightarrow> int" where "ordinal_of j = json_int (field ''ordinal'' j)"
definition key_of :: "json \<Rightarrow> string" where "key_of j = json_string (field ''chapter_key'' j)"
definition text_of :: "json \<Rightarrow> string" where "text_of j = json_string (field ''text'' j)"

text \<open>\<^verbatim>\<open>source.get(name, [])\<close> must be a list of at most \<open>most\<close> entries.\<close>

definition reference_list :: "string \<Rightarrow> nat \<Rightarrow> json \<Rightarrow> json list option" where
  "reference_list name most j = (case field name j of
     None \<Rightarrow> Some []
   | Some (JList xs) \<Rightarrow> if length xs \<le> most then Some xs else None
   | Some _ \<Rightarrow> None)"

text \<open>Each reference must be the number of a candidate that \<open>fits\<close>; a candidate without a chapter key raises.\<close>

fun references :: "(int \<times> json) list \<Rightarrow> (string \<Rightarrow> int \<Rightarrow> bool) \<Rightarrow> json list \<Rightarrow> int list res" where
  "references pool fits [] = Inr []"
| "references pool fits (x # xs) = (case x of
     JInt i \<Rightarrow> (case map_of pool i of
         None \<Rightarrow> Inl context_error
       | Some target \<Rightarrow> (case field ''chapter_key'' target of
           None \<Rightarrow> Inl (KeyError ''chapter_key'')
         | Some k \<Rightarrow> if \<not> (case k of JStr s \<Rightarrow> fits s (ordinal_of target) | _ \<Rightarrow> fits [] (ordinal_of target)) then Inl context_error
             else (case references pool fits xs of Inl e \<Rightarrow> Inl e | Inr is \<Rightarrow> Inr (i # is))))
   | _ \<Rightarrow> Inl context_error)"

definition source_context :: "(int \<times> json) list \<Rightarrow> json \<Rightarrow> (int list \<times> int list) res" where
  "source_context pool j =
     (if key_of j = [] \<or> (case field ''href'' j of Some (JStr _) \<Rightarrow> False | _ \<Rightarrow> True) then Inl context_error
      else case reference_list ''context_ids'' (nat MAX_SOURCE_CANDIDATES) j of None \<Rightarrow> Inl context_error | Some refs \<Rightarrow>
        (case references pool (\<lambda>k n. k = key_of j \<and> n = ordinal_of j) refs of Inl e \<Rightarrow> Inl e | Inr near \<Rightarrow>
          (case reference_list ''continuity_ids'' 1 j of None \<Rightarrow> Inl context_error | Some refs' \<Rightarrow>
            (case references pool (\<lambda>k n. k \<noteq> key_of j \<and> n = ordinal_of j - 1) refs' of Inl e \<Rightarrow> Inl e | Inr before \<Rightarrow>
              Inr (near, before)))))"

fun all_contexts :: "(int \<times> json) list \<Rightarrow> (int \<times> json) list \<Rightarrow> (int \<times> int list \<times> int list) list res" where
  "all_contexts pool [] = Inr []"
| "all_contexts pool ((i, j) # rest) = (case source_context pool j of Inl e \<Rightarrow> Inl e | Inr c \<Rightarrow>
     (case all_contexts pool rest of Inl e \<Rightarrow> Inl e | Inr cs \<Rightarrow> Inr ((i, c) # cs)))"

definition validated_pool :: "json list \<Rightarrow> json list \<Rightarrow> (json list \<times> (int \<times> json) list \<times> (int \<times> int list \<times> int list) list) res" where
  "validated_pool selected js = (case those (map (field ''id'') selected) of
     None \<Rightarrow> Inl context_error
   | Some ids \<Rightarrow> (case validate_selection (JObj [(''source_ids'', JList ids)]) js of
       Inl _ \<Rightarrow> Inl context_error
     | Inr canonical \<Rightarrow> if selected \<noteq> canonical then Inl context_error
       else (case candidate_map js of Inl _ \<Rightarrow> Inl context_error | Inr pool \<Rightarrow>
         (case all_contexts pool pool of Inl e \<Rightarrow> Inl e | Inr cs \<Rightarrow> Inr (canonical, pool, cs)))))"

section \<open>Completion of the context\<close>

text \<open>\<^verbatim>\<open>source_name_text\<close>: the text without a title it opens with.\<close>

definition source_name_text :: "json \<Rightarrow> string" where
  "source_name_text j = (let s = text_of j; title = join '' '' (split_words (json_string (field ''title'' j))) in
     if field ''source_offset'' j = Some (JInt 0) \<and> title \<noteq> [] \<and> take (length title) s = title then
       (case drop (length title) s of
          [] \<Rightarrow> []
        | ch # rest \<Rightarrow> if py_space ch then lstrip (ch # rest) else s)
     else s)"

definition name_terms :: "json \<Rightarrow> string list" where
  "name_terms j = word_tokens 1 (source_name_text j)"

definition evidence_of :: "json \<Rightarrow> string \<times> int \<times> string" where
  "evidence_of j = (key_of j, ordinal_of j, text_of j)"

definition QUESTION_WORDS :: "string list" where
  "QUESTION_WORDS = STOPWORDS @ [''according'', ''please'', ''explain'', ''describe'', ''tell'', ''give'', ''find'', ''summarize'',
     ''summarise'', ''name'', ''how'', ''why'', ''where'', ''when'', ''book'', ''chapter'', ''source'',
     ''text'', ''read'', ''reading'', ''far'']"

definition query_parts :: "string \<Rightarrow> string list \<Rightarrow> (string list \<times> string list) res" where
  "query_parts q names = (if \<not> question_ok q then Inl context_error
     else Inr (remdups (map (\<lambda>w. normalize_text (tk_text w)) (filter (\<lambda>w. 2 \<le> length (tk_text w)) (proper_words q))),
               word_tokens 2 (join '' '' names)))"

definition query_names :: "string \<Rightarrow> string list \<Rightarrow> string list \<Rightarrow> string list res" where
  "query_names q names observed = (case query_parts q names of Inl e \<Rightarrow> Inl e | Inr (proper, visible) \<Rightarrow>
     Inr (filter (\<lambda>w. (if visible \<noteq> [] then w \<in> set visible else w \<notin> set QUESTION_WORDS) \<and> w \<in> set observed) proper))"

text \<open>\<^verbatim>\<open>max\<close> with a key keeps the first of the greatest.\<close>

fun first_max :: "('a \<Rightarrow> 'b :: linorder) \<Rightarrow> 'a \<Rightarrow> 'a list \<Rightarrow> 'a" where
  "first_max key best [] = best"
| "first_max key best (x # xs) = first_max key (if key best < key x then x else best) xs"

definition missing_in :: "string list \<Rightarrow> json \<Rightarrow> string list" where
  "missing_in missing j = filter (\<lambda>w. w \<in> set (name_terms j)) missing"

definition without :: "string list \<Rightarrow> json \<Rightarrow> string list" where
  "without missing j = filter (\<lambda>w. w \<notin> set (name_terms j)) missing"

function fallback_loop :: "json list \<Rightarrow> string list \<Rightarrow> json list \<Rightarrow> json list" where
  "fallback_loop pool missing r = (if missing = [] then r
     else if 3 \<le> length r then []
     else case filter (\<lambda>j. missing_in missing j \<noteq> [] \<and> evidence_of j \<notin> evidence_of ` set r) pool of
       [] \<Rightarrow> []
     | j # js \<Rightarrow> let best = first_max (\<lambda>j. (length (missing_in missing j), - int (length (text_of j)))) j js in
         fallback_loop pool (without missing best) (r @ [best]))"
  by pat_completeness auto
termination by (relation "measure (\<lambda>(_, _, r). 3 - length r)") auto

declare fallback_loop.simps [simp del]

definition named_fallback :: "string \<Rightarrow> string list \<Rightarrow> json list \<Rightarrow> json list res" where
  "named_fallback q names pool = (case query_parts q names of Inl e \<Rightarrow> Inl e | Inr (proper, visible) \<Rightarrow>
     (let needed = filter (\<lambda>w. (w \<notin> set QUESTION_WORDS \<or> w \<in> set visible \<and> w \<in> {''may'', ''will''}) \<and>
          w \<notin> set ROLE_NOUNS \<and> w \<noteq> ''grand'') proper;
        observed = concat (map name_terms pool) in
     Inr (if length (filter (\<lambda>w. w \<in> set observed) needed) < 2 \<or> \<not> set needed \<subseteq> set observed then []
          else fallback_loop pool needed [])))"

text \<open>The closure's \<^verbatim>\<open>append\<close>; the numbers and the evidence seen are those of the result.\<close>

definition add_source :: "(int \<times> json) list \<Rightarrow> json list \<Rightarrow> int \<Rightarrow> json list" where
  "add_source pool r i = (case map_of pool i of
     None \<Rightarrow> r
   | Some j \<Rightarrow> if id_of j \<in> id_of ` set r \<or> evidence_of j \<in> evidence_of ` set r \<or> MAX_SELECTED_SOURCES \<le> length r then r else r @ [j])"

type_synonym contexts = "(int \<times> int list \<times> int list) list"

definition near_of :: "contexts \<Rightarrow> json \<Rightarrow> int list" where
  "near_of cs j = (case map_of cs (id_of j) of None \<Rightarrow> [] | Some (near, before) \<Rightarrow> near @ before)"

definition before_of :: "contexts \<Rightarrow> json \<Rightarrow> int list" where
  "before_of cs j = (case map_of cs (id_of j) of None \<Rightarrow> [] | Some (near, before) \<Rightarrow> before)"

text \<open>\<^verbatim>\<open>close_continuity\<close> and \<^verbatim>\<open>close_context\<close>, with the result and both indexes as state.\<close>

function close_continuity :: "(int \<times> json) list \<Rightarrow> contexts \<Rightarrow> json list \<times> nat \<Rightarrow> json list \<times> nat" where
  "close_continuity pool cs (r, ci) =
     (if ci < length r \<and> length r < MAX_SELECTED_SOURCES
      then close_continuity pool cs (foldl (add_source pool) r (before_of cs (r ! ci)), ci + 1) else (r, ci))"
  by pat_completeness auto
termination by (relation "measure (\<lambda>(_, _, r, ci). MAX_SELECTED_SOURCES - ci)") auto

declare close_continuity.simps [simp del]

fun add_near :: "(int \<times> json) list \<Rightarrow> contexts \<Rightarrow> int list \<Rightarrow> json list \<times> nat \<Rightarrow> json list \<times> nat" where
  "add_near pool cs [] st = st"
| "add_near pool cs (i # is) (r, ci) = add_near pool cs is (close_continuity pool cs (add_source pool r i, ci))"

function near_loop :: "(int \<times> json) list \<Rightarrow> contexts \<Rightarrow> json list \<times> nat \<times> nat \<Rightarrow> json list \<times> nat \<times> nat" where
  "near_loop pool cs (r, ci, k) =
     (if k < length r \<and> length r < MAX_SELECTED_SOURCES
      then case add_near pool cs (near_of cs (r ! k)) (r, ci) of (r', ci') \<Rightarrow> near_loop pool cs (r', ci', k + 1) else (r, ci, k))"
  by pat_completeness auto
termination by (relation "measure (\<lambda>(_, _, r, ci, k). MAX_SELECTED_SOURCES - k)") auto

declare near_loop.simps [simp del]

definition close_context :: "(int \<times> json) list \<Rightarrow> contexts \<Rightarrow> json list \<times> nat \<times> nat \<Rightarrow> json list \<times> nat \<times> nat" where
  "close_context pool cs st = (case st of (r, ci, k) \<Rightarrow> (case close_continuity pool cs (r, ci) of (r', ci') \<Rightarrow> near_loop pool cs (r', ci', k)))"

definition still_missing :: "string list \<Rightarrow> json list \<Rightarrow> string list" where
  "still_missing needed r = filter (\<lambda>w. w \<notin> set (concat (map name_terms r))) needed"

definition greedy_options :: "(int \<times> json) list \<Rightarrow> string list \<Rightarrow> json list \<Rightarrow> json list" where
  "greedy_options pool missing r = filter (\<lambda>j. id_of j \<notin> id_of ` set r \<and> missing_in missing j \<noteq> [] \<and> evidence_of j \<notin> evidence_of ` set r) (map snd pool)"

definition greedy_key :: "string list \<Rightarrow> json list \<Rightarrow> json \<Rightarrow> nat \<times> bool \<times> int" where
  "greedy_key missing r j = (length (missing_in missing j), key_of j \<in> key_of ` set r, - int (length (text_of j)))"

text \<open>How a result may change: it only grows at the end.\<close>

definition grows :: "json list \<Rightarrow> json list \<Rightarrow> bool" where
  "grows r r' = (\<exists>xs. r' = r @ xs)"

lemma grows_refl [simp]: "grows r r"
  by (simp add: grows_def)

lemma grows_trans: "grows r r' \<Longrightarrow> grows r' r'' \<Longrightarrow> grows r r''"
  by (auto simp: grows_def)

lemma grows_length: "grows r r' \<Longrightarrow> length r \<le> length r'"
  by (auto simp: grows_def)

lemma grows_add_source: "grows r (add_source pool r i)"
  by (auto simp: add_source_def grows_def split: option.splits)

lemma grows_adds: "grows r (foldl (add_source pool) r is)"
  by (induction "is" arbitrary: r) (auto intro: grows_trans grows_add_source)

lemma grows_close_continuity: "grows (fst st) (fst (close_continuity pool cs st))"
proof (induction pool cs st rule: close_continuity.induct)
  case (1 pool cs r ci)
  then show ?case using grows_adds [of r pool "before_of cs (r ! ci)"] by (auto simp: close_continuity.simps [of _ _ r] intro: grows_trans)
qed

lemma grows_add_near: "grows (fst st) (fst (add_near pool cs is st))"
proof (induction pool cs "is" st rule: add_near.induct)
  case (2 pool cs i "is" r ci)
  then show ?case using grows_close_continuity [of "(add_source pool r i, ci)" pool cs] grows_add_source [of r pool i]
    by (auto intro: grows_trans)
qed simp

lemma grows_near_loop: "grows (fst st) (fst (near_loop pool cs st))"
proof (induction pool cs st rule: near_loop.induct)
  case (1 pool cs r ci k)
  obtain r' ci' where a: "add_near pool cs (near_of cs (r ! k)) (r, ci) = (r', ci')" by (metis prod.exhaust)
  with grows_add_near [of "(r, ci)" pool cs "near_of cs (r ! k)"] have "grows r r'" by simp
  with 1 a show ?case by (auto simp: near_loop.simps [of _ _ r] intro: grows_trans)
qed

lemma grows_close_context: "grows (fst st) (fst (close_context pool cs st))"
proof -
  obtain r ci k where st: "st = (r, ci, k)" by (metis prod.exhaust)
  obtain r' ci' where a: "close_continuity pool cs (r, ci) = (r', ci')" by (metis prod.exhaust)
  with grows_close_continuity [of "(r, ci)" pool cs] grows_near_loop [of "(r', ci', k)" pool cs] show ?thesis
    by (auto simp: close_context_def st intro: grows_trans)
qed

function greedy_loop :: "(int \<times> json) list \<Rightarrow> contexts \<Rightarrow> string list \<Rightarrow> json list \<times> nat \<times> nat \<Rightarrow> json list" where
  "greedy_loop pool cs needed (r, ci, k) = (let missing = still_missing needed r in
     if missing = [] \<or> MAX_SELECTED_SOURCES \<le> length r then r
     else case greedy_options pool missing r of
       [] \<Rightarrow> r
     | j # js \<Rightarrow> greedy_loop pool cs needed (close_context pool cs (r @ [first_max (greedy_key missing r) j js], ci, k)))"
  by pat_completeness auto
termination
proof (relation "measure (\<lambda>(_, _, _, r, ci, k). MAX_SELECTED_SOURCES - length r)")
  fix pool :: "(int \<times> json) list" and cs needed and r :: "json list" and ci k :: nat and missing j js
  assume "missing = still_missing needed r" "\<not> (missing = [] \<or> MAX_SELECTED_SOURCES \<le> length r)"
    "greedy_options pool missing r = j # js"
  moreover have "length r < length (fst (close_context pool cs (r @ [first_max (greedy_key missing r) j js], ci, k)))"
    using grows_length [OF grows_close_context [of "(r @ [first_max (greedy_key missing r) j js], ci, k)" pool cs]] by simp
  ultimately show "((pool, cs, needed, close_context pool cs (r @ [first_max (greedy_key missing r) j js], ci, k)), pool, cs, needed, r, ci, k)
      \<in> measure (\<lambda>(_, _, _, r, ci, k). MAX_SELECTED_SOURCES - length r)"
    by (auto simp: case_prod_beta)
qed simp

declare greedy_loop.simps [simp del]

definition complete_ask_context :: "string \<Rightarrow> json list \<Rightarrow> json list \<Rightarrow> string list \<Rightarrow> bool \<Rightarrow> json list res" where
  "complete_ask_context q selected js names allow =
     (if MAX_SELECTED_SOURCES < length selected then Inl context_error
      else if selected = [] \<and> \<not> allow then Inr []
      else case validated_pool selected js of Inl e \<Rightarrow> Inl e | Inr (result, pool, cs) \<Rightarrow>
        if pool = [] then Inr []
        else if result = [] then
          (case named_fallback q names (map snd pool) of Inl e \<Rightarrow> Inl e | Inr r \<Rightarrow>
             Inr (if r = [] then [] else greedy_loop pool cs [] (close_context pool cs (r, 0, 0))))
        else (case query_names q names (concat (map (\<lambda>x. name_terms (snd x)) pool)) of Inl e \<Rightarrow> Inl e | Inr needed \<Rightarrow>
             Inr (greedy_loop pool cs needed (close_context pool cs (result, 0, 0)))))"

section \<open>What a completion is made of\<close>

definition pool_ok :: "(int \<times> json) list \<Rightarrow> bool" where
  "pool_ok pool = (distinct (map fst pool) \<and> (\<forall>(i, j) \<in> set pool. id_of j = i))"

lemma candidate_id_Some: "candidate_id j = Some i \<Longrightarrow> id_of j = i"
  by (auto simp: candidate_id_def id_of_def json_int_def split: option.splits json.splits if_splits)

lemma add_candidates_Some:
  "add_candidates seen js = Some pool \<Longrightarrow> pool_ok seen \<Longrightarrow> pool_ok pool \<and> map snd pool = map snd seen @ js"
proof (induction seen js rule: add_candidates.induct)
  case (2 seen j js)
  then obtain i where i: "candidate_id j = Some i" "i \<notin> fst ` set seen" by (auto split: option.splits if_splits)
  with 2(3) candidate_id_Some [OF i(1)] have "pool_ok (seen @ [(i, j)])" by (auto simp: pool_ok_def)
  with 2 i show ?case by simp
qed simp

lemma candidate_map_Inr: "candidate_map js = Inr pool \<Longrightarrow> pool_ok pool \<and> map snd pool = js"
  using add_candidates_Some [of "[]" js pool] by (auto simp: candidate_map_def pool_ok_def split: if_splits option.splits)

lemma pool_entry: "pool_ok pool \<Longrightarrow> j \<in> snd ` set pool \<Longrightarrow> map_of pool (id_of j) = Some j"
  by (auto simp: pool_ok_def)

lemma pool_id: "pool_ok pool \<Longrightarrow> map_of pool i = Some j \<Longrightarrow> id_of j = i \<and> j \<in> snd ` set pool"
  by (force simp: pool_ok_def dest: map_of_SomeD)

definition drawn :: "(int \<times> json) list \<Rightarrow> json list \<Rightarrow> bool" where
  "drawn pool r = (set r \<subseteq> snd ` set pool \<and> distinct (map id_of r) \<and> length r \<le> MAX_SELECTED_SOURCES)"

lemma drawn_add_source: "pool_ok pool \<Longrightarrow> drawn pool r \<Longrightarrow> drawn pool (add_source pool r i)"
  using pool_id by (auto simp: add_source_def drawn_def split: option.splits)

lemma drawn_adds: "pool_ok pool \<Longrightarrow> drawn pool r \<Longrightarrow> drawn pool (foldl (add_source pool) r is)"
  by (induction "is" arbitrary: r) (simp_all add: drawn_add_source)

lemma drawn_close_continuity: "pool_ok pool \<Longrightarrow> drawn pool (fst st) \<Longrightarrow> drawn pool (fst (close_continuity pool cs st))"
proof (induction pool cs st rule: close_continuity.induct)
  case (1 pool cs r ci)
  then show ?case by (simp add: close_continuity.simps [of _ _ r] drawn_adds)
qed

lemma drawn_add_near: "pool_ok pool \<Longrightarrow> drawn pool (fst st) \<Longrightarrow> drawn pool (fst (add_near pool cs is st))"
proof (induction pool cs "is" st rule: add_near.induct)
  case (2 pool cs i "is" r ci)
  then show ?case using drawn_close_continuity [of pool "(add_source pool r i, ci)" cs] by (simp add: drawn_add_source)
qed simp

lemma drawn_near_loop: "pool_ok pool \<Longrightarrow> drawn pool (fst st) \<Longrightarrow> drawn pool (fst (near_loop pool cs st))"
proof (induction pool cs st rule: near_loop.induct)
  case (1 pool cs r ci k)
  obtain r' ci' where a: "add_near pool cs (near_of cs (r ! k)) (r, ci) = (r', ci')" by (metis prod.exhaust)
  with drawn_add_near [of pool "(r, ci)" cs "near_of cs (r ! k)"] 1 have "drawn pool r'" by simp
  with 1 a show ?case by (simp add: near_loop.simps [of _ _ r])
qed

lemma drawn_close_context: "pool_ok pool \<Longrightarrow> drawn pool r \<Longrightarrow> drawn pool (fst (close_context pool cs (r, ci, k)))"
  using drawn_close_continuity [of pool "(r, ci)" cs] drawn_near_loop [of pool "(r', ci', k)" cs for r' ci']
  by (auto simp: close_context_def split: prod.splits)

lemma first_max_mem: "first_max key x xs \<in> set (x # xs)"
  by (induction key x xs rule: first_max.induct) auto

text \<open>References that are resolved: the source, or one with the same evidence, is in the result.\<close>

definition resolved :: "(int \<times> json) list \<Rightarrow> json list \<Rightarrow> int \<Rightarrow> bool" where
  "resolved pool r i = (\<forall>j. map_of pool i = Some j \<longrightarrow> id_of j \<in> id_of ` set r \<or> evidence_of j \<in> evidence_of ` set r)"

definition closed_to :: "(int \<times> json) list \<Rightarrow> contexts \<Rightarrow> json list \<Rightarrow> nat \<Rightarrow> bool" where
  "closed_to pool cs r k = (length r < MAX_SELECTED_SOURCES \<longrightarrow> (\<forall>p < k. p < length r \<longrightarrow> (\<forall>i \<in> set (near_of cs (r ! p)). resolved pool r i)))"

lemma resolved_grows: "resolved pool r i \<Longrightarrow> grows r r' \<Longrightarrow> resolved pool r' i"
  by (auto simp: resolved_def grows_def)

lemma closed_grows: "closed_to pool cs r k \<Longrightarrow> k \<le> length r \<Longrightarrow> grows r r' \<Longrightarrow> closed_to pool cs r' k"
  by (auto simp: closed_to_def grows_def nth_append resolved_def) blast

lemma add_source_resolves: "length (add_source pool r i) < MAX_SELECTED_SOURCES \<Longrightarrow> resolved pool (add_source pool r i) i"
  by (auto simp: add_source_def resolved_def split: option.splits if_splits)

lemma add_near_resolves:
  "length (fst (add_near pool cs is st)) < MAX_SELECTED_SOURCES \<Longrightarrow> i \<in> set is \<Longrightarrow> resolved pool (fst (add_near pool cs is st)) i"
proof (induction pool cs "is" st rule: add_near.induct)
  case (2 pool cs i' "is" r ci)
  let ?st = "close_continuity pool cs (add_source pool r i', ci)"
  show ?case
  proof (cases "i \<in> set is")
    case False
    have g: "grows (add_source pool r i') (fst ?st)" "grows (fst ?st) (fst (add_near pool cs is ?st))"
      using grows_close_continuity [of "(add_source pool r i', ci)"] grows_add_near by simp_all
    then have "length (add_source pool r i') < MAX_SELECTED_SOURCES" using 2(2) grows_length by (metis add_near.simps(2) order_le_less_trans)
    from add_source_resolves [OF this] g have "resolved pool (fst (add_near pool cs is ?st)) i'" by (metis resolved_grows)
    with False 2(3) show ?thesis by simp
  qed (use 2 in simp)
qed simp

lemma near_loop_closes:
  "closed_to pool cs r k \<Longrightarrow> k \<le> length r \<Longrightarrow> near_loop pool cs (r, ci, k) = (r', ci', k') \<Longrightarrow>
   closed_to pool cs r' (length r') \<and> closed_to pool cs r' k' \<and> k' \<le> length r'"
proof (induction pool cs "(r, ci, k)" arbitrary: r ci k rule: near_loop.induct)
  case (1 pool cs r ci k)
  show ?case
  proof (cases "k < length r \<and> length r < MAX_SELECTED_SOURCES")
    case True
    obtain r1 c1 where a: "add_near pool cs (near_of cs (r ! k)) (r, ci) = (r1, c1)" by (metis prod.exhaust)
    with grows_add_near [of "(r, ci)" pool cs "near_of cs (r ! k)"] have g: "grows r r1" by simp
    have "closed_to pool cs r1 (k + 1)"
      unfolding closed_to_def
    proof (intro impI allI ballI)
      fix p i assume s: "length r1 < MAX_SELECTED_SOURCES" and p: "p < k + 1" "p < length r1" "i \<in> set (near_of cs (r1 ! p))"
      show "resolved pool r1 i"
      proof (cases "p = k")
        case True
        with p(3) g \<open>k < length r \<and> _\<close> have "i \<in> set (near_of cs (r ! k))" by (auto simp: grows_def nth_append)
        with add_near_resolves [of pool cs "near_of cs (r ! k)" "(r, ci)" i] a s show ?thesis by simp
      next
        case False
        with p have "p < k" by simp
        with closed_grows [OF 1(2,3) g] s p show ?thesis by (auto simp: closed_to_def)
      qed
    qed
    moreover have "k + 1 \<le> length r1" using True grows_length [OF g] by simp
    moreover have "near_loop pool cs (r1, c1, k + 1) = (r', ci', k')" using 1(4) True a by (simp add: near_loop.simps [of _ _ r])
    ultimately show ?thesis using 1(1) [OF True a [symmetric]] by simp
  next
    case False
    with 1 have "r' = r" "k' = k" by (auto simp: near_loop.simps [of _ _ r] split: if_splits)
    with 1 False show ?thesis by (auto simp: closed_to_def)
  qed
qed

lemma close_context_closes:
  assumes "closed_to pool cs r k" "k \<le> length r" "close_context pool cs (r, ci, k) = (r', ci', k')"
  shows "closed_to pool cs r' (length r') \<and> closed_to pool cs r' k' \<and> k' \<le> length r'"
proof -
  obtain r1 c1 where a: "close_continuity pool cs (r, ci) = (r1, c1)" by (metis prod.exhaust)
  with grows_close_continuity [of "(r, ci)" pool cs] have g: "grows r r1" by simp
  have "near_loop pool cs (r1, c1, k) = (r', ci', k')" using assms(3) a by (simp add: close_context_def)
  moreover have "k \<le> length r1" using assms(2) grows_length [OF g] by simp
  ultimately show ?thesis using near_loop_closes closed_grows [OF assms(1,2) g] by blast
qed

lemma greedy_best:
  assumes "greedy_options pool missing r = j # js"
  shows "first_max key j js \<in> snd ` set pool" "id_of (first_max key j js) \<notin> id_of ` set r"
proof -
  have "first_max key j js \<in> set (greedy_options pool missing r)" unfolding assms by (rule first_max_mem)
  then show "first_max key j js \<in> snd ` set pool" "id_of (first_max key j js) \<notin> id_of ` set r" by (auto simp: greedy_options_def)
qed

definition names_met :: "(int \<times> json) list \<Rightarrow> string list \<Rightarrow> json list \<Rightarrow> bool" where
  "names_met pool needed r = (length r < MAX_SELECTED_SOURCES \<longrightarrow> (\<forall>w \<in> set needed. (\<exists>j \<in> set r. w \<in> set (name_terms j)) \<or>
     (\<forall>c \<in> snd ` set pool. w \<in> set (name_terms c) \<longrightarrow> evidence_of c \<in> evidence_of ` set r)))"

lemma greedy_stop:
  assumes "pool_ok pool" "set r \<subseteq> snd ` set pool"
    and "still_missing needed r = [] \<or> MAX_SELECTED_SOURCES \<le> length r \<or> greedy_options pool (still_missing needed r) r = []"
  shows "names_met pool needed r"
  unfolding names_met_def
proof (intro impI ballI)
  fix w assume len: "length r < MAX_SELECTED_SOURCES" and w: "w \<in> set needed"
  show "(\<exists>j \<in> set r. w \<in> set (name_terms j)) \<or> (\<forall>c \<in> snd ` set pool. w \<in> set (name_terms c) \<longrightarrow> evidence_of c \<in> evidence_of ` set r)"
  proof (cases "\<exists>j \<in> set r. w \<in> set (name_terms j)")
    case False
    with w have miss: "w \<in> set (still_missing needed r)" by (simp add: still_missing_def)
    with assms(3) len have none: "greedy_options pool (still_missing needed r) r = []" by auto
    have "evidence_of c \<in> evidence_of ` set r" if c: "c \<in> snd ` set pool" "w \<in> set (name_terms c)" for c
    proof (rule ccontr)
      assume e: "evidence_of c \<notin> evidence_of ` set r"
      have "id_of c \<notin> id_of ` set r"
      proof
        assume "id_of c \<in> id_of ` set r"
        then obtain j where j: "j \<in> set r" "id_of j = id_of c" by auto
        then have "map_of pool (id_of c) = Some j" using pool_entry assms(1,2) by (metis subsetD)
        with pool_entry [OF assms(1) c(1)] j(1) e show False by auto
      qed
      moreover have "missing_in (still_missing needed r) c \<noteq> []" using miss c(2) by (auto simp: missing_in_def filter_empty_conv)
      ultimately show False using none e c(1) by (auto simp: greedy_options_def filter_empty_conv)
    qed
    then show ?thesis by blast
  qed simp
qed

lemma greedy_loop_complete:
  assumes "pool_ok pool" "drawn pool r" "closed_to pool cs r (length r)" "closed_to pool cs r k" "k \<le> length r"
  shows "drawn pool (greedy_loop pool cs needed (r, ci, k)) \<and> grows r (greedy_loop pool cs needed (r, ci, k)) \<and>
    closed_to pool cs (greedy_loop pool cs needed (r, ci, k)) (length (greedy_loop pool cs needed (r, ci, k))) \<and>
    names_met pool needed (greedy_loop pool cs needed (r, ci, k))"
  using assms
proof (induction pool cs needed "(r, ci, k)" arbitrary: r ci k rule: greedy_loop.induct)
  case (1 pool cs needed r ci k)
  let ?m = "still_missing needed r"
  have sub: "set r \<subseteq> snd ` set pool" using 1(3) by (simp add: drawn_def)
  show ?case
  proof (cases "?m = [] \<or> MAX_SELECTED_SOURCES \<le> length r \<or> greedy_options pool ?m r = []")
    case True
    then have "greedy_loop pool cs needed (r, ci, k) = r" by (auto simp: greedy_loop.simps [of _ _ _ r] Let_def)
    then show ?thesis using 1(3,4) greedy_stop [OF 1(2) sub True] by simp
  next
    case False
    then obtain j js where o: "greedy_options pool ?m r = j # js" by (cases "greedy_options pool ?m r") auto
    let ?r = "r @ [first_max (greedy_key ?m r) j js]"
    obtain r' ci' k' where c: "close_context pool cs (?r, ci, k) = (r', ci', k')" by (metis prod.exhaust)
    have g: "grows r ?r" by (simp add: grows_def)
    have "drawn pool ?r" using 1(3) greedy_best [OF o] False by (auto simp: drawn_def)
    from drawn_close_context [OF 1(2) this, of cs ci k] c have d: "drawn pool r'" by simp
    from close_context_closes [OF closed_grows [OF 1(5,6) g] _ c] 1(6)
    have cl: "closed_to pool cs r' (length r')" "closed_to pool cs r' k'" "k' \<le> length r'" by simp_all
    have e: "greedy_loop pool cs needed (r, ci, k) = greedy_loop pool cs needed (r', ci', k')"
      using False o c by (simp add: greedy_loop.simps [of _ _ _ r] Let_def)
    have "grows r r'" using grows_close_context [of "(?r, ci, k)" pool cs] c g grows_trans by auto
    moreover note 1(1) [OF refl _ o, unfolded c, OF _ refl 1(2) d cl] False
    ultimately show ?thesis unfolding e by (auto intro: grows_trans)
  qed
qed

lemma fallback_drawn:
  assumes "pool_ok pool" "drawn pool r" "set js \<subseteq> snd ` set pool"
  shows "drawn pool (fallback_loop js missing r)"
  using assms(2,3)
proof (induction js missing r rule: fallback_loop.induct)
  case (1 js missing r)
  show ?case
  proof (cases "missing = [] \<or> 3 \<le> length r \<or> filter (\<lambda>j. missing_in missing j \<noteq> [] \<and> evidence_of j \<notin> evidence_of ` set r) js = []")
    case True
    then show ?thesis using 1(2) by (auto simp: fallback_loop.simps [of js] drawn_def)
  next
    case False
    then obtain x xs where o: "filter (\<lambda>j. missing_in missing j \<noteq> [] \<and> evidence_of j \<notin> evidence_of ` set r) js = x # xs"
      by (cases "filter (\<lambda>j. missing_in missing j \<noteq> [] \<and> evidence_of j \<notin> evidence_of ` set r) js") auto
    define best where "best = first_max (\<lambda>j. (length (missing_in missing j), - int (length (text_of j)))) x xs"
    have "best \<in> set (x # xs)" unfolding best_def by (rule first_max_mem)
    then have b: "best \<in> set js" "evidence_of best \<notin> evidence_of ` set r" unfolding o [symmetric] by auto
    have "id_of best \<notin> id_of ` set r"
    proof
      assume "id_of best \<in> id_of ` set r"
      then obtain j where j: "j \<in> set r" "id_of j = id_of best" by auto
      with 1(2) have "map_of pool (id_of best) = Some j" using pool_entry [OF assms(1)] by (metis drawn_def subsetD)
      moreover have "map_of pool (id_of best) = Some best" using b(1) 1(3) pool_entry [OF assms(1)] by blast
      ultimately show False using j(1) b(2) by auto
    qed
    then have "drawn pool (r @ [best])" using 1(2,3) b(1) False by (auto simp: drawn_def MAX_SELECTED_SOURCES_def)
    with 1(1) [OF _ _ o best_def _ 1(3)] False have "drawn pool (fallback_loop js (without missing best) (r @ [best]))" by simp
    then show ?thesis using False o by (simp add: fallback_loop.simps [of js] best_def Let_def)
  qed
qed

text \<open>The references of the pool are those of the JSON objects.\<close>

lemma references_Inr: "references pool fits xs = Inr is \<Longrightarrow> xs = map JInt is \<and> (\<forall>i \<in> set is. map_of pool i \<noteq> None)"
  by (induction pool fits xs arbitrary: "is" rule: references.induct) (auto split: json.splits option.splits sum.splits if_splits)

lemma all_contexts_Inr:
  "all_contexts pool rest = Inr cs \<Longrightarrow> distinct (map fst rest) \<Longrightarrow> (i, j) \<in> set rest \<Longrightarrow> \<exists>c. map_of cs i = Some c \<and> source_context pool j = Inr c"
proof (induction rest arbitrary: cs)
  case (Cons x rest)
  obtain i' j' where x: "x = (i', j')" by (cases x)
  from Cons(2) x obtain c cs' where c: "source_context pool j' = Inr c" "all_contexts pool rest = Inr cs'" "cs = (i', c) # cs'"
    by (auto split: sum.splits)
  show ?case
  proof (cases "(i, j) = (i', j')")
    case False
    with Cons(4) x have "(i, j) \<in> set rest" by auto
    moreover from this Cons(3) x have "i \<noteq> i'" by force
    ultimately show ?thesis using Cons(1) [OF c(2)] Cons(3) c(3) by simp
  qed (use c in simp)
qed simp

lemma reference_list_Some: "reference_list name n j = Some xs \<Longrightarrow> json_list (field name j) = xs"
  by (auto simp: reference_list_def json_list_def split: option.splits json.splits if_splits)

lemma near_of_references:
  assumes "all_contexts pool pool = Inr cs" "pool_ok pool" "j \<in> snd ` set pool"
  shows "map JInt (near_of cs j) = json_list (field ''context_ids'' j) @ json_list (field ''continuity_ids'' j)"
    and "\<forall>i \<in> set (near_of cs j). map_of pool i \<noteq> None"
proof -
  from assms(2,3) have "(id_of j, j) \<in> set pool" by (auto simp: pool_ok_def)
  from all_contexts_Inr [OF assms(1) _ this] assms(2) obtain near before where
    c: "map_of cs (id_of j) = Some (near, before)" "source_context pool j = Inr (near, before)" by (auto simp: pool_ok_def)
  from c(2) show "map JInt (near_of cs j) = json_list (field ''context_ids'' j) @ json_list (field ''continuity_ids'' j)"
    "\<forall>i \<in> set (near_of cs j). map_of pool i \<noteq> None"
    unfolding source_context_def near_of_def c(1)
    by (auto split: if_splits option.splits sum.splits dest!: references_Inr reference_list_Some)
qed

lemma validated_pool_Inr:
  assumes "validated_pool selected js = Inr (result, pool, cs)"
  shows "result = selected" "pool_ok pool" "map snd pool = js" "drawn pool selected" "all_contexts pool pool = Inr cs"
proof -
  from assms obtain ids where ids: "those (map (field ''id'') selected) = Some ids"
    and v: "validate_selection (JObj [(''source_ids'', JList ids)]) js = Inr selected" and r: "result = selected"
    and p: "candidate_map js = Inr pool" and c: "all_contexts pool pool = Inr cs"
    by (auto simp: validated_pool_def split: option.splits sum.splits if_splits)
  from candidate_map_Inr [OF p] show pool: "pool_ok pool" "map snd pool = js" by simp_all
  from v p obtain ns where ns: "distinct ns" "length ns \<le> MAX_SELECTED_SOURCES" "those (map (map_of pool) ns) = Some selected"
    by (auto simp: validate_selection_def source_selection_def split: option.splits if_splits json.splits list.splits prod.splits)
  have "map (map_of pool) ns = map Some selected" using ns(3) by (induction ns arbitrary: selected) (auto split: option.splits)
  then have len: "length ns = length selected" and nth: "\<And>p. p < length selected \<Longrightarrow> map_of pool (ns ! p) = Some (selected ! p)"
    by (metis length_map, metis length_map nth_map)
  then have "map id_of selected = ns" by (intro nth_equalityI) (auto dest: pool_id [OF pool(1)])
  moreover have "set selected \<subseteq> snd ` set pool" using nth pool_id [OF pool(1)] by (metis in_set_conv_nth subsetI)
  ultimately show "drawn pool selected" using ns len by (simp add: drawn_def)
  from r c show "result = selected" "all_contexts pool pool = Inr cs" .
qed

lemma closed_0: "closed_to pool cs r 0"
  by (simp add: closed_to_def)

lemma completed:
  assumes "pool_ok pool" "drawn pool r" "out = greedy_loop pool cs needed (close_context pool cs (r, 0, 0))"
  shows "drawn pool out \<and> grows r out \<and> closed_to pool cs out (length out) \<and> names_met pool needed out"
proof -
  obtain r' ci' k' where c: "close_context pool cs (r, 0, 0) = (r', ci', k')" by (metis prod.exhaust)
  have "grows r r'" using grows_close_context [of "(r, 0, 0)" pool cs] c by simp
  moreover have "drawn pool r'" using drawn_close_context [OF assms(1,2), of cs 0 0] c by simp
  ultimately show ?thesis
    using greedy_loop_complete [OF assms(1), of r' cs k' needed ci'] close_context_closes [OF closed_0 _ c] unfolding assms(3) c
    by (auto intro: grows_trans)
qed


text \<open>Two chapters: the opening of the second refers to the end of the first and to a neighbour.\<close>

definition passage :: "int \<Rightarrow> int \<Rightarrow> string \<Rightarrow> int list \<Rightarrow> int list \<Rightarrow> string \<Rightarrow> json" where
  "passage i n key near before s = JObj [(''id'', JInt i), (''ordinal'', JInt n), (''title'', JStr ''I''), (''text'', JStr s), (''chapter_key'', JStr key),
     (''href'', JStr key), (''context_ids'', JList (map JInt near)), (''continuity_ids'', JList (map JInt before))]"

definition passages_a :: "json list" where
  "passages_a = [passage 1 1 ''a'' [] [] ''Ann left.'', passage 2 2 ''b'' [3] [1] ''She came.'', passage 3 2 ''b'' [] [] ''Bo sat.'']"

lemma completed_a: "complete_ask_context ''Did Bo see her?'' [passages_a ! 1] passages_a [] False = Inr [passages_a ! 1, passages_a ! 0, passages_a ! 2]"
  by code_simp


end
