(* ===== verification/Review.thy ===== *)
theory Review imports Gate Pipeline begin

text \<open>
  The grounding review of an extraction before it may be prepared: the display slices of
  \<^verbatim>\<open>backend/app/evidence_text.py\<close> and \<^verbatim>\<open>backend/app/ingest/extraction/validation.py\<close>. The reviewing model
  is a parameter that gets the request as a value; the arrow of a relationship (U+2192) lies outside the
  characters of the model and is an argument too.
\<close>

section \<open>Display slices\<close>

definition clause_mark :: "char \<Rightarrow> bool" where
  "clause_mark ch = (ch \<in> set ''.!?;,:'')"

text \<open>The ends of the matches of \<^verbatim>\<open>_FIELD_CLAUSE_END\<close>: a mark before space or the end, or a run of newlines.\<close>

fun clause_ends :: "nat \<Rightarrow> string \<Rightarrow> nat list" where
  "clause_ends i [] = []"
| "clause_ends i (ch # s) =
     (if clause_mark ch \<and> (s = [] \<or> py_space (hd s)) \<or> ch = CHR 0x0A \<and> (s = [] \<or> hd s \<noteq> CHR 0x0A) then Suc i # clause_ends (Suc i) s
      else clause_ends (Suc i) s)"

fun cut_clauses :: "string \<Rightarrow> nat list \<Rightarrow> string list \<times> nat \<Rightarrow> string list \<times> nat" where
  "cut_clauses s [] st = st"
| "cut_clauses s (e # es) (pieces, start) = (let piece = take (e - start) (drop start s) in
     cut_clauses s es (if strip piece \<noteq> [] then (pieces @ [piece], e) else (pieces, start)))"

text \<open>The rest joins the last piece when it is blank.\<close>

definition close_pieces :: "string list \<Rightarrow> string \<Rightarrow> string list" where
  "close_pieces pieces tail = (if tail = [] then pieces
     else if pieces \<noteq> [] \<and> strip tail = [] then butlast pieces @ [last pieces @ tail] else pieces @ [tail])"

definition field_segments :: "string \<Rightarrow> string \<Rightarrow> string list" where
  "field_segments s kind = (if kind \<in> {''identity'', ''participants''} then [s]
     else case cut_clauses s (clause_ends 0 s) ([], 0) of (pieces, start) \<Rightarrow> close_pieces pieces (drop start s))"

text \<open>Splitting after a sentence mark before space, and after a newline.\<close>

definition sentence_boundary :: "char \<Rightarrow> string \<Rightarrow> bool" where
  "sentence_boundary ch rest = (ch \<in> set ''.!?'' \<and> rest \<noteq> [] \<and> py_space (hd rest) \<or> ch = CHR 0x0A)"

fun split_evidence :: "string \<Rightarrow> string \<Rightarrow> string list" where
  "split_evidence pre [] = [pre]"
| "split_evidence pre (ch # s) = (if sentence_boundary ch s then (pre @ [ch]) # split_evidence [] s else split_evidence (pre @ [ch]) s)"

definition slice_cut :: "nat \<Rightarrow> string \<Rightarrow> nat" where
  "slice_cut m s = (let cut = rfind_in '' '' s 0 (m + 1) in if cut < int (m div 2) then m else nat cut)"

text \<open>The inner loop: a long sentence leaves bounded slices; what is left goes with the first.\<close>

function slice_long :: "nat \<Rightarrow> string list \<times> string \<Rightarrow> string \<Rightarrow> string list \<times> string" where
  "slice_long target (pieces, left) s = (let m = max 512 target in
     if m < length s then slice_long target (pieces @ [left @ take (slice_cut m s) s], []) (drop (slice_cut m s) s)
     else (pieces, left @ s))"
  by pat_completeness auto
termination
proof (relation "measure (\<lambda>(_, _, s). length s)")
  fix target :: nat and pieces left and s :: string and m
  assume m: "m = max 512 target" "m < length s"
  have "0 < slice_cut m s"
    using m(1) by (auto simp: slice_cut_def Let_def)
  with m(2) show "((target, (pieces @ [left @ take (slice_cut m s) s], []), drop (slice_cut m s) s), target, (pieces, left), s) \<in> measure (\<lambda>(_, _, s). length s)"
    by simp
qed simp

declare slice_long.simps [simp del]

fun group_sentences :: "nat \<Rightarrow> string list \<times> string \<Rightarrow> string list \<Rightarrow> string list \<times> string" where
  "group_sentences target st [] = st"
| "group_sentences target st (s # ss) = (case slice_long target st s of (pieces, left) \<Rightarrow>
     group_sentences target (if target \<le> length left \<and> strip left \<noteq> [] then (pieces @ [left], []) else (pieces, left)) ss)"

definition evidence_passages :: "string \<Rightarrow> string list" where
  "evidence_passages s = (let target = max 1 ((length s + 127) div 128) in
     case group_sentences target ([], []) (split_evidence [] s) of (pieces, left) \<Rightarrow> close_pieces pieces left)"

section \<open>The fields of an extraction\<close>

record review_field =
  rf_id :: nat
  rf_path :: string
  rf_text :: string
  rf_kind :: string
  rf_context :: json
  rf_segments :: "string list"

definition add_field :: "string \<Rightarrow> string option \<Rightarrow> string \<Rightarrow> (string \<times> json) list \<Rightarrow> review_field list \<Rightarrow> review_field list" where
  "add_field path txt kind context fs = (case txt of None \<Rightarrow> fs
   | Some s \<Rightarrow> if strip s = [] then fs
       else fs @ [\<lparr>rf_id = length fs, rf_path = path, rf_text = s, rf_kind = kind, rf_context = JObj context, rf_segments = field_segments s kind\<rparr>])"

definition entity_text :: "entity_out \<Rightarrow> string" where
  "entity_text e = eo_name e @ '' [type: '' @ eo_type e @ '']'' @
     (if eo_aliases e = [] then [] else ''; aliases of this same identity: '' @ join ''; '' (eo_aliases e))"

definition theme_text :: "theme_out \<Rightarrow> string" where
  "theme_text t = to_name t @ (case to_desc t of None \<Rightarrow> [] | Some d \<Rightarrow> if d = [] then [] else '': '' @ d)"

definition numbered :: "'a list \<Rightarrow> (string \<times> 'a) list" where
  "numbered xs = zip (map (\<lambda>i. show_int (int i)) [0..<length xs]) xs"

definition grounding_fields :: "string \<Rightarrow> facts \<Rightarrow> review_field list" where
  "grounding_fields arrow x =
     fold (\<lambda>(i, t). add_field (''/themes/'' @ i) (Some (theme_text t)) ''theme'' []) (numbered (xt_themes x))
     (fold (\<lambda>(i, v). add_field (''/events/'' @ i @ ''/participants'') (Some (join ''; '' (vo_participants v))) ''participants'' [(''event'', JStr (vo_summary v))] \<circ>
        add_field (''/events/'' @ i @ ''/summary'') (Some (vo_summary v)) ''event'' [(''participants'', JList (map JStr (vo_participants v)))]) (numbered (xt_events x))
     (fold (\<lambda>(i, r). add_field (''/relationships/'' @ i) (Some (lo_src r @ '' '' @ arrow @ '' '' @ lo_dst r @ '': '' @ lo_label r)) ''relationship'' [(''rel_type'', JStr (lo_type r))])
        (numbered (xt_relationships x))
     (fold (\<lambda>(i, e). add_field (''/entities/'' @ i @ ''/state'') (eo_state e) ''state'' [(''entity'', JStr (eo_name e))] \<circ>
        add_field (''/entities/'' @ i @ ''/identity'') (Some (entity_text e)) ''identity'' [(''matched_roster'', JBool (eo_matched e))]) (numbered (xt_entities x))
     (add_field ''/chapter_summary'' (Some (xt_summary x)) ''summary'' [] []))))"

section \<open>The verdict\<close>

record segment_check =
  sg_segment :: int
  sg_sources :: "int list"
  sg_supported :: bool

record field_audit =
  fa_field :: int
  fa_checks :: "segment_check list"

record review_verdict =
  vd_audits :: "field_audit list"
  vd_future :: bool
  vd_claims :: "string list"

definition passage_ids :: "string list \<Rightarrow> int list" where
  "passage_ids passages = map fst (filter (\<lambda>(_, s). strip s \<noteq> []) (zip (map int [1..<length passages + 1]) passages))"

definition allowed_ids :: "string list \<Rightarrow> nat \<Rightarrow> review_field \<Rightarrow> int list" where
  "allowed_ids passages roster f = passage_ids passages @ (if rf_kind f = ''identity'' then map (\<lambda>i. - int i) [1..<roster + 1] else [])"

definition audit_ok :: "string list \<Rightarrow> nat \<Rightarrow> review_field \<Rightarrow> field_audit \<Rightarrow> bool" where
  "audit_ok passages roster f a = (map sg_segment (fa_checks a) = map int [0..<length (rf_segments f)] \<and>
     list_all (\<lambda>g. set (sg_sources g) \<subseteq> set (allowed_ids passages roster f) \<and> (sg_supported g \<longrightarrow> sg_sources g \<noteq> [])) (fa_checks a))"

definition unsupported_segments :: "review_field \<Rightarrow> field_audit \<Rightarrow> string list" where
  "unsupported_segments f a = map (\<lambda>g. rf_path f @ '': '' @ strip (rf_segments f ! nat (sg_segment g))) (filter (\<lambda>g. \<not> sg_supported g) (fa_checks a))"

definition field_of :: "review_field list \<Rightarrow> int \<Rightarrow> review_field option" where
  "field_of fs i = find (\<lambda>f. int (rf_id f) = i) fs"

text \<open>\<^verbatim>\<open>None\<close> is the \<^verbatim>\<open>ValueError\<close> of a malformed audit.\<close>

definition validate_field_evidence :: "review_verdict \<Rightarrow> review_field list \<Rightarrow> string list \<Rightarrow> nat \<Rightarrow> string list option" where
  "validate_field_evidence v fs passages roster = (let found = map fa_field (vd_audits v) in
     if length found \<noteq> length fs \<or> set found \<noteq> (\<lambda>f. int (rf_id f)) ` set fs then None
     else if list_all (\<lambda>a. case field_of fs (fa_field a) of None \<Rightarrow> False | Some f \<Rightarrow> audit_ok passages roster f a) (vd_audits v)
     then Some (concat (map (\<lambda>a. case field_of fs (fa_field a) of None \<Rightarrow> [] | Some f \<Rightarrow> unsupported_segments f a) (vd_audits v)))
     else None)"

section \<open>Names that were observed\<close>

definition known_surfaces :: "roster_entry list \<Rightarrow> (string \<times> string) list" where
  "known_surfaces roster = filter (\<lambda>(_, s). s \<noteq> []) (concat (map (\<lambda>r. map (\<lambda>s. (re_type r, normalize_text s)) (re_name r # re_aliases r)) roster))"

definition observed_exactly :: "string list \<Rightarrow> string list \<Rightarrow> bool" where
  "observed_exactly tokens parts = (parts \<noteq> [] \<and> list_ex (\<lambda>i. take (length parts) (drop i tokens) = parts) [0..<length tokens])"

text \<open>The parts of an object's label, in order, within a span that ends before \<open>e\<close>.\<close>

fun in_order :: "string list \<Rightarrow> nat \<Rightarrow> nat \<Rightarrow> string list \<Rightarrow> bool" where
  "in_order tokens cursor e [] = (cursor \<le> e)"
| "in_order tokens cursor e (p # ps) = (case find (\<lambda>i. tokens ! i = p) [cursor..<e] of None \<Rightarrow> False | Some i \<Rightarrow> in_order tokens (Suc i) e ps)"

definition observed_in_span :: "string list \<Rightarrow> string list \<Rightarrow> bool" where
  "observed_in_span tokens parts = (2 \<le> length parts \<and> length parts \<le> 8 \<and>
     list_ex (\<lambda>i. tokens ! i = hd parts \<and> in_order tokens (Suc i) (min (length tokens) (i + 32)) (tl parts)) [0..<length tokens])"

definition entity_observed :: "string list \<Rightarrow> (string \<times> string) list \<Rightarrow> entity_out \<Rightarrow> bool" where
  "entity_observed tokens known e = (list_ex (\<lambda>s. (eo_type e, normalize_text s) \<in> set known) (eo_name e # eo_aliases e) \<or>
     list_ex (\<lambda>s. observed_exactly tokens (word_tokens 1 s) \<or> eo_type e = ''object'' \<and> observed_in_span tokens (word_tokens 1 s)) (eo_name e # eo_aliases e))"

definition assert_observed_entity_names :: "string \<Rightarrow> facts \<Rightarrow> roster_entry list \<Rightarrow> unit res" where
  "assert_observed_entity_names s x roster =
     (if list_all (entity_observed (word_tokens 1 s) (known_surfaces roster)) (xt_entities x) then Inr ()
      else Inl (RuntimeError ''ExtractionGroundingRejected: extraction contains an unobserved new entity name''))"

section \<open>The review\<close>

record review_request =
  rq_passages :: "string list"
  rq_identities :: "(string \<times> string \<times> string list) list"
  rq_facts :: facts
  rq_fields :: "review_field list"

definition request_for :: "string \<Rightarrow> string \<Rightarrow> facts \<Rightarrow> roster_entry list \<Rightarrow> review_field list \<Rightarrow> review_request" where
  "request_for arrow s x roster fs = \<lparr>rq_passages = evidence_passages s,
     rq_identities = map (\<lambda>r. (re_name r, re_type r, re_aliases r)) roster, rq_facts = x, rq_fields = fs\<rparr>"

definition batch_limit :: "int \<Rightarrow> nat" where
  "batch_limit max_out = nat (max 8 (min 24 ((max_out - 512) div 128)))"

fun batch_fields :: "nat \<Rightarrow> review_field list list \<Rightarrow> review_field list \<Rightarrow> nat \<Rightarrow> review_field list \<Rightarrow> review_field list list" where
  "batch_fields limit done batch units [] = (if batch \<noteq> [] \<or> done = [] then done @ [batch] else done)"
| "batch_fields limit done batch units (f # fs) = (let count = length (rf_segments f) in
     if batch \<noteq> [] \<and> limit < units + count then batch_fields limit (done @ [batch]) [f] count fs
     else batch_fields limit done (batch @ [f]) (units + count) fs)"

definition invalid_review :: "exc \<Rightarrow> exc" where
  "invalid_review e = (case e of CostCeilingExceeded m \<Rightarrow> CostCeilingExceeded m
     | _ \<Rightarrow> RuntimeError ''ExtractionSafetyError: extraction review was unavailable or invalid'')"

definition review_batch ::
  "(review_request \<Rightarrow> ('s, review_verdict) act) \<Rightarrow> (review_field list \<Rightarrow> review_request) \<Rightarrow> string list \<Rightarrow> nat \<Rightarrow> review_field list \<Rightarrow> ('s, unit) act" where
  "review_batch ask request passages roster fs = bindA (mapping_error invalid_review (ask (request fs))) (\<lambda>v.
     case validate_field_evidence v fs passages roster of
       None \<Rightarrow> raise (RuntimeError ''ExtractionSafetyError: extraction review was unavailable or invalid'')
     | Some unsupported \<Rightarrow> if vd_future v \<or> vd_claims v \<noteq> [] \<or> unsupported \<noteq> []
         then raise (RuntimeError ''ExtractionGroundingRejected: extraction could not be grounded in its chapter'') else ret ())"

definition review_extraction ::
  "pipeline_digests \<Rightarrow> string \<Rightarrow> (review_request \<Rightarrow> ('s, review_verdict) act) \<Rightarrow> (review_request \<Rightarrow> ('s, unit) act) \<Rightarrow> int \<Rightarrow>
   string \<Rightarrow> facts \<Rightarrow> roster_entry list \<Rightarrow> ('s, clearance) act" where
  "review_extraction dg arrow ask screen max_out s x roster =
     bindA (liftA (assert_observed_entity_names s x roster)) (\<lambda>_.
       let fs = grounding_fields arrow x; request = request_for arrow s x roster in
       bindA (screen (request fs)) (\<lambda>_.
         let batches = batch_fields (batch_limit max_out) [] [] 0 fs in
         if 16 < length batches then raise (RuntimeError ''ExtractionSafetyError: extraction exceeds the bounded review batch count'')
         else bindA (for_each (review_batch ask request (evidence_passages s) (length roster)) batches) (\<lambda>_.
           ret \<lparr>kl_source = dg_text dg s, kl_payload = dg_facts dg x\<rparr>)))"

text \<open>The parts of a chapter too long for one extraction, each with its clearance.\<close>

definition merge_reviewed_extractions :: "pipeline_digests \<Rightarrow> string \<Rightarrow> (string \<times> facts \<times> clearance) list \<Rightarrow> (facts \<times> clearance) res" where
  "merge_reviewed_extractions dg s parts =
     (if parts = [] \<or> concat (map fst parts) \<noteq> s then Inl (RuntimeError ''ExtractionSafetyError: reviewed parts do not cover the complete chapter'')
      else if \<not> list_all (\<lambda>(t, x, k). clearance_matches dg k t x) parts
      then Inl (RuntimeError ''ExtractionSafetyError: extraction clearance does not match its source and payload'')
      else case merge_extractions (map (\<lambda>(_, x, _). x) parts) of Inl e \<Rightarrow> Inl e
        | Inr x \<Rightarrow> Inr (x, \<lparr>kl_source = dg_text dg s, kl_payload = dg_facts dg x\<rparr>))"

section \<open>Nothing is lost\<close>

lemma concat_close_pieces: "concat (close_pieces pieces tail) = concat pieces @ tail"
  by (cases pieces rule: rev_cases) (auto simp: close_pieces_def)

lemma clause_ends_ge: "e \<in> set (clause_ends i s) \<Longrightarrow> i < e"
  by (induction i s rule: clause_ends.induct) (auto split: if_splits)

lemma clause_ends_sorted: "sorted (clause_ends i s)"
  by (induction i s rule: clause_ends.induct) (auto dest: clause_ends_ge intro: less_imp_le)

lemma cut_clauses_concat:
  "concat pieces = take start s \<Longrightarrow> sorted es \<Longrightarrow> list_all (\<lambda>e. start \<le> e) es \<Longrightarrow> cut_clauses s es (pieces, start) = (pieces', start') \<Longrightarrow>
   concat pieces' = take start' s"
proof (induction es arbitrary: pieces start)
  case (Cons e es)
  show ?case
  proof (cases "strip (take (e - start) (drop start s)) \<noteq> []")
    case True
    have "concat (pieces @ [take (e - start) (drop start s)]) = take e s"
      using Cons(2,4) by (simp add: take_add [symmetric])
    moreover have "cut_clauses s es (pieces @ [take (e - start) (drop start s)], e) = (pieces', start')" using True Cons(5) by (simp add: Let_def)
    ultimately show ?thesis using Cons(1) [of "pieces @ [take (e - start) (drop start s)]" e] Cons(3) by (simp add: list_all_iff)
  next
    case False
    with Cons show ?thesis by (auto simp: Let_def)
  qed
qed simp

lemma field_segments_lossless: "concat (field_segments s kind) = s"
proof -
  obtain pieces start where c: "cut_clauses s (clause_ends 0 s) ([], 0) = (pieces, start)" by (metis prod.exhaust)
  have "concat pieces = take start s" by (rule cut_clauses_concat [OF _ clause_ends_sorted _ c]) (simp_all add: list_all_iff)
  then show ?thesis by (simp add: field_segments_def c concat_close_pieces)
qed

lemma split_evidence_concat: "concat (split_evidence pre s) = pre @ s"
  by (induction pre s rule: split_evidence.induct) auto

lemma slice_long_concat: "slice_long target (pieces, left) s = (pieces', left') \<Longrightarrow> concat pieces' @ left' = concat pieces @ left @ s"
proof (induction target "(pieces, left)" s arbitrary: pieces left rule: slice_long.induct)
  case (1 target pieces left s)
  then show ?case by (auto simp: slice_long.simps [of _ pieces] Let_def split: if_splits)
qed

lemma group_sentences_concat:
  "group_sentences target (pieces, left) ss = (pieces', left') \<Longrightarrow> concat pieces' @ left' = concat pieces @ left @ concat ss"
proof (induction ss arbitrary: pieces left)
  case (Cons s ss)
  obtain p l where l: "slice_long target (pieces, left) s = (p, l)" by (metis prod.exhaust)
  from slice_long_concat [OF l] Cons show ?case by (auto simp: l split: if_splits)
qed simp

lemma evidence_passages_lossless: "concat (evidence_passages s) = s"
proof -
  let ?t = "max 1 ((length s + 127) div 128)"
  obtain p l where g: "group_sentences ?t ([], []) (split_evidence [] s) = (p, l)" by (metis prod.exhaust)
  from group_sentences_concat [OF g] show ?thesis
    unfolding evidence_passages_def Let_def g by (simp add: concat_close_pieces split_evidence_concat)
qed

lemma batch_fields_concat: "concat (batch_fields limit done batch units fs) = concat done @ batch @ fs"
  by (induction limit "done" batch units fs rule: batch_fields.induct) (auto simp: Let_def)

text \<open>Fields are numbered by their position and carry the slices of their text.\<close>

definition well_numbered :: "review_field list \<Rightarrow> bool" where
  "well_numbered fs = (map rf_id fs = [0..<length fs] \<and> list_all (\<lambda>f. rf_segments f = field_segments (rf_text f) (rf_kind f)) fs)"

lemma well_numbered_add: "well_numbered fs \<Longrightarrow> well_numbered (add_field path txt kind context fs)"
  by (auto simp: well_numbered_def add_field_def split: option.splits)

lemma well_numbered_fold: "(\<And>x fs. well_numbered fs \<Longrightarrow> well_numbered (g x fs)) \<Longrightarrow> well_numbered fs \<Longrightarrow> well_numbered (fold g xs fs)"
  by (induction xs arbitrary: fs) simp_all

lemma well_numbered_fields: "well_numbered (grounding_fields arrow x)"
  unfolding grounding_fields_def
  by (intro well_numbered_fold; clarsimp intro!: well_numbered_add well_numbered_fold) (simp add: well_numbered_def)

lemma well_numbered_ids: "well_numbered fs \<Longrightarrow> distinct (map rf_id fs)"
  by (simp add: well_numbered_def)

lemma field_of_batch:
  assumes "distinct (map rf_id fs)" "f \<in> set fs"
  shows "field_of fs (int (rf_id f)) = Some f"
proof -
  obtain g where g: "find (\<lambda>g. int (rf_id g) = int (rf_id f)) fs = Some g" using assms(2) by (cases "find (\<lambda>g. int (rf_id g) = int (rf_id f)) fs") (auto simp: find_None_iff)
  then have "g \<in> set fs" "rf_id g = rf_id f" by (auto simp: find_Some_iff)
  with assms have "g = f" by (auto simp: distinct_map inj_on_def)
  with g show ?thesis by (simp add: field_of_def)
qed

text \<open>What a clean audit of a field says.\<close>

definition grounded_by :: "string list \<Rightarrow> nat \<Rightarrow> review_field \<Rightarrow> field_audit \<Rightarrow> bool" where
  "grounded_by passages roster f a = (fa_field a = int (rf_id f) \<and> map sg_segment (fa_checks a) = map int [0..<length (rf_segments f)] \<and>
     list_all (\<lambda>g. sg_supported g \<and> sg_sources g \<noteq> [] \<and> set (sg_sources g) \<subseteq> set (allowed_ids passages roster f)) (fa_checks a))"

lemma validated_grounds:
  assumes "validate_field_evidence v fs passages roster = Some []" "distinct (map rf_id fs)" "f \<in> set fs"
  shows "\<exists>a \<in> set (vd_audits v). grounded_by passages roster f a"
proof -
  from assms(1) have found: "set (map fa_field (vd_audits v)) = (\<lambda>f. int (rf_id f)) ` set fs"
    and ok: "\<And>a. a \<in> set (vd_audits v) \<Longrightarrow> case field_of fs (fa_field a) of None \<Rightarrow> False | Some f \<Rightarrow> audit_ok passages roster f a"
    and clean: "\<And>a. a \<in> set (vd_audits v) \<Longrightarrow> (case field_of fs (fa_field a) of None \<Rightarrow> [] | Some f \<Rightarrow> unsupported_segments f a) = []"
    by (auto simp: validate_field_evidence_def Let_def list_all_iff split: if_splits)
  from found assms(3) obtain a where a: "a \<in> set (vd_audits v)" "fa_field a = int (rf_id f)" 
  proof -
    have "int (rf_id f) \<in> set (map fa_field (vd_audits v))" unfolding found using assms(3) by blast
    then show ?thesis using that by auto
  qed
  with ok [OF a(1)] clean [OF a(1)] field_of_batch [OF assms(2,3)] have "grounded_by passages roster f a"
    by (auto simp: grounded_by_def audit_ok_def unsupported_segments_def list_all_iff filter_empty_conv)
  with a(1) show ?thesis ..
qed

lemma for_each_Inr: "for_each f xs c = (Inr ys, c') \<Longrightarrow> x \<in> set xs \<Longrightarrow> \<exists>y c1 c2. f x c1 = (Inr y, c2)"
  by (induction xs arbitrary: c ys) (auto simp: bindA_Inr ret_def)

lemma review_batch_Inr:
  assumes "review_batch ask request passages roster fs c = (Inr u, c')"
  shows "\<exists>v c1. ask (request fs) c = (Inr v, c1) \<and> validate_field_evidence v fs passages roster = Some [] \<and> \<not> vd_future v \<and> vd_claims v = []"
  using assms by (auto simp: review_batch_def bindA_Inr mapping_error_def split: prod.splits sum.splits option.splits if_splits)


text \<open>A reviewer that supports every slice with the first passage.\<close>

definition yes_reviewer :: "review_request \<Rightarrow> (unit, review_verdict) act" where
  "yes_reviewer q = ret \<lparr>vd_audits = map (\<lambda>f. \<lparr>fa_field = int (rf_id f),
     fa_checks = map (\<lambda>i. \<lparr>sg_segment = int i, sg_sources = [1], sg_supported = True\<rparr>) [0..<length (rf_segments f)]\<rparr>) (rq_fields q),
     vd_future = False, vd_claims = []\<rparr>"

definition reviewed_sample :: "clearance res \<times> unit" where
  "reviewed_sample = review_extraction sample_digests ''->'' yes_reviewer (\<lambda>_. ret ()) 4096 ''Cy, sad, wept.'' sample_facts [] ()"


section \<open>Preparing a chapter\<close>

text \<open>
  \<^verbatim>\<open>prepare_chapter\<close> of \<^verbatim>\<open>ingest/extraction/pipeline.py\<close>: everything that calls a model, before the commit. The
  calls are arguments; the chapter's text is a string, so \<^verbatim>\<open>ch.get("text", "") or ""\<close> is the text.
\<close>

definition as_extracted :: "entity_out \<Rightarrow> extracted" where
  "as_extracted e = \<lparr>xe_name = eo_name e, xe_type = eo_type e, xe_aliases = eo_aliases e, xe_matched = eo_matched e\<rparr>"

definition as_cast :: "roster_entry \<Rightarrow> json list cast" where
  "as_cast r = \<lparr>ca_name = re_name r, ca_type = re_type r, ca_aliases = re_aliases r, ca_id = Known (re_id r), ca_embed = None\<rparr>"

record identity_link =
  il_entity :: int
  il_scope :: string

text \<open>\<^verbatim>\<open>IdentityLink.assert_matches\<close>: bound to this text, entity and roster, and naming one entry of its type.\<close>

definition checked_identity ::
  "(string \<times> extracted \<times> json list cast list \<Rightarrow> string) \<Rightarrow> (string \<Rightarrow> extracted \<Rightarrow> json list cast list \<Rightarrow> identity_link option res) \<Rightarrow>
   string \<Rightarrow> extracted \<Rightarrow> json list cast list \<Rightarrow> int option res" where
  "checked_identity scope review s e work = (case review s e work of Inl x \<Rightarrow> Inl x | Inr None \<Rightarrow> Inr None
   | Inr (Some l) \<Rightarrow> if il_scope l \<noteq> scope (s, e, work) \<or> length (filter (\<lambda>r. ca_id r = Known (il_entity l) \<and> ca_type r = xe_type e) work) \<noteq> 1
       then Inl (RuntimeError ''ExtractionSafetyError: identity link does not match its source and roster'') else Inr (Some (il_entity l)))"

record prepare_calls =
  pc_complete :: "review_request \<Rightarrow> review_verdict res"
  pc_embed :: "string list \<Rightarrow> json list list res"
  pc_engine :: "((string \<Rightarrow> json list) \<times> (json list \<Rightarrow> json list \<Rightarrow> rat)) option"
  pc_review :: "(string \<Rightarrow> extracted \<Rightarrow> json list cast list \<Rightarrow> identity_link option res) option"
  pc_scope :: "string \<times> extracted \<times> json list cast list \<Rightarrow> string"
  pc_threshold :: rat
  pc_limit :: pyval

definition clearance_for ::
  "pipeline_digests \<Rightarrow> string \<Rightarrow> versioned_client \<Rightarrow> prepare_calls \<Rightarrow> clearance option \<Rightarrow> string \<Rightarrow> facts \<Rightarrow> roster_entry list \<Rightarrow> clearance res" where
  "clearance_for dg arrow client calls given s x roster = (case given of Some k \<Rightarrow> Inr k
   | None \<Rightarrow> if vc_provider client \<noteq> ''stub'' then Inl (RuntimeError ''ExtractionSafetyError: extraction requires a chapter-grounding review'')
       else fst (review_extraction dg arrow (\<lambda>q. liftA (pc_complete calls q)) (\<lambda>_. ret ()) 4096 s x roster ()))"

definition prepare_chapter ::
  "pipeline_digests \<Rightarrow> string \<Rightarrow> versioned_client \<Rightarrow> prepare_calls \<Rightarrow> model_identity option \<Rightarrow> (int \<times> int) option \<Rightarrow> rat \<Rightarrow> clearance option \<Rightarrow>
   chapter_in \<Rightarrow> facts \<Rightarrow> roster_entry list \<Rightarrow> prepared res" where
  "prepare_chapter dg arrow client calls identity tokens usd given ch x roster = (let s = ci_text ch; hash = dg_chapter dg s in
     (case assert_observed_entity_names s x roster of Inl e \<Rightarrow> Inl e | Inr _ \<Rightarrow>
     (case clearance_for dg arrow client calls given s x roster of Inl e \<Rightarrow> Inl e | Inr k \<Rightarrow>
     if \<not> clearance_matches dg k s x then Inl (RuntimeError ''ExtractionSafetyError: extraction clearance does not match its source and payload'')
     else if ci_hash ch \<noteq> None \<and> ci_hash ch \<noteq> Some hash then Inl (ValueError ''chapter content_hash does not match its text'')
     else if pc_engine calls \<noteq> None \<and> stub_model (vc_embed client) then Inl (ValueError ''resolve_embed requires a REAL semantic embedder'')
     else (case (case identity of Some i \<Rightarrow> Inr i | None \<Rightarrow> current_identity client (pc_embed calls)) of Inl e \<Rightarrow> Inl e | Inr i \<Rightarrow>
     (case prepare_passages (ci_title ch) s (pc_embed calls) (pc_limit calls) of Inl e \<Rightarrow> Inl e | Inr passages \<Rightarrow>
     (case resolve_chapter (pc_engine calls) (pc_threshold calls) (map_option (\<lambda>rv. checked_identity (pc_scope calls) rv s) (pc_review calls))
         (map as_extracted (xt_entities x)) (map as_cast roster) of Inl e \<Rightarrow> Inl e | Inr ds \<Rightarrow>
     let decisions = zip (xt_entities x) (map snd ds) in
     Inr \<lparr>pp_key = ci_key ch, pp_ordinal = ci_ordinal ch, pp_hash = hash, pp_facts = x, pp_identity = i,
       pp_extractor = extractor_version client, pp_roster = roster, pp_decisions = decisions, pp_passages = passages,
       pp_source = source_digest (dg_source dg) (ci_title ch) s,
       pp_cost = map_option (\<lambda>(n, m). \<lparr>rc_model = Some (extractor_version client), rc_in = n, rc_out = m, rc_usd = usd\<rparr>) tokens,
       pp_clearance = Some k, pp_resolution = Some (dg_scope dg (s, x, roster, decisions))\<rparr>))))))"

text \<open>
  Property C28: a prepared chapter meets every fence of its commit. When the preparation returns, its clearance
  matches the chapter and the facts it carries, its names were observed, and committing it for the same
  chapter goes straight to the database: the commit can only stop at a receipt that is there already, at
  changed content, at a roster that changed meanwhile, or inside its transaction.
\<close>
theorem prepared_chapter_meets_the_commit:
  assumes "prepare_chapter dg arrow client calls identity tokens usd given ch x roster = Inr p"
  shows "(\<exists>k. pp_clearance p = Some k \<and> clearance_matches dg k (ci_text ch) x) \<and> pp_facts p = x \<and>
    list_all (entity_observed (word_tokens 1 (ci_text ch)) (known_surfaces roster)) (xt_entities x) \<and>
    ingest_chapter dg cosine ch p now =
      bindA (chapter_completion (dg_chapter dg) (ci_key ch) (ci_ordinal ch) (dg_chapter dg (ci_text ch))) (\<lambda>receipt. if receipt \<noteq> None then ret None else
      bindA (chapter_live (ci_key ch)) (\<lambda>live. if live then raise (changed_content (ci_key ch)) else
      bindA (all_entities (max (ci_ordinal ch - 1) 0)) (\<lambda>seen. if seen \<noteq> roster then raise (RuntimeError ''StalePreparedRoster'') else
      bindA (transaction (write_chapter dg cosine ch p now)) (\<lambda>result.
      bindA (chapter_completion (dg_chapter dg) (ci_key ch) (ci_ordinal ch) (dg_chapter dg (ci_text ch))) (\<lambda>receipt.
        if receipt = None then raise (RuntimeError ''chapter committed without its completion marker'') else ret result)))))"
proof -
  from assms have names: "assert_observed_entity_names (ci_text ch) x roster = Inr ()"
    and clear: "\<exists>k. pp_clearance p = Some k \<and> clearance_matches dg k (ci_text ch) x"
    and p: "pp_key p = ci_key ch" "pp_ordinal p = ci_ordinal ch" "pp_hash p = dg_chapter dg (ci_text ch)" "pp_facts p = x" "pp_roster p = roster"
      "pp_resolution p = Some (dg_scope dg (ci_text ch, x, roster, pp_decisions p))"
    and hash: "ci_hash ch = None \<or> ci_hash ch = Some (dg_chapter dg (ci_text ch))"
    by (auto simp: prepare_chapter_def Let_def split: sum.splits if_splits)
  from names have "list_all (entity_observed (word_tokens 1 (ci_text ch)) (known_surfaces roster)) (xt_entities x)"
    by (simp add: assert_observed_entity_names_def split: if_splits)
  with clear p hash show ?thesis by (auto simp: ingest_chapter_def Let_def fun_eq_iff)
qed

definition stub_calls :: prepare_calls where
  "stub_calls = \<lparr>pc_complete = (\<lambda>q. fst (yes_reviewer q ())), pc_embed = (\<lambda>ts. Inr (map (\<lambda>_. [JInt 1, JInt 0]) ts)), pc_engine = None, pc_review = None,
     pc_scope = (\<lambda>(s, _). s), pc_threshold = 41 / 50, pc_limit = PyInt 600\<rparr>"

definition stub_client :: versioned_client where
  "stub_client = \<lparr>vc_provider = ''stub'', vc_cheap = ''c'', vc_large = ''l'', vc_embed = ''stub:e''\<rparr>"

definition told_chapter :: chapter_in where
  "told_chapter = sample_chapter\<lparr>ci_text := ''Cy.''\<rparr>"

definition told_facts :: facts where
  "told_facts = \<lparr>xt_summary = ''Cy'', xt_entities = [], xt_relationships = [], xt_events = [], xt_themes = []\<rparr>"

definition told_prepared :: "prepared res" where
  "told_prepared = prepare_chapter sample_digests ''->'' stub_client stub_calls None None 0 None told_chapter told_facts []"

theorem prepared_chapter_meets_the_commit_witness:
  "\<exists>p k. told_prepared = Inr p \<and> pp_clearance p = Some k \<and> clearance_matches sample_digests k ''Cy.'' told_facts"
proof -
  have "succeeded told_prepared" by code_simp
  then obtain p where p: "told_prepared = Inr p" by (auto simp: succeeded_def split: sum.splits)
  from prepared_chapter_meets_the_commit [OF p [unfolded told_prepared_def]] p show ?thesis by (auto simp: told_chapter_def sample_chapter_def)
qed

end
