(* ===== verification/Identity.thy ===== *)
theory Identity imports Review begin

text \<open>
  Links between an extracted name and a known identity, \<^verbatim>\<open>backend/app/ingest/extraction/identity.py\<close> with the
  nomination of \<^verbatim>\<open>identity_matches\<close> in \<^verbatim>\<open>backend/app/llm/jev_tasks.py\<close>. The two model calls, the size of the
  nomination request and the digest of a link's scope are parameters.
\<close>

section \<open>Nomination\<close>

type_synonym cast_roster = "json list cast list"

record identity_candidate =
  ic_name :: string
  ic_type :: string
  ic_aliases :: "string list"
  ic_anchors :: "string list"

record identity_payload =
  ip_passages :: "string list"
  ip_name :: string
  ip_type :: string
  ip_candidates :: "identity_candidate list"
  ip_known :: "(string \<times> string \<times> string list) list"

definition utf8_size :: "string \<Rightarrow> int" where
  "utf8_size s = int (length s) + int (length (filter (\<lambda>ch. 128 \<le> (of_char ch :: nat)) s))"

definition name_forms :: "json list cast \<Rightarrow> string list" where
  "name_forms r = filter namelike (ca_name r # ca_aliases r)"

definition form_count :: "cast_roster \<Rightarrow> string \<Rightarrow> nat" where
  "form_count rows key = length (filter (\<lambda>r. key \<in> norm_key ` set (name_forms r)) rows)"

definition name_observed :: "string list \<Rightarrow> string \<Rightarrow> bool" where
  "name_observed tokens surface = observed_exactly tokens (word_tokens 1 surface)"

definition anchors_of :: "string list \<Rightarrow> cast_roster \<Rightarrow> extracted \<Rightarrow> json list cast \<Rightarrow> string list" where
  "anchors_of tokens rows e r = filter (\<lambda>s. form_count rows (norm_key s) = 1 \<and> norm_key s \<noteq> norm_key (xe_name e) \<and> name_observed tokens s) (name_forms r)"

definition known_id_of :: "json list cast \<Rightarrow> int option" where
  "known_id_of r = (case ca_id r of Known i \<Rightarrow> Some i | Pending _ \<Rightarrow> None)"

definition nominees :: "string list \<Rightarrow> extracted \<Rightarrow> cast_roster \<Rightarrow> (identity_candidate \<times> int) list" where
  "nominees tokens e roster = (let rows = filter (\<lambda>r. ca_type r = xe_type e) roster in
     concat (map (\<lambda>r. case known_id_of r of None \<Rightarrow> [] | Some i \<Rightarrow> (let anchors = anchors_of tokens rows e r in
       if anchors = [] then [] else [(\<lparr>ic_name = ca_name r, ic_type = ca_type r, ic_aliases = ca_aliases r, ic_anchors = anchors\<rparr>, i)])) rows))"

definition payload_for :: "string \<Rightarrow> extracted \<Rightarrow> cast_roster \<Rightarrow> (identity_payload \<times> int list) option" where
  "payload_for s e roster = (let tokens = word_tokens 1 s; found = nominees tokens e roster in
     if \<not> namelike (xe_name e) \<or> \<not> name_observed tokens (xe_name e) then None
     else if found = [] \<or> 4 < length found then None
     else Some (\<lparr>ip_passages = evidence_passages s, ip_name = xe_name e, ip_type = xe_type e, ip_candidates = map fst found,
       ip_known = map (\<lambda>r. (ca_name r, ca_type r, ca_aliases r)) roster\<rparr>, map snd found))"

definition jev_unavailable :: exc where
  "jev_unavailable = RuntimeError ''JevUnavailable''"

text \<open>Per question: the choice, the probability of sameness, the confidence.\<close>

definition nominated :: "nat \<Rightarrow> (nat \<times> string \<times> rat \<times> rat) list \<Rightarrow> nat option" where
  "nominated n answers = (case filter (\<lambda>i. case map_of answers i of None \<Rightarrow> False
       | Some (choice, p, sure) \<Rightarrow> choice = ''same'' \<and> 99 / 100 \<le> p \<and> 9 / 10 \<le> sure) [0..<n] of [i] \<Rightarrow> Some i | _ \<Rightarrow> None)"

definition identity_matches ::
  "(identity_payload \<Rightarrow> int) \<Rightarrow> (identity_payload \<Rightarrow> ('s, (nat \<times> string \<times> rat \<times> rat) list) act) \<Rightarrow> int \<Rightarrow> identity_payload \<Rightarrow> ('s, nat option) act" where
  "identity_matches request_size run limit p = (let n = length (ip_candidates p) in
     if n = 0 \<or> 4 < n \<or> min limit 30000 < request_size p then raise jev_unavailable
     else bindA (run p) (\<lambda>answers. if set (map fst answers) \<noteq> {0..<n} then raise jev_unavailable else ret (nominated n answers)))"

section \<open>Independent review\<close>

record identity_audit =
  ia_passages :: "string list"
  ia_name :: string
  ia_type :: string
  ia_proposed :: identity_candidate
  ia_known :: "(string \<times> string \<times> string list) list"

record identity_verdict =
  vi_same :: bool
  vi_ids :: "int list"

text \<open>The failures of the nomination that mean no link, and those of the review: all but a cost ceiling.\<close>

definition no_nomination :: "exc \<Rightarrow> bool" where
  "no_nomination e = (e = jev_unavailable \<or> (case e of KeyError _ \<Rightarrow> True | TypeError _ \<Rightarrow> True | ValueError _ \<Rightarrow> True | _ \<Rightarrow> False))"

definition no_verdict :: "exc \<Rightarrow> bool" where
  "no_verdict e = (case e of CostCeilingExceeded _ \<Rightarrow> False | _ \<Rightarrow> True)"

definition unless_failed :: "(exc \<Rightarrow> bool) \<Rightarrow> ('s, 'a option) act \<Rightarrow> ('s, 'a option) act" where
  "unless_failed caught m s = (case m s of (Inl e, s') \<Rightarrow> (if caught e then Inr None else Inl e, s') | r \<Rightarrow> r)"

definition cited_passage :: "string list \<Rightarrow> int \<Rightarrow> string option" where
  "cited_passage passages i = (if 1 \<le> i \<and> i \<le> int (length passages) then Some (passages ! (nat i - 1)) else None)"

definition name_in :: "string \<Rightarrow> string \<Rightarrow> bool" where
  "name_in s surface = observed_exactly (word_tokens 1 s) (word_tokens 1 surface)"

definition verdict_stands :: "string list \<Rightarrow> extracted \<Rightarrow> identity_candidate \<Rightarrow> identity_verdict \<Rightarrow> bool" where
  "verdict_stands passages e c v = (vi_same v \<and> vi_ids v \<noteq> [] \<and> length (vi_ids v) \<le> 8 \<and> distinct (vi_ids v) \<and>
     (case those (map (cited_passage passages) (vi_ids v)) of None \<Rightarrow> False
      | Some cited \<Rightarrow> let evidence = join '' '' cited in name_in evidence (xe_name e) \<and> list_ex (name_in evidence) (ic_anchors c)))"

definition review_identity ::
  "(string \<times> extracted \<times> cast_roster \<Rightarrow> string) \<Rightarrow> (identity_payload \<Rightarrow> int) \<Rightarrow> (identity_payload \<Rightarrow> ('s, (nat \<times> string \<times> rat \<times> rat) list) act) \<Rightarrow>
   (identity_audit \<Rightarrow> ('s, identity_verdict) act) \<Rightarrow> int \<Rightarrow> string \<Rightarrow> extracted \<Rightarrow> cast_roster \<Rightarrow> ('s, identity_link option) act" where
  "review_identity scope request_size run ask limit s e roster =
     (if min limit 30000 < utf8_size s then ret None
      else case payload_for s e roster of None \<Rightarrow> ret None | Some (p, ids) \<Rightarrow>
        bindA (unless_failed no_nomination (identity_matches request_size run limit p)) (\<lambda>chosen. case chosen of None \<Rightarrow> ret None | Some i \<Rightarrow>
          (let c = ip_candidates p ! i in
          bindA (unless_failed no_verdict (bindA (ask \<lparr>ia_passages = ip_passages p, ia_name = ip_name p, ia_type = ip_type p, ia_proposed = c, ia_known = ip_known p\<rparr>)
              (\<lambda>v. ret (Some v)))) (\<lambda>answer. case answer of None \<Rightarrow> ret None | Some v \<Rightarrow>
            ret (if verdict_stands (ip_passages p) e c v then Some \<lparr>il_entity = ids ! i, il_scope = scope (s, e, roster)\<rparr> else None)))))"

section \<open>What a link rests on\<close>

lemma nominees_sound:
  assumes "(c, i) \<in> set (nominees tokens e roster)"
  shows "\<exists>r \<in> set roster. ca_id r = Known i \<and> ca_type r = xe_type e \<and>
    (\<forall>a \<in> set (ic_anchors c). a \<in> set (ca_name r # ca_aliases r) \<and> name_observed tokens a \<and>
       (\<forall>r' \<in> set roster. ca_type r' = xe_type e \<and> r' \<noteq> r \<longrightarrow> norm_key a \<notin> match_forms (ca_name r') (ca_aliases r')))"
proof -
  let ?rows = "filter (\<lambda>r. ca_type r = xe_type e) roster"
  from assms obtain r where r: "r \<in> set ?rows" "known_id_of r = Some i" and c: "ic_anchors c = anchors_of tokens ?rows e r"
    by (auto simp: nominees_def Let_def split: option.splits if_splits)
  have "norm_key a \<notin> match_forms (ca_name r') (ca_aliases r')"
    if a: "a \<in> set (ic_anchors c)" and r': "r' \<in> set roster" "ca_type r' = xe_type e" "r' \<noteq> r" for a r'
  proof
    assume "norm_key a \<in> match_forms (ca_name r') (ca_aliases r')"
    then have "norm_key a \<in> norm_key ` set (name_forms r')" by (auto simp: match_forms_def name_forms_def)
    moreover have "norm_key a \<in> norm_key ` set (name_forms r)" using a c by (auto simp: anchors_of_def)
    ultimately have "{r, r'} \<subseteq> set (filter (\<lambda>q. norm_key a \<in> norm_key ` set (name_forms q)) ?rows)" using r(1) r' by auto
    moreover obtain q where "filter (\<lambda>q. norm_key a \<in> norm_key ` set (name_forms q)) ?rows = [q]"
      using a c by (auto simp: anchors_of_def form_count_def length_Suc_conv simp del: filter_filter)
    ultimately have "r \<in> {q}" "r' \<in> {q}" by (simp_all del: filter_filter)
    with r'(3) show False by simp
  qed
  moreover have "ca_id r = Known i" using r(2) by (auto simp: known_id_of_def split: roster_id.splits)
  moreover have "\<forall>a \<in> set (ic_anchors c). a \<in> set (ca_name r # ca_aliases r) \<and> name_observed tokens a"
    using c by (auto simp: anchors_of_def name_forms_def)
  ultimately show ?thesis using r(1) by (intro bexI [of _ r]) auto
qed

lemma nominated_less: "nominated n answers = Some i \<Longrightarrow> i < n"
proof -
  assume "nominated n answers = Some i"
  then obtain P where "filter P [0..<n] = [i]" by (auto simp: nominated_def split: list.splits)
  then have "i \<in> set (filter P [0..<n])" by simp
  then show "i < n" by simp
qed

lemma those_Some: "those xs = Some ys \<Longrightarrow> xs = map Some ys"
  by (induction xs arbitrary: ys) (auto split: option.splits)

text \<open>
  Property C27: an identity link rests on cited evidence. A link that the review returns names a known entity of
  the same type; an independent verdict for exactly that proposal said the identities are one and cited one
  to eight passages of this chapter, all different; those passages contain the extracted name and another
  name of the entity, observed in the chapter and borne by no other entity of that type; and the link is
  bound to this text, name and roster, so the preparation accepts it.
\<close>
theorem identity_link_is_evidenced:
  assumes "review_identity scope request_size run ask limit s e roster c = (Inr (Some l), c')"
  shows "\<exists>r \<in> set roster. ca_id r = Known (il_entity l) \<and> ca_type r = xe_type e \<and> il_scope l = scope (s, e, roster) \<and>
    (\<exists>audit v c1 c2 cited a. ask audit c1 = (Inr v, c2) \<and> ia_passages audit = evidence_passages s \<and> vi_same v \<and>
       map (cited_passage (evidence_passages s)) (vi_ids v) = map Some cited \<and> cited \<noteq> [] \<and> length cited \<le> 8 \<and> distinct (vi_ids v) \<and>
       a \<in> set (ca_name r # ca_aliases r) \<and> a \<in> set (ic_anchors (ia_proposed audit)) \<and>
       name_in (join '' '' cited) (xe_name e) \<and> name_in (join '' '' cited) a \<and> name_in s a \<and>
       (\<forall>r' \<in> set roster. ca_type r' = xe_type e \<and> r' \<noteq> r \<longrightarrow> norm_key a \<notin> match_forms (ca_name r') (ca_aliases r')))"
proof -
  from assms obtain p ids i d1 v where p: "payload_for s e roster = Some (p, ids)"
    and i: "identity_matches request_size run limit p c = (Inr (Some i), d1)"
    and v: "ask \<lparr>ia_passages = ip_passages p, ia_name = ip_name p, ia_type = ip_type p, ia_proposed = ip_candidates p ! i, ia_known = ip_known p\<rparr> d1 = (Inr v, c')"
    and ok: "verdict_stands (ip_passages p) e (ip_candidates p ! i) v" and l: "l = \<lparr>il_entity = ids ! i, il_scope = scope (s, e, roster)\<rparr>"
    by (auto simp: review_identity_def bindA_Inr ret_def unless_failed_def Let_def split: if_splits option.splits prod.splits sum.splits)
  let ?found = "nominees (word_tokens 1 s) e roster"
  from p have found: "ip_candidates p = map fst ?found" "ids = map snd ?found" "ip_passages p = evidence_passages s"
    by (auto simp: payload_for_def Let_def split: if_splits)
  from i have "i < length (ip_candidates p)"
    by (auto simp: identity_matches_def Let_def bindA_Inr ret_def raise_def split: if_splits dest: nominated_less)
  then have mem: "(ip_candidates p ! i, ids ! i) \<in> set ?found" unfolding found by (metis length_map nth_map nth_mem prod.collapse)
  from ok obtain cited a where cited: "those (map (cited_passage (evidence_passages s)) (vi_ids v)) = Some cited"
    and a: "a \<in> set (ic_anchors (ip_candidates p ! i))" "name_in (join '' '' cited) (xe_name e)" "name_in (join '' '' cited) a"
    and vs: "vi_same v" "vi_ids v \<noteq> []" "length (vi_ids v) \<le> 8" "distinct (vi_ids v)"
    by (auto simp: verdict_stands_def found(3) Let_def list_ex_iff split: option.splits)
  from those_Some [OF cited] have m: "map (cited_passage (evidence_passages s)) (vi_ids v) = map Some cited" .
  then have len: "length cited = length (vi_ids v)" by (metis length_map)
  from nominees_sound [OF mem] obtain r where r: "r \<in> set roster" "ca_id r = Known (ids ! i)" "ca_type r = xe_type e"
    "a \<in> set (ca_name r # ca_aliases r)" "name_observed (word_tokens 1 s) a"
    "\<forall>r' \<in> set roster. ca_type r' = xe_type e \<and> r' \<noteq> r \<longrightarrow> norm_key a \<notin> match_forms (ca_name r') (ca_aliases r')" using a(1) by blast
  show ?thesis
  proof (intro bexI [OF _ r(1)] conjI exI)
    show "ca_id r = Known (il_entity l)" "il_scope l = scope (s, e, roster)" using r(2) by (simp_all add: l)
    show "ask \<lparr>ia_passages = ip_passages p, ia_name = ip_name p, ia_type = ip_type p, ia_proposed = ip_candidates p ! i, ia_known = ip_known p\<rparr> d1 = (Inr v, c')" by (rule v)
    show "name_in s a" using r(5) by (simp add: name_in_def name_observed_def)
    show "cited \<noteq> []" "length cited \<le> 8" using vs len by auto
  qed (use r a vs m found in auto)
qed

text \<open>The chapter itself says that two names are one.\<close>

definition known_ann :: cast_roster where
  "known_ann = [\<lparr>ca_name = ''Ann Lee'', ca_type = ''character'', ca_aliases = [], ca_id = Known 4, ca_embed = None\<rparr>]"

definition new_nan :: extracted where
  "new_nan = \<lparr>xe_name = ''Nan'', xe_type = ''character'', xe_aliases = [], xe_matched = False\<rparr>"

lemma linked_nan:
  "review_identity (\<lambda>(s, _). s) (\<lambda>_. 100) (\<lambda>_. ret [(0, ''same'', 1, 1)]) (\<lambda>_. ret \<lparr>vi_same = True, vi_ids = [1]\<rparr>) 3000
     ''Nan, born Ann Lee, left.'' new_nan known_ann () = (Inr (Some \<lparr>il_entity = 4, il_scope = ''Nan, born Ann Lee, left.''\<rparr>), ())"
  by code_simp

theorem identity_link_is_evidenced_witness:
  "\<exists>r \<in> set known_ann. ca_id r = Known 4 \<and> ca_type r = ''character''"
  using identity_link_is_evidenced [OF linked_nan] by (auto simp: new_nan_def)

end
