(* ===== verification/Spec2Isabelle.thy ===== *)
theory Spec2Isabelle imports Prelude Frontier Session MemSchema MemViews Horizon PyText MemWrites BookTypes MemAdmin Ingestion Corrections Catalog Store Jobs JobSafety JobLimits JobRuns Worker PyBytes Splitting Pricing Budgeted Resolve Passages Manifest Reading Scheduler Versioning SourceIndex Pipeline Published IngestRun IngestSafe Views Search Gate Recaps Registry AskSources Review Identity begin

text \<open>
  A verification library for the Python backend of the reading companion
  (\<^verbatim>\<open>backend/app\<close>): a reader of an EPUB is shown memories of the book (cast, timeline,
  recaps, answers) that must never come from pages after the bookmark, written by paid language models
  whose spend must stay within ceilings, by workers that may crash, lose their lease or race.

  \<^bold>\<open>How the program is modelled.\<close> A method that mutates an object is a function
  \<^verbatim>\<open>('s, 'a) act\<close> from the object's state to a result and a new state; every exception is a value
  (\<^verbatim>\<open>exc + 'a\<close>, theory Prelude) and keeps the state reached so far. Classes and rows
  are records, SQL tables are lists of rows whose constraints are checked by an executable
  predicate, enumerations are datatypes. Threads are step relations whose steps are the
  critical sections of the code. What the sources only call is a parameter: digests, the clock, uuid4,
  tokens, the completion and embedding calls of a provider, cosine similarity, the handler of a job.
  SQLite's BEGIN, COMMIT and ROLLBACK succeed or fail as a list of outcomes in the connection says, so a
  theorem about all connections covers every failure.

  \<^bold>\<open>Book memory.\<close>
  Session: the connection of \<^verbatim>\<open>memory/dal.py\<close> (thread check, authorizer, \<^verbatim>\<open>_WriterCtx\<close>,
  \<^verbatim>\<open>_TransactionCtx\<close>, poisoning). MemSchema: \<^verbatim>\<open>memory.sql\<close>. MemViews: \<^verbatim>\<open>_select\<close> and
  \<^verbatim>\<open>BookmarkView\<close>. Horizon: the abstract specification of the spoiler filter, the memory cut at a
  bookmark; every read is a function of the cut. MemWrites, MemAdmin, BookTypes: the add, replace, pin,
  retract and profile operations and the completion receipts. Ingestion: runs of writes, alone or in a
  transaction; atomicity, swallowed failures, and the frame argument that writes for later chapters leave
  earlier views alone. Corrections: \<^verbatim>\<open>memory/corrections.py\<close>. Store: \<^verbatim>\<open>memory/store.py\<close>, the
  connection cache as a step relation over threads. Versioning, SourceIndex, Published: the model pin of
  \<^verbatim>\<open>llm/versioning.py\<close> and the retrieval index of \<^verbatim>\<open>memory/source_index.py\<close>; a publication
  leaves exactly the source windows of the verified text. PyText, PyBytes: Python strings, code points
  and their UTF-8 octets.

  \<^bold>\<open>Reading.\<close>
  Frontier: \<^verbatim>\<open>reader/frontier.py\<close>. Manifest: \<^verbatim>\<open>ingest/manifest.py\<close>. Catalog:
  \<^verbatim>\<open>catalog/catalog.py\<close> with its schema. Reading: the position routes of \<^verbatim>\<open>api/reading.py\<close>
  over manifest, store, frontier and catalog; the refinement theorem states the maximum rule a report
  implements.
  Views: \<^verbatim>\<open>api/views.py\<close>, the prologue that clamps a requested bookmark to what was read and
  receipted, the people graph with its folding of honorific names, timeline, notes, cards and the correction
  request. Search: the ranked search of \<^verbatim>\<open>memory/vectors.py\<close> and of a view, with its route and the
  query embedding of \<^verbatim>\<open>llm/retrieval.py\<close>. Gate: \<^verbatim>\<open>unicode_text.py\<close> and the gate that a recap passes
  before it is shown (\<^verbatim>\<open>eval/spoiler_gate/synthesis.py\<close>, \<^verbatim>\<open>grounding.py\<close>), with the event bindings of
  \<^verbatim>\<open>binding.py\<close> as a parameter. Recaps: the validity snapshot and key of cached recaps,
  \<^verbatim>\<open>eval/spoiler_gate/cache.py\<close>. Registry: \<^verbatim>\<open>lifecycle_cache.py\<close>, its bounded maps as a refinement of an
  unbounded store, and its single flight as a step relation whose reachable states keep mutual exclusion,
  exact reference counts and the slots of the semaphore, and never deadlock.

  \<^bold>\<open>Ingestion.\<close>
  Splitting, Pricing, Budgeted: \<^verbatim>\<open>cost/limits.py\<close>, with the reservations of the catalog. Passages:
  \<^verbatim>\<open>retrieval_passages.py\<close>. Resolve: \<^verbatim>\<open>ingest/extraction/resolve.py\<close>. Pipeline: the commit
  of a prepared chapter, \<^verbatim>\<open>ingest/extraction/pipeline.py\<close>. Scheduler: the queue, the tasks and the
  shutdown of \<^verbatim>\<open>ingest/worker.py\<close> as a step relation. IngestRun: its chapter loop
  \<^verbatim>\<open>_ingest_upto\<close>, with an arbitrary function for what other threads do between two sections.
  IngestSafe: the contract those functions keep (the predicates \<^verbatim>\<open>polite\<close> and \<^verbatim>\<open>system_ok\<close>) and
  what the loop promises under it: progress never runs ahead of durable receipts.
  Review: the display slices of \<^verbatim>\<open>evidence_text.py\<close>, the grounding review of
  \<^verbatim>\<open>ingest/extraction/validation.py\<close> and \<^verbatim>\<open>prepare_chapter\<close>; a clearance means that every field of the
  extraction was audited, and a prepared chapter meets the fences of its commit. Identity: the evidence an
  identity link rests on, \<^verbatim>\<open>ingest/extraction/identity.py\<close>. AskSources: the choice of passages for an answer,
  \<^verbatim>\<open>ask_selection.py\<close> and \<^verbatim>\<open>ask_context.py\<close>, whose completion ends and only adds exact candidates.

  \<^bold>\<open>Hosted workers.\<close>
  Jobs: \<^verbatim>\<open>hosted/jobs.py\<close>, one function per transaction; the row locks make a transaction atomic,
  and the clock of each is arbitrary. JobSafety, JobLimits: the invariants of the job table, of the limits
  of an owner and of receipts. JobRuns: what holds after any interleaving. Worker: one round of the loop of
  \<^verbatim>\<open>hosted/worker.py\<close> and its startup role check.

  \<^bold>\<open>Interfaces.\<close> The locales are the contracts several components share: \<^verbatim>\<open>guarded_table\<close>
  (a table read through the funnel, interpreted for each table of the schema), \<^verbatim>\<open>scoped_body\<close> (a body of
  writer scopes inside an outer transaction, interpreted for write batches, corrections, the chapter commit
  and index publication), \<^verbatim>\<open>never_lowered\<close> and \<^verbatim>\<open>step_invariant\<close> (quantities that the steps of the
  catalog keep). The collections \<^verbatim>\<open>keeps_intros\<close>, \<^verbatim>\<open>blind_intros\<close> and \<^verbatim>\<open>aon_intros\<close>
  reduce a composite method to its statements.

  \<^bold>\<open>Bounds and choices.\<close> Recursion that is not structural has a termination proof; no model uses
  fuel. The commit loop of a chapter has the two attempts of the code. Prices, times and fractions are
  rationals where Python has floats or Decimal, so rounding of float arithmetic is outside the model; the
  rounding of \<^verbatim>\<open>NUMERIC\<close> columns is in it. SQLite integers are bound at 64 bits with the driver's
  OverflowError. Strings of the memory components are lists of characters, code points below 256; the
  splitting and frontier components work on code points up to 0x10FFFF.

  \<^bold>\<open>Not modelled.\<close> The vec0 backend of sqlite-vec (only the brute-force mirror is), opening and migrating
  files, EPUB parsing (ebooklib and an HTML parser), the prompts and HTTP clients of model providers,
  FastAPI wiring, the PostgreSQL repository of the hosted tenants and its authentication, object storage,
  event binding and the model judge of the
  spoiler gate, the drafting and grounding of answers, the checkpoint file of recaps, the evaluation harness, scripts, and the TypeScript user interface.
\<close>

end
